(* ===== verification/Prelude.thy ===== *)
theory Prelude
  imports Main "HOL-Library.Word"
begin

text \<open>
  Shared vocabulary of the development: the machine types of the i386 target, the error codes a
  library call can answer with, the time values, and the collections of facts
  that the component proofs hand to the simplifier.
\<close>

unbundle bit_operations_syntax

type_synonym u32 = "32 word"
type_synonym u64 = "64 word"

text \<open>
  The \<open>errno\<close> values the sources mention. Each is a nonzero number that is
  different from every other one and from the kernel's return codes (the numbers carry the Hurd's
  error subsystem), so they are constructors here and a numeric result is a \<open>Code\<close>.
\<close>

datatype errno =
    EPERM | ENOENT | ESRCH | EINTR | EDEADLK | ENOMEM | EACCES | EBUSY | EEXIST | EINVAL
  | EAGAIN | ENOTSUP | ETIMEDOUT | ENOSYS | EOVERFLOW | EOWNERDEAD | ENOTRECOVERABLE

datatype ret = Code int | Err errno

abbreviation OK :: ret where
  "OK \<equiv> Code 0"

text \<open>\<open>struct timespec\<close>: on i386 both members are 32-bit signed integers.\<close>

record timespec =
  tv_sec :: u32
  tv_nsec :: u32

text \<open>The test \<open>tsp->tv_nsec < 0 || tsp->tv_nsec >= 1000000000\<close>, written at every timed call.\<close>

definition bad_nsec :: "timespec \<Rightarrow> bool" where
  "bad_nsec ts \<longleftrightarrow> sint (tv_nsec ts) < 0 \<or> 1000000000 \<le> sint (tv_nsec ts)"

named_theorems atomic_defs \<open>the atomic operations, unfolded to one indivisible access\<close>
named_theorems code_defs \<open>the translated functions\<close>
named_theorems runs \<open>what an operation does when it runs alone, in front of a continuation\<close>
named_theorems flag_defs \<open>the numeric values of flag bits and masks\<close>

subsection \<open>Bits and masks\<close>

lemma and_not_or_same [simp]: "((x :: u32) AND NOT m) OR m = x OR m"
  by (rule bit_word_eqI) (auto simp: bit_simps)

lemma or_and_same [simp]: "((x :: u32) OR m) AND m = m"
  by (rule bit_word_eqI) (auto simp: bit_simps)

lemma and_not_and_same [simp]: "((x :: u32) AND NOT m) AND m = 0"
  by (rule bit_word_eqI) (auto simp: bit_simps)

lemma or_absorb [simp]: "((x :: u32) OR m) OR m = x OR m"
  by (rule bit_word_eqI) (auto simp: bit_simps)

lemma and_disjoint_or:
  assumes "m AND n = (0 :: u32)"
  shows "(x OR m) AND n = x AND n"
proof (rule bit_word_eqI)
  fix i assume "i < LENGTH(32)"
  moreover have "\<not> (bit m i \<and> bit n i)"
    using assms by (metis bit_and_iff bit_0_eq bot_apply bot_bool_def)
  ultimately show "bit ((x OR m) AND n) i = bit (x AND n) i"
    by (auto simp: bit_simps)
qed

lemma and_not_disjoint:
  assumes "m AND n = (0 :: u32)"
  shows "(x AND NOT m) AND n = x AND n"
proof (rule bit_word_eqI)
  fix i assume "i < LENGTH(32)"
  moreover have "\<not> (bit m i \<and> bit n i)"
    using assms by (metis bit_and_iff bit_0_eq bot_apply bot_bool_def)
  ultimately show "bit ((x AND NOT m) AND n) i = bit (x AND n) i"
    by (auto simp: bit_simps)
qed

lemma clear_shared [simp]:
  "((x :: u32) AND - 2) AND 1 = 0" "((x :: u32) AND - 2) OR 1 = x OR 1"
  using and_not_and_same [of x 1] and_not_or_same [of x 1] by simp_all

text \<open>The shared flag is all that is kept of an object's flags; it never asks the kernel to write.\<close>

lemma shared_no_mutate [simp]: "((flags :: u32) AND 1) AND 16 = 0"
  by (rule bit_word_eqI) (auto simp: bit_simps)

lemma unat_Suc_32:
  assumes "x + 1 \<noteq> (0 :: u32)"
  shows "unat (x + 1) = Suc (unat x)"
  using assms by (metis add.commute unatSuc)

lemma unat_pred_32:
  assumes "x \<noteq> (0 :: u32)"
  shows "unat (x - 1) = unat x - 1"
  using assms by (simp add: unat_minus_one)

lemma wrap_iff_32: "c + 1 = (0 :: u32) \<longleftrightarrow> \<not> Suc (unat c) < 2 ^ 32"
proof -
  have "unat c < 2 ^ 32" using unsigned_less [of c] by simp
  moreover have "unat (c + 1) = (unat c + 1) mod 2 ^ 32" by (simp add: unat_word_ariths)
  ultimately show ?thesis by (auto simp: mod_Suc simp flip: unat_eq_0 split: if_splits)
qed

lemma unat_eq_one_32: "unat (c :: u32) = Suc 0 \<longleftrightarrow> c = 1"
  by (metis One_nat_def unat_1 word_unat_eq_iff)

lemma unat_Suc_bound: "Suc (unat (c :: u32)) < 2 ^ 32 \<Longrightarrow> unat (c + 1) = Suc (unat c)"
  using wrap_iff_32 unat_Suc_32 by blast

lemma count_cases_32:
  fixes c :: u32
  obtains "c = 0" | "c = 1" | "c \<noteq> 0" "c \<noteq> 1" "1 < unat c" "unat (c - 1) = unat c - 1"
proof -
  have "1 < unat c" if "c \<noteq> 0" "c \<noteq> 1"
    using that by (metis One_nat_def less_one nat_neq_iff unat_eq_0 unat_eq_one_32)
  then show thesis using that unat_pred_32 by blast
qed


lemma or_nonzero: "m \<noteq> (0 :: u32) \<Longrightarrow> x OR m \<noteq> 0"
  by (metis and_zero_eq or_and_same zero_and_eq)

subsection \<open>Signed arithmetic\<close>

lemma sint_of_int_32:
  assumes "- (2 ^ 31) \<le> i" and "i < 2 ^ 31"
  shows "sint (word_of_int i :: u32) = i"
  using assms by (simp add: sint_sbintrunc' signed_take_bit_int_eq_self del: One_nat_def)

lemma sint_bounds_32: "- (2 ^ 31) \<le> sint (x :: u32)" "sint (x :: u32) < 2 ^ 31"
  using sint_greater_eq [of x] sint_less [of x] by simp_all

lemma sint_minus_32:
  assumes "- (2 ^ 31) \<le> sint x - sint y" and "sint x - sint y < 2 ^ 31"
  shows "sint (x - y :: u32) = sint x - sint y"
proof -
  have "x - y = word_of_int (sint x - sint y)" by simp
  then show ?thesis using sint_of_int_32 [OF assms] by simp
qed

lemma and_power_32: "(f :: u32) AND 2 ^ k = (if bit f k then 2 ^ k else 0)"
  by (rule bit_word_eqI) (auto simp: bit_simps)
lemma and_257: "(f :: u32) AND 257 = 256 \<longleftrightarrow> f AND 256 \<noteq> 0 \<and> f AND 1 = 0"
proof -
  have "(257 :: u32) = 256 OR 1" by simp
  then have "f AND 257 = (f AND 256) OR (f AND 1)" by (simp only: bit.conj_disj_distrib)
  moreover have "f AND 256 = (if bit f 8 then 256 else 0)" "f AND 1 = (if bit f 0 then 1 else 0)"
    using and_power_32 [of f 8] and_power_32 [of f 0] by simp_all
  ultimately show ?thesis by simp
qed
subsection \<open>Counting threads by their ghost\<close>

lemma count_enter:
  fixes G :: "'t::finite \<Rightarrow> 'g"
  assumes "G t \<noteq> p"
  shows "card {u. (G(t := p)) u = p} = Suc (card {u. G u = p})"
proof -
  have "{u. (G(t := p)) u = p} = insert t {u. G u = p}" by auto
  then show ?thesis using assms by simp
qed

lemma count_leave:
  fixes G :: "'t::finite \<Rightarrow> 'g"
  assumes "G t = p" and "q \<noteq> p"
  shows "Suc (card {u. (G(t := q)) u = p}) = card {u. G u = p}"
proof -
  have "{u. G u = p} = insert t {u. (G(t := q)) u = p}" "t \<notin> {u. (G(t := q)) u = p}" using assms by auto
  then show ?thesis by simp
qed

lemma count_other:
  assumes "G t \<noteq> p" and "q \<noteq> p"
  shows "{u. (G(t := q)) u = p} = {u. G u = p}"
  using assms by auto

text \<open>The same for a class of ghosts.\<close>

lemma count_class_enter:
  fixes G :: "'t::finite \<Rightarrow> 'g"
  assumes "\<not> C (G t)" and "C p"
  shows "card {u. C ((G(t := p)) u)} = Suc (card {u. C (G u)})"
proof -
  have "{u. C ((G(t := p)) u)} = insert t {u. C (G u)}" using assms by auto
  then show ?thesis using assms by simp
qed

lemma count_class_leave:
  fixes G :: "'t::finite \<Rightarrow> 'g"
  assumes "C (G t)" and "\<not> C p"
  shows "Suc (card {u. C ((G(t := p)) u)}) = card {u. C (G u)}"
proof -
  have "{u. C (G u)} = insert t {u. C ((G(t := p)) u)}" "t \<notin> {u. C ((G(t := p)) u)}"
    using assms by (auto split: if_splits)
  then show ?thesis by simp
qed

lemma count_class_same:
  assumes "C (G t) = C p"
  shows "{u. C ((G(t := p)) u)} = {u. C (G u)}"
  using assms by auto

lemma count_bound: "card {t :: 't::finite. P t} \<le> card (UNIV :: 't set)"
  by (rule card_mono) auto

end
