(* ===== verification/Prog.thy ===== *)
theory Prog
  imports Prelude
begin

text \<open>
  Concurrent programs as a shallow embedding. A C function becomes a value of
  \<^typ>\<open>unit\<close>-free type \<open>('s, 'a) prog\<close>: a possibly infinite tree whose nodes are indivisible
  accesses to the shared state \<open>'s\<close>, silent steps, and calls that leave the library (the kernel,
  the C library, user callbacks). Two semantics are given to the same trees:
  the interleaving of any number of threads (\<open>reach\<close>), and the solo run of one
  thread with scripted answers of the kernel (\<open>exec\<close>). An invariant logic for the
  interleaving (\<open>safe\<close>) is proved sound here once; the components only use its rules.
\<close>

subsection \<open>Calls that leave the library\<close>

text \<open>
  Mach messages, as the stubs generated from the interface definitions build them. The port of the
  own task is the C library's, so it stays a name. A body item is a type descriptor with one
  32-bit value or one port name.
\<close>

datatype mport = MachTaskSelf | MachPort u32

abbreviation MACH_PORT_NULL :: mport where
  "MACH_PORT_NULL \<equiv> MachPort 0"

record mach_msg_type =
  msgt_name :: int
  msgt_size :: int
  msgt_number :: int
  msgt_inline :: bool
  msgt_longform :: bool
  msgt_deallocate :: bool
  msgt_unused :: int

datatype msg_item = Word u32 | Port mport

record mach_msg =
  msgh_bits :: u32
  msgh_request_port :: mport
  msgh_reply_port :: mport
  msgh_seqno :: int
  msgh_id :: int
  msg_body :: "(mach_msg_type \<times> msg_item) list"

datatype kcall =
    MigGetReplyPort
  | MigDeallocReplyPort mport
  | MigPutReplyPort mport
  | IntrRpc mach_msg (send_size: int) (rcv_size: int)
  | SendMsg mach_msg (send_size: int)
  | ClockGettime int
  | Pid2Task u32
  | PortDeallocate mport
  | Lib string "msg_item list"
  | is_Callback: Callback (fct: u32) (arg: u32)

text \<open>
  \<open>Lib f xs\<close> is a call of the C library, the compiler's runtime or a Hurd server, by the name of the
  function. A \<open>reply\<close> is what a call answers. Each caller reads the members that its call fills in:
  \<open>r_val\<close> is a value or an address, and \<open>r_cancelled\<close> says that the thread was
  made to exit while it was in the call.
\<close>

record reply =
  r_code :: int
  r_head_id :: int
  r_retcode :: int
  r_port :: mport
  r_now :: timespec
  r_cancelled :: bool
  r_val :: u32

text \<open>The answer of a call that succeeds; particular answers are written as updates of it.\<close>

definition reply0 :: reply where
  "reply0 = \<lparr>r_code = 0, r_head_id = 4304, r_retcode = 0, r_port = MachPort 1,
    r_now = \<lparr>tv_sec = 0, tv_nsec = 0\<rparr>, r_cancelled = False, r_val = 0\<rparr>"

lemma reply0_sel [simp]:
  "r_code reply0 = 0" "r_head_id reply0 = 4304" "r_retcode reply0 = 0" "r_port reply0 = MachPort 1"
  "r_now reply0 = \<lparr>tv_sec = 0, tv_nsec = 0\<rparr>" "\<not> r_cancelled reply0" "r_val reply0 = 0"
  by (simp_all add: reply0_def)

subsection \<open>Programs\<close>

codatatype ('s, 'a) prog =
    Ret 'a
  | Tau "('s, 'a) prog"
  | Act "'s \<Rightarrow> 's" "'s \<Rightarrow> ('s, 'a) prog"
  | Sys kcall "reply \<Rightarrow> ('s, 'a) prog"

text \<open>
  \<open>Act u k\<close> updates the state by \<open>u\<close> and goes on with \<open>k s\<close>, where \<open>s\<close> is the state before the
  update: one access that may both read and write, as the atomic builtins do.
\<close>

primcorec bind :: "('s, 'a) prog \<Rightarrow> ('a \<Rightarrow> ('s, 'b) prog) \<Rightarrow> ('s, 'b) prog" where
  "bind p f = (case p of
       Ret a \<Rightarrow> f a
     | Tau q \<Rightarrow> Tau (bind q f)
     | Act u k \<Rightarrow> Act u (\<lambda>s. bind (k s) f)
     | Sys c k \<Rightarrow> Sys c (\<lambda>r. bind (k r) f))"

lemma bind_simps [simp]:
  "bind (Ret a) f = f a"
  "bind (Tau p) f = Tau (bind p f)"
  "bind (Act u k) f = Act u (\<lambda>s. bind (k s) f)"
  "bind (Sys c h) f = Sys c (\<lambda>r. bind (h r) f)"
  by (subst bind.code, simp)+

lemma bind_assoc [runs]: "bind (bind p f) g = bind p (\<lambda>x. bind (f x) g)"
proof (coinduction arbitrary: p rule: prog.coinduct_strong)
  case Eq_prog
  show ?case by (cases p) (auto simp: rel_fun_def)
qed

lemma bind_Ret: "bind p Ret = p"
proof (coinduction arbitrary: p rule: prog.coinduct_strong)
  case Eq_prog
  show ?case by (cases p) (auto simp: rel_fun_def)
qed

text \<open>
  A C loop. The body answers \<open>Inl x\<close> to go round again with the loop variables \<open>x\<close>,
  and \<open>Inr a\<close> to leave the loop with \<open>a\<close>; each round costs a silent step.
\<close>

primcorec iter :: "('x \<Rightarrow> ('s, 'x + 'a) prog) \<Rightarrow> ('s, 'x + 'a) prog \<Rightarrow> ('s, 'a) prog" where
  "iter b p = (case p of
       Ret r \<Rightarrow> (case r of Inl x \<Rightarrow> Tau (iter b (b x)) | Inr a \<Rightarrow> Ret a)
     | Tau q \<Rightarrow> Tau (iter b q)
     | Act u k \<Rightarrow> Act u (\<lambda>s. iter b (k s))
     | Sys c k \<Rightarrow> Sys c (\<lambda>r. iter b (k r)))"

definition loop :: "('x \<Rightarrow> ('s, 'x + 'a) prog) \<Rightarrow> 'x \<Rightarrow> ('s, 'a) prog" where
  "loop b x = iter b (b x)"

abbreviation again :: "'x \<Rightarrow> ('s, 'x + 'a) prog" where
  "again x \<equiv> Ret (Inl x)"

abbreviation leave :: "'a \<Rightarrow> ('s, 'x + 'a) prog" where
  "leave a \<equiv> Ret (Inr a)"

lemma iter_simps [simp]:
  "iter b (Ret (Inl x)) = Tau (loop b x)"
  "iter b (Ret (Inr a)) = Ret a"
  "iter b (Tau p) = Tau (iter b p)"
  "iter b (Act u k) = Act u (\<lambda>s. iter b (k s))"
  "iter b (Sys c h) = Sys c (\<lambda>r. iter b (h r))"
  unfolding loop_def by (subst iter.code, simp)+

lemma iter_if [simp]: "iter b (if c then p else q) = (if c then iter b p else iter b q)"
  by simp

lemma bind_if [simp]: "bind (if c then p else q) f = (if c then bind p f else bind q f)"
  by simp


text \<open>A call that leaves the library and hands its answer on.\<close>

definition sys :: "kcall \<Rightarrow> ('s, reply) prog" where
  [code_defs]: "sys c = Sys c Ret"

subsection \<open>The solo run of a program\<close>

text \<open>
  \<open>exec M p rs s l\<close> runs \<open>p\<close> from the state \<open>s\<close> with nobody else around. The calls that leave
  the library are answered by the script \<open>rs\<close> in turn and logged in \<open>l\<close>; \<open>M\<close> says what a call
  does to the shared state. The result is \<open>None\<close> when the program does not return: it loops for
  ever, or it makes more calls than the script answers.
\<close>

type_synonym 's keff = "kcall \<Rightarrow> 's \<Rightarrow> 's"

partial_function (option) exec ::
  "'s keff \<Rightarrow> ('s, 'a) prog \<Rightarrow> reply list \<Rightarrow> 's \<Rightarrow> kcall list \<Rightarrow>
    ('a \<times> 's \<times> reply list \<times> kcall list) option" where
  "exec M p rs s l = (case p of
       Ret a \<Rightarrow> Some (a, s, rs, l)
     | Tau q \<Rightarrow> exec M q rs s l
     | Act u k \<Rightarrow> exec M (k s) rs (u s) l
     | Sys c k \<Rightarrow> (case rs of [] \<Rightarrow> None | r # rs' \<Rightarrow> exec M (k r) rs' (M c s) (l @ [c])))"

lemma exec_simps [simp]:
  "exec M (Ret a) rs s l = Some (a, s, rs, l)"
  "exec M (Tau p) rs s l = exec M p rs s l"
  "exec M (Act u k) rs s l = exec M (k s) rs (u s) l"
  "exec M (Sys c h) [] s l = None"
  "exec M (Sys c h) (r # rs) s l = exec M (h r) rs (M c s) (l @ [c])"
  by (subst exec.simps, simp)+

lemma exec_if [simp]:
  "exec M (if b then p else q) rs s l = (if b then exec M p rs s l else exec M q rs s l)"
  by simp

lemma exec_Sys_cases:
  "exec M (Sys c h) rs s l =
    (case rs of [] \<Rightarrow> None | r # rs' \<Rightarrow> exec M (h r) rs' (M c s) (l @ [c]))"
  by (cases rs) simp_all

lemma exec_bind:
  assumes "exec M p rs s l = Some (a, s', rs', l')"
  shows "exec M (bind p f) rs s l = exec M (f a) rs' s' l'"
proof -
  let ?P = "\<lambda>p rs s l y. exec M (bind p f) rs s l = exec M (f (fst y)) (fst (snd (snd y)))
    (fst (snd y)) (snd (snd (snd y)))"
  have "?P p rs s l (a, s', rs', l')"
  proof (rule exec.raw_induct [where P = "\<lambda>M' p rs s l y. M' = M \<longrightarrow> ?P p rs s l y",
        OF _ assms, THEN mp, OF _ refl])
    fix ex M' p rs s l y
    assume IH: "\<And>M' p rs s l y. ex M' p rs s l = Some y \<Longrightarrow> M' = M \<longrightarrow> ?P p rs s l y"
      and eq: "(case p of Ret a \<Rightarrow> Some (a, s, rs, l) | Tau q \<Rightarrow> ex M' q rs s l
        | Act u k \<Rightarrow> ex M' (k s) rs (u s) l
        | Sys c k \<Rightarrow> (case rs of [] \<Rightarrow> None
             | r # rs' \<Rightarrow> ex M' (k r) rs' (M' c s) (l @ [c]))) = Some y"
    show "M' = M \<longrightarrow> ?P p rs s l y"
      using eq by (cases p) (auto split: list.splits dest!: IH)
  qed
  then show ?thesis by simp
qed

lemma exec_loop: "exec M (loop b x) rs s l = exec M (iter b (b x)) rs s l"
  by (simp add: loop_def)

lemma exec_iter:
  assumes "exec M p rs s l = Some (r, s', rs', l')"
  shows "exec M (iter b p) rs s l =
    (case r of Inl x \<Rightarrow> exec M (loop b x) rs' s' l' | Inr a \<Rightarrow> Some (a, s', rs', l'))"
proof -
  let ?P = "\<lambda>p rs s l y. exec M (iter b p) rs s l = (case fst y of
      Inl x \<Rightarrow> exec M (loop b x) (fst (snd (snd y))) (fst (snd y)) (snd (snd (snd y)))
    | Inr a \<Rightarrow> Some (a, snd y))"
  have "?P p rs s l (r, s', rs', l')"
  proof (rule exec.raw_induct [where P = "\<lambda>M' p rs s l y. M' = M \<longrightarrow> ?P p rs s l y",
        OF _ assms, THEN mp, OF _ refl])
    fix ex M' p rs s l y
    assume IH: "\<And>M' p rs s l y. ex M' p rs s l = Some y \<Longrightarrow> M' = M \<longrightarrow> ?P p rs s l y"
      and eq: "(case p of Ret a \<Rightarrow> Some (a, s, rs, l) | Tau q \<Rightarrow> ex M' q rs s l
        | Act u k \<Rightarrow> ex M' (k s) rs (u s) l
        | Sys c k \<Rightarrow> (case rs of [] \<Rightarrow> None
             | r # rs' \<Rightarrow> ex M' (k r) rs' (M' c s) (l @ [c]))) = Some y"
    show "M' = M \<longrightarrow> ?P p rs s l y"
      using eq by (cases p) (auto split: list.splits sum.splits dest!: IH)
  qed
  then show ?thesis by (simp only: fst_conv snd_conv)
qed

lemma exec_loop_again:
  assumes "exec M (b x) rs s l = Some (Inl y, s', rs', l')"
  shows "exec M (loop b x) rs s l = exec M (loop b y) rs' s' l'"
  using exec_iter [OF assms, of b] by (simp add: exec_loop)

lemma exec_loop_leave:
  assumes "exec M (b x) rs s l = Some (Inr a, s', rs', l')"
  shows "exec M (loop b x) rs s l = Some (a, s', rs', l')"
  using exec_iter [OF assms, of b] by (simp add: exec_loop)

subsection \<open>Runs that do not end\<close>

text \<open>Programs that only read and go round, for ever.\<close>

lemma exec_spins:
  assumes "p \<in> X" and "\<And>p. p \<in> X \<Longrightarrow> (\<exists>q. p = Tau q \<and> q \<in> X) \<or> (\<exists>k. p = Act id k \<and> k s \<in> X)"
  shows "exec M p rs s l = None"
proof (rule ccontr)
  assume "exec M p rs s l \<noteq> None"
  then obtain y where y: "exec M p rs s l = Some y" by blast
  have "M = M \<longrightarrow> p \<in> X \<longrightarrow> s = s \<longrightarrow> False"
  proof (rule exec.raw_induct [where P = "\<lambda>M' p rs s' l y. M' = M \<longrightarrow> p \<in> X \<longrightarrow> s' = s \<longrightarrow> False", OF _ y])
    fix ex M' p rs s' l y
    assume IH: "\<And>M' p rs s' l y. ex M' p rs s' l = Some y \<Longrightarrow> M' = M \<longrightarrow> p \<in> X \<longrightarrow> s' = s \<longrightarrow> False"
      and eq: "(case p of Ret a \<Rightarrow> Some (a, s', rs, l) | Tau q \<Rightarrow> ex M' q rs s' l
        | Act u k \<Rightarrow> ex M' (k s') rs (u s') l
        | Sys c k \<Rightarrow> (case rs of [] \<Rightarrow> None | r # rs' \<Rightarrow> ex M' (k r) rs' (M' c s') (l @ [c]))) = Some y"
    show "M' = M \<longrightarrow> p \<in> X \<longrightarrow> s' = s \<longrightarrow> False"
      using eq assms(2) [of p] by (auto dest!: IH)
  qed
  with assms(1) show False by simp
qed

lemma exec_loop_spins:
  assumes "b x = Act id k" and "k s = again x"
  shows "exec M (bind (loop b x) f) rs s l = None"
proof (rule exec_spins [where X = "{bind (loop b x) f, Tau (bind (loop b x) f)}"])
  fix p assume "p \<in> {bind (loop b x) f, Tau (bind (loop b x) f)}"
  moreover have "bind (loop b x) f = Act id (\<lambda>s. bind (iter b (k s)) f)" using assms(1) by (simp add: loop_def)
  moreover have "bind (iter b (k s)) f = Tau (bind (loop b x) f)" using assms(2) by simp
  ultimately show "(\<exists>q. p = Tau q \<and> q \<in> {bind (loop b x) f, Tau (bind (loop b x) f)}) \<or>
      (\<exists>k. p = Act id k \<and> k s \<in> {bind (loop b x) f, Tau (bind (loop b x) f)})" by auto
qed simp

subsection \<open>Runs that end\<close>

text \<open>
  \<open>within M n Q p\<close>: whatever the state, the answers and the effects of the calls, \<open>p\<close> run alone returns a value with
  \<open>Q\<close> after at most \<open>n\<close> calls.
\<close>

definition within :: "'s keff \<Rightarrow> nat \<Rightarrow> ('a \<Rightarrow> bool) \<Rightarrow> ('s, 'a) prog \<Rightarrow> bool" where
  "within M n Q p \<longleftrightarrow> (\<forall>rs s l. n \<le> length rs \<longrightarrow> (\<exists>a s' rs' l'. exec M p rs s l = Some (a, s', rs', l') \<and> Q a \<and>
     length l' + length rs' = length l + length rs \<and> length l' \<le> length l + n))"

lemma within_Ret: "Q a \<Longrightarrow> within M n Q (Ret a)"
  by (simp add: within_def)

lemma within_Tau: "within M n Q p \<Longrightarrow> within M n Q (Tau p)"
  by (simp add: within_def)

lemma within_Act: "(\<And>s. within M n Q (k s)) \<Longrightarrow> within M n Q (Act u k)"
  by (simp add: within_def)

lemma within_Sys:
  assumes "0 < n" and "\<And>r. within M (n - 1) Q (k r)"
  shows "within M n Q (Sys c k)"
  unfolding within_def
proof (intro allI impI)
  fix rs :: "reply list" and s and l :: "kcall list" assume "n \<le> length rs"
  then obtain r rs' where rs: "rs = r # rs'" "n - 1 \<le> length rs'" using assms(1) by (cases rs) auto
  from assms(2) [of r] rs(2) obtain a s' rs2 l' where
    "exec M (k r) rs' (M c s) (l @ [c]) = Some (a, s', rs2, l')" "Q a"
    "length l' + length rs2 = Suc (length l) + length rs'" "length l' \<le> Suc (length l) + (n - 1)"
    unfolding within_def by (metis length_append_singleton)
  with rs(1) assms(1) show "\<exists>a s' rs2 l'. exec M (Sys c k) rs s l = Some (a, s', rs2, l') \<and> Q a \<and>
      length l' + length rs2 = length l + length rs \<and> length l' \<le> length l + n" by simp
qed

lemma within_bind:
  assumes "within M n R p" and "\<And>a. R a \<Longrightarrow> within M m Q (f a)"
  shows "within M (n + m) Q (bind p f)"
  unfolding within_def
proof (intro allI impI)
  fix rs :: "reply list" and s and l :: "kcall list" assume le: "n + m \<le> length rs"
  then obtain a s1 rs1 l1 where 1: "exec M p rs s l = Some (a, s1, rs1, l1)" "R a"
    "length l1 + length rs1 = length l + length rs" "length l1 \<le> length l + n"
    using assms(1) unfolding within_def by (metis add_leD1)
  moreover from 1 le have "m \<le> length rs1" by simp
  ultimately obtain b s2 rs2 l2 where 2: "exec M (f a) rs1 s1 l1 = Some (b, s2, rs2, l2)" "Q b"
    "length l2 + length rs2 = length l1 + length rs1" "length l2 \<le> length l1 + m"
    using assms(2) unfolding within_def by metis
  with 1 show "\<exists>a s' rs' l'. exec M (bind p f) rs s l = Some (a, s', rs', l') \<and> Q a \<and>
      length l' + length rs' = length l + length rs \<and> length l' \<le> length l + (n + m)"
    using exec_bind [OF 1(1), of f] by auto
qed

lemma within_weaken: "within M n R p \<Longrightarrow> n \<le> m \<Longrightarrow> (\<And>a. R a \<Longrightarrow> Q a) \<Longrightarrow> within M m Q p"
  unfolding within_def by (meson le_trans add_left_mono)

text \<open>
  A loop with a measure: each round makes at most \<open>n\<close> calls and leaves, or goes on with a smaller measure; a
  round at measure 0 makes none.
\<close>

lemma within_loop:
  assumes "J x" and "\<And>x. J x \<Longrightarrow> within M (if f x = 0 then 0 else n)
    (\<lambda>r. case r of Inl y \<Rightarrow> J y \<and> f y < f x | Inr a \<Rightarrow> Q a) (b x)"
  shows "within M (n * f x) Q (loop b x)"
  using assms(1)
proof (induction "f x" arbitrary: x rule: less_induct)
  case less
  let ?n = "if f x = 0 then 0 else n"
  have n: "?n \<le> n * f x" by simp
  show ?case
    unfolding within_def
  proof (intro allI impI)
    fix rs :: "reply list" and s and l :: "kcall list" assume le: "n * f x \<le> length rs"
    with n have "?n \<le> length rs" by linarith
    with assms(2) [OF less.prems] obtain r s1 rs1 l1 where 1: "exec M (b x) rs s l = Some (r, s1, rs1, l1)"
      "case r of Inl y \<Rightarrow> J y \<and> f y < f x | Inr a \<Rightarrow> Q a"
      "length l1 + length rs1 = length l + length rs" "length l1 \<le> length l + ?n"
      unfolding within_def by blast
    show "\<exists>a s' rs' l'. exec M (loop b x) rs s l = Some (a, s', rs', l') \<and> Q a \<and>
      length l' + length rs' = length l + length rs \<and> length l' \<le> length l + n * f x"
    proof (cases r)
      case (Inl y)
      with 1(2) have y: "J y" "f y < f x" by simp_all
      then have c: "n * Suc (f y) \<le> n * f x" by (intro mult_le_mono2) simp
      moreover have "n * f y \<le> length rs1" using le 1 y(2) c by (simp split: if_splits)
      ultimately obtain a s2 rs2 l2 where "exec M (loop b y) rs1 s1 l1 = Some (a, s2, rs2, l2)" "Q a"
        "length l2 + length rs2 = length l1 + length rs1" "length l2 \<le> length l1 + n * f y"
        using less.hyps [OF y(2,1)] unfolding within_def by blast
      with 1 Inl c y(2) show ?thesis using exec_loop_again [where b = b and x = x, OF 1(1) [unfolded Inl]] by auto
    next
      case (Inr a)
      with 1 n show ?thesis using exec_loop_leave [where b = b and x = x, OF 1(1) [unfolded Inr]] by auto
    qed
  qed
qed

subsection \<open>Interleaving\<close>

text \<open>
  One step of one thread. The kernel may answer any call at any time with anything: a theorem
  about reachable states holds for every kernel whose effect on the shared state is \<open>M\<close>.
\<close>

inductive tstep :: "'s keff \<Rightarrow> 's \<Rightarrow> ('s, 'a) prog \<Rightarrow> 's \<Rightarrow> ('s, 'a) prog \<Rightarrow> bool" for M where
  tstep_Tau: "tstep M s (Tau p) s p"
| tstep_Act: "tstep M s (Act u k) (u s) (k s)"
| tstep_Sys: "tstep M s (Sys c k) (M c s) (k r)"

inductive_cases tstep_RetE: "tstep M s (Ret a) s' p'"
inductive_cases tstep_TauE: "tstep M s (Tau p) s' p'"
inductive_cases tstep_ActE: "tstep M s (Act u k) s' p'"
inductive_cases tstep_SysE: "tstep M s (Sys c k) s' p'"

inductive_simps tstep_simps:
  "tstep M s (Ret a) s' p'"
  "tstep M s (Tau p) s' p'"
  "tstep M s (Act u k) s' p'"
  "tstep M s (Sys c h) s' p'"

inductive reach ::
  "'s keff \<Rightarrow> 's \<Rightarrow> ('t \<Rightarrow> ('s, 'a) prog) \<Rightarrow> 's \<Rightarrow> ('t \<Rightarrow> ('s, 'a) prog) \<Rightarrow> bool"
  for M s0 P0 where
  reach_start: "reach M s0 P0 s0 P0"
| reach_step: "reach M s0 P0 s P \<Longrightarrow> tstep M s (P t) s' p' \<Longrightarrow> reach M s0 P0 s' (P(t := p'))"

lemma reach_Tau: "reach M s0 P0 s P \<Longrightarrow> P t = Tau p \<Longrightarrow> reach M s0 P0 s (P(t := p))"
  by (metis reach_step tstep_Tau)

lemma reach_Act: "reach M s0 P0 s P \<Longrightarrow> P t = Act u k \<Longrightarrow> reach M s0 P0 (u s) (P(t := k s))"
  by (metis reach_step tstep_Act)

lemma reach_Sys: "reach M s0 P0 s P \<Longrightarrow> P t = Sys c k \<Longrightarrow> reach M s0 P0 (M c s) (P(t := k r))"
  by (metis reach_step tstep_Sys)

subsection \<open>Invariants of interleavings\<close>

text \<open>
  Every thread \<open>t\<close> carries a ghost value \<open>G t\<close> that says where it is in the protocol; the
  invariant \<open>I s G\<close> ties the ghosts to the shared state. \<open>safe A I M t Q g p\<close> says that \<open>p\<close>, run by
  thread \<open>t\<close> from the ghost \<open>g\<close>, keeps the invariant at each of its steps, whatever the other
  threads do in between, that \<open>Q a g'\<close> holds when it returns \<open>a\<close> with ghost \<open>g'\<close>, and that
  \<open>A c g'\<close> holds whenever it calls user code by \<open>c\<close> with ghost \<open>g'\<close>.
\<close>

coinductive safe ::
  "(kcall \<Rightarrow> 'g \<Rightarrow> bool) \<Rightarrow> ('s \<Rightarrow> ('t \<Rightarrow> 'g) \<Rightarrow> bool) \<Rightarrow> 's keff \<Rightarrow> 't \<Rightarrow> ('a \<Rightarrow> 'g \<Rightarrow> bool) \<Rightarrow> 'g \<Rightarrow> ('s, 'a) prog \<Rightarrow> bool"
  for A I M t Q where
  safe_Ret: "Q a g \<Longrightarrow> safe A I M t Q g (Ret a)"
| safe_Tau: "safe A I M t Q g p \<Longrightarrow> safe A I M t Q g (Tau p)"
| safe_Act: "\<forall>s G. I s G \<longrightarrow> G t = g \<longrightarrow> (\<exists>g'. I (u s) (G(t := g')) \<and> safe A I M t Q g' (k s)) \<Longrightarrow>
    safe A I M t Q g (Act u k)"
| safe_Sys: "(is_Callback c \<longrightarrow> A c g) \<Longrightarrow> \<forall>s G r. I s G \<longrightarrow> G t = g \<longrightarrow> (\<exists>g'. I (M c s) (G(t := g')) \<and> safe A I M t Q g' (k r)) \<Longrightarrow>
    safe A I M t Q g (Sys c k)"

inductive_simps safe_simps [simp]:
  "safe A I M t Q g (Ret a)"
  "safe A I M t Q g (Tau p)"

inductive_simps safe_Act_iff: "safe A I M t Q g (Act u k)"
inductive_simps safe_Sys_iff: "safe A I M t Q g (Sys c k)"

lemma safe_ActI:
  assumes "\<And>s G. I s G \<Longrightarrow> G t = g \<Longrightarrow> I (u s) (G(t := h s))"
    and "\<And>s G. I s G \<Longrightarrow> G t = g \<Longrightarrow> safe A I M t Q (h s) (k s)"
  shows "safe A I M t Q g (Act u k)"
  using assms by (blast intro: safe_Act)

lemma safe_SysI:
  assumes "is_Callback c \<Longrightarrow> A c g"
    and "\<And>s G. I s G \<Longrightarrow> G t = g \<Longrightarrow> I (M c s) (G(t := g'))"
    and "\<And>r. safe A I M t Q g' (k r)"
  shows "safe A I M t Q g (Sys c k)"
  by (rule safe_Sys, rule impI, erule assms(1), intro allI impI exI conjI, erule (1) assms(2),
      rule assms(3))

lemma safe_Sys_skip:
  assumes "is_Callback c \<Longrightarrow> A c g" and "\<And>s. M c s = s" and "\<And>r. safe A I M t Q g (k r)"
  shows "safe A I M t Q g (Sys c k)"
  by (rule safe_SysI [where g' = g]) (use assms in auto)

text \<open>One unfolding of \<^const>\<open>safe\<close>, and coinduction in terms of it.\<close>

definition safe_step ::
  "(kcall \<Rightarrow> 'g \<Rightarrow> bool) \<Rightarrow> ('s \<Rightarrow> ('t \<Rightarrow> 'g) \<Rightarrow> bool) \<Rightarrow> 's keff \<Rightarrow> 't \<Rightarrow> ('a \<Rightarrow> 'g \<Rightarrow> bool) \<Rightarrow>
    ('g \<Rightarrow> ('s, 'a) prog \<Rightarrow> bool) \<Rightarrow> 'g \<Rightarrow> ('s, 'a) prog \<Rightarrow> bool" where
  "safe_step A I M t Q X g p = (case p of
       Ret a \<Rightarrow> Q a g
     | Tau q \<Rightarrow> X g q
     | Act u k \<Rightarrow> \<forall>s G. I s G \<longrightarrow> G t = g \<longrightarrow> (\<exists>g'. I (u s) (G(t := g')) \<and> X g' (k s))
     | Sys c k \<Rightarrow> (is_Callback c \<longrightarrow> A c g) \<and>
         (\<forall>s G r. I s G \<longrightarrow> G t = g \<longrightarrow> (\<exists>g'. I (M c s) (G(t := g')) \<and> X g' (k r))))"

lemma safe_step_simps [simp]:
  "safe_step A I M t Q X g (Ret a) = Q a g"
  "safe_step A I M t Q X g (Tau q) = X g q"
  "safe_step A I M t Q X g (Act u k) =
    (\<forall>s G. I s G \<longrightarrow> G t = g \<longrightarrow> (\<exists>g'. I (u s) (G(t := g')) \<and> X g' (k s)))"
  "safe_step A I M t Q X g (Sys c h) =
    ((is_Callback c \<longrightarrow> A c g) \<and>
     (\<forall>s G r. I s G \<longrightarrow> G t = g \<longrightarrow> (\<exists>g'. I (M c s) (G(t := g')) \<and> X g' (h r))))"
  by (simp_all add: safe_step_def)

lemma safe_unfold: "safe A I M t Q g p = safe_step A I M t Q (safe A I M t Q) g p"
  by (cases p) (simp_all add: safe_Act_iff safe_Sys_iff)

lemmas safe_stepD = safe_unfold [THEN iffD1]
lemmas safe_stepI = safe_unfold [THEN iffD2]

lemma safe_step_mono:
  assumes "safe_step A I M t Q X g p" and XY: "\<And>g p. X g p \<Longrightarrow> Y g p"
  shows "safe_step A I M t Q Y g p"
proof (cases p)
  case (Act u k)
  with assms(1) have *: "\<exists>g'. I (u s) (G(t := g')) \<and> X g' (k s)" if "I s G" "G t = g" for s G
    using that by simp
  have "\<exists>g'. I (u s) (G(t := g')) \<and> Y g' (k s)" if "I s G" "G t = g" for s G
    using * [OF that] XY by auto
  then show ?thesis by (simp add: Act)
next
  case (Sys c k)
  with assms(1) have *: "\<exists>g'. I (M c s) (G(t := g')) \<and> X g' (k r)" if "I s G" "G t = g" for s G r
    using that by simp
  have "\<exists>g'. I (M c s) (G(t := g')) \<and> Y g' (k r)" if "I s G" "G t = g" for s G r
    using * [OF that, of r] XY by auto
  then show ?thesis using assms(1) by (simp add: Sys)
qed (use assms in auto)

lemma safe_coinduct_step:
  assumes "X g p"
    and step: "\<And>g p. X g p \<Longrightarrow> safe_step A I M t Q (\<lambda>g p. X g p \<or> safe A I M t Q g p) g p"
  shows "safe A I M t Q g p"
proof (rule safe.coinduct [where X = X, OF assms(1)])
  fix g p assume "X g p"
  then have st: "safe_step A I M t Q (\<lambda>g p. X g p \<or> safe A I M t Q g p) g p" by (rule step)
  then show "(\<exists>a ga. g = ga \<and> p = Ret a \<and> Q a ga) \<or>
      (\<exists>ga pa. g = ga \<and> p = Tau pa \<and> (X ga pa \<or> safe A I M t Q ga pa)) \<or>
      (\<exists>ga u k. g = ga \<and> p = Act u k \<and> (\<forall>s G. I s G \<longrightarrow> G t = ga \<longrightarrow>
          (\<exists>g'. I (u s) (G(t := g')) \<and> (X g' (k s) \<or> safe A I M t Q g' (k s))))) \<or>
      (\<exists>c ga k. g = ga \<and> p = Sys c k \<and> (is_Callback c \<longrightarrow> A c ga) \<and> (\<forall>s G r. I s G \<longrightarrow> G t = ga \<longrightarrow>
          (\<exists>g'. I (M c s) (G(t := g')) \<and> (X g' (k r) \<or> safe A I M t Q g' (k r)))))"
    by (cases p) (simp_all only: safe_step_simps prog.simps, auto)
qed

lemma safe_bind:
  assumes "safe A I M t R g p" and f: "\<And>a g'. R a g' \<Longrightarrow> safe A I M t Q g' (f a)"
  shows "safe A I M t Q g (bind p f)"
proof (rule safe_coinduct_step [where X = "\<lambda>g q. \<exists>p. q = bind p f \<and> safe A I M t R g p"])
  fix g q assume "\<exists>p. q = bind p f \<and> safe A I M t R g p"
  then obtain p where q: "q = bind p f" and "safe A I M t R g p" by blast
  from this(2) have s: "safe_step A I M t R (safe A I M t R) g p" by (rule safe_stepD)
  show "safe_step A I M t Q
      (\<lambda>g q. (\<exists>p. q = bind p f \<and> safe A I M t R g p) \<or> safe A I M t Q g q) g q"
  proof (cases p)
    case (Ret a)
    with s f have "safe A I M t Q g q" by (simp add: q)
    then show ?thesis by (rule safe_step_mono [OF safe_stepD]) simp
  next
    case (Tau p')
    with s show ?thesis by (auto simp: q)
  next
    case (Act u k)
    with s show ?thesis unfolding q Act bind_simps safe_step_simps by blast
  next
    case (Sys c k)
    with s show ?thesis unfolding q Sys bind_simps safe_step_simps by blast
  qed
qed (use assms(1) in blast)

lemma safe_mono:
  assumes "safe A I M t R g p" and "\<And>a g'. R a g' \<Longrightarrow> Q a g'"
  shows "safe A I M t Q g p"
proof (rule safe_coinduct_step [where X = "safe A I M t R"])
  fix g p assume "safe A I M t R g p"
  then have s: "safe_step A I M t R (safe A I M t R) g p" by (rule safe_stepD)
  then have "safe_step A I M t Q (safe A I M t R) g p"
    using assms(2) by (cases p) (simp_all only: safe_step_simps)
  then show "safe_step A I M t Q (\<lambda>g p. safe A I M t R g p \<or> safe A I M t Q g p) g p"
    by (rule safe_step_mono) simp
qed (rule assms(1))

text \<open>The rule for loops: \<open>J x g\<close> is the loop invariant, over the loop variables and the ghost.\<close>

lemma safe_loop:
  assumes "J x g"
    and body: "\<And>x g. J x g \<Longrightarrow>
      safe A I M t (\<lambda>r g'. case r of Inl y \<Rightarrow> J y g' | Inr a \<Rightarrow> Q a g') g (b x)"
  shows "safe A I M t Q g (loop b x)"
proof -
  let ?R = "\<lambda>r g'. case r of Inl y \<Rightarrow> J y g' | Inr a \<Rightarrow> Q a g'"
  let ?X = "\<lambda>g q. \<exists>p. q = iter b p \<and> safe A I M t ?R g p"
  have "safe A I M t Q g (iter b (b x))"
  proof (rule safe_coinduct_step [where X = ?X])
    fix g q assume "?X g q"
    then obtain p where q: "q = iter b p" and "safe A I M t ?R g p" by blast
    from this(2) have s: "safe_step A I M t ?R (safe A I M t ?R) g p" by (rule safe_stepD)
    show "safe_step A I M t Q (\<lambda>g q. ?X g q \<or> safe A I M t Q g q) g q"
    proof (cases p)
      case (Ret r)
      with s body show ?thesis by (cases r) (auto simp: q loop_def)
    next
      case (Tau p')
      with s show ?thesis by (auto simp: q)
    next
      case (Act u k)
      with s show ?thesis unfolding q Act iter_simps safe_step_simps by blast
    next
      case (Sys c k)
      with s show ?thesis unfolding q Sys iter_simps safe_step_simps by blast
    qed
  qed (use body [OF assms(1)] in blast)
  then show ?thesis unfolding loop_def .
qed

text \<open>Soundness: the invariant holds, with some ghosts, in every reachable state.\<close>

lemma safe_tstep:
  assumes "safe A I M t Q g p" and "tstep M s p s' p'" and "I s G" and "G t = g"
  shows "\<exists>g'. I s' (G(t := g')) \<and> safe A I M t Q g' p'"
  using assms(2)
proof cases
  case tstep_Tau
  with assms show ?thesis by (metis fun_upd_triv safe_simps(2))
next
  case (tstep_Act u k)
  with assms show ?thesis by (simp add: safe_Act_iff)
next
  case (tstep_Sys c k r)
  with assms show ?thesis by (simp add: safe_Sys_iff)
qed

theorem safe_reach:
  assumes "reach M s0 P0 s P" and "I s0 G0" and "\<And>t. safe (A t) I M t (Q t) (G0 t) (P0 t)"
  shows "\<exists>G. I s G \<and> (\<forall>t. safe (A t) I M t (Q t) (G t) (P t))"
  using assms(1)
proof induction
  case reach_start
  then show ?case using assms(2,3) by blast
next
  case (reach_step s P t s' p')
  then obtain G where G: "I s G" "\<forall>t. safe (A t) I M t (Q t) (G t) (P t)" by blast
  from safe_tstep [OF G(2) [rule_format] reach_step.hyps(2) G(1) refl]
  obtain g' where "I s' (G(t := g'))" and "safe (A t) I M t (Q t) g' p'" by blast
  with G(2) have "I s' (G(t := g')) \<and>
      (\<forall>t'. safe (A t') I M t' (Q t') ((G(t := g')) t') ((P(t := p')) t'))" by simp
  then show ?case by blast
qed

subsection \<open>Programs that leave the state alone\<close>

coinductive idle :: "'s keff \<Rightarrow> ('s, 'a) prog \<Rightarrow> bool" for M where
  idle_Ret: "idle M (Ret a)"
| idle_Tau: "idle M p \<Longrightarrow> idle M (Tau p)"
| idle_Act: "\<forall>s. u s = s \<Longrightarrow> \<forall>s. idle M (k s) \<Longrightarrow> idle M (Act u k)"
| idle_Sys: "\<not> is_Callback c \<Longrightarrow> \<forall>s. M c s = s \<Longrightarrow> \<forall>r. idle M (k r) \<Longrightarrow> idle M (Sys c k)"

inductive_simps idle_simps [simp]:
  "idle M (Ret a)"
  "idle M (Tau p)"
  "idle M (Act u k)"
  "idle M (Sys c h)"

lemma idle_bind:
  assumes "idle M p" and f: "\<And>a. idle M (f a)"
  shows "idle M (bind p f)"
proof (rule idle.coinduct [where X = "\<lambda>q. (\<exists>p. q = bind p f \<and> idle M p) \<or> idle M q"])
  fix q assume "(\<exists>p. q = bind p f \<and> idle M p) \<or> idle M q"
  then show "(\<exists>a. q = Ret a) \<or>
      (\<exists>p. q = Tau p \<and> (((\<exists>p'. p = bind p' f \<and> idle M p') \<or> idle M p) \<or> idle M p)) \<or>
      (\<exists>u k. q = Act u k \<and> (\<forall>s. u s = s) \<and>
        (\<forall>s. ((\<exists>p. k s = bind p f \<and> idle M p) \<or> idle M (k s)) \<or> idle M (k s))) \<or>
      (\<exists>c k. q = Sys c k \<and> \<not> is_Callback c \<and> (\<forall>s. M c s = s) \<and>
        (\<forall>r. ((\<exists>p. k r = bind p f \<and> idle M p) \<or> idle M (k r)) \<or> idle M (k r)))"
  proof (elim disjE exE conjE)
    fix p assume q: "q = bind p f" and "idle M p"
    then show ?thesis
    proof (cases p)
      case (Ret a)
      with q f [of a] show ?thesis by (cases "f a") auto
    qed auto
  next
    assume "idle M q"
    then show ?thesis by (cases q) auto
  qed
qed (use assms(1) in blast)

lemma safe_idle:
  assumes "idle M p" and "\<And>a. Q a g"
  shows "safe A I M t Q g p"
proof (rule safe_coinduct_step [where X = "\<lambda>g' q. g' = g \<and> idle M q"])
  fix g' and q :: "('a, 'b) prog" assume "g' = g \<and> idle M q"
  then show "safe_step A I M t Q (\<lambda>g' q. (g' = g \<and> idle M q) \<or> safe A I M t Q g' q) g' q"
    using assms(2) by (cases q) (auto intro: exI [of _ g])
qed (use assms(1) in simp)

lemma idle_sys: "\<not> is_Callback c \<Longrightarrow> (\<And>s. M c s = s) \<Longrightarrow> idle M (sys c)"
  by (simp add: sys_def)

subsection \<open>Schedules\<close>

text \<open>
  Particular interleavings, for showing that something can happen: \<open>sched M r ts s P\<close> lets the
  threads of the list \<open>ts\<close> make the given number of steps in turn; the kernel answers \<open>r\<close> to every
  call. A thread that has returned stays where it is.
\<close>

definition pstep :: "'s keff \<Rightarrow> reply \<Rightarrow> 's \<Rightarrow> ('s, 'a) prog \<Rightarrow> 's \<times> ('s, 'a) prog" where
  "pstep M r s p = (case p of
       Ret a \<Rightarrow> (s, Ret a)
     | Tau q \<Rightarrow> (s, q)
     | Act u k \<Rightarrow> (u s, k s)
     | Sys c k \<Rightarrow> (M c s, k r))"

lemma pstep_simps [simp]:
  "pstep M r s (Ret a) = (s, Ret a)"
  "pstep M r s (Tau q) = (s, q)"
  "pstep M r s (Act u k) = (u s, k s)"
  "pstep M r s (Sys c h) = (M c s, h r)"
  by (simp_all add: pstep_def)

lemma pstep_if [simp]:
  "pstep M r s (if b then p else q) = (if b then pstep M r s p else pstep M r s q)"
  by simp

lemma pstep_loop:
  "pstep M r s (loop b x) = pstep M r s (iter b (b x))"
  "pstep M r s (bind (loop b x) f) = pstep M r s (bind (iter b (b x)) f)"
  "pstep M r s (iter b' (bind (loop b x) h)) = pstep M r s (iter b' (bind (iter b (b x)) h))"
  "pstep M r s (iter b1 (bind (iter b' (bind (loop b x) h')) h'')) =
    pstep M r s (iter b1 (bind (iter b' (bind (iter b (b x)) h')) h''))"
  by (simp_all add: loop_def)

primrec srun :: "'s keff \<Rightarrow> reply \<Rightarrow> nat \<Rightarrow> 's \<Rightarrow> ('s, 'a) prog \<Rightarrow> 's \<times> ('s, 'a) prog" where
  "srun M r 0 s p = (s, p)"
| "srun M r (Suc n) s p = (case pstep M r s p of (s', p') \<Rightarrow> srun M r n s' p')"

lemma srun_numeral [simp]:
  "srun M r (numeral n) s p =
    (case pstep M r s p of (s', p') \<Rightarrow> srun M r (pred_numeral n) s' p')"
  by (simp add: numeral_eq_Suc)

fun sched :: "'s keff \<Rightarrow> reply \<Rightarrow> ('t \<times> nat) list \<Rightarrow> 's \<Rightarrow> ('t \<Rightarrow> ('s, 'a) prog) \<Rightarrow>
    's \<times> ('t \<Rightarrow> ('s, 'a) prog)" where
  "sched M r [] s P = (s, P)"
| "sched M r ((t, n) # ts) s P =
    (case srun M r n s (P t) of (s', p') \<Rightarrow> sched M r ts s' (P(t := p')))"

lemma reach_pstep:
  assumes "reach M s0 P0 s P" and "pstep M r s (P t) = (s', p')"
  shows "reach M s0 P0 s' (P(t := p'))"
proof (cases "P t")
  case (Ret a)
  with assms show ?thesis by (auto simp: fun_upd_idem)
next
  case (Tau q)
  with assms show ?thesis by (auto intro: reach_Tau)
next
  case (Act u k)
  with assms show ?thesis by (auto intro: reach_Act)
next
  case (Sys c k)
  with assms show ?thesis by (auto intro: reach_Sys)
qed

lemma reach_srun:
  assumes "reach M s0 P0 s P" and "srun M r n s (P t) = (s', p')"
  shows "reach M s0 P0 s' (P(t := p'))"
  using assms
proof (induction n arbitrary: s P)
  case (Suc n)
  obtain s1 p1 where *: "pstep M r s (P t) = (s1, p1)" by fastforce
  have "srun M r n s1 ((P(t := p1)) t) = (s', p')" using Suc.prems(2) * by simp
  from Suc.IH [OF reach_pstep [OF Suc.prems(1) *] this] show ?case by (simp only: fun_upd_upd)
qed (simp add: fun_upd_idem)

lemma reach_sched_from:
  assumes "reach M s0 P0 s P" and "sched M r ts s P = (s', P')"
  shows "reach M s0 P0 s' P'"
  using assms
proof (induction ts arbitrary: s P)
  case (Cons a ts)
  obtain t n where a: "a = (t, n)" by fastforce
  obtain s1 p1 where *: "srun M r n s (P t) = (s1, p1)" by fastforce
  have "sched M r ts s1 (P(t := p1)) = (s', P')" using Cons.prems(2) * by (simp only: a sched.simps prod.case)
  from Cons.IH [OF reach_srun [OF Cons.prems(1) *] this] show ?case .
qed simp

lemmas reach_sched = reach_sched_from [OF reach_start]

text \<open>
  Evaluation of such runs: only what the next step needs is simplified (\<open>cong: lazy_cong\<close>).
\<close>

lemma lazy_cong:
  "Tau p = Tau p" "Act u k = Act u k" "Sys c k = Sys c k"
  "p = p' \<Longrightarrow> bind p f = bind p' f" "p = p' \<Longrightarrow> iter b p = iter b p'"
  by simp_all

end
