(* ===== verification/Atomic.thy ===== *)
theory Atomic
  imports Prog
begin

text \<open>
  Memory cells and the atomic operations of \<open>sysdeps/atomic.h\<close> and \<open>sysdeps/i386.h\<close>.
  A cell is what the C code passes as a pointer to a field: its address, which the kernel
  calls carry, and how to read and write the field within the shared state. The operations are
  polymorphic in the state, so a function that takes a pointer can be used on a field
  of any object. The builtins are given the sequentially consistent meaning that locked
  instructions have on i386, where the weak compare-and-swap does not fail spuriously.
\<close>

record ('s, 'v) cell =
  c_addr :: u32
  c_get :: "'s \<Rightarrow> 'v"
  c_put :: "'v \<Rightarrow> 's \<Rightarrow> 's"

text \<open>What makes a cell a variable: writes are read back, and write nothing else.\<close>

locale mem_cell =
  fixes c :: "('s, 'v) cell"
  assumes get_put [simp]: "c_get c (c_put c v s) = v"
    and put_put [simp]: "c_put c v (c_put c w s) = c_put c v s"
    and put_get [simp]: "c_put c (c_get c s) s = s"

subsection \<open>32-bit operations\<close>

definition load :: "('s, 'v) cell \<Rightarrow> ('s, 'v) prog" where
  [atomic_defs]: "load c = Act id (\<lambda>s. Ret (c_get c s))"

definition store :: "('s, 'v) cell \<Rightarrow> 'v \<Rightarrow> ('s, unit) prog" where
  [atomic_defs]: "store c v = Act (c_put c v) (\<lambda>_. Ret ())"

definition atomic_store :: "('s, 'v) cell \<Rightarrow> 'v \<Rightarrow> ('s, unit) prog" where
  [atomic_defs]: "atomic_store c v = Act (c_put c v) (\<lambda>_. Ret ())"

definition atomic_load :: "('s, 'v) cell \<Rightarrow> ('s, 'v) prog" where
  [atomic_defs]: "atomic_load c = Act id (\<lambda>s. Ret (c_get c s))"

definition atomic_swap :: "('s, 'v) cell \<Rightarrow> 'v \<Rightarrow> ('s, 'v) prog" where
  [atomic_defs]: "atomic_swap c v = Act (c_put c v) (\<lambda>s. Ret (c_get c s))"

definition atomic_cas_bool :: "('s, 'v) cell \<Rightarrow> 'v \<Rightarrow> 'v \<Rightarrow> ('s, bool) prog" where
  [atomic_defs]: "atomic_cas_bool c e n =
    Act (\<lambda>s. if c_get c s = e then c_put c n s else s) (\<lambda>s. Ret (c_get c s = e))"

definition atomic_add :: "('s, u32) cell \<Rightarrow> u32 \<Rightarrow> ('s, u32) prog" where
  [atomic_defs]: "atomic_add c v = Act (\<lambda>s. c_put c (c_get c s + v) s) (\<lambda>s. Ret (c_get c s))"

definition atomic_or :: "('s, u32) cell \<Rightarrow> u32 \<Rightarrow> ('s, u32) prog" where
  [atomic_defs]: "atomic_or c v = Act (\<lambda>s. c_put c (c_get c s OR v) s) (\<lambda>s. Ret (c_get c s))"

definition atomic_and :: "('s, u32) cell \<Rightarrow> u32 \<Rightarrow> ('s, u32) prog" where
  [atomic_defs]: "atomic_and c v = Act (\<lambda>s. c_put c (c_get c s AND v) s) (\<lambda>s. Ret (c_get c s))"

subsection \<open>64-bit operations on two limbs\<close>

text \<open>
  \<open>union hurd_xint\<close> of \<open>hurd/xint.h\<close> on a little-endian machine: the low limb lies at the address of
  the whole, the high limb four bytes on.
\<close>

record xint =
  lo :: u32
  hi :: u32

definition qv :: "xint \<Rightarrow> u64" where
  "qv x = (push_bit 32 (ucast (hi x)) OR ucast (lo x))"

definition xint_of :: "u64 \<Rightarrow> xint" where
  "xint_of q = \<lparr>lo = ucast q, hi = ucast (drop_bit 32 q)\<rparr>"

text \<open>A member of a structure, from the cell of the structure and the member's offset.\<close>

definition field ::
  "u32 \<Rightarrow> ('r \<Rightarrow> 'v) \<Rightarrow> (('v \<Rightarrow> 'v) \<Rightarrow> 'r \<Rightarrow> 'r) \<Rightarrow> ('s, 'r) cell \<Rightarrow> ('s, 'v) cell" where
  "field off get upd c = \<lparr>c_addr = c_addr c + off, c_get = (\<lambda>s. get (c_get c s)),
    c_put = (\<lambda>v s. c_put c (upd (\<lambda>_. v) (c_get c s)) s)\<rparr>"

lemma field_sel [simp]:
  "c_addr (field off get upd c) = c_addr c + off"
  "c_get (field off get upd c) s = get (c_get c s)"
  "c_put (field off get upd c) v s = c_put c (upd (\<lambda>_. v) (c_get c s)) s"
  by (simp_all add: field_def)

definition lo_cell :: "('s, xint) cell \<Rightarrow> ('s, u32) cell" where
  "lo_cell = field 0 lo lo_update"

definition hi_cell :: "('s, xint) cell \<Rightarrow> ('s, u32) cell" where
  "hi_cell = field 4 hi hi_update"

definition atomic_loadx :: "('s, xint) cell \<Rightarrow> ('s, xint) prog" where
  [atomic_defs]: "atomic_loadx c = Act id (\<lambda>s. Ret (c_get c s))"

definition atomic_storex :: "('s, xint) cell \<Rightarrow> u64 \<Rightarrow> ('s, unit) prog" where
  [atomic_defs]: "atomic_storex c q = Act (c_put c (xint_of q)) (\<lambda>_. Ret ())"

definition atomic_casx_bool ::
  "('s, xint) cell \<Rightarrow> u32 \<Rightarrow> u32 \<Rightarrow> u32 \<Rightarrow> u32 \<Rightarrow> ('s, bool) prog" where
  [atomic_defs]: "atomic_casx_bool c elo ehi nlo nhi =
    Act (\<lambda>s. if c_get c s = \<lparr>lo = elo, hi = ehi\<rparr> then c_put c \<lparr>lo = nlo, hi = nhi\<rparr> s else s)
      (\<lambda>s. Ret (c_get c s = \<lparr>lo = elo, hi = ehi\<rparr>))"

text \<open>\<open>atomic_addx_mem\<close> of \<open>pt-internal.h\<close>: add to both limbs, without a carry between them.\<close>

definition atomic_addx_mem :: "('s, xint) cell \<Rightarrow> u32 \<Rightarrow> u32 \<Rightarrow> ('s, xint) prog" where
  [code_defs]: "atomic_addx_mem c lv hv = loop (\<lambda>_.
     bind (atomic_loadx c) (\<lambda>tmp.
     bind (atomic_casx_bool c (lo tmp) (hi tmp) (lo tmp + lv) (hi tmp + hv)) (\<lambda>ok.
     if ok then leave tmp else again ()))) ()"

definition atomic_addx_lo :: "('s, xint) cell \<Rightarrow> u32 \<Rightarrow> ('s, xint) prog" where
  [code_defs]: "atomic_addx_lo c v = atomic_addx_mem c v 0"

definition atomic_addx_hi :: "('s, xint) cell \<Rightarrow> u32 \<Rightarrow> ('s, xint) prog" where
  [code_defs]: "atomic_addx_hi c v = atomic_addx_mem c 0 v"

lemma xint_of_qv: "xint_of (qv x) = x"
proof -
  have "ucast (push_bit 32 (ucast (hi x)) OR ucast (lo x) :: u64) = lo x"
    by (rule bit_word_eqI) (auto simp: bit_simps)
  moreover have "ucast (drop_bit 32 (push_bit 32 (ucast (hi x)) OR ucast (lo x) :: u64)) = hi x"
    by (rule bit_word_eqI) (auto simp: bit_simps dest: bit_imp_le_length)
  ultimately show ?thesis by (simp add: xint_of_def qv_def)
qed

lemma qv_xint_of: "qv (xint_of q) = q"
  by (rule bit_word_eqI) (auto simp: qv_def xint_of_def bit_simps)

text \<open>Storing a 32-bit value through the whole clears the high limb.\<close>

lemma xint_of_ucast: "xint_of (ucast (v :: u32)) = \<lparr>lo = v, hi = 0\<rparr>"
proof -
  have "ucast (ucast v :: u64) = v" by (rule bit_word_eqI) (auto simp: bit_simps)
  moreover have "ucast (drop_bit 32 (ucast v :: u64)) = (0 :: u32)"
    by (rule bit_word_eqI) (auto simp: bit_simps dest: bit_imp_le_length)
  ultimately show ?thesis by (simp add: xint_of_def)
qed

text \<open>A member of a variable is a variable, provided its selector and update fit together.\<close>

locale mem_field = mem_cell c for c :: "('s, 'r) cell" +
  fixes off :: u32 and get :: "'r \<Rightarrow> 'v" and upd :: "('v \<Rightarrow> 'v) \<Rightarrow> 'r \<Rightarrow> 'r"
  assumes get_upd: "get (upd f x) = f (get x)"
    and upd_upd: "upd f (upd g x) = upd (f \<circ> g) x"
    and upd_same: "upd (\<lambda>_. get x) x = x"

sublocale mem_field \<subseteq> fld: mem_cell "field off get upd c"
  by unfold_locales (simp_all add: get_upd upd_upd upd_same comp_def)

lemma lo_cell_sel [simp]:
  "c_addr (lo_cell c) = c_addr c"
  "c_get (lo_cell c) s = lo (c_get c s)"
  "c_put (lo_cell c) v s = c_put c ((c_get c s)\<lparr>lo := v\<rparr>) s"
  by (simp_all add: lo_cell_def)

lemma hi_cell_sel [simp]:
  "c_addr (hi_cell c) = c_addr c + 4"
  "c_get (hi_cell c) s = hi (c_get c s)"
  "c_put (hi_cell c) v s = c_put c ((c_get c s)\<lparr>hi := v\<rparr>) s"
  by (simp_all add: hi_cell_def)

subsection \<open>The operations in a solo run\<close>

lemma run_load [runs]:
  "exec M (bind (load c) f) rs s l = exec M (f (c_get c s)) rs s l"
  "exec M (load c) rs s l = Some (c_get c s, s, rs, l)"
  by (simp_all add: load_def)

lemma run_atomic_load [runs]:
  "exec M (bind (atomic_load c) f) rs s l = exec M (f (c_get c s)) rs s l"
  "exec M (atomic_load c) rs s l = Some (c_get c s, s, rs, l)"
  by (simp_all add: atomic_load_def)

lemma run_store [runs]:
  "exec M (bind (store c v) g) rs s l = exec M (g ()) rs (c_put c v s) l"
  "exec M (store c v) rs s l = Some ((), c_put c v s, rs, l)"
  by (simp_all add: store_def)

lemma run_atomic_store [runs]:
  "exec M (bind (atomic_store c v) g) rs s l = exec M (g ()) rs (c_put c v s) l"
  "exec M (atomic_store c v) rs s l = Some ((), c_put c v s, rs, l)"
  by (simp_all add: atomic_store_def)

lemma run_atomic_swap [runs]:
  "exec M (bind (atomic_swap c v) f) rs s l = exec M (f (c_get c s)) rs (c_put c v s) l"
  "exec M (atomic_swap c v) rs s l = Some (c_get c s, c_put c v s, rs, l)"
  by (simp_all add: atomic_swap_def)

lemma run_atomic_cas_bool [runs]:
  "exec M (bind (atomic_cas_bool c e n) h) rs s l =
    (if c_get c s = e then exec M (h True) rs (c_put c n s) l else exec M (h False) rs s l)"
  "exec M (atomic_cas_bool c e n) rs s l =
    Some (c_get c s = e, if c_get c s = e then c_put c n s else s, rs, l)"
  by (simp_all add: atomic_cas_bool_def)

lemma run_atomic_add [runs]:
  "exec M (bind (atomic_add w v) k) rs s l = exec M (k (c_get w s)) rs (c_put w (c_get w s + v) s) l"
  "exec M (atomic_add w v) rs s l = Some (c_get w s, c_put w (c_get w s + v) s, rs, l)"
  by (simp_all add: atomic_add_def)

lemma run_atomic_or [runs]:
  "exec M (bind (atomic_or w v) k) rs s l = exec M (k (c_get w s)) rs (c_put w (c_get w s OR v) s) l"
  "exec M (atomic_or w v) rs s l = Some (c_get w s, c_put w (c_get w s OR v) s, rs, l)"
  by (simp_all add: atomic_or_def)

lemma run_atomic_and [runs]:
  "exec M (bind (atomic_and w v) k) rs s l = exec M (k (c_get w s)) rs (c_put w (c_get w s AND v) s) l"
  "exec M (atomic_and w v) rs s l = Some (c_get w s, c_put w (c_get w s AND v) s, rs, l)"
  by (simp_all add: atomic_and_def)

lemma run_atomic_loadx [runs]:
  "exec M (bind (atomic_loadx x) p) rs s l = exec M (p (c_get x s)) rs s l"
  by (simp add: atomic_loadx_def)

lemma run_atomic_storex [runs]:
  "exec M (bind (atomic_storex x q) g) rs s l = exec M (g ()) rs (c_put x (xint_of q) s) l"
  by (simp add: atomic_storex_def)

lemma run_atomic_casx_bool [runs]:
  "exec M (bind (atomic_casx_bool x elo ehi nlo nhi) h) rs s l =
    (if c_get x s = \<lparr>lo = elo, hi = ehi\<rparr> then exec M (h True) rs (c_put x \<lparr>lo = nlo, hi = nhi\<rparr> s) l
     else exec M (h False) rs s l)"
  by (simp add: atomic_casx_bool_def)

lemma run_iter [runs]:
  "exec M (iter b (bind (load c) f)) rs s l = exec M (iter b (f (c_get c s))) rs s l"
  "exec M (iter b (bind (atomic_load c) f)) rs s l = exec M (iter b (f (c_get c s))) rs s l"
  "exec M (iter b (bind (store c v) g)) rs s l = exec M (iter b (g ())) rs (c_put c v s) l"
  "exec M (iter b (bind (atomic_store c v) g)) rs s l = exec M (iter b (g ())) rs (c_put c v s) l"
  "exec M (iter b (bind (atomic_swap c v) f)) rs s l = exec M (iter b (f (c_get c s))) rs (c_put c v s) l"
  "exec M (iter b (bind (atomic_cas_bool c e n) h)) rs s l =
    (if c_get c s = e then exec M (iter b (h True)) rs (c_put c n s) l
     else exec M (iter b (h False)) rs s l)"
  "exec M (iter b (bind (atomic_loadx x) p)) rs s l = exec M (iter b (p (c_get x s))) rs s l"
  "exec M (iter b (bind (atomic_casx_bool x elo ehi nlo nhi) h)) rs s l =
    (if c_get x s = \<lparr>lo = elo, hi = ehi\<rparr>
     then exec M (iter b (h True)) rs (c_put x \<lparr>lo = nlo, hi = nhi\<rparr> s) l
     else exec M (iter b (h False)) rs s l)"
  by (simp_all add: atomic_defs)

lemma run_atomic_addx [runs]:
  "exec M (bind (atomic_addx_mem x lv hv) p) rs s l =
    exec M (p (c_get x s)) rs (c_put x \<lparr>lo = lo (c_get x s) + lv, hi = hi (c_get x s) + hv\<rparr> s) l"
proof -
  have "exec M (atomic_addx_mem x lv hv) rs s l =
      Some (c_get x s, c_put x \<lparr>lo = lo (c_get x s) + lv, hi = hi (c_get x s) + hv\<rparr> s, rs, l)"
    by (simp add: atomic_addx_mem_def exec_loop run_iter)
  then show ?thesis by (rule exec_bind)
qed

lemma within_load: "(\<And>a. Q a) \<Longrightarrow> within M n Q (load c)"
  by (simp add: load_def within_Act within_Ret)

lemma within_store: "Q () \<Longrightarrow> within M n Q (store c v)"
  by (simp add: store_def within_Act within_Ret)

lemma within_sys: "0 < n \<Longrightarrow> (\<And>r. Q r) \<Longrightarrow> within M n Q (sys c)"
  by (simp add: sys_def within_Sys within_Ret)

text \<open>Reading and writing memory in front of a program costs no call.\<close>

lemma within_bind_load: "(\<And>a. within M n Q (f a)) \<Longrightarrow> within M n Q (bind (load c) f)"
  by (simp add: load_def within_Act)

lemma within_bind_store: "within M n Q (f ()) \<Longrightarrow> within M n Q (bind (store c v) f)"
  by (simp add: store_def within_Act)

subsection \<open>The operations within an interleaving\<close>

lemma safe_load:
  assumes "\<And>s G. I s G \<Longrightarrow> G t = g \<Longrightarrow> Q (c_get c s) g"
  shows "safe A I M t Q g (load c)"
  unfolding load_def by (rule safe_ActI [where h = "\<lambda>_. g"]) (auto simp: assms)

lemma safe_atomic_load:
  assumes "\<And>s G. I s G \<Longrightarrow> G t = g \<Longrightarrow> Q (c_get c s) g"
  shows "safe A I M t Q g (atomic_load c)"
  unfolding atomic_load_def by (rule safe_ActI [where h = "\<lambda>_. g"]) (auto simp: assms)

lemma safe_store:
  assumes "\<And>s G. I s G \<Longrightarrow> G t = g \<Longrightarrow> I (c_put c v s) (G(t := g'))" and "Q () g'"
  shows "safe A I M t Q g (store c v)"
  unfolding store_def by (rule safe_ActI [where h = "\<lambda>_. g'"]) (auto simp: assms)

lemma safe_atomic_store:
  assumes "\<And>s G. I s G \<Longrightarrow> G t = g \<Longrightarrow> I (c_put c v s) (G(t := g'))" and "Q () g'"
  shows "safe A I M t Q g (atomic_store c v)"
  unfolding atomic_store_def by (rule safe_ActI [where h = "\<lambda>_. g'"]) (auto simp: assms)

lemma safe_swap:
  assumes "\<And>s G. I s G \<Longrightarrow> G t = g \<Longrightarrow> I (c_put c v s) (G(t := h (c_get c s)))"
    and "\<And>s G. I s G \<Longrightarrow> G t = g \<Longrightarrow> Q (c_get c s) (h (c_get c s))"
  shows "safe A I M t Q g (atomic_swap c v)"
  unfolding atomic_swap_def
  by (rule safe_ActI [where h = "\<lambda>s. h (c_get c s)"]) (auto simp: assms)

lemma safe_cas:
  assumes "\<And>s G. I s G \<Longrightarrow> G t = g \<Longrightarrow> c_get c s = e \<Longrightarrow> I (c_put c n s) (G(t := g'))"
    and "Q True g'" and "Q False g"
  shows "safe A I M t Q g (atomic_cas_bool c e n)"
  unfolding atomic_cas_bool_def
  by (rule safe_ActI [where h = "\<lambda>s. if c_get c s = e then g' else g"])
    (auto simp: assms)

lemma safe_add:
  assumes "\<And>s G. I s G \<Longrightarrow> G t = g \<Longrightarrow> I (c_put c (c_get c s + v) s) (G(t := g'))"
    and "\<And>s G. I s G \<Longrightarrow> G t = g \<Longrightarrow> Q (c_get c s) g'"
  shows "safe A I M t Q g (atomic_add c v)"
  unfolding atomic_add_def by (rule safe_ActI [where h = "\<lambda>_. g'"]) (auto simp: assms)

lemma safe_loadx:
  assumes "\<And>s G. I s G \<Longrightarrow> G t = g \<Longrightarrow> Q (c_get c s) g"
  shows "safe A I M t Q g (atomic_loadx c)"
  unfolding atomic_loadx_def by (rule safe_ActI [where h = "\<lambda>_. g"]) (auto simp: assms)

lemma safe_casx:
  assumes "\<And>s G. I s G \<Longrightarrow> G t = g \<Longrightarrow> c_get c s = \<lparr>lo = elo, hi = ehi\<rparr> \<Longrightarrow>
      I (c_put c \<lparr>lo = nlo, hi = nhi\<rparr> s) (G(t := g'))"
    and "Q True g'" and "Q False g"
  shows "safe A I M t Q g (atomic_casx_bool c elo ehi nlo nhi)"
  unfolding atomic_casx_bool_def
  by (rule safe_ActI [where h = "\<lambda>s. if c_get c s = \<lparr>lo = elo, hi = ehi\<rparr> then g' else g"])
    (auto simp: assms)

lemma safe_addx:
  assumes "\<And>s G. I s G \<Longrightarrow> G t = g \<Longrightarrow>
      I (c_put c \<lparr>lo = lo (c_get c s) + lv, hi = hi (c_get c s) + hv\<rparr> s) (G(t := g'))"
    and "\<And>x. Q x g'"
  shows "safe A I M t Q g (atomic_addx_mem c lv hv)"
  unfolding atomic_addx_mem_def
proof (rule safe_loop [where J = "\<lambda>_ g1. g1 = g"], simp)
  fix x :: unit and g1 assume "g1 = g"
  show "safe A I M t (\<lambda>r g'. case r of Inl y \<Rightarrow> g' = g | Inr a \<Rightarrow> Q a g') g1
      (bind (atomic_loadx c) (\<lambda>tmp.
       bind (atomic_casx_bool c (lo tmp) (hi tmp) (lo tmp + lv) (hi tmp + hv)) (\<lambda>ok.
       if ok then leave tmp else again ())))"
    unfolding \<open>g1 = g\<close>
    by (rule safe_bind [where R = "\<lambda>_ g'. g' = g"], rule safe_loadx, simp,
        rule safe_bind [where R = "\<lambda>ok g2. g2 = (if ok then g' else g)"], rule safe_casx [where g' = g'])
      (use assms in \<open>force+\<close>)
qed


subsection \<open>A state that is one object\<close>

text \<open>The cell at address \<open>a\<close> that is the whole state: the world of a single object.\<close>

definition whole :: "u32 \<Rightarrow> ('v, 'v) cell" where
  "whole a = \<lparr>c_addr = a, c_get = (\<lambda>s. s), c_put = (\<lambda>v _. v)\<rparr>"

lemma whole_sel [simp]: "c_addr (whole a) = a" "c_get (whole a) s = s" "c_put (whole a) v s = v"
  by (simp_all add: whole_def)

interpretation whole: mem_cell "whole a" for a
  by unfold_locales simp_all

interpretation whole_lo: mem_field "whole a" 0 lo lo_update for a
  by unfold_locales simp_all

interpretation whole_hi: mem_field "whole a" 4 hi hi_update for a
  by unfold_locales simp_all

end
