(* ===== verification/Gsync.thy ===== *)
theory Gsync
  imports Atomic
begin

text \<open>
  The kernel interface: the message stubs of \<open>pthread/gsync.h\<close> (wait, wake, requeue) and of
  \<open>pthread/ttr.h\<close> (thread termination), down to the messages they send. What the kernel does
  with a message is not part of this library: the only effect on the library's memory that the
  code relies on is the documented one of \<open>GSYNC_MUTATE\<close>, stated as the contract
  \<open>gsync_contract\<close> over the kernel parameter \<open>M\<close>.
\<close>

subsection \<open>Constants of Mach and of gsync\<close>

abbreviation (input) GSYNC_SHARED :: u32 where "GSYNC_SHARED \<equiv> 0x01"
abbreviation (input) GSYNC_QUAD :: u32 where "GSYNC_QUAD \<equiv> 0x02"
abbreviation (input) GSYNC_TIMED :: u32 where "GSYNC_TIMED \<equiv> 0x04"
abbreviation (input) GSYNC_BROADCAST :: u32 where "GSYNC_BROADCAST \<equiv> 0x08"
abbreviation (input) GSYNC_MUTATE :: u32 where "GSYNC_MUTATE \<equiv> 0x10"

abbreviation (input) KERN_TIMEDOUT :: int where "KERN_TIMEDOUT \<equiv> 27"
abbreviation (input) KERN_INTERRUPTED :: int where "KERN_INTERRUPTED \<equiv> 28"

abbreviation (input) MACH_MSG_SUCCESS :: int where "MACH_MSG_SUCCESS \<equiv> 0"
abbreviation (input) MIG_REPLY_MISMATCH :: int where "MIG_REPLY_MISMATCH \<equiv> -301"
abbreviation (input) MIG_SERVER_DIED :: int where "MIG_SERVER_DIED \<equiv> -308"
abbreviation (input) MACH_NOTIFY_SEND_ONCE :: int where "MACH_NOTIFY_SEND_ONCE \<equiv> 71"
abbreviation (input) MACH_MSG_TYPE_MAKE_SEND_ONCE :: u32 where "MACH_MSG_TYPE_MAKE_SEND_ONCE \<equiv> 21"
abbreviation (input) MACH_MSGH_BITS_COMPLEX :: u32 where "MACH_MSGH_BITS_COMPLEX \<equiv> 0x80000000"

definition MACH_MSGH_BITS :: "u32 \<Rightarrow> u32 \<Rightarrow> u32" where
  "MACH_MSGH_BITS remote local = remote OR push_bit 8 local"

definition msg_type :: "int \<Rightarrow> mach_msg_type" where
  "msg_type name = \<lparr>msgt_name = name, msgt_size = 32, msgt_number = 1, msgt_inline = True,
    msgt_longform = False, msgt_deallocate = False, msgt_unused = 0\<rparr>"

subsection \<open>The stubs\<close>

definition gsync_wait_request ::
  "mport \<Rightarrow> mport \<Rightarrow> u32 \<Rightarrow> u32 \<Rightarrow> u32 \<Rightarrow> u32 \<Rightarrow> u32 \<Rightarrow> mach_msg" where
  "gsync_wait_request task rport addr val1 val2 msec flags =
    \<lparr>msgh_bits = MACH_MSGH_BITS 19 MACH_MSG_TYPE_MAKE_SEND_ONCE,
     msgh_request_port = task, msgh_reply_port = rport, msgh_seqno = 0, msgh_id = 4204,
     msg_body = [(msg_type 2, Word addr), (msg_type 2, Word val1), (msg_type 2, Word val2),
       (msg_type 2, Word msec), (msg_type 2, Word flags)]\<rparr>"

definition gsync_wait ::
  "mport \<Rightarrow> u32 \<Rightarrow> u32 \<Rightarrow> u32 \<Rightarrow> u32 \<Rightarrow> u32 \<Rightarrow> ('s, int) prog" where
  [code_defs]: "gsync_wait task addr val1 val2 msec flags =
    bind (sys MigGetReplyPort) (\<lambda>p.
    bind (sys (IntrRpc (gsync_wait_request task (r_port p) addr val1 val2 msec flags) 64 32)) (\<lambda>r.
    if r_code r \<noteq> MACH_MSG_SUCCESS then
      bind (sys (MigDeallocReplyPort (r_port p))) (\<lambda>_. Ret (r_code r))
    else
      bind (sys (MigPutReplyPort (r_port p))) (\<lambda>_.
      if r_head_id r \<noteq> 4304 then
        (if r_head_id r = MACH_NOTIFY_SEND_ONCE then Ret MIG_SERVER_DIED
         else bind (sys (MigDeallocReplyPort (r_port p))) (\<lambda>_. Ret MIG_REPLY_MISMATCH))
      else Ret (r_retcode r))))"

definition gsync_wake_request :: "mport \<Rightarrow> u32 \<Rightarrow> u32 \<Rightarrow> u32 \<Rightarrow> mach_msg" where
  "gsync_wake_request task addr val flags =
    \<lparr>msgh_bits = MACH_MSGH_BITS 19 0, msgh_request_port = task,
     msgh_reply_port = MACH_PORT_NULL, msgh_seqno = 0, msgh_id = 4205,
     msg_body = [(msg_type 2, Word addr), (msg_type 2, Word val), (msg_type 2, Word flags)]\<rparr>"

definition gsync_wake :: "mport \<Rightarrow> u32 \<Rightarrow> u32 \<Rightarrow> u32 \<Rightarrow> ('s, int) prog" where
  [code_defs]: "gsync_wake task addr val flags =
    bind (sys (SendMsg (gsync_wake_request task addr val flags) 48)) (\<lambda>r. Ret (r_code r))"

definition gsync_requeue_request :: "mport \<Rightarrow> u32 \<Rightarrow> u32 \<Rightarrow> bool \<Rightarrow> u32 \<Rightarrow> mach_msg" where
  "gsync_requeue_request task src dst wake_one flags =
    \<lparr>msgh_bits = MACH_MSGH_BITS 19 0, msgh_request_port = task,
     msgh_reply_port = MACH_PORT_NULL, msgh_seqno = 0, msgh_id = 4206,
     msg_body = [(msg_type 2, Word src), (msg_type 2, Word dst), (msg_type 0, Word (of_bool wake_one)),
       (msg_type 2, Word flags)]\<rparr>"

definition gsync_requeue :: "mport \<Rightarrow> u32 \<Rightarrow> u32 \<Rightarrow> bool \<Rightarrow> u32 \<Rightarrow> ('s, int) prog" where
  [code_defs]: "gsync_requeue task src dst wake_one flags =
    bind (sys (SendMsg (gsync_requeue_request task src dst wake_one flags) 56)) (\<lambda>r.
    Ret (r_code r))"

definition ttr2_request ::
  "mport \<Rightarrow> mport \<Rightarrow> mport \<Rightarrow> mport \<Rightarrow> u32 \<Rightarrow> u32 \<Rightarrow> u32 \<Rightarrow> mach_msg" where
  "ttr2_request thread task thread_name reply_port address sz death_event =
    \<lparr>msgh_bits = MACH_MSGH_BITS_COMPLEX OR MACH_MSGH_BITS 19 0, msgh_request_port = thread,
     msgh_reply_port = MACH_PORT_NULL, msgh_seqno = 0, msgh_id = 4207,
     msg_body = [(msg_type 19, Port task), (msg_type 15, Port thread_name),
       (msg_type 15, Port reply_port), (msg_type 2, Word address), (msg_type 2, Word sz),
       (msg_type 2, Word death_event)]\<rparr>"

definition thread_terminate_release2 ::
  "mport \<Rightarrow> mport \<Rightarrow> mport \<Rightarrow> mport \<Rightarrow> u32 \<Rightarrow> u32 \<Rightarrow> u32 \<Rightarrow> ('s, int) prog" where
  [code_defs]: "thread_terminate_release2 thread task thread_name reply_port address sz death_event =
    bind (sys (SendMsg (ttr2_request thread task thread_name reply_port address sz death_event) 72))
      (\<lambda>r. Ret (r_code r))"

subsection \<open>The kernel's side, as the library relies on it\<close>

text \<open>The word and the value that a message makes the kernel write: a wake-up with \<open>GSYNC_MUTATE\<close>.\<close>

definition mutation :: "kcall \<Rightarrow> (u32 \<times> u32) option" where
  "mutation call = (case call of
     SendMsg m _ \<Rightarrow>
       (case map snd (msg_body m) of
          [Word addr, Word val, Word flags] \<Rightarrow>
            if msgh_id m = 4205 \<and> flags AND GSYNC_MUTATE \<noteq> 0 then Some (addr, val) else None
        | _ \<Rightarrow> None)
   | _ \<Rightarrow> None)"

definition gsync_contract :: "'s keff \<Rightarrow> ('s, u32) cell \<Rightarrow> bool" where
  "gsync_contract M c \<longleftrightarrow> (\<forall>call s. M call s = (case mutation call of
     Some (a, v) \<Rightarrow> if a = c_addr c then c_put c v s else s
   | None \<Rightarrow> s))"

text \<open>A kernel that does just this; it is the instance the witnesses use.\<close>

definition gsync_effect :: "('s, u32) cell \<Rightarrow> 's keff" where
  "gsync_effect c call s = (case mutation call of
     Some (a, v) \<Rightarrow> if a = c_addr c then c_put c v s else s
   | None \<Rightarrow> s)"

lemma gsync_effect_contract [simp]: "gsync_contract (gsync_effect c) c"
  by (simp add: gsync_contract_def gsync_effect_def)

lemma gsync_contract_iff: "gsync_contract M c \<longleftrightarrow> M = gsync_effect c"
  by (auto simp: gsync_contract_def gsync_effect_def fun_eq_iff)

lemma gsync_effect_None [simp]: "mutation call = None \<Longrightarrow> gsync_effect c call s = s"
  by (simp add: gsync_effect_def)

lemma mutation_simps [simp]:
  "mutation MigGetReplyPort = None"
  "mutation (MigDeallocReplyPort p) = None"
  "mutation (MigPutReplyPort p) = None"
  "mutation (IntrRpc m x y) = None"
  "mutation (ClockGettime clk) = None"
  "mutation (Pid2Task pid) = None"
  "mutation (PortDeallocate p) = None"
  "mutation (Callback f a) = None"
  "mutation (Lib fn xs) = None"
  "mutation (SendMsg (gsync_wake_request task addr val flags) n) =
    (if flags AND GSYNC_MUTATE \<noteq> 0 then Some (addr, val) else None)"
  "mutation (SendMsg (gsync_requeue_request task src dst w flags) n) = None"
  "mutation (SendMsg (ttr2_request th task nm rp ad sz ev) n) = None"
  by (simp_all add: mutation_def gsync_wake_request_def gsync_requeue_request_def ttr2_request_def)

lemma gsync_contractD:
  "gsync_contract M c \<Longrightarrow> M call s = (case mutation call of
     Some (a, v) \<Rightarrow> if a = c_addr c then c_put c v s else s | None \<Rightarrow> s)"
  by (simp add: gsync_contract_def)

lemma gsync_contract_None: "gsync_contract M c \<Longrightarrow> mutation call = None \<Longrightarrow> M call s = s"
  by (simp add: gsync_contract_def)

subsection \<open>Properties of the messages\<close>

text \<open>The sizes passed for sending are the header's 24 bytes and 8 bytes for each body item.\<close>

definition msg_size :: "mach_msg \<Rightarrow> int" where
  "msg_size m = 24 + 8 * int (length (msg_body m))"

lemma gsync_wait_request_inject [simp]:
  "gsync_wait_request t p a v1 v2 ms f = gsync_wait_request t' p' a' v1' v2' ms' f' \<longleftrightarrow>
    t = t' \<and> p = p' \<and> a = a' \<and> v1 = v1' \<and> v2 = v2' \<and> ms = ms' \<and> f = f'"
  by (auto simp: gsync_wait_request_def)

lemma gsync_wake_request_inject [simp]:
  "gsync_wake_request t a v f = gsync_wake_request t' a' v' f' \<longleftrightarrow>
    t = t' \<and> a = a' \<and> v = v' \<and> f = f'"
  by (auto simp: gsync_wake_request_def)

lemma gsync_requeue_request_inject [simp]:
  "gsync_requeue_request t a b w f = gsync_requeue_request t' a' b' w' f' \<longleftrightarrow>
    t = t' \<and> a = a' \<and> b = b' \<and> w = w' \<and> f = f'"
  by (auto simp: gsync_requeue_request_def)

subsection \<open>The stubs within an interleaving\<close>

text \<open>A call that the kernel answers without touching the library's memory.\<close>

lemma safe_sys:
  assumes "gsync_contract M c" and "mutation call = None" and "\<not> is_Callback call"
    and "\<And>r. Q r g"
  shows "safe A I M t Q g (sys call)"
  unfolding sys_def
  by (rule safe_Sys_skip) (use assms gsync_contract_None in auto)

lemma safe_gsync_wait:
  assumes "gsync_contract M c" and "\<And>r. Q r g"
  shows "safe A I M t Q g (gsync_wait task addr val1 val2 msec flags)"
  unfolding gsync_wait_def
  by (rule safe_bind [where R = "\<lambda>_ g'. g' = g"], rule safe_sys [OF assms(1)], simp_all,
      rule safe_bind [where R = "\<lambda>_ g'. g' = g"], rule safe_sys [OF assms(1)],
      auto intro!: safe_bind [where R = "\<lambda>_ g'. g' = g"] safe_sys [OF assms(1)] assms(2))

lemma safe_gsync_wake:
  assumes "gsync_contract M c" and "flags AND GSYNC_MUTATE = 0" and "\<And>r. Q r g"
  shows "safe A I M t Q g (gsync_wake task addr val flags)"
  unfolding gsync_wake_def
  by (rule safe_bind [where R = "\<lambda>_ g'. g' = g"], rule safe_sys [OF assms(1)])
    (auto simp: assms)

lemma idle_gsync_wait:
  assumes "gsync_contract M c"
  shows "idle M (gsync_wait task addr val1 val2 msec flags)"
  using gsync_contract_None [OF assms] by (simp add: gsync_wait_def sys_def)

definition well_sized :: "kcall \<Rightarrow> bool" where
  "well_sized call = (case call of
     IntrRpc m snd_sz _ \<Rightarrow> snd_sz = msg_size m
   | SendMsg m snd_sz \<Rightarrow> snd_sz = msg_size m
   | _ \<Rightarrow> True)"

lemma msg_sizes:
  "msg_size (gsync_wait_request task p addr v1 v2 ms fl) = 64"
  "msg_size (gsync_wake_request task addr v fl) = 48"
  "msg_size (gsync_requeue_request task src dst w fl) = 56"
  "msg_size (ttr2_request th task nm rp ad sz ev) = 72"
  by (simp_all add: msg_size_def gsync_wait_request_def gsync_wake_request_def
      gsync_requeue_request_def ttr2_request_def)


subsection \<open>Properties\<close>

text \<open>
  What a wait comes to, for each answer of the kernel: a failed send gives the reply port up and
  returns the message error; a proper reply returns the kernel's result; a death notice and
  a reply with a foreign identifier have their own errors, and the latter gives the port up as well.
\<close>

theorem gsync_wait_outcomes:
  "exec M (gsync_wait task addr v1 v2 ms fl) (p # r # r1 # r2 # rs) s [] =
    (let req = gsync_wait_request task (r_port p) addr v1 v2 ms fl;
         s' = M (IntrRpc req 64 32) (M MigGetReplyPort s) in
     if r_code r \<noteq> MACH_MSG_SUCCESS then
       Some (r_code r, M (MigDeallocReplyPort (r_port p)) s', r2 # rs,
         [MigGetReplyPort, IntrRpc req 64 32, MigDeallocReplyPort (r_port p)])
     else if r_head_id r = 4304 then
       Some (r_retcode r, M (MigPutReplyPort (r_port p)) s', r2 # rs,
         [MigGetReplyPort, IntrRpc req 64 32, MigPutReplyPort (r_port p)])
     else if r_head_id r = MACH_NOTIFY_SEND_ONCE then
       Some (MIG_SERVER_DIED, M (MigPutReplyPort (r_port p)) s', r2 # rs,
         [MigGetReplyPort, IntrRpc req 64 32, MigPutReplyPort (r_port p)])
     else
       Some (MIG_REPLY_MISMATCH, M (MigDeallocReplyPort (r_port p)) (M (MigPutReplyPort (r_port p)) s'),
         rs, [MigGetReplyPort, IntrRpc req 64 32, MigPutReplyPort (r_port p),
           MigDeallocReplyPort (r_port p)]))"
  by (simp add: gsync_wait_def sys_def Let_def)

text \<open>
  C29. The size that each stub passes for the message it sends is the size of that message.
\<close>

theorem stubs_well_sized:
  assumes "p \<in> {gsync_wait task addr v1 v2 ms fl, gsync_wake task addr v fl,
      gsync_requeue task src dst w fl, thread_terminate_release2 th task nm rp ad sz ev}"
    and "exec M p rs s [] = Some (x, s', rs', l)"
  shows "\<forall>c\<in>set l. well_sized c"
proof -
  have "\<forall>c\<in>set l. well_sized c" if "exec M (gsync_wait task addr v1 v2 ms fl) rs s [] = Some (x, s', rs', l)"
    using that by (auto simp: gsync_wait_def sys_def exec_Sys_cases well_sized_def msg_sizes
        split: if_splits list.splits)
  moreover have "\<forall>c\<in>set l. well_sized c" if "exec M (gsync_wake task addr v fl) rs s [] = Some (x, s', rs', l)"
    using that by (auto simp: gsync_wake_def sys_def exec_Sys_cases well_sized_def msg_sizes
        split: if_splits list.splits)
  moreover have "\<forall>c\<in>set l. well_sized c" if "exec M (gsync_requeue task src dst w fl) rs s [] = Some (x, s', rs', l)"
    using that by (auto simp: gsync_requeue_def sys_def exec_Sys_cases well_sized_def msg_sizes
        split: if_splits list.splits)
  moreover have "\<forall>c\<in>set l. well_sized c" if "exec M (thread_terminate_release2 th task nm rp ad sz ev) rs s [] = Some (x, s', rs', l)"
    using that by (auto simp: thread_terminate_release2_def sys_def exec_Sys_cases well_sized_def msg_sizes
        split: if_splits list.splits)
  ultimately show ?thesis using assms by (elim insertE) simp_all
qed


lemma stubs_well_sized_witness:
  "exec (\<lambda>_ s. s) (gsync_wake MachTaskSelf 4096 0 1) [reply0] (0 :: nat) [] =
      Some (0, 0, [], [SendMsg (gsync_wake_request MachTaskSelf 4096 0 1) 48]) \<and>
    well_sized (SendMsg (gsync_wake_request MachTaskSelf 4096 0 1) 48)"
proof
  show e: "exec (\<lambda>_ s. s) (gsync_wake MachTaskSelf 4096 0 1) [reply0] (0 :: nat) [] =
      Some (0, 0, [], [SendMsg (gsync_wake_request MachTaskSelf 4096 0 1) 48])"
    by (simp add: gsync_wake_def sys_def)
  show "well_sized (SendMsg (gsync_wake_request MachTaskSelf 4096 0 1) 48)"
    using stubs_well_sized [OF _ e, of MachTaskSelf 4096 _ _ _ 1 0] by simp
qed

end
