(* ===== verification/LowLevelLock.thy ===== *)
theory LowLevelLock
  imports Gsync
begin

text \<open>
  \<open>pthread/lowlevellock.c\<close>: the wrappers around the gsync calls, the three-state lock
  (0 free, 1 held, 2 held and perhaps contended) and the robust lock, whose word holds the owner's
  process id. The process id that \<open>getpid\<close> answers is the parameter \<open>pid\<close>.
\<close>

abbreviation (input) LLL_WAITERS :: u32 where "LLL_WAITERS \<equiv> 0x80000000"
abbreviation (input) LLL_DEAD_OWNER :: u32 where "LLL_DEAD_OWNER \<equiv> 0x40000000"
abbreviation (input) LLL_OWNER_MASK :: u32 where "LLL_OWNER_MASK \<equiv> 0x3FFFFFFF"
abbreviation (input) CLOCK_REALTIME :: int where "CLOCK_REALTIME \<equiv> 0"

subsection \<open>Waiting\<close>

definition lll_wait :: "('s, u32) cell \<Rightarrow> u32 \<Rightarrow> u32 \<Rightarrow> ('s, int) prog" where
  [code_defs]: "lll_wait ptr val flags = gsync_wait MachTaskSelf (c_addr ptr) val 0 0 flags"

definition lll_xwait :: "('s, u32) cell \<Rightarrow> u32 \<Rightarrow> u32 \<Rightarrow> u32 \<Rightarrow> ('s, int) prog" where
  [code_defs]: "lll_xwait ptr l h flags =
    gsync_wait MachTaskSelf (c_addr ptr) l h 0 (flags OR GSYNC_QUAD)"

definition lll_timed_wait :: "('s, u32) cell \<Rightarrow> u32 \<Rightarrow> int \<Rightarrow> u32 \<Rightarrow> ('s, int) prog" where
  [code_defs]: "lll_timed_wait ptr val mlsec flags =
    gsync_wait MachTaskSelf (c_addr ptr) val 0 (word_of_int mlsec) (flags OR GSYNC_TIMED)"

definition lll_timed_xwait ::
  "('s, u32) cell \<Rightarrow> u32 \<Rightarrow> u32 \<Rightarrow> int \<Rightarrow> u32 \<Rightarrow> ('s, int) prog" where
  [code_defs]: "lll_timed_xwait ptr l h mlsec flags =
    gsync_wait MachTaskSelf (c_addr ptr) l h (word_of_int mlsec)
      (flags OR GSYNC_TIMED OR GSYNC_QUAD)"

text \<open>
  \<open>compute_reltime\<close>, first as a function of the deadline and the time read. The members are
  32-bit, so every subtraction, and the product by 1000, wraps as the compiled code does.
\<close>

definition reltime :: "timespec \<Rightarrow> timespec \<Rightarrow> int" where
  "reltime abst now =
    (let sec = tv_sec abst - tv_sec now;
         nsec = tv_nsec abst - tv_nsec now;
         (sec, nsec) = (if sint nsec < 0 then (sec - 1, nsec + 1000000000) else (sec, nsec))
     in if sint sec < 0 then -1
        else sint (sec * 1000 + word_of_int (sgn (sint nsec) * (\<bar>sint nsec\<bar> div 1000000))))"

definition compute_reltime :: "timespec \<Rightarrow> int \<Rightarrow> ('s, int) prog" where
  [code_defs]: "compute_reltime abst clk =
    bind (sys (ClockGettime clk)) (\<lambda>r. Ret (reltime abst (r_now r)))"

definition lll_abstimed_wait ::
  "('s, u32) cell \<Rightarrow> u32 \<Rightarrow> timespec \<Rightarrow> u32 \<Rightarrow> int \<Rightarrow> ('s, int) prog" where
  [code_defs]: "lll_abstimed_wait ptr val tsp flags clk =
    bind (compute_reltime tsp clk) (\<lambda>mlsec.
    if mlsec < 0 then Ret KERN_TIMEDOUT else lll_timed_wait ptr val mlsec flags)"

definition lll_abstimed_xwait ::
  "('s, u32) cell \<Rightarrow> u32 \<Rightarrow> u32 \<Rightarrow> timespec \<Rightarrow> u32 \<Rightarrow> int \<Rightarrow> ('s, int) prog" where
  [code_defs]: "lll_abstimed_xwait ptr l h tsp flags clk =
    bind (compute_reltime tsp clk) (\<lambda>mlsec.
    if mlsec < 0 then Ret KERN_TIMEDOUT else lll_timed_xwait ptr l h mlsec flags)"

subsection \<open>Waking\<close>

definition lll_wake :: "('s, u32) cell \<Rightarrow> u32 \<Rightarrow> ('s, unit) prog" where
  [code_defs]: "lll_wake ptr flags =
    bind (gsync_wake MachTaskSelf (c_addr ptr) 0 flags) (\<lambda>_. Ret ())"

definition lll_set_wake :: "('s, u32) cell \<Rightarrow> u32 \<Rightarrow> u32 \<Rightarrow> ('s, unit) prog" where
  [code_defs]: "lll_set_wake ptr val flags =
    bind (gsync_wake MachTaskSelf (c_addr ptr) val (flags OR GSYNC_MUTATE)) (\<lambda>_. Ret ())"

definition lll_requeue ::
  "('s, u32) cell \<Rightarrow> ('s, u32) cell \<Rightarrow> bool \<Rightarrow> u32 \<Rightarrow> ('s, unit) prog" where
  [code_defs]: "lll_requeue src dst wake_one flags =
    bind (gsync_requeue MachTaskSelf (c_addr src) (c_addr dst) wake_one flags) (\<lambda>_. Ret ())"

subsection \<open>The plain lock\<close>

definition lll_lock :: "('s, u32) cell \<Rightarrow> u32 \<Rightarrow> ('s, ret) prog" where
  [code_defs]: "lll_lock ptr flags =
    bind (load ptr) (\<lambda>v.
    bind (if v = 0 then atomic_cas_bool ptr 0 1 else Ret False) (\<lambda>ok.
    if ok then Ret OK
    else loop (\<lambda>_.
      bind (atomic_swap ptr 2) (\<lambda>old.
      if old = 0 then leave OK
      else bind (lll_wait ptr 2 flags) (\<lambda>_. again ()))) ()))"

definition lll_abstimed_lock ::
  "('s, u32) cell \<Rightarrow> timespec \<Rightarrow> u32 \<Rightarrow> int \<Rightarrow> ('s, ret) prog" where
  [code_defs]: "lll_abstimed_lock ptr tsp flags clk =
    bind (load ptr) (\<lambda>v.
    bind (if v = 0 then atomic_cas_bool ptr 0 1 else Ret False) (\<lambda>ok.
    if ok then Ret OK
    else loop (\<lambda>_.
      bind (atomic_swap ptr 2) (\<lambda>old.
      if old = 0 then leave OK
      else if bad_nsec tsp then leave (Err EINVAL)
      else bind (compute_reltime tsp clk) (\<lambda>mlsec.
        if mlsec < 0 then leave (Err ETIMEDOUT)
        else bind (lll_timed_wait ptr 2 mlsec flags) (\<lambda>res.
          if res = KERN_TIMEDOUT then leave (Err ETIMEDOUT) else again ())))) ()))"

definition lll_trylock :: "('s, u32) cell \<Rightarrow> ('s, ret) prog" where
  [code_defs]: "lll_trylock ptr =
    bind (load ptr) (\<lambda>v.
    bind (if v = 0 then atomic_cas_bool ptr 0 1 else Ret False) (\<lambda>ok.
    Ret (if ok then OK else Err EBUSY)))"

definition lll_unlock :: "('s, u32) cell \<Rightarrow> u32 \<Rightarrow> ('s, unit) prog" where
  [code_defs]: "lll_unlock ptr flags =
    bind (atomic_swap ptr 0) (\<lambda>old. if old \<noteq> 1 then lll_wake ptr flags else Ret ())"

subsection \<open>Robust locks\<close>

definition MAX_WAIT_TIME :: int where
  "MAX_WAIT_TIME = 1500"

definition valid_pid :: "u32 \<Rightarrow> ('s, bool) prog" where
  [code_defs]: "valid_pid pid =
    bind (sys (Pid2Task pid)) (\<lambda>r.
    if r_port r = MACH_PORT_NULL then Ret False
    else bind (sys (PortDeallocate (r_port r))) (\<lambda>_. Ret True))"

text \<open>
  The first loop of the blocking functions: take a free lock, or set the waiters bit of a held
  one. The answer says whether the lock was taken.
\<close>

definition lll_robust_enter :: "('s, u32) cell \<Rightarrow> u32 \<Rightarrow> ('s, bool) prog" where
  [code_defs]: "lll_robust_enter ptr pid = loop (\<lambda>_.
     bind (load ptr) (\<lambda>val.
     if val = 0 then
       bind (atomic_cas_bool ptr 0 pid) (\<lambda>ok. if ok then leave True else again ())
     else
       bind (atomic_cas_bool ptr val (val OR LLL_WAITERS)) (\<lambda>ok.
         if ok then leave False else again ()))) ()"

definition next_wait_time :: "int \<Rightarrow> int" where
  "next_wait_time w = (if w < MAX_WAIT_TIME then w * 2 else w)"

definition lll_robust_lock :: "('s, u32) cell \<Rightarrow> u32 \<Rightarrow> u32 \<Rightarrow> ('s, ret) prog" where
  [code_defs]: "lll_robust_lock ptr pid flags =
    bind (lll_robust_enter ptr pid) (\<lambda>taken.
    if taken then Ret OK
    else loop (\<lambda>wait_time.
      bind (load ptr) (\<lambda>val.
      bind (if val = 0 then atomic_cas_bool ptr 0 (pid OR LLL_WAITERS) else Ret False) (\<lambda>ok.
      if ok then leave OK
      else bind (if val \<noteq> 0 then valid_pid (val AND LLL_OWNER_MASK) else Ret True) (\<lambda>valid.
      if \<not> valid then
        bind (atomic_cas_bool ptr val (pid OR LLL_WAITERS)) (\<lambda>ok.
          if ok then leave (Err EOWNERDEAD) else again wait_time)
      else bind (lll_timed_wait ptr val wait_time flags) (\<lambda>_.
        again (next_wait_time wait_time)))))) 25)"

definition lll_robust_abstimed_lock ::
  "('s, u32) cell \<Rightarrow> u32 \<Rightarrow> timespec \<Rightarrow> u32 \<Rightarrow> int \<Rightarrow> ('s, ret) prog" where
  [code_defs]: "lll_robust_abstimed_lock ptr pid tsp flags clk =
    bind (lll_robust_enter ptr pid) (\<lambda>taken.
    if taken then Ret OK
    else loop (\<lambda>wait_time.
      bind (load ptr) (\<lambda>val.
      bind (if val = 0 then atomic_cas_bool ptr val (pid OR LLL_WAITERS) else Ret False) (\<lambda>ok.
      if ok then leave OK
      else bind (if val \<noteq> 0 then valid_pid (val AND LLL_OWNER_MASK) else Ret True) (\<lambda>valid.
      if \<not> valid then
        bind (atomic_cas_bool ptr val (pid OR LLL_WAITERS)) (\<lambda>ok.
          if ok then leave (Err EOWNERDEAD) else again wait_time)
      else bind (compute_reltime tsp clk) (\<lambda>mlsec.
        if mlsec < 0 then leave (Err ETIMEDOUT)
        else bind (lll_timed_wait ptr val (min mlsec wait_time) flags) (\<lambda>res.
          if res = KERN_TIMEDOUT then leave (Err ETIMEDOUT)
          else again (next_wait_time wait_time))))))) 25)"

definition lll_robust_trylock :: "('s, u32) cell \<Rightarrow> u32 \<Rightarrow> ('s, ret) prog" where
  [code_defs]: "lll_robust_trylock ptr pid =
    bind (load ptr) (\<lambda>val.
    if val = 0 then
      bind (atomic_cas_bool ptr val pid) (\<lambda>ok. Ret (if ok then OK else Err EBUSY))
    else bind (valid_pid (val AND LLL_OWNER_MASK)) (\<lambda>valid.
      if valid then Ret (Err EBUSY)
      else bind (atomic_cas_bool ptr val pid) (\<lambda>ok.
        Ret (if ok then Err EOWNERDEAD else Err EBUSY))))"

definition lll_robust_unlock :: "('s, u32) cell \<Rightarrow> u32 \<Rightarrow> ('s, unit) prog" where
  [code_defs]: "lll_robust_unlock ptr flags = loop (\<lambda>_.
     bind (load ptr) (\<lambda>val.
     if val AND LLL_WAITERS \<noteq> 0 then
       bind (lll_set_wake ptr 0 flags) (\<lambda>_. leave ())
     else bind (atomic_cas_bool ptr val 0) (\<lambda>ok.
       if ok then leave () else again ()))) ()"

subsection \<open>Solo runs\<close>

abbreviation wake_call :: "u32 \<Rightarrow> u32 \<Rightarrow> u32 \<Rightarrow> kcall" where
  "wake_call addr val flags \<equiv> SendMsg (gsync_wake_request MachTaskSelf addr val flags) 48"

lemma run_lll_wake [runs]:
  assumes "flags AND GSYNC_MUTATE = 0"
  shows "exec (gsync_effect w) (bind (lll_wake c flags) f) (r # rs) s l =
    exec (gsync_effect w) (f ()) rs s (l @ [wake_call (c_addr c) 0 flags])"
  using assms by (simp add: lll_wake_def gsync_wake_def sys_def)

lemma run_lll_set_wake [runs]:
  "exec (gsync_effect w) (bind (lll_set_wake c v flags) f) (r # rs) s l =
    exec (gsync_effect w) (f ()) rs (if c_addr c = c_addr w then c_put w v s else s)
      (l @ [wake_call (c_addr c) v (flags OR GSYNC_MUTATE)])"
  by (simp add: lll_set_wake_def gsync_wake_def sys_def gsync_effect_def)

lemma run_lll_unlock [runs]:
  assumes "flags AND GSYNC_MUTATE = 0"
  shows "exec (gsync_effect w) (bind (lll_unlock c flags) f) (r # rs) s l =
    (if c_get c s = 1 then exec (gsync_effect w) (f ()) (r # rs) (c_put c 0 s) l
     else exec (gsync_effect w) (f ()) rs (c_put c 0 s) (l @ [wake_call (c_addr c) 0 flags]))"
  using assms by (auto simp: lll_unlock_def runs lll_wake_def gsync_wake_def sys_def)

lemma exec_lll_unlock_one:
  "c_get c s = 1 \<Longrightarrow> exec M (bind (lll_unlock c flags) f) rs s l = exec M (f ()) rs (c_put c 0 s) l"
  "c_get c s = 1 \<Longrightarrow> exec M (lll_unlock c flags) rs s l = Some ((), c_put c 0 s, rs, l)"
  by (simp_all add: lll_unlock_def runs)

lemma run_lll_trylock [runs]:
  "exec M (bind (lll_trylock c) f) rs s l =
    (if c_get c s = 0 then exec M (f OK) rs (c_put c 1 s) l else exec M (f (Err EBUSY)) rs s l)"
  "exec M (lll_trylock c) rs s l =
    (if c_get c s = 0 then Some (OK, c_put c 1 s, rs, l) else Some (Err EBUSY, s, rs, l))"
  by (simp_all add: lll_trylock_def runs)

lemma run_lll_lock_free [runs]:
  assumes "c_get c s = 0"
  shows "exec M (bind (lll_lock c flags) f) rs s l = exec M (f OK) rs (c_put c 1 s) l"
    and "exec M (bind (lll_abstimed_lock c tsp flags clk) f) rs s l = exec M (f OK) rs (c_put c 1 s) l"
    and "exec M (lll_abstimed_lock c tsp flags clk) rs s l = Some (OK, c_put c 1 s, rs, l)"
  using assms by (simp_all add: lll_lock_def lll_abstimed_lock_def runs)

lemma run_valid_pid_dead [runs]:
  assumes "r_port r = MACH_PORT_NULL"
  shows "exec M (bind (valid_pid pid) f) (r # rs) s l =
    exec M (f False) rs (M (Pid2Task pid) s) (l @ [Pid2Task pid])"
  using assms by (simp add: valid_pid_def sys_def)

lemma run_iter_valid_pid_dead [runs]:
  assumes "r_port r = MACH_PORT_NULL"
  shows "exec M (iter b (bind (valid_pid pid) f)) (r # rs) s l =
    exec M (iter b (f False)) rs (M (Pid2Task pid) s) (l @ [Pid2Task pid])"
  using assms by (simp add: valid_pid_def sys_def)

lemma run_valid_pid_alive [runs]:
  assumes "r_port r \<noteq> MACH_PORT_NULL"
  shows "exec M (bind (valid_pid pid) f) (r # r' # rs) s l =
    exec M (f True) rs (M (PortDeallocate (r_port r)) (M (Pid2Task pid) s))
      (l @ [Pid2Task pid, PortDeallocate (r_port r)])"
  using assms by (simp add: valid_pid_def sys_def)

text \<open>The first loop of the robust lock calls, when nobody interferes.\<close>

lemma run_lll_robust_enter:
  "exec M (lll_robust_enter c pid) rs s l =
    (if c_get c s = 0 then Some (True, c_put c pid s, rs, l)
     else Some (False, c_put c (c_get c s OR LLL_WAITERS) s, rs, l))"
  by (simp add: lll_robust_enter_def exec_loop runs)

lemma run_lll_robust_enter_bind [runs]:
  "exec M (bind (lll_robust_enter c pid) f) rs s l =
    (if c_get c s = 0 then exec M (f True) rs (c_put c pid s) l
     else exec M (f False) rs (c_put c (c_get c s OR LLL_WAITERS) s) l)"
  using exec_bind [of M "lll_robust_enter c pid"] run_lll_robust_enter by (metis (full_types))

subsection \<open>The calls that wait or wake leave the state alone\<close>

lemma safe_lll_wait:
  assumes "gsync_contract M c" and "\<And>r. Q r g"
  shows "safe A I M t Q g (lll_wait ptr val flags)"
  unfolding lll_wait_def by (rule safe_gsync_wait) (rule assms)+

lemma safe_lll_timed_wait:
  assumes "gsync_contract M c" and "\<And>r. Q r g"
  shows "safe A I M t Q g (lll_timed_wait ptr val mlsec flags)"
  unfolding lll_timed_wait_def by (rule safe_gsync_wait) (rule assms)+

lemma safe_compute_reltime:
  assumes "gsync_contract M c" and "\<And>r. Q r g"
  shows "safe A I M t Q g (compute_reltime tsp clk)"
  unfolding compute_reltime_def
  by (rule safe_bind [where R = "\<lambda>_ g'. g' = g"], rule safe_sys [OF assms(1)])
    (auto simp: assms)

lemma safe_lll_wake:
  assumes "gsync_contract M c" and "flags AND GSYNC_MUTATE = 0" and "Q () g"
  shows "safe A I M t Q g (lll_wake ptr flags)"
  unfolding lll_wake_def
  by (rule safe_bind [where R = "\<lambda>_ g'. g' = g"], rule safe_gsync_wake [OF assms(1,2)])
    (auto simp: assms)

lemma idle_lll_abstimed_wait:
  assumes "gsync_contract M c"
  shows "idle M (lll_abstimed_wait ptr val tsp flags clk)"
  using gsync_contract_None [OF assms] idle_gsync_wait [OF assms]
  by (simp add: lll_abstimed_wait_def compute_reltime_def sys_def lll_timed_wait_def)

subsection \<open>What a user of the plain lock gets\<close>

text \<open>
  The interface between the lock and whoever keeps an invariant over the lock word: a thread in
  ghost state \<open>out\<close> may mark a held lock contended, and may turn a free lock into a held
  one when that takes it to the ghost state \<open>acq\<close>; in the ghost state \<open>rel\<close> it may clear the
  word and is \<open>out\<close> again. Every lock operation then keeps the invariant, and says by its
  result whether the lock was taken.
\<close>

locale lock_client = mem_cell c for c :: "('s, u32) cell" +
  fixes M :: "'s keff" and I :: "'s \<Rightarrow> ('t \<Rightarrow> 'g) \<Rightarrow> bool" and t :: 't
    and out acq rel :: 'g
  assumes kernel: "gsync_contract M c"
    and contend: "I s G \<Longrightarrow> G t = out \<Longrightarrow> c_get c s \<noteq> 0 \<Longrightarrow> I (c_put c 2 s) G"
    and acquire: "I s G \<Longrightarrow> G t = out \<Longrightarrow> c_get c s = 0 \<Longrightarrow> w = 1 \<or> w = 2 \<Longrightarrow>
      I (c_put c w s) (G(t := acq))"
    and release: "I s G \<Longrightarrow> G t = rel \<Longrightarrow> I (c_put c 0 s) (G(t := out))"
begin

lemma swap_lock:
  assumes "\<And>old. Q old (if old = 0 then acq else out)"
  shows "safe A I M t Q out (atomic_swap c 2)"
  by (rule safe_swap [where h = "\<lambda>old. if old = 0 then acq else out"])
    (auto simp: assms acquire contend dest: contend)

lemma cas_lock:
  "safe A I M t (\<lambda>ok g. g = (if ok then acq else out)) out
    (if v = 0 then atomic_cas_bool c 0 1 else Ret False)"
  by (auto intro!: safe_cas [where g' = acq] acquire)

lemma lock_slow:
  assumes body: "\<And>f. safe A I M t (\<lambda>r g. case r of Inl _ \<Rightarrow> g = out | Inr a \<Rightarrow> Q a g) out (slow f)"
    and "Q OK acq"
  shows "safe A I M t Q out
    (loop (\<lambda>u :: unit. bind (atomic_swap c 2) (\<lambda>old. if old = 0 then leave OK else slow u)) ())"
  by (rule safe_loop [where J = "\<lambda>_ g. g = out"], simp,
      rule safe_bind [where R = "\<lambda>old g. g = (if old = 0 then acq else out)"])
    (auto intro: swap_lock body assms(2))

lemma lll_lock_safe: "safe A I M t (\<lambda>a g. a = OK \<and> g = acq) out (lll_lock c flags)"
  unfolding lll_lock_def
  by (rule safe_bind [where R = "\<lambda>_ g. g = out"], rule safe_load, simp,
      rule safe_bind [where R = "\<lambda>ok g. g = (if ok then acq else out)"], simp add: cas_lock)
    (auto intro!: lock_slow safe_bind [where R = "\<lambda>_ g. g = out"] safe_lll_wait [OF kernel])

lemma lll_trylock_safe:
  "safe A I M t (\<lambda>a g. a = OK \<and> g = acq \<or> a = Err EBUSY \<and> g = out) out (lll_trylock c)"
  unfolding lll_trylock_def
  by (rule safe_bind [where R = "\<lambda>_ g. g = out"], rule safe_load, simp,
      rule safe_bind [where R = "\<lambda>ok g. g = (if ok then acq else out)"], simp add: cas_lock) auto

lemma lll_abstimed_lock_safe:
  "safe A I M t (\<lambda>a g. a = OK \<and> g = acq \<or> (a = Err EINVAL \<or> a = Err ETIMEDOUT) \<and> g = out) out
    (lll_abstimed_lock c tsp flags clk)"
  unfolding lll_abstimed_lock_def
  by (rule safe_bind [where R = "\<lambda>_ g. g = out"], rule safe_load, simp,
      rule safe_bind [where R = "\<lambda>ok g. g = (if ok then acq else out)"], simp add: cas_lock)
    (auto intro!: lock_slow safe_bind [where R = "\<lambda>_ g. g = out"]
      safe_lll_timed_wait [OF kernel] safe_compute_reltime [OF kernel])

lemma lll_unlock_safe:
  assumes "flags AND GSYNC_MUTATE = 0"
  shows "safe A I M t (\<lambda>_ g. g = out) rel (lll_unlock c flags)"
  unfolding lll_unlock_def
  by (rule safe_bind [where R = "\<lambda>_ g. g = out"], rule safe_swap [where h = "\<lambda>_. out"])
    (auto intro!: safe_lll_wake [OF kernel assms] release)

end

subsection \<open>The time left until a deadline\<close>

definition valid_time :: "timespec \<Rightarrow> bool" where
  "valid_time ts \<longleftrightarrow> 0 \<le> sint (tv_sec ts) \<and> \<not> bad_nsec ts"

definition nanos :: "timespec \<Rightarrow> int" where
  "nanos ts = sint (tv_sec ts) * 1000000000 + sint (tv_nsec ts)"

text \<open>The milliseconds of a normalised difference, when they fit.\<close>

lemma millis_32:
  fixes sec nsec :: u32
  assumes "0 \<le> sint sec" and "0 \<le> sint nsec" and "sint sec * 1000 + sint nsec div 1000000 < 2 ^ 31"
  shows "sint (sec * 1000 + word_of_int (sgn (sint nsec) * (\<bar>sint nsec\<bar> div 1000000))) =
    sint sec * 1000 + sint nsec div 1000000"
proof -
  have "sec * 1000 = word_of_int (sint sec * 1000)" by simp
  moreover have "sgn (sint nsec) * (\<bar>sint nsec\<bar> div 1000000) = sint nsec div 1000000"
    using assms(2) by (cases "sint nsec = 0") (auto simp: sgn_if)
  ultimately have "sec * 1000 + word_of_int (sgn (sint nsec) * (\<bar>sint nsec\<bar> div 1000000)) =
      word_of_int (sint sec * 1000 + sint nsec div 1000000)"
    by (simp only: wi_hom_add)
  then show ?thesis using sint_of_int_32 [OF _ assms(3)] assms(1,2) by simp
qed

definition norm_diff :: "timespec \<Rightarrow> timespec \<Rightarrow> u32 \<times> u32" where
  "norm_diff abst now =
    (let sec = tv_sec abst - tv_sec now; nsec = tv_nsec abst - tv_nsec now
     in if sint nsec < 0 then (sec - 1, nsec + 1000000000) else (sec, nsec))"

lemma norm_diff_exact:
  assumes "valid_time abst" and "valid_time now" and "norm_diff abst now = (sec, nsec)"
  shows "nanos abst - nanos now = sint sec * 1000000000 + sint nsec"
    and "0 \<le> sint nsec" and "sint nsec < 1000000000"
proof -
  define s1 n1 s0 n0 where d: "s1 = sint (tv_sec abst)" "n1 = sint (tv_nsec abst)"
    "s0 = sint (tv_sec now)" "n0 = sint (tv_nsec now)"
  have b: "0 \<le> s1" "0 \<le> s0" "0 \<le> n1" "n1 < 1000000000" "0 \<le> n0" "n0 < 1000000000"
    "s1 < 2 ^ 31" "s0 < 2 ^ 31"
    using assms(1,2) sint_bounds_32 by (auto simp: valid_time_def bad_nsec_def d)
  have w: "tv_sec abst - tv_sec now = word_of_int (s1 - s0)"
    "tv_nsec abst - tv_nsec now = word_of_int (n1 - n0)" by (simp_all add: d)
  have ns: "sint (word_of_int (n1 - n0) :: u32) = n1 - n0" "sint (word_of_int (s1 - s0) :: u32) = s1 - s0"
    by (rule sint_of_int_32; use b in simp)+
  have w2: "word_of_int (s1 - s0) - 1 = (word_of_int (s1 - s0 - 1) :: u32)" "word_of_int (n1 - n0) + 1000000000 = (word_of_int (n1 - n0 + 1000000000) :: u32)"
    by simp_all
  have c: "sint (word_of_int (s1 - s0 - 1) :: u32) = s1 - s0 - 1"
    by (rule sint_of_int_32; use b in simp)
  have c2: "sint (word_of_int (n1 - n0 + 1000000000) :: u32) = n1 - n0 + 1000000000" if "n1 < n0"
    by (rule sint_of_int_32; use b that in simp)
  have "sint sec * 1000000000 + sint nsec = s1 * 1000000000 + n1 - (s0 * 1000000000 + n0) \<and>
     0 \<le> sint nsec \<and> sint nsec < 1000000000"
  proof (cases "n1 < n0")
    case True
    then have "sec = word_of_int (s1 - s0 - 1)" "nsec = word_of_int (n1 - n0 + 1000000000)"
      using assms(3) unfolding norm_diff_def Let_def w ns w2 by (simp_all del: of_int_diff of_int_add)
    then show ?thesis using c c2 [OF True] b True by (simp del: of_int_diff of_int_add)
  next
    case False
    then have "sec = word_of_int (s1 - s0)" "nsec = word_of_int (n1 - n0)"
      using assms(3) unfolding norm_diff_def Let_def w ns w2 by (simp_all del: of_int_diff of_int_add)
    then show ?thesis using ns b False by (simp del: of_int_diff of_int_add)
  qed
  then show "nanos abst - nanos now = sint sec * 1000000000 + sint nsec" "0 \<le> sint nsec" "sint nsec < 1000000000"
    by (simp_all add: nanos_def flip: d)
qed

lemma reltime_millis:
  assumes "valid_time abst" and "valid_time now"
    and "nanos abst - nanos now < 2147483648 * 1000000"
  shows "reltime abst now =
    (if nanos abst < nanos now then - 1 else (nanos abst - nanos now) div 1000000)"
proof -
  obtain sec nsec where n: "norm_diff abst now = (sec, nsec)" by fastforce
  note e = norm_diff_exact [OF assms(1,2) n]
  have r: "reltime abst now = (if sint sec < 0 then -1 else sint (sec * 1000 + word_of_int (sgn (sint nsec) * (\<bar>sint nsec\<bar> div 1000000))))"
    using n by (simp add: reltime_def norm_diff_def Let_def split: if_splits)
  have neg: "nanos abst < nanos now \<longleftrightarrow> sint sec < 0" using e by linarith
  have ms: "(nanos abst - nanos now) div 1000000 = sint sec * 1000 + sint nsec div 1000000"
    unfolding e(1) by simp
  have "(nanos abst - nanos now) div 1000000 < 2147483648" using assms(3) by simp
  then have "sint sec * 1000 + sint nsec div 1000000 < 2 ^ 31" unfolding ms by simp
  with r neg ms millis_32 [of sec nsec] e(2) show ?thesis by auto
qed

subsection \<open>Properties\<close>

text \<open>
  C26. The waiting time computed from an absolute deadline is exact: the difference in milliseconds,
  rounded down, or -1 when the deadline has passed, as long as the result fits in 31 bits.
\<close>

theorem reltime_exact:
  assumes "valid_time abst" and "valid_time now"
    and "nanos abst - nanos now < 2147483648 * 1000000"
  shows "reltime abst now =
    (if nanos abst < nanos now then - 1 else (nanos abst - nanos now) div 1000000)"
  by (rule reltime_millis) (rule assms)+

lemma reltime_exact_witness:
  "reltime \<lparr>tv_sec = 12, tv_nsec = 5000000\<rparr> \<lparr>tv_sec = 10, tv_nsec = 999999999\<rparr> = 1005"
  using reltime_exact [of "\<lparr>tv_sec = 12, tv_nsec = 5000000\<rparr>" "\<lparr>tv_sec = 10, tv_nsec = 999999999\<rparr>"]
  by (simp add: valid_time_def bad_nsec_def nanos_def)

text \<open>
  Beyond that the product wraps: whatever the time is now, a deadline 2147484 seconds ahead (24.9
  days) counts as passed, so that a timed wait for it returns a timeout at once, without waiting.
\<close>

theorem reltime_overflow:
  "reltime ((r_now r)\<lparr>tv_sec := tv_sec (r_now r) + 2147484\<rparr>) (r_now r) < 0 \<and>
    exec M (lll_abstimed_wait c val ((r_now r)\<lparr>tv_sec := tv_sec (r_now r) + 2147484\<rparr>) flags clk)
      (r # rs) s l = Some (KERN_TIMEDOUT, M (ClockGettime clk) s, rs, l @ [ClockGettime clk])"
  by (simp add: reltime_def lll_abstimed_wait_def compute_reltime_def sys_def)

lemma wait_times: "(next_wait_time ^^ n) 25 \<in> {25, 50, 100, 200, 400, 800, 1600}"
  by (induction n) (auto simp: next_wait_time_def MAX_WAIT_TIME_def)

text \<open>
  The polling interval of a robust lock doubles from 25 ms and settles at 1600 ms, which is more
  than the constant \<open>MAX_WAIT_TIME\<close> that is meant to bound it.
\<close>

theorem wait_time_bound:
  "25 \<le> (next_wait_time ^^ n) 25 \<and> (next_wait_time ^^ n) 25 \<le> 1600 \<and>
    (next_wait_time ^^ 6) 25 = 1600 \<and> next_wait_time 1600 = 1600 \<and> MAX_WAIT_TIME < 1600"
  using wait_times [of n] by (auto simp: next_wait_time_def MAX_WAIT_TIME_def numeral_eq_Suc)

text \<open>
  A timed robust lock gives up at the end of its first polling interval: with a living owner
  and a deadline that is further away, it asks the kernel to wait 25 ms and returns a timeout when
  that interval is over.
\<close>

theorem robust_timedlock_polls_once:
  assumes "c_get c s \<noteq> 0" and "c_get c s OR LLL_WAITERS = c_get c s" and "c_put c (c_get c s) s = s"
    and "valid_time tsp" and "valid_time (r_now r2)"
    and "25000000 \<le> nanos tsp - nanos (r_now r2)"
    and "nanos tsp - nanos (r_now r2) < 2147483648 * 1000000"
    and "r_port r0 \<noteq> MACH_PORT_NULL"
    and "r_code r4 = MACH_MSG_SUCCESS" and "r_head_id r4 = 4304" and "r_retcode r4 = KERN_TIMEDOUT"
  shows "exec (gsync_effect w) (lll_robust_abstimed_lock c pid tsp flags clk) [r0, r1, r2, r3, r4, r5]
      s l =
    Some (Err ETIMEDOUT, s, [], l @ [Pid2Task (c_get c s AND LLL_OWNER_MASK),
      PortDeallocate (r_port r0), ClockGettime clk, MigGetReplyPort,
      IntrRpc (gsync_wait_request MachTaskSelf (r_port r3) (c_addr c) (c_get c s) 0 25
        (flags OR GSYNC_TIMED)) 64 32, MigPutReplyPort (r_port r3)])"
proof -
  have "reltime tsp (r_now r2) \<ge> 25" using reltime_millis [OF assms(4,5,7)] assms(6) by simp
  with assms show ?thesis
    by (simp add: lll_robust_abstimed_lock_def runs exec_loop)
      (simp add: valid_pid_def sys_def compute_reltime_def lll_timed_wait_def gsync_wait_def)
qed

lemma robust_timedlock_polls_once_witness:
  "\<exists>l. exec (gsync_effect (whole 64))
      (lll_robust_abstimed_lock (whole 64) 9 \<lparr>tv_sec = 1000, tv_nsec = 0\<rparr> 1 0)
      [reply0, reply0, reply0, reply0, reply0\<lparr>r_retcode := 27\<rparr>, reply0] (0x80000007 :: u32) [] =
    Some (Err ETIMEDOUT, 0x80000007, [], l)"
  by (rule exI, rule robust_timedlock_polls_once)
    (simp_all add: valid_time_def bad_nsec_def nanos_def)

text \<open>
  Taking a free lock and releasing it leaves it free and asks the kernel for nothing; releasing a
  lock that is marked contended wakes exactly one waiter on its address.
\<close>

theorem lll_lock_unlock:
  "exec M (bind (lll_lock (whole a) fl) (\<lambda>_. lll_unlock (whole a) fl)) rs 0 l = Some ((), 0, rs, l) \<and>
    exec (gsync_effect (whole a)) (lll_unlock (whole a) (fl AND 1)) (r # rs) 2 l =
      Some ((), 0, rs, l @ [wake_call a 0 (fl AND 1)])"
  by (simp add: lll_unlock_def lll_wake_def gsync_wake_def sys_def runs)

end
