(* ===== verification/Exclusion.thy ===== *)
theory Exclusion
  imports LowLevelLock
begin

text \<open>
  Mutual exclusion, stated once for every kind of lock. A client takes the lock again and again,
  runs user code when it has it, and releases it. Clients may be interrupted between any two accesses
  and there may be any number of them.
\<close>

text \<open>One client: \<open>acquire n\<close> and \<open>release n\<close> are the calls it makes in round \<open>n\<close>; when it fails to
  acquire, it starts the next round.\<close>

definition cs_client :: "(nat \<Rightarrow> ('s, ret) prog) \<Rightarrow> (nat \<Rightarrow> ('s, 'r) prog) \<Rightarrow> ('s, unit) prog" where
  "cs_client acquire release = loop (\<lambda>n.
     bind (acquire n) (\<lambda>r.
     if r = OK then
       bind (sys (Callback 0 0)) (\<lambda>_. bind (release n) (\<lambda>_. again (Suc n)))
     else again (Suc n))) 0"

text \<open>A thread is inside when user code is what it runs.\<close>

definition inside :: "('t \<Rightarrow> ('s, 'a) prog) \<Rightarrow> 't \<Rightarrow> bool" where
  "inside P t \<longleftrightarrow> (\<exists>f a k. P t = Sys (Callback f a) k)"

locale exclusive_lock =
  fixes M :: "'s keff" and I :: "'s \<Rightarrow> ('t \<Rightarrow> 'g) \<Rightarrow> bool"
    and out held :: "'t \<Rightarrow> 'g"
    and acquire :: "'t \<Rightarrow> nat \<Rightarrow> ('s, ret) prog"
    and release :: "'t \<Rightarrow> nat \<Rightarrow> ('s, 'r) prog"
  assumes excl: "I s G \<Longrightarrow> G t = held t \<Longrightarrow> G u = held u \<Longrightarrow> t = u"
    and acquire_safe: "safe A I M t (\<lambda>a g. if a = OK then g = held t else g = out t) (out t)
      (acquire t n)"
    and release_safe: "safe A I M t (\<lambda>_ g. g = out t) (held t) (release t n)"
    and user_code: "M (Callback f a) s = s"
begin

lemma client_safe:
  "safe (\<lambda>_ g. g = held t) I M t (\<lambda>_ _. True) (out t) (cs_client (acquire t) (release t))"
  unfolding cs_client_def
proof (rule safe_loop [where J = "\<lambda>_ g. g = out t"], simp)
  fix n g assume "g = out t"
  have cs: "safe (\<lambda>_ g. g = held t) I M t (\<lambda>_ g. g = held t) (held t) (sys (Callback 0 0))"
    unfolding sys_def by (rule safe_Sys_skip) (simp_all add: user_code)
  show "safe (\<lambda>_ g. g = held t) I M t
      (\<lambda>r g'. case r of Inl y \<Rightarrow> g' = out t | Inr a \<Rightarrow> True) g
      (bind (acquire t n) (\<lambda>r. if r = OK then
         bind (sys (Callback 0 0)) (\<lambda>_. bind (release t n) (\<lambda>_. again (Suc n)))
       else again (Suc n)))"
    unfolding \<open>g = out t\<close>
    by (rule safe_bind [OF acquire_safe])
      (auto split: if_splits intro!: safe_bind [OF cs] safe_bind [OF release_safe])
qed

lemma mutual_exclusion:
  assumes "reach M s0 (\<lambda>t. cs_client (acquire t) (release t)) s P" and "I s0 out"
    and "inside P t" and "inside P u"
  shows "t = u"
proof -
  obtain G where G: "I s G"
    "\<And>t. safe (\<lambda>_ g. g = held t) I M t (\<lambda>_ _. True) (G t) (P t)"
    using safe_reach [where I = I and ?G0.0 = out and A = "\<lambda>t _ g. g = held t"
        and Q = "\<lambda>_ _ _. True", OF assms(1,2) client_safe] by blast
  have "G v = held v" if "inside P v" for v
    using that G(2) [of v] by (auto simp: inside_def safe_Sys_iff)
  with assms(3,4) show ?thesis by (blast intro: excl [OF G(1)])
qed

end

subsection \<open>The plain lock\<close>

text \<open>
  Invariant of a lock word: it is 0 exactly when nobody holds the lock, and at most one thread
  does. The ghost of a thread says whether it holds the lock.
\<close>

definition word_lock_inv :: "u32 \<Rightarrow> ('t \<Rightarrow> bool) \<Rightarrow> bool" where
  "word_lock_inv w G \<longleftrightarrow> (w = 0 \<longleftrightarrow> (\<forall>t. \<not> G t)) \<and> (\<forall>t u. G t \<longrightarrow> G u \<longrightarrow> t = u)"

lemma word_lock_take:
  "word_lock_inv w G \<Longrightarrow> \<not> G t \<Longrightarrow> w' \<noteq> 0 \<Longrightarrow> word_lock_inv w' (G(t := (w = 0)))"
  by (cases "w = 0") (auto simp: word_lock_inv_def)

lemma word_lock_drop: "word_lock_inv w G \<Longrightarrow> G t \<Longrightarrow> word_lock_inv 0 (G(t := False))"
  by (auto simp: word_lock_inv_def)

interpretation lll: lock_client "whole a" "gsync_effect (whole a)" word_lock_inv t False True True
  for a and t :: 't
  by unfold_locales (auto simp: word_lock_inv_def split: if_splits)

text \<open>The three ways to take the lock.\<close>

datatype lock_call = Lock | Trylock | Timedlock timespec int

fun lll_acquire :: "('s, u32) cell \<Rightarrow> u32 \<Rightarrow> lock_call \<Rightarrow> ('s, ret) prog" where
  "lll_acquire c flags Lock = lll_lock c flags"
| "lll_acquire c flags Trylock = lll_trylock c"
| "lll_acquire c flags (Timedlock tsp clk) = lll_abstimed_lock c tsp flags clk"

lemma lll_acquire_safe:
  "safe A word_lock_inv (gsync_effect (whole a)) t (\<lambda>r g. if r = OK then g = True else g = False)
    False (lll_acquire (whole a) flags call)"
  by (cases call)
    (auto intro: safe_mono [OF lll.lll_lock_safe] safe_mono [OF lll.lll_trylock_safe]
      safe_mono [OF lll.lll_abstimed_lock_safe])

interpretation lll_excl: exclusive_lock "gsync_effect (whole a)" word_lock_inv
  "\<lambda>_. False" "\<lambda>_. True" "\<lambda>t n. lll_acquire (whole a) (flags AND 1) (calls t n)"
  "\<lambda>t n. lll_unlock (whole a) (flags AND 1)" for a flags and calls :: "'t \<Rightarrow> nat \<Rightarrow> lock_call"
proof unfold_locales
  show "safe A word_lock_inv (gsync_effect (whole a)) t (\<lambda>_ g. g = False) True
      (lll_unlock (whole a) (flags AND 1))" for A and t :: 't
    by (rule safe_mono [OF lll.lll_unlock_safe]) auto
qed (auto simp: word_lock_inv_def lll_acquire_safe)

subsection \<open>Properties\<close>

text \<open>
  C8. Mutual exclusion of the plain lock: any number of threads take it by any mix of blocking, trying
  and timed calls and release it, interleaved arbitrarily, with a kernel that may answer anything
  and wake anybody at any time; never are two of them inside their critical sections.
\<close>

theorem lll_mutual_exclusion:
  assumes "gsync_contract M (whole a)"
    and "reach M 0 (\<lambda>t. cs_client (\<lambda>n. lll_acquire (whole a) (flags AND 1) (calls t n))
      (\<lambda>n. lll_unlock (whole a) (flags AND 1))) s P"
    and "inside P t" and "t \<noteq> u"
  shows "\<not> inside P u"
  using assms lll_excl.mutual_exclusion [where calls = calls and flags = flags and a = a and ?s0.0 = 0, of s P t u]
  by (auto simp: gsync_contract_iff word_lock_inv_def)

lemma lll_mutual_exclusion_witness:
  "inside (snd (sched (gsync_effect (whole 64)) reply0 [(0 :: nat, 2), (1, 3)] 0
      (\<lambda>t. cs_client (\<lambda>n. lll_acquire (whole 64) (1 AND 1) Lock) (\<lambda>n. lll_unlock (whole 64) (1 AND 1))))) 0 \<and>
    \<not> inside (snd (sched (gsync_effect (whole 64)) reply0 [(0 :: nat, 2), (1, 3)] 0
      (\<lambda>t. cs_client (\<lambda>n. lll_acquire (whole 64) (1 AND 1) Lock) (\<lambda>n. lll_unlock (whole 64) (1 AND 1))))) 1"
  (is "inside (snd ?S) 0 \<and> _")
proof
  show i: "inside (snd ?S) 0"
    by (simp add: cs_client_def code_defs atomic_defs pstep_loop inside_def)
  show "\<not> inside (snd ?S) 1"
    by (rule lll_mutual_exclusion [OF gsync_effect_contract reach_sched i]) (rule surjective_pairing, simp)
qed

end
