(* ===== verification/SpinLock.thy ===== *)
theory SpinLock
  imports Exclusion
begin

text \<open>\<open>pthread/spinlock.c\<close>: a lock word that is 0 or 1, taken by swapping a 1 in.\<close>

abbreviation (input) PTHREAD_PROCESS_PRIVATE :: int where "PTHREAD_PROCESS_PRIVATE \<equiv> 0"
abbreviation (input) PTHREAD_PROCESS_SHARED :: int where "PTHREAD_PROCESS_SHARED \<equiv> 1"

definition SPIN_UNLOCKED :: u32 where
  [flag_defs]: "SPIN_UNLOCKED = 0"

definition SPIN_LOCKED :: u32 where
  [flag_defs]: "SPIN_LOCKED = SPIN_UNLOCKED XOR 1"

definition NSPINS :: int where
  "NSPINS = 1000"

definition pthread_spin_init :: "('s, u32) cell \<Rightarrow> int \<Rightarrow> ('s, ret) prog" where
  [code_defs]: "pthread_spin_init lockp pshared =
    (if pshared \<noteq> PTHREAD_PROCESS_SHARED \<and> pshared \<noteq> PTHREAD_PROCESS_PRIVATE then Ret (Err EINVAL)
     else bind (atomic_store lockp SPIN_UNLOCKED) (\<lambda>_. Ret OK))"

text \<open>The inner loop: look at the word until it is free, at most \<open>NSPINS\<close> times.\<close>

definition spin_round :: "('s, u32) cell \<Rightarrow> int \<Rightarrow> ('s, int + unit) prog" where
  [code_defs]: "spin_round lockp nspins =
     bind (load lockp) (\<lambda>v.
     if v = SPIN_LOCKED then
       (let nspins = nspins - 1 in if nspins \<noteq> 0 then again nspins else leave ())
     else leave ())"

definition spin_pause :: "('s, u32) cell \<Rightarrow> ('s, unit) prog" where
  [code_defs]: "spin_pause lockp = loop (spin_round lockp) NSPINS"

definition pthread_spin_lock :: "('s, u32) cell \<Rightarrow> ('s, ret) prog" where
  [code_defs]: "pthread_spin_lock lockp = loop (\<lambda>_.
     bind (atomic_swap lockp SPIN_LOCKED) (\<lambda>old.
     if old = SPIN_UNLOCKED then leave OK
     else bind (spin_pause lockp) (\<lambda>_. again ()))) ()"

definition pthread_spin_trylock :: "('s, u32) cell \<Rightarrow> ('s, ret) prog" where
  [code_defs]: "pthread_spin_trylock lockp =
    bind (load lockp) (\<lambda>v.
    if v \<noteq> SPIN_UNLOCKED then Ret (Err EBUSY)
    else bind (atomic_swap lockp SPIN_LOCKED) (\<lambda>old.
      Ret (if old \<noteq> SPIN_UNLOCKED then Err EBUSY else OK)))"

definition pthread_spin_unlock :: "('s, u32) cell \<Rightarrow> ('s, ret) prog" where
  [code_defs]: "pthread_spin_unlock lockp = bind (atomic_store lockp SPIN_UNLOCKED) (\<lambda>_. Ret OK)"

definition pthread_spin_destroy :: "('s, u32) cell \<Rightarrow> ('s, ret) prog" where
  [code_defs]: "pthread_spin_destroy lockp = Ret OK"

subsection \<open>Mutual exclusion\<close>

text \<open>Swapping the locked value in takes the lock exactly when the word was free.\<close>

lemma spin_swap_safe:
  "safe A word_lock_inv M t (\<lambda>old g. g = (old = SPIN_UNLOCKED)) False
    (atomic_swap (whole a) SPIN_LOCKED)"
  by (rule safe_swap [where h = "\<lambda>old. old = SPIN_UNLOCKED"])
    (simp_all add: flag_defs word_lock_take)

lemma spin_pause_safe: "safe A I M t (\<lambda>_ g'. g' = g) g (spin_pause lockp)"
  unfolding spin_pause_def spin_round_def
  by (rule safe_loop [where J = "\<lambda>_ g'. g' = g"], simp,
      rule safe_bind [where R = "\<lambda>_ g'. g' = g"], rule safe_load) (auto simp: Let_def)

lemma pthread_spin_lock_safe:
  "safe A word_lock_inv M t (\<lambda>r g. r = OK \<and> g) False (pthread_spin_lock (whole a))"
  unfolding pthread_spin_lock_def
  by (rule safe_loop [where J = "\<lambda>_ g. g = False"], simp)
    (auto intro!: safe_bind [OF spin_swap_safe] safe_bind [OF spin_pause_safe])

lemma pthread_spin_trylock_safe:
  "safe A word_lock_inv M t (\<lambda>r g. r = OK \<and> g \<or> r = Err EBUSY \<and> \<not> g) False
    (pthread_spin_trylock (whole a))"
  unfolding pthread_spin_trylock_def
  by (rule safe_bind [where R = "\<lambda>_ g. g = False"], rule safe_load)
    (auto intro!: safe_bind [OF spin_swap_safe])

lemma pthread_spin_unlock_safe:
  "safe A word_lock_inv M t (\<lambda>_ g. \<not> g) True (pthread_spin_unlock (whole a))"
  unfolding pthread_spin_unlock_def
  by (rule safe_bind [where R = "\<lambda>_ g. g = False"], rule safe_atomic_store [where g' = False])
    (simp_all add: flag_defs word_lock_drop)

text \<open>A client may spin for the lock or only try it, in any round.\<close>

definition spin_acquire :: "('s, u32) cell \<Rightarrow> bool \<Rightarrow> ('s, ret) prog" where
  "spin_acquire c try_only = (if try_only then pthread_spin_trylock c else pthread_spin_lock c)"

interpretation spin_excl: exclusive_lock "gsync_effect (whole a)" word_lock_inv
  "\<lambda>_. False" "\<lambda>_. True" "\<lambda>t n. spin_acquire (whole a) (trial t n)"
  "\<lambda>t n. pthread_spin_unlock (whole a)" for a and trial :: "'t \<Rightarrow> nat \<Rightarrow> bool"
proof unfold_locales
  show "safe A word_lock_inv (gsync_effect (whole a)) t (\<lambda>r g. if r = OK then g = True else g = False)
      False (spin_acquire (whole a) (trial t n))" for A and t :: 't and n
    unfolding spin_acquire_def
    by (cases "trial t n")
      (auto intro: safe_mono [OF pthread_spin_lock_safe] safe_mono [OF pthread_spin_trylock_safe])
  show "safe A word_lock_inv (gsync_effect (whole a)) t (\<lambda>_ g. g = False) True
      (pthread_spin_unlock (whole a))" for A and t :: 't
    by (rule safe_mono [OF pthread_spin_unlock_safe]) simp
qed (auto simp: word_lock_inv_def)

subsection \<open>Runs\<close>

text \<open>With the lock held by somebody else who never runs, the inner loop gives up after 1000 looks.\<close>

lemma spin_pause_rounds:
  assumes "0 < n"
  shows "exec M (loop (spin_round lockp) (int n)) rs s l = Some ((), s, rs, l)"
  using assms
proof (induction n)
  case (Suc n)
  show ?case
  proof (cases "n = 0")
    case True
    then show ?thesis by (simp add: exec_loop spin_round_def load_def)
  next
    case False
    with Suc.IH have ih: "exec M (loop (spin_round lockp) (int n)) rs s l = Some ((), s, rs, l)"
      by simp
    show ?thesis
      by (subst exec_loop, subst spin_round_def) (simp add: load_def ih False)
  qed
qed simp

lemma exec_spin_pause [simp]: "exec M (spin_pause lockp) rs s l = Some ((), s, rs, l)"
  using spin_pause_rounds [of 1000 M lockp rs s l] by (simp add: spin_pause_def NSPINS_def)

subsection \<open>Properties\<close>

text \<open>
  C25. Mutual exclusion of spin locks, for any number of threads that spin for the lock or only try it.
\<close>

theorem spin_mutual_exclusion:
  assumes "gsync_contract M (whole a)"
    and "reach M SPIN_UNLOCKED (\<lambda>t. cs_client (\<lambda>n. spin_acquire (whole a) (trial t n))
      (\<lambda>n. pthread_spin_unlock (whole a))) s P"
    and "inside P t" and "t \<noteq> u"
  shows "\<not> inside P u"
  using assms spin_excl.mutual_exclusion [where trial = trial and a = a and ?s0.0 = SPIN_UNLOCKED, of s P t u]
  by (auto simp: gsync_contract_iff word_lock_inv_def flag_defs)

lemma spin_mutual_exclusion_witness:
  "inside (snd (sched (gsync_effect (whole 64)) reply0 [(0 :: nat, 1), (1, 1)] SPIN_UNLOCKED
      (\<lambda>t. cs_client (\<lambda>n. spin_acquire (whole 64) False) (\<lambda>n. pthread_spin_unlock (whole 64))))) 0 \<and>
    \<not> inside (snd (sched (gsync_effect (whole 64)) reply0 [(0 :: nat, 1), (1, 1)] SPIN_UNLOCKED
      (\<lambda>t. cs_client (\<lambda>n. spin_acquire (whole 64) False) (\<lambda>n. pthread_spin_unlock (whole 64))))) 1"
  (is "inside (snd ?S) 0 \<and> _")
proof
  show i: "inside (snd ?S) 0"
    by (simp add: cs_client_def spin_acquire_def code_defs atomic_defs pstep_loop inside_def flag_defs
        NSPINS_def)
  show "\<not> inside (snd ?S) 1"
    by (rule spin_mutual_exclusion [OF gsync_effect_contract reach_sched i])
      (rule surjective_pairing, simp)
qed

end
