(* ===== verification/Thread.thy ===== *)
theory Thread
  imports SpinLock
begin

text \<open>
  The thread descriptor \<open>struct pthread\<close> of \<open>pthread/pt-internal.h\<close>, its flags, and the two
  tests on flags that decide about cancellation. A running thread knows its own descriptor, its
  id and the process it belongs to: that is the record \<open>thread\<close>, the model's \<open>PTHREAD_SELF\<close>
  together with \<open>getpid ()\<close>, both of which are constant in a running thread.
\<close>

record sigstate =
  ss_thread :: mport
  ss_intr_port :: mport
  ss_blocked :: u32

text \<open>
  \<open>pt_sigstate\<close> is the pointer to the signal state in the descriptor's TCB, and \<open>pt_sig\<close> stands for what it
  points to.
\<close>

record pthread =
  pt_id :: u32
  pt_flags :: u32
  pt_specific_used :: u32
  pt_joinpt :: u32
  pt_start_fct :: u32
  pt_argp :: u32
  pt_retval :: u32
  pt_stack :: u32
  pt_stacksize :: u32
  pt_guardsize :: u32
  pt_sig :: sigstate
  pt_tcb :: u32
  pt_cleanup :: u32
  pt_sigstate :: u32

text \<open>A descriptor in zeroed memory.\<close>

definition pthread0 :: pthread where
  "pthread0 = \<lparr>pt_id = 0, pt_flags = 0, pt_specific_used = 0, pt_joinpt = 0, pt_start_fct = 0,
    pt_argp = 0, pt_retval = 0, pt_stack = 0, pt_stacksize = 0, pt_guardsize = 0,
    pt_sig = \<lparr>ss_thread = MACH_PORT_NULL, ss_intr_port = MACH_PORT_NULL, ss_blocked = 0\<rparr>,
    pt_tcb = 0, pt_cleanup = 0, pt_sigstate = 0\<rparr>"

lemma pthread0_sel [simp]:
  "pt_id pthread0 = 0" "pt_flags pthread0 = 0" "pt_specific_used pthread0 = 0" "pt_joinpt pthread0 = 0"
  "pt_start_fct pthread0 = 0" "pt_argp pthread0 = 0" "pt_retval pthread0 = 0" "pt_stack pthread0 = 0"
  "pt_stacksize pthread0 = 0" "pt_guardsize pthread0 = 0" "pt_tcb pthread0 = 0" "pt_cleanup pthread0 = 0"
  "pt_sigstate pthread0 = 0"
  by (simp_all add: pthread0_def)

definition pth_id :: "('s, pthread) cell \<Rightarrow> ('s, u32) cell" where
  [code_defs]: "pth_id = field 16 pt_id pt_id_update"

definition pth_flags :: "('s, pthread) cell \<Rightarrow> ('s, u32) cell" where
  [code_defs]: "pth_flags = field 20 pt_flags pt_flags_update"

definition pth_specific_used :: "('s, pthread) cell \<Rightarrow> ('s, u32) cell" where
  [code_defs]: "pth_specific_used = field 280 pt_specific_used pt_specific_used_update"

definition pth_joinpt :: "('s, pthread) cell \<Rightarrow> ('s, u32) cell" where
  [code_defs]: "pth_joinpt = field 284 pt_joinpt pt_joinpt_update"

definition pth_tcb :: "('s, pthread) cell \<Rightarrow> ('s, u32) cell" where
  [code_defs]: "pth_tcb = field 0 pt_tcb pt_tcb_update"

definition pth_cleanup :: "('s, pthread) cell \<Rightarrow> ('s, u32) cell" where
  [code_defs]: "pth_cleanup = field 12 pt_cleanup pt_cleanup_update"

definition pth_start_fct :: "('s, pthread) cell \<Rightarrow> ('s, u32) cell" where
  [code_defs]: "pth_start_fct = field 288 pt_start_fct pt_start_fct_update"

definition pth_argp :: "('s, pthread) cell \<Rightarrow> ('s, u32) cell" where
  [code_defs]: "pth_argp = field 292 pt_argp pt_argp_update"

definition pth_stack :: "('s, pthread) cell \<Rightarrow> ('s, u32) cell" where
  [code_defs]: "pth_stack = field 300 pt_stack pt_stack_update"

definition pth_stacksize :: "('s, pthread) cell \<Rightarrow> ('s, u32) cell" where
  [code_defs]: "pth_stacksize = field 304 pt_stacksize pt_stacksize_update"

definition pth_guardsize :: "('s, pthread) cell \<Rightarrow> ('s, u32) cell" where
  [code_defs]: "pth_guardsize = field 308 pt_guardsize pt_guardsize_update"

definition pth_sigstate :: "('s, pthread) cell \<Rightarrow> ('s, u32) cell" where
  [code_defs]: "pth_sigstate = field 0 pt_sigstate pt_sigstate_update"

definition pth_sig :: "('s, pthread) cell \<Rightarrow> ('s, sigstate) cell" where
  [code_defs]: "pth_sig = field 0 pt_sig pt_sig_update"

definition pth_retval :: "('s, pthread) cell \<Rightarrow> ('s, u32) cell" where
  [code_defs]: "pth_retval = field 296 pt_retval pt_retval_update"

record thread =
  th_addr :: u32
  th_id :: u32
  th_pid :: u32

abbreviation (input) PTHREAD_INVALID_ID :: u32 where "PTHREAD_INVALID_ID \<equiv> 0xFFFFFFFF"
abbreviation (input) PTHREAD_ID_MASK :: u32 where "PTHREAD_ID_MASK \<equiv> 0x1FFFFFFF"

abbreviation (input) PT_FLG_USR_STACK :: u32 where "PT_FLG_USR_STACK \<equiv> 0x001"
abbreviation (input) PT_FLG_EXITING :: u32 where "PT_FLG_EXITING \<equiv> 0x002"
abbreviation (input) PT_FLG_CANCELLED :: u32 where "PT_FLG_CANCELLED \<equiv> 0x004"
abbreviation (input) PT_FLG_CANCELLING :: u32 where "PT_FLG_CANCELLING \<equiv> 0x008"
abbreviation (input) PT_FLG_TERMINATED :: u32 where "PT_FLG_TERMINATED \<equiv> 0x010"
abbreviation (input) PT_FLG_CANCEL_ASYNC :: u32 where "PT_FLG_CANCEL_ASYNC \<equiv> 0x020"
abbreviation (input) PT_FLG_CANCEL_DISABLE :: u32 where "PT_FLG_CANCEL_DISABLE \<equiv> 0x040"
abbreviation (input) PT_FLG_CANCEL_TRANS :: u32 where "PT_FLG_CANCEL_TRANS \<equiv> 0x080"
abbreviation (input) PT_FLG_MAIN_THREAD :: u32 where "PT_FLG_MAIN_THREAD \<equiv> 0x100"

definition CANCELLED_ENABLED_P :: "u32 \<Rightarrow> bool" where
  "CANCELLED_ENABLED_P flg \<longleftrightarrow>
    flg AND (PT_FLG_CANCEL_DISABLE OR PT_FLG_CANCELLED OR PT_FLG_EXITING OR PT_FLG_TERMINATED) =
      PT_FLG_CANCELLED"

definition CANCELLED_ENABLED_ASYNC_P :: "u32 \<Rightarrow> bool" where
  "CANCELLED_ENABLED_ASYNC_P flg \<longleftrightarrow>
    flg AND (PT_FLG_CANCEL_DISABLE OR PT_FLG_CANCEL_ASYNC OR PT_FLG_CANCELLED OR
      PT_FLG_EXITING OR PT_FLG_TERMINATED) =
      (PT_FLG_CANCEL_ASYNC OR PT_FLG_CANCELLED)"

definition INVALID_P :: "('s, pthread) cell \<Rightarrow> ('s, bool) prog" where
  [code_defs]: "INVALID_P pt =
    (if c_addr pt = 0 then Ret True else bind (load (pth_id pt)) (\<lambda>id. Ret (id = 0)))"

definition pth_kport :: "('s, pthread) cell \<Rightarrow> ('s, mport) cell" where
  [code_defs]: "pth_kport pt =
    field 0 (\<lambda>p. ss_thread (pt_sig p)) (\<lambda>f p. p\<lparr>pt_sig := ss_thread_update f (pt_sig p)\<rparr>) pt"

definition pth_blocked :: "('s, pthread) cell \<Rightarrow> ('s, u32) cell" where
  [code_defs]: "pth_blocked pt =
    field 0 (\<lambda>p. ss_blocked (pt_sig p)) (\<lambda>f p. p\<lparr>pt_sig := ss_blocked_update f (pt_sig p)\<rparr>) pt"

definition pth_intr_port :: "('s, pthread) cell \<Rightarrow> ('s, mport) cell" where
  [code_defs]: "pth_intr_port pt =
    field 0 (\<lambda>p. ss_intr_port (pt_sig p)) (\<lambda>f p. p\<lparr>pt_sig := ss_intr_port_update f (pt_sig p)\<rparr>) pt"

lemma pth_sel_create [simp]:
  "c_get (pth_tcb c) s = pt_tcb (c_get c s)"
  "c_put (pth_tcb c) v s = c_put c ((c_get c s)\<lparr>pt_tcb := v\<rparr>) s"
  "c_get (pth_cleanup c) s = pt_cleanup (c_get c s)"
  "c_put (pth_cleanup c) v s = c_put c ((c_get c s)\<lparr>pt_cleanup := v\<rparr>) s"
  "c_get (pth_start_fct c) s = pt_start_fct (c_get c s)"
  "c_put (pth_start_fct c) v s = c_put c ((c_get c s)\<lparr>pt_start_fct := v\<rparr>) s"
  "c_get (pth_argp c) s = pt_argp (c_get c s)"
  "c_put (pth_argp c) v s = c_put c ((c_get c s)\<lparr>pt_argp := v\<rparr>) s"
  "c_get (pth_stack c) s = pt_stack (c_get c s)"
  "c_put (pth_stack c) v s = c_put c ((c_get c s)\<lparr>pt_stack := v\<rparr>) s"
  "c_get (pth_stacksize c) s = pt_stacksize (c_get c s)"
  "c_put (pth_stacksize c) v s = c_put c ((c_get c s)\<lparr>pt_stacksize := v\<rparr>) s"
  "c_get (pth_guardsize c) s = pt_guardsize (c_get c s)"
  "c_put (pth_guardsize c) v s = c_put c ((c_get c s)\<lparr>pt_guardsize := v\<rparr>) s"
  "c_get (pth_sigstate c) s = pt_sigstate (c_get c s)"
  "c_put (pth_sigstate c) v s = c_put c ((c_get c s)\<lparr>pt_sigstate := v\<rparr>) s"
  "c_get (pth_sig c) s = pt_sig (c_get c s)"
  "c_put (pth_sig c) sg s = c_put c ((c_get c s)\<lparr>pt_sig := sg\<rparr>) s"
  "c_get (pth_blocked c) s = ss_blocked (pt_sig (c_get c s))"
  "c_put (pth_blocked c) v s = c_put c ((c_get c s)\<lparr>pt_sig := (pt_sig (c_get c s))\<lparr>ss_blocked := v\<rparr>\<rparr>) s"
  by (simp_all add: pth_tcb_def pth_cleanup_def pth_start_fct_def pth_argp_def pth_stack_def
      pth_stacksize_def pth_guardsize_def pth_sigstate_def pth_sig_def pth_blocked_def comp_def)

lemma pth_sel [simp]:
  "c_addr (pth_id c) = c_addr c + 16"
  "c_get (pth_id c) s = pt_id (c_get c s)"
  "c_put (pth_id c) v s = c_put c ((c_get c s)\<lparr>pt_id := v\<rparr>) s"
  "c_get (pth_flags c) s = pt_flags (c_get c s)"
  "c_put (pth_flags c) v s = c_put c ((c_get c s)\<lparr>pt_flags := v\<rparr>) s"
  "c_get (pth_specific_used c) s = pt_specific_used (c_get c s)"
  "c_put (pth_specific_used c) v s = c_put c ((c_get c s)\<lparr>pt_specific_used := v\<rparr>) s"
  "c_get (pth_joinpt c) s = pt_joinpt (c_get c s)"
  "c_put (pth_joinpt c) v s = c_put c ((c_get c s)\<lparr>pt_joinpt := v\<rparr>) s"
  "c_get (pth_retval c) s = pt_retval (c_get c s)"
  "c_put (pth_retval c) v s = c_put c ((c_get c s)\<lparr>pt_retval := v\<rparr>) s"
  "c_get (pth_kport c) s = ss_thread (pt_sig (c_get c s))"
  "c_get (pth_intr_port c) s = ss_intr_port (pt_sig (c_get c s))"
  "c_put (pth_intr_port c) p s =
    c_put c ((c_get c s)\<lparr>pt_sig := (pt_sig (c_get c s))\<lparr>ss_intr_port := p\<rparr>\<rparr>) s"
  by (simp_all add: pth_id_def pth_flags_def pth_specific_used_def pth_joinpt_def pth_retval_def
      pth_kport_def pth_intr_port_def comp_def)

end
