(* ===== verification/Mutex.thy ===== *)
theory Mutex
  imports Thread
begin

text \<open>
  \<open>pthread/mutex.c\<close>: mutex attributes, and the mutexes in their three types, each plain or robust.
\<close>

abbreviation (input) PTHREAD_MUTEX_NORMAL :: u32 where "PTHREAD_MUTEX_NORMAL \<equiv> 0"
abbreviation (input) PTHREAD_MUTEX_RECURSIVE :: u32 where "PTHREAD_MUTEX_RECURSIVE \<equiv> 1"
abbreviation (input) PTHREAD_MUTEX_ERRORCHECK :: u32 where "PTHREAD_MUTEX_ERRORCHECK \<equiv> 2"
abbreviation (input) PTHREAD_MUTEX_TYPE_MAX :: u32 where "PTHREAD_MUTEX_TYPE_MAX \<equiv> 3"
abbreviation (input) PTHREAD_MUTEX_STALLED :: u32 where "PTHREAD_MUTEX_STALLED \<equiv> 0"
abbreviation (input) PTHREAD_MUTEX_ROBUST :: u32 where "PTHREAD_MUTEX_ROBUST \<equiv> 0x100"
abbreviation (input) PTHREAD_PRIO_NONE :: int where "PTHREAD_PRIO_NONE \<equiv> 0"
abbreviation (input) PTHREAD_PRIO_INHERIT :: int where "PTHREAD_PRIO_INHERIT \<equiv> 1"
abbreviation (input) PTHREAD_PRIO_PROTECT :: int where "PTHREAD_PRIO_PROTECT \<equiv> 2"
abbreviation (input) NOTRECOVERABLE_ID :: u32 where "NOTRECOVERABLE_ID \<equiv> 0x80000000"

subsection \<open>Attributes\<close>

text \<open>
  A setter answers its result and the attributes after it; a getter answers its result and what it
  stores through the out pointer.
\<close>

record pthread_mutexattr =
  ma_flags :: u32
  ma_type :: u32

definition mutex_dfl_attr :: pthread_mutexattr where
  "mutex_dfl_attr = \<lparr>ma_flags = 0, ma_type = PTHREAD_MUTEX_NORMAL\<rparr>"

definition pthread_mutexattr_init :: "pthread_mutexattr \<Rightarrow> ret \<times> pthread_mutexattr" where
  "pthread_mutexattr_init _ = (OK, mutex_dfl_attr)"

definition pthread_mutexattr_destroy :: "pthread_mutexattr \<Rightarrow> ret \<times> pthread_mutexattr" where
  "pthread_mutexattr_destroy a = (OK, a)"

definition pthread_mutexattr_settype ::
  "pthread_mutexattr \<Rightarrow> u32 \<Rightarrow> ret \<times> pthread_mutexattr" where
  "pthread_mutexattr_settype a type =
    (if sint type < 0 \<or> sint type \<ge> sint PTHREAD_MUTEX_TYPE_MAX then (Err EINVAL, a)
     else (OK, a\<lparr>ma_type := type\<rparr>))"

definition pthread_mutexattr_gettype :: "pthread_mutexattr \<Rightarrow> ret \<times> u32" where
  "pthread_mutexattr_gettype a = (OK, ma_type a)"

definition pthread_mutexattr_setpshared ::
  "pthread_mutexattr \<Rightarrow> int \<Rightarrow> ret \<times> pthread_mutexattr" where
  "pthread_mutexattr_setpshared a pshared =
    (if pshared \<noteq> PTHREAD_PROCESS_PRIVATE \<and> pshared \<noteq> PTHREAD_PROCESS_SHARED then (Err EINVAL, a)
     else (OK, a\<lparr>ma_flags := (ma_flags a AND NOT GSYNC_SHARED) OR
        (if pshared = PTHREAD_PROCESS_SHARED then GSYNC_SHARED else 0)\<rparr>))"

definition pthread_mutexattr_getpshared :: "pthread_mutexattr \<Rightarrow> ret \<times> int" where
  "pthread_mutexattr_getpshared a =
    (OK, if ma_flags a AND GSYNC_SHARED \<noteq> 0 then PTHREAD_PROCESS_SHARED
         else PTHREAD_PROCESS_PRIVATE)"

definition pthread_mutexattr_setrobust ::
  "pthread_mutexattr \<Rightarrow> u32 \<Rightarrow> ret \<times> pthread_mutexattr" where
  "pthread_mutexattr_setrobust a robust =
    (if robust \<noteq> PTHREAD_MUTEX_ROBUST \<and> robust \<noteq> PTHREAD_MUTEX_STALLED then (Err EINVAL, a)
     else (OK, a\<lparr>ma_flags := ma_flags a OR robust\<rparr>))"

definition pthread_mutexattr_getrobust :: "pthread_mutexattr \<Rightarrow> ret \<times> u32" where
  "pthread_mutexattr_getrobust a =
    (OK, if ma_flags a AND PTHREAD_MUTEX_ROBUST \<noteq> 0 then PTHREAD_MUTEX_ROBUST
         else PTHREAD_MUTEX_STALLED)"

definition pthread_mutexattr_setprioceiling ::
  "pthread_mutexattr \<Rightarrow> int \<Rightarrow> ret \<times> pthread_mutexattr" where
  "pthread_mutexattr_setprioceiling a cl = (Err ENOSYS, a)"

definition pthread_mutexattr_getprioceiling :: "pthread_mutexattr \<Rightarrow> ret" where
  "pthread_mutexattr_getprioceiling a = Err ENOSYS"

definition pthread_mutexattr_setprotocol ::
  "pthread_mutexattr \<Rightarrow> int \<Rightarrow> ret \<times> pthread_mutexattr" where
  "pthread_mutexattr_setprotocol a proto =
    (if proto = PTHREAD_PRIO_NONE then OK
     else if proto \<noteq> PTHREAD_PRIO_INHERIT \<and> proto \<noteq> PTHREAD_PRIO_PROTECT then Err EINVAL
     else Err ENOSYS, a)"

definition pthread_mutexattr_getprotocol :: "pthread_mutexattr \<Rightarrow> ret \<times> int" where
  "pthread_mutexattr_getprotocol a = (OK, PTHREAD_PRIO_NONE)"

subsection \<open>The mutex object\<close>

record pthread_mutex =
  m_lock :: u32
  m_owner_id :: u32
  m_cnt :: u32
  m_shpid :: u32
  m_type :: u32
  m_flags :: u32

definition mtx_lock :: "('s, pthread_mutex) cell \<Rightarrow> ('s, u32) cell" where
  [code_defs]: "mtx_lock = field 0 m_lock m_lock_update"

definition mtx_owner_id :: "('s, pthread_mutex) cell \<Rightarrow> ('s, u32) cell" where
  [code_defs]: "mtx_owner_id = field 4 m_owner_id m_owner_id_update"

definition mtx_cnt :: "('s, pthread_mutex) cell \<Rightarrow> ('s, u32) cell" where
  [code_defs]: "mtx_cnt = field 8 m_cnt m_cnt_update"

definition mtx_shpid :: "('s, pthread_mutex) cell \<Rightarrow> ('s, u32) cell" where
  [code_defs]: "mtx_shpid = field 12 m_shpid m_shpid_update"

definition mtx_type :: "('s, pthread_mutex) cell \<Rightarrow> ('s, u32) cell" where
  [code_defs]: "mtx_type = field 16 m_type m_type_update"

definition mtx_flags :: "('s, pthread_mutex) cell \<Rightarrow> ('s, u32) cell" where
  [code_defs]: "mtx_flags = field 20 m_flags m_flags_update"

text \<open>Nobody else can use a mutex while it is being initialised, so this is a plain function.\<close>

definition pthread_mutex_init ::
  "pthread_mutex \<Rightarrow> pthread_mutexattr option \<Rightarrow> ret \<times> pthread_mutex" where
  "pthread_mutex_init m attr =
    (let attr = (case attr of None \<Rightarrow> mutex_dfl_attr | Some a \<Rightarrow> a);
         m = m\<lparr>m_flags := ma_flags attr, m_type := ma_type attr, m_owner_id := 0, m_shpid := 0,
           m_cnt := 0, m_lock := 0\<rparr>;
         m = (if m_flags m AND (PTHREAD_MUTEX_ROBUST OR GSYNC_SHARED) = PTHREAD_MUTEX_ROBUST
              then m\<lparr>m_flags := m_flags m AND NOT PTHREAD_MUTEX_ROBUST\<rparr> else m)
     in (OK, m))"

definition pthread_mutex_destroy :: "('s, pthread_mutex) cell \<Rightarrow> ('s, ret) prog" where
  [code_defs]: "pthread_mutex_destroy m =
    bind (atomic_load (mtx_lock m)) (\<lambda>w.
    if w \<noteq> 0 then Ret (Err EBUSY)
    else bind (store (mtx_type m) PTHREAD_MUTEX_TYPE_MAX) (\<lambda>_. Ret OK))"

definition pthread_mutex_setprioceiling :: "('s, pthread_mutex) cell \<Rightarrow> int \<Rightarrow> ('s, ret) prog" where
  [code_defs]: "pthread_mutex_setprioceiling m cl = Ret (Err ENOSYS)"

definition pthread_mutex_getprioceiling :: "('s, pthread_mutex) cell \<Rightarrow> ('s, ret) prog" where
  [code_defs]: "pthread_mutex_getprioceiling m = Ret (Err ENOSYS)"

subsection \<open>Ownership and type\<close>

definition mtx_owned_p :: "('s, pthread_mutex) cell \<Rightarrow> thread \<Rightarrow> u32 \<Rightarrow> ('s, bool) prog" where
  [code_defs]: "mtx_owned_p m pt flags =
    bind (load (mtx_owner_id m)) (\<lambda>own.
    if own \<noteq> th_id pt then Ret False
    else if flags AND GSYNC_SHARED = 0 then Ret True
    else bind (load (mtx_shpid m)) (\<lambda>pid. Ret (pid = th_pid pt)))"

text \<open>The id and the process that are recorded are the new owner's id and the caller's process.\<close>

definition mtx_set_owner :: "('s, pthread_mutex) cell \<Rightarrow> u32 \<Rightarrow> u32 \<Rightarrow> u32 \<Rightarrow> ('s, unit) prog" where
  [code_defs]: "mtx_set_owner m tid pid flags =
    bind (store (mtx_owner_id m) tid) (\<lambda>_.
    if flags AND GSYNC_SHARED \<noteq> 0 then store (mtx_shpid m) pid else Ret ())"

definition MTX_TYPE :: "('s, pthread_mutex) cell \<Rightarrow> ('s, u32) prog" where
  [code_defs]: "MTX_TYPE m =
    bind (load (mtx_type m)) (\<lambda>ty.
    bind (load (mtx_flags m)) (\<lambda>fl. Ret (ty OR (fl AND PTHREAD_MUTEX_ROBUST))))"

definition is_robust :: "u32 \<Rightarrow> bool" where
  "is_robust ty \<longleftrightarrow> ty = (PTHREAD_MUTEX_NORMAL OR PTHREAD_MUTEX_ROBUST) \<or>
     ty = (PTHREAD_MUTEX_RECURSIVE OR PTHREAD_MUTEX_ROBUST) \<or>
     ty = (PTHREAD_MUTEX_ERRORCHECK OR PTHREAD_MUTEX_ROBUST)"

text \<open>\<open>if (cnt + 1 == 0) return EAGAIN; ++cnt; return 0\<close>, which all lock calls share.\<close>

definition mtx_nest :: "('s, pthread_mutex) cell \<Rightarrow> ('s, ret) prog" where
  [code_defs]: "mtx_nest m =
    bind (load (mtx_cnt m)) (\<lambda>cnt.
    if cnt + 1 = 0 then Ret (Err EAGAIN)
    else bind (load (mtx_cnt m)) (\<lambda>cnt. bind (store (mtx_cnt m) (cnt + 1)) (\<lambda>_. Ret OK)))"

definition mtx_flags_shared :: "('s, pthread_mutex) cell \<Rightarrow> ('s, u32) prog" where
  [code_defs]: "mtx_flags_shared m = bind (load (mtx_flags m)) (\<lambda>fl. Ret (fl AND GSYNC_SHARED))"

text \<open>The macro \<open>ROBUST_LOCK\<close>; \<open>cb\<close> is the lock call that it is given.\<close>

definition robust_lock_owned :: "('s, pthread_mutex) cell \<Rightarrow> ('s, ret option) prog" where
  [code_defs]: "robust_lock_owned m =
    bind (load (mtx_type m)) (\<lambda>ty.
    if ty = PTHREAD_MUTEX_RECURSIVE then bind (mtx_nest m) (\<lambda>r. Ret (Some r))
    else bind (load (mtx_type m)) (\<lambda>ty.
      Ret (if ty = PTHREAD_MUTEX_ERRORCHECK then Some (Err EDEADLK) else None)))"

definition robust_lock_taken ::
  "thread \<Rightarrow> ('s, pthread_mutex) cell \<Rightarrow> ret \<Rightarrow> ('s, ret) prog" where
  [code_defs]: "robust_lock_taken self m ret =
    bind (load (mtx_owner_id m)) (\<lambda>own.
    if own = NOTRECOVERABLE_ID then Ret (Err ENOTRECOVERABLE)
    else bind (store (mtx_owner_id m) (th_id self)) (\<lambda>_.
      bind (store (mtx_cnt m) 1) (\<lambda>_.
      if ret = Err EOWNERDEAD then
        bind (load (mtx_lock m)) (\<lambda>w.
        bind (atomic_store (mtx_lock m) (w OR LLL_DEAD_OWNER)) (\<lambda>_. Ret ret))
      else Ret ret)))"

definition ROBUST_LOCK ::
  "thread \<Rightarrow> ('s, pthread_mutex) cell \<Rightarrow> ('s, ret) prog \<Rightarrow> ('s, ret) prog" where
  [code_defs]: "ROBUST_LOCK self m cb =
    bind (load (mtx_owner_id m)) (\<lambda>own.
    if own = NOTRECOVERABLE_ID then Ret (Err ENOTRECOVERABLE)
    else bind (load (mtx_owner_id m)) (\<lambda>own.
      bind (if own = th_id self
            then bind (load (mtx_lock m)) (\<lambda>w. Ret (th_pid self = (w AND LLL_OWNER_MASK)))
            else Ret False) (\<lambda>mine.
      bind (if mine then robust_lock_owned m else Ret None) (\<lambda>early.
      case early of Some r \<Rightarrow> Ret r
      | None \<Rightarrow> bind cb (\<lambda>ret.
          if ret = OK \<or> ret = Err EOWNERDEAD then robust_lock_taken self m ret else Ret ret)))))"

subsection \<open>Locking\<close>

definition pthread_mutex_lock :: "thread \<Rightarrow> ('s, pthread_mutex) cell \<Rightarrow> ('s, ret) prog" where
  [code_defs]: "pthread_mutex_lock self m =
    bind (mtx_flags_shared m) (\<lambda>flags.
    bind (MTX_TYPE m) (\<lambda>ty.
    if ty = PTHREAD_MUTEX_NORMAL then
      bind (lll_lock (mtx_lock m) flags) (\<lambda>_. Ret OK)
    else if ty = PTHREAD_MUTEX_RECURSIVE then
      bind (mtx_owned_p m self flags) (\<lambda>owned.
      if owned then mtx_nest m
      else bind (lll_lock (mtx_lock m) flags) (\<lambda>_.
        bind (mtx_set_owner m (th_id self) (th_pid self) flags) (\<lambda>_.
        bind (store (mtx_cnt m) 1) (\<lambda>_. Ret OK))))
    else if ty = PTHREAD_MUTEX_ERRORCHECK then
      bind (mtx_owned_p m self flags) (\<lambda>owned.
      if owned then Ret (Err EDEADLK)
      else bind (lll_lock (mtx_lock m) flags) (\<lambda>_.
        bind (mtx_set_owner m (th_id self) (th_pid self) flags) (\<lambda>_. Ret OK)))
    else if is_robust ty then
      ROBUST_LOCK self m (lll_robust_lock (mtx_lock m) (th_pid self) flags)
    else Ret (Err EINVAL)))"

definition pthread_mutex_trylock :: "thread \<Rightarrow> ('s, pthread_mutex) cell \<Rightarrow> ('s, ret) prog" where
  [code_defs]: "pthread_mutex_trylock self m =
    bind (MTX_TYPE m) (\<lambda>ty.
    if ty = PTHREAD_MUTEX_NORMAL then lll_trylock (mtx_lock m)
    else if ty = PTHREAD_MUTEX_RECURSIVE then
      bind (load (mtx_flags m)) (\<lambda>flags.
      bind (mtx_owned_p m self flags) (\<lambda>owned.
      if owned then mtx_nest m
      else bind (lll_trylock (mtx_lock m)) (\<lambda>ret.
        if ret = OK then
          bind (load (mtx_flags m)) (\<lambda>flags.
          bind (mtx_set_owner m (th_id self) (th_pid self) flags) (\<lambda>_.
          bind (store (mtx_cnt m) 1) (\<lambda>_. Ret ret)))
        else Ret ret)))
    else if ty = PTHREAD_MUTEX_ERRORCHECK then
      bind (load (mtx_flags m)) (\<lambda>flags.
      bind (mtx_owned_p m self flags) (\<lambda>owned.
      if owned then Ret (Err EDEADLK)
      else bind (lll_trylock (mtx_lock m)) (\<lambda>ret.
        if ret = OK then
          bind (load (mtx_flags m)) (\<lambda>flags.
          bind (mtx_set_owner m (th_id self) (th_pid self) flags) (\<lambda>_. Ret ret))
        else Ret ret)))
    else if is_robust ty then
      ROBUST_LOCK self m (lll_robust_trylock (mtx_lock m) (th_pid self))
    else Ret (Err EINVAL))"

definition pthread_mutex_timedlock ::
  "thread \<Rightarrow> ('s, pthread_mutex) cell \<Rightarrow> timespec \<Rightarrow> ('s, ret) prog" where
  [code_defs]: "pthread_mutex_timedlock self m tsp =
    bind (mtx_flags_shared m) (\<lambda>flags.
    bind (MTX_TYPE m) (\<lambda>ty.
    if ty = PTHREAD_MUTEX_NORMAL then lll_abstimed_lock (mtx_lock m) tsp flags CLOCK_REALTIME
    else if ty = PTHREAD_MUTEX_RECURSIVE then
      bind (mtx_owned_p m self flags) (\<lambda>owned.
      if owned then mtx_nest m
      else bind (lll_abstimed_lock (mtx_lock m) tsp flags CLOCK_REALTIME) (\<lambda>ret.
        if ret = OK then
          bind (mtx_set_owner m (th_id self) (th_pid self) flags) (\<lambda>_.
          bind (store (mtx_cnt m) 1) (\<lambda>_. Ret ret))
        else Ret ret))
    else if ty = PTHREAD_MUTEX_ERRORCHECK then
      bind (load (mtx_owner_id m)) (\<lambda>own.
      if own = th_id self then Ret (Err EDEADLK)
      else bind (lll_abstimed_lock (mtx_lock m) tsp flags CLOCK_REALTIME) (\<lambda>ret.
        if ret = OK then
          bind (mtx_set_owner m (th_id self) (th_pid self) flags) (\<lambda>_. Ret ret)
        else Ret ret))
    else if is_robust ty then
      ROBUST_LOCK self m
        (lll_robust_abstimed_lock (mtx_lock m) (th_pid self) tsp flags CLOCK_REALTIME)
    else Ret (Err EINVAL)))"

subsection \<open>Unlocking\<close>

text \<open>\<open>--mtxp->__cnt == 0\<close>\<close>

definition mtx_unnest :: "('s, pthread_mutex) cell \<Rightarrow> ('s, bool) prog" where
  [code_defs]: "mtx_unnest m =
    bind (load (mtx_cnt m)) (\<lambda>cnt. bind (store (mtx_cnt m) (cnt - 1)) (\<lambda>_. Ret (cnt - 1 = 0)))"

text \<open>\<open>mtxp->__owner_id = mtxp->__shpid = 0; lll_unlock (&mtxp->__lock, flags)\<close>\<close>

definition mtx_release :: "('s, pthread_mutex) cell \<Rightarrow> u32 \<Rightarrow> ('s, unit) prog" where
  [code_defs]: "mtx_release m flags =
    bind (store (mtx_shpid m) 0) (\<lambda>_.
    bind (store (mtx_owner_id m) 0) (\<lambda>_.
    lll_unlock (mtx_lock m) flags))"

text \<open>Is the caller the owner of a robust mutex: its id, then the process in the lock word.\<close>

definition robust_owned_p :: "('s, pthread_mutex) cell \<Rightarrow> thread \<Rightarrow> ('s, bool) prog" where
  [code_defs]: "robust_owned_p m self =
    bind (load (mtx_owner_id m)) (\<lambda>own.
    if own \<noteq> th_id self then Ret False
    else bind (load (mtx_lock m)) (\<lambda>w. Ret ((w AND LLL_OWNER_MASK) = th_pid self)))"

definition pthread_mutex_unlock :: "thread \<Rightarrow> ('s, pthread_mutex) cell \<Rightarrow> ('s, ret) prog" where
  [code_defs]: "pthread_mutex_unlock self m =
    bind (mtx_flags_shared m) (\<lambda>flags.
    bind (MTX_TYPE m) (\<lambda>ty.
    if ty = PTHREAD_MUTEX_NORMAL then bind (lll_unlock (mtx_lock m) flags) (\<lambda>_. Ret OK)
    else if ty = PTHREAD_MUTEX_RECURSIVE then
      bind (mtx_owned_p m self flags) (\<lambda>owned.
      if \<not> owned then Ret (Err EPERM)
      else bind (mtx_unnest m) (\<lambda>last.
        if last then bind (mtx_release m flags) (\<lambda>_. Ret OK) else Ret OK))
    else if ty = PTHREAD_MUTEX_ERRORCHECK then
      bind (mtx_owned_p m self flags) (\<lambda>owned.
      if \<not> owned then Ret (Err EPERM)
      else bind (mtx_release m flags) (\<lambda>_. Ret OK))
    else if is_robust ty then
      bind (load (mtx_owner_id m)) (\<lambda>own.
      if own = NOTRECOVERABLE_ID then Ret OK
      else bind (robust_owned_p m self) (\<lambda>owned.
        if \<not> owned then Ret (Err EPERM)
        else bind (mtx_unnest m) (\<lambda>last.
          if last then
            bind (load (mtx_lock m)) (\<lambda>w.
            bind (store (mtx_owner_id m)
              (if w AND LLL_DEAD_OWNER \<noteq> 0 then NOTRECOVERABLE_ID else 0)) (\<lambda>_.
            bind (lll_robust_unlock (mtx_lock m) flags) (\<lambda>_. Ret OK)))
          else Ret OK)))
    else Ret (Err EINVAL)))"

subsection \<open>Recovery and transfer\<close>

definition pthread_mutex_consistent :: "thread \<Rightarrow> ('s, pthread_mutex) cell \<Rightarrow> ('s, ret) prog" where
  [code_defs]: "pthread_mutex_consistent self m =
    bind (load (mtx_lock m)) (\<lambda>val.
    bind (load (mtx_flags m)) (\<lambda>fl.
    bind (if fl AND PTHREAD_MUTEX_ROBUST \<noteq> 0 \<and> val AND LLL_DEAD_OWNER \<noteq> 0
          then atomic_cas_bool (mtx_lock m) val (th_pid self OR LLL_WAITERS)
          else Ret False) (\<lambda>ok.
    if ok then
      bind (store (mtx_owner_id m) (th_id self)) (\<lambda>_.
      bind (store (mtx_cnt m) 1) (\<lambda>_. Ret OK))
    else Ret (Err EINVAL))))"

definition pthread_mutex_transfer_np ::
  "thread \<Rightarrow> ('s, pthread_mutex) cell \<Rightarrow> ('s, pthread) cell \<Rightarrow> ('s, ret) prog" where
  [code_defs]: "pthread_mutex_transfer_np self m pt =
    bind (INVALID_P pt) (\<lambda>invalid.
    if invalid then Ret (Err ESRCH)
    else if c_addr pt = th_addr self then Ret OK
    else bind (mtx_flags_shared m) (\<lambda>flags.
      bind (MTX_TYPE m) (\<lambda>ty.
      if ty = PTHREAD_MUTEX_NORMAL then Ret OK
      else if ty = PTHREAD_MUTEX_RECURSIVE \<or> ty = PTHREAD_MUTEX_ERRORCHECK then
        bind (mtx_owned_p m self flags) (\<lambda>owned.
        if \<not> owned then Ret (Err EPERM)
        else bind (load (pth_id pt)) (\<lambda>new_id.
          bind (mtx_set_owner m new_id (th_pid self) flags) (\<lambda>_. Ret OK)))
      else if is_robust ty then
        bind (robust_owned_p m self) (\<lambda>owned.
        if \<not> owned then Ret (Err EPERM)
        else bind (load (pth_id pt)) (\<lambda>new_id.
          bind (store (mtx_owner_id m) new_id) (\<lambda>_. Ret OK)))
      else Ret (Err EINVAL))))"

subsection \<open>Solo runs of the helpers\<close>

definition plain_type :: "u32 \<Rightarrow> bool" where
  "plain_type ty \<longleftrightarrow>
    ty = PTHREAD_MUTEX_NORMAL \<or> ty = PTHREAD_MUTEX_RECURSIVE \<or> ty = PTHREAD_MUTEX_ERRORCHECK"

abbreviation mtx_kernel :: "u32 \<Rightarrow> pthread_mutex keff" where
  "mtx_kernel a \<equiv> gsync_effect (mtx_lock (whole a))"

text \<open>The three ways to take a mutex.\<close>

fun mutex_take :: "thread \<Rightarrow> ('s, pthread_mutex) cell \<Rightarrow> lock_call \<Rightarrow> ('s, ret) prog" where
  "mutex_take self m Lock = pthread_mutex_lock self m"
| "mutex_take self m Trylock = pthread_mutex_trylock self m"
| "mutex_take self m (Timedlock tsp clk) = pthread_mutex_timedlock self m tsp"

lemma mtx_sel [simp]:
  "c_addr (mtx_lock c) = c_addr c"
  "c_get (mtx_lock c) s = m_lock (c_get c s)"
  "c_put (mtx_lock c) v s = c_put c ((c_get c s)\<lparr>m_lock := v\<rparr>) s"
  "c_addr (mtx_owner_id c) = c_addr c + 4"
  "c_get (mtx_owner_id c) s = m_owner_id (c_get c s)"
  "c_put (mtx_owner_id c) v s = c_put c ((c_get c s)\<lparr>m_owner_id := v\<rparr>) s"
  "c_addr (mtx_cnt c) = c_addr c + 8"
  "c_get (mtx_cnt c) s = m_cnt (c_get c s)"
  "c_put (mtx_cnt c) v s = c_put c ((c_get c s)\<lparr>m_cnt := v\<rparr>) s"
  "c_addr (mtx_shpid c) = c_addr c + 12"
  "c_get (mtx_shpid c) s = m_shpid (c_get c s)"
  "c_put (mtx_shpid c) v s = c_put c ((c_get c s)\<lparr>m_shpid := v\<rparr>) s"
  "c_addr (mtx_type c) = c_addr c + 16"
  "c_get (mtx_type c) s = m_type (c_get c s)"
  "c_put (mtx_type c) v s = c_put c ((c_get c s)\<lparr>m_type := v\<rparr>) s"
  "c_addr (mtx_flags c) = c_addr c + 20"
  "c_get (mtx_flags c) s = m_flags (c_get c s)"
  "c_put (mtx_flags c) v s = c_put c ((c_get c s)\<lparr>m_flags := v\<rparr>) s"
  by (simp_all add: mtx_lock_def mtx_owner_id_def mtx_cnt_def mtx_shpid_def mtx_type_def mtx_flags_def)

lemma run_mtx_flags_shared [runs]:
  "exec M (bind (mtx_flags_shared (whole a)) f) rs s l = exec M (f (m_flags s AND 1)) rs s l"
  by (simp add: mtx_flags_shared_def runs)

lemma run_MTX_TYPE [runs]:
  "exec M (bind (MTX_TYPE (whole a)) f) rs s l =
    exec M (f (m_type s OR (m_flags s AND PTHREAD_MUTEX_ROBUST))) rs s l"
  by (simp add: MTX_TYPE_def runs)

lemma run_mtx_owned_p [runs]:
  "exec M (bind (mtx_owned_p (whole a) self flags) f) rs s l =
    exec M (f (m_owner_id s = th_id self \<and>
      (flags AND GSYNC_SHARED = 0 \<or> m_shpid s = th_pid self))) rs s l"
  by (simp add: mtx_owned_p_def runs)

lemma run_mtx_nest [runs]:
  "exec M (mtx_nest (whole a)) rs s l =
    (if m_cnt s + 1 = 0 then Some (Err EAGAIN, s, rs, l)
     else Some (OK, s\<lparr>m_cnt := m_cnt s + 1\<rparr>, rs, l))"
  by (simp add: mtx_nest_def runs)

lemma run_mtx_set_owner [runs]:
  "exec M (bind (mtx_set_owner (whole a) tid pid flags) f) rs s l =
    exec M (f ()) rs (s\<lparr>m_owner_id := tid,
      m_shpid := if flags AND GSYNC_SHARED \<noteq> 0 then pid else m_shpid s\<rparr>) l"
  by (simp add: mtx_set_owner_def runs)

lemma run_mtx_unnest [runs]:
  "exec M (bind (mtx_unnest (whole a)) f) rs s l =
    exec M (f (m_cnt s - 1 = 0)) rs (s\<lparr>m_cnt := m_cnt s - 1\<rparr>) l"
  by (simp add: mtx_unnest_def runs)

lemma run_mtx_release [runs]:
  assumes "flags AND GSYNC_MUTATE = 0"
  shows "exec (mtx_kernel b) (bind (mtx_release (whole a) flags) f) (r # rs) s l =
    (let s' = s\<lparr>m_shpid := 0, m_owner_id := 0, m_lock := 0\<rparr> in
     if m_lock s = 1 then exec (mtx_kernel b) (f ()) (r # rs) s' l
     else exec (mtx_kernel b) (f ()) rs s' (l @ [wake_call a 0 flags]))"
  using assms by (simp add: mtx_release_def runs)

subsection \<open>Refinement of an abstract mutex\<close>

text \<open>
  What a mutex of one of the two owner-checking types promises: it is free, or held by an owner so many
  times over. An owner is an id, with the process for a shared mutex.
\<close>

datatype amutex = Free | Held "u32 \<times> u32" nat

definition mtx_me :: "thread \<Rightarrow> u32 \<Rightarrow> u32 \<times> u32" where
  "mtx_me th fl = (th_id th, if fl AND GSYNC_SHARED = 0 then 0 else th_pid th)"

definition mtx_abs :: "pthread_mutex \<Rightarrow> amutex" where
  "mtx_abs s = (if m_lock s = 0 then Free else Held (m_owner_id s, m_shpid s) (unat (m_cnt s)))"

text \<open>Shape of a mutex of one of the two types that record their owner, between calls.\<close>

definition mtx_wf :: "pthread_mutex \<Rightarrow> bool" where
  "mtx_wf s \<longleftrightarrow> (m_type s = PTHREAD_MUTEX_RECURSIVE \<or> m_type s = PTHREAD_MUTEX_ERRORCHECK) \<and>
     m_flags s AND PTHREAD_MUTEX_ROBUST = 0 \<and>
     (m_flags s AND GSYNC_SHARED = 0 \<longrightarrow> m_shpid s = 0) \<and>
     (if m_lock s = 0 then m_owner_id s = 0 \<and> m_shpid s = 0 \<and> m_cnt s = 0
      else m_owner_id s \<noteq> 0 \<and> (m_cnt s = 0 \<longleftrightarrow> m_type s = PTHREAD_MUTEX_ERRORCHECK))"

fun spec_trylock :: "u32 \<Rightarrow> u32 \<times> u32 \<Rightarrow> amutex \<Rightarrow> ret \<times> amutex" where
  "spec_trylock ty me Free = (OK, Held me (if ty = PTHREAD_MUTEX_RECURSIVE then 1 else 0))"
| "spec_trylock ty me (Held w d) =
    (if w \<noteq> me then (Err EBUSY, Held w d)
     else if ty = PTHREAD_MUTEX_ERRORCHECK then (Err EDEADLK, Held w d)
     else if Suc d < 2 ^ 32 then (OK, Held w (Suc d)) else (Err EAGAIN, Held w d))"

fun spec_unlock :: "u32 \<Rightarrow> u32 \<times> u32 \<Rightarrow> amutex \<Rightarrow> ret \<times> amutex" where
  "spec_unlock ty me Free = (Err EPERM, Free)"
| "spec_unlock ty me (Held w d) =
    (if w \<noteq> me then (Err EPERM, Held w d)
     else if ty = PTHREAD_MUTEX_RECURSIVE \<and> d > 1 then (OK, Held w (d - 1)) else (OK, Free))"

lemmas mtx_spec = mtx_wf_def mtx_abs_def mtx_me_def runs

lemma mtx_owned_iff:
  assumes "mtx_wf s"
  shows "m_owner_id s = th_id self \<and> (m_flags s AND GSYNC_SHARED = 0 \<or> m_shpid s = th_pid self) \<longleftrightarrow>
    (m_owner_id s, m_shpid s) = mtx_me self (m_flags s)"
  using assms by (auto simp: mtx_wf_def mtx_me_def)

lemma unlock_not_owner:
  assumes "mtx_wf s" and "th_id self \<noteq> 0" "(m_owner_id s, m_shpid s) \<noteq> mtx_me self (m_flags s)"
  shows "exec M (pthread_mutex_unlock self (whole a)) rs s l = Some (Err EPERM, s, rs, l)"
proof -
  have "(m_type s = 1 \<or> m_type s = 2) \<and> m_flags s AND 256 = 0" using assms(1) by (simp add: mtx_wf_def)
  then show ?thesis using assms
  by (auto simp: pthread_mutex_unlock_def runs mtx_owned_iff)
qed

lemma unlock_owner:
  assumes "mtx_wf s" and "(m_owner_id s, m_shpid s) = mtx_me self (m_flags s)"
  shows "exec (mtx_kernel b) (pthread_mutex_unlock self (whole a)) (r # rs) s l =
    (if m_type s = PTHREAD_MUTEX_RECURSIVE \<and> m_cnt s \<noteq> 1
     then Some (OK, s\<lparr>m_cnt := m_cnt s - 1\<rparr>, r # rs, l)
     else (let s' = s\<lparr>m_cnt := 0, m_shpid := 0, m_owner_id := 0, m_lock := 0\<rparr> in
       if m_lock s = 1 then Some (OK, s', r # rs, l)
       else Some (OK, s', rs, l @ [wake_call a 0 (m_flags s AND GSYNC_SHARED)])))"
proof -
  have "m_type s = 1 \<or> m_type s = 2 \<and> s\<lparr>m_cnt := 0\<rparr> = s" "m_flags s AND 256 = 0"
    using assms(1) by (auto simp: mtx_wf_def split: if_splits)
  then show ?thesis using assms
    by (auto simp: pthread_mutex_unlock_def runs mtx_owned_iff Let_def)
qed

subsection \<open>The life of a robust mutex\<close>

definition robust_mutex :: "pthread_mutex \<Rightarrow> bool" where
  "robust_mutex s \<longleftrightarrow> plain_type (m_type s) \<and> m_flags s AND PTHREAD_MUTEX_ROBUST = PTHREAD_MUTEX_ROBUST"

definition robust_mine :: "thread \<Rightarrow> pthread_mutex \<Rightarrow> bool" where
  "robust_mine self s \<longleftrightarrow> m_owner_id s = th_id self \<and> (m_lock s AND LLL_OWNER_MASK) = th_pid self"

lemma robust_type:
  assumes "robust_mutex s"
  shows "m_type s OR (m_flags s AND PTHREAD_MUTEX_ROBUST) \<notin>
      {PTHREAD_MUTEX_NORMAL, PTHREAD_MUTEX_RECURSIVE, PTHREAD_MUTEX_ERRORCHECK}"
    and "is_robust (m_type s OR (m_flags s AND PTHREAD_MUTEX_ROBUST))"
  using assms by (auto simp: robust_mutex_def plain_type_def is_robust_def)

lemma run_robust_owned_p [runs]:
  "exec M (bind (robust_owned_p (whole a) self) f) rs s l = exec M (f (robust_mine self s)) rs s l"
  by (simp add: robust_owned_p_def robust_mine_def runs)

lemma run_ROBUST_LOCK_foreign:
  assumes "m_owner_id s \<noteq> NOTRECOVERABLE_ID" and "\<not> robust_mine self s"
  shows "exec M (ROBUST_LOCK self (whole a) cb) rs s l =
    exec M (bind cb (\<lambda>ret.
      if ret = OK \<or> ret = Err EOWNERDEAD then robust_lock_taken self (whole a) ret else Ret ret)) rs s l"
  using assms by (auto simp: ROBUST_LOCK_def robust_mine_def runs)

lemma run_robust_lock_taken:
  "exec M (robust_lock_taken self (whole a) ret) rs s l =
    (if m_owner_id s = NOTRECOVERABLE_ID then Some (Err ENOTRECOVERABLE, s, rs, l)
     else Some (ret, s\<lparr>m_owner_id := th_id self, m_cnt := 1,
       m_lock := (if ret = Err EOWNERDEAD then m_lock s OR LLL_DEAD_OWNER else m_lock s)\<rparr>, rs, l))"
  by (simp add: robust_lock_taken_def runs)

lemma waiters_mask: "((x :: u32) OR LLL_WAITERS) AND LLL_OWNER_MASK = x AND LLL_OWNER_MASK"
  by (rule and_disjoint_or) simp

lemma lll_robust_lock_dead:
  assumes "m_lock s \<noteq> 0" and "r_port r = MACH_PORT_NULL"
  shows "exec (mtx_kernel b) (lll_robust_lock (mtx_lock (whole a)) pid flags) (r # rs) s l =
      Some (Err EOWNERDEAD, s\<lparr>m_lock := pid OR LLL_WAITERS\<rparr>, rs,
        l @ [Pid2Task (m_lock s AND LLL_OWNER_MASK)])"
    and "exec (mtx_kernel b) (lll_robust_abstimed_lock (mtx_lock (whole a)) pid tsp flags clk)
        (r # rs) s l =
      Some (Err EOWNERDEAD, s\<lparr>m_lock := pid OR LLL_WAITERS\<rparr>, rs,
        l @ [Pid2Task (m_lock s AND LLL_OWNER_MASK)])"
    and "exec (mtx_kernel b) (lll_robust_trylock (mtx_lock (whole a)) pid) (r # rs) s l =
      Some (Err EOWNERDEAD, s\<lparr>m_lock := pid\<rparr>, rs, l @ [Pid2Task (m_lock s AND LLL_OWNER_MASK)])"
proof -
  have "m_lock s OR LLL_WAITERS \<noteq> 0" by (rule or_nonzero) simp
  then show "exec (mtx_kernel b) (lll_robust_lock (mtx_lock (whole a)) pid flags) (r # rs) s l =
      Some (Err EOWNERDEAD, s\<lparr>m_lock := pid OR LLL_WAITERS\<rparr>, rs,
        l @ [Pid2Task (m_lock s AND LLL_OWNER_MASK)])"
    and "exec (mtx_kernel b) (lll_robust_abstimed_lock (mtx_lock (whole a)) pid tsp flags clk)
        (r # rs) s l =
      Some (Err EOWNERDEAD, s\<lparr>m_lock := pid OR LLL_WAITERS\<rparr>, rs,
        l @ [Pid2Task (m_lock s AND LLL_OWNER_MASK)])"
    using assms
    by (simp_all add: lll_robust_lock_def lll_robust_abstimed_lock_def runs exec_loop waiters_mask)
qed (use assms in \<open>simp add: lll_robust_trylock_def runs\<close>)

lemma robust_takeover:
  assumes "robust_mutex s" and "m_lock s \<noteq> 0" and "m_owner_id s \<noteq> NOTRECOVERABLE_ID"
    and "\<not> robust_mine self s" and "r_port r = MACH_PORT_NULL"
  shows "exec (mtx_kernel b) (mutex_take self (whole a) call) (r # rs) s l =
    Some (Err EOWNERDEAD, s\<lparr>m_owner_id := th_id self, m_cnt := 1,
      m_lock := (if call = Trylock then th_pid self else th_pid self OR LLL_WAITERS) OR LLL_DEAD_OWNER\<rparr>,
      rs, l @ [Pid2Task (m_lock s AND LLL_OWNER_MASK)])"
  using assms robust_type [OF assms(1)]
  by (cases call) (simp_all add: pthread_mutex_lock_def pthread_mutex_trylock_def pthread_mutex_timedlock_def
    runs run_ROBUST_LOCK_foreign lll_robust_lock_dead [THEN exec_bind] run_robust_lock_taken)

text \<open>Unlocking: in the inconsistent state it makes the mutex unusable for good.\<close>

lemma run_lll_robust_unlock:
  "exec (mtx_kernel a) (bind (lll_robust_unlock (mtx_lock (whole a)) flags) f) (r # rs) s l =
    (if m_lock s AND LLL_WAITERS = 0 then exec (mtx_kernel a) (f ()) (r # rs) (s\<lparr>m_lock := 0\<rparr>) l
     else exec (mtx_kernel a) (f ()) rs (s\<lparr>m_lock := 0\<rparr>) (l @ [wake_call a 0 (flags OR GSYNC_MUTATE)]))"
proof (cases "m_lock s AND LLL_WAITERS = 0")
  case True
  have "exec (mtx_kernel a) (lll_robust_unlock (mtx_lock (whole a)) flags) (r # rs) s l =
    Some ((), s\<lparr>m_lock := 0\<rparr>, r # rs, l)"
    using True by (simp add: lll_robust_unlock_def exec_loop runs)
  with True show ?thesis by (simp add: exec_bind)
next
  case False
  have "exec (mtx_kernel a) (lll_robust_unlock (mtx_lock (whole a)) flags) (r # rs) s l =
    Some ((), s\<lparr>m_lock := 0\<rparr>, rs, (l @ [wake_call a 0 (flags OR GSYNC_MUTATE)]))"
    using False by (simp add: lll_robust_unlock_def exec_loop runs lll_set_wake_def gsync_wake_def sys_def gsync_effect_def)
  with False show ?thesis by (simp add: exec_bind)
qed

lemma robust_unlock:
  assumes "robust_mutex s" and "m_owner_id s \<noteq> NOTRECOVERABLE_ID" and "robust_mine self s" and "m_cnt s = 1"
  shows "\<exists>rs' l'. exec (mtx_kernel a) (pthread_mutex_unlock self (whole a)) (r # rs) s l =
    Some (OK, s\<lparr>m_lock := 0, m_cnt := 0, m_owner_id := (if m_lock s AND LLL_DEAD_OWNER = 0 then 0 else NOTRECOVERABLE_ID)\<rparr>, rs', l')"
  using assms robust_type [OF assms(1)]
  by (simp add: pthread_mutex_unlock_def runs run_lll_robust_unlock)

lemma robust_dead_end:
  assumes "robust_mutex s" and "m_owner_id s = NOTRECOVERABLE_ID"
  shows "exec M (mutex_take self (whole a) call) rs s l = Some (Err ENOTRECOVERABLE, s, rs, l)"
    and "exec M (pthread_mutex_unlock self (whole a)) rs s l = Some (OK, s, rs, l)"
  using assms robust_type [OF assms(1)]
  by (cases call, simp_all add: pthread_mutex_lock_def pthread_mutex_trylock_def pthread_mutex_timedlock_def pthread_mutex_unlock_def ROBUST_LOCK_def runs)

lemma robust_consistent:
  assumes "robust_mutex s" and "m_lock s AND LLL_DEAD_OWNER \<noteq> 0"
  shows "exec M (pthread_mutex_consistent self (whole a)) rs s l =
    Some (OK, s\<lparr>m_lock := th_pid self OR LLL_WAITERS, m_owner_id := th_id self, m_cnt := 1\<rparr>, rs, l)"
  using assms by (simp add: pthread_mutex_consistent_def runs robust_mutex_def)
lemma robust_free:
  assumes "robust_mutex s" and "m_lock s = 0" and "m_owner_id s \<noteq> NOTRECOVERABLE_ID"
    and "th_pid self \<noteq> 0"
  shows "exec M (mutex_take self (whole a) call) rs s l =
    Some (OK, s\<lparr>m_owner_id := th_id self, m_cnt := 1, m_lock := th_pid self\<rparr>, rs, l)"
proof -
  have "\<not> robust_mine self s" using assms(2,4) by (simp add: robust_mine_def)
  with assms robust_type [OF assms(1)] show ?thesis
    by (cases call) (simp_all add: pthread_mutex_lock_def pthread_mutex_trylock_def
        pthread_mutex_timedlock_def lll_robust_lock_def lll_robust_abstimed_lock_def
        lll_robust_trylock_def runs run_ROBUST_LOCK_foreign run_robust_lock_taken)
qed

lemma pid_flag_bits:
  assumes "(pid :: u32) AND LLL_OWNER_MASK = pid"
  shows "pid AND LLL_DEAD_OWNER = 0" and "pid OR LLL_DEAD_OWNER \<noteq> 0"
    and "((pid OR LLL_WAITERS) OR LLL_DEAD_OWNER) AND LLL_OWNER_MASK = pid"
    and "(pid OR LLL_DEAD_OWNER) AND LLL_OWNER_MASK = pid"
    and "(pid OR LLL_WAITERS) AND LLL_OWNER_MASK = pid"
    and "(pid OR LLL_WAITERS) AND LLL_DEAD_OWNER = 0"
proof -
  have "pid AND LLL_DEAD_OWNER = (pid AND LLL_OWNER_MASK) AND LLL_DEAD_OWNER" using assms by simp
  also have "\<dots> = 0" by (simp add: and.assoc)
  finally show *: "pid AND LLL_DEAD_OWNER = 0" .
  show "pid OR LLL_DEAD_OWNER \<noteq> 0" by (rule or_nonzero) simp
  show "((pid OR LLL_WAITERS) OR LLL_DEAD_OWNER) AND LLL_OWNER_MASK = pid"
    by (simp add: and_disjoint_or assms)
  show "(pid OR LLL_DEAD_OWNER) AND LLL_OWNER_MASK = pid"
    by (simp add: and_disjoint_or assms)
  show "(pid OR LLL_WAITERS) AND LLL_OWNER_MASK = pid"
    by (simp add: and_disjoint_or assms)
  show "(pid OR LLL_WAITERS) AND LLL_DEAD_OWNER = 0"
    by (simp add: and_disjoint_or *)
qed

subsection \<open>Properties\<close>

text \<open>
  C23. Trying a recursive or error-checking mutex refines the abstract mutex: on every well-formed
  state it returns without a kernel call, with the abstract result (0, \<open>EBUSY\<close>, \<open>EDEADLK\<close>, or
  \<open>EAGAIN\<close> when the count would wrap) and the abstract successor, and the state stays well-formed.
\<close>

theorem mutex_trylock_refines:
  assumes "mtx_wf s" and "th_id self \<noteq> 0"
  shows "\<exists>r s'. exec M (pthread_mutex_trylock self (whole a)) rs s l = Some (r, s', rs, l) \<and>
    mtx_wf s' \<and> (r, mtx_abs s') = spec_trylock (m_type s) (mtx_me self (m_flags s)) (mtx_abs s)"
proof (cases "m_lock s = 0")
  case True
  with assms show ?thesis
    unfolding pthread_mutex_trylock_def by (auto simp: mtx_spec)
next
  case False
  with assms show ?thesis
    unfolding pthread_mutex_trylock_def by (auto simp: mtx_spec wrap_iff_32 unat_Suc_bound)
qed

lemma mutex_trylock_refines_witness:
  "\<exists>r s'. exec (\<lambda>_ s. s) (pthread_mutex_trylock \<lparr>th_addr = 4096, th_id = 3, th_pid = 9\<rparr> (whole 64)) []
      \<lparr>m_lock = 1, m_owner_id = 3, m_cnt = 0xFFFFFFFF, m_shpid = 0, m_type = 1, m_flags = 0\<rparr> [] =
    Some (r, s', [], []) \<and> r = Err EAGAIN \<and> mtx_abs s' = Held (3, 0) 4294967295"
proof -
  let ?self = "\<lparr>th_addr = 4096, th_id = 3, th_pid = 9\<rparr>"
  let ?s = "\<lparr>m_lock = 1, m_owner_id = 3, m_cnt = 0xFFFFFFFF, m_shpid = 0, m_type = 1, m_flags = 0\<rparr>"
  have "mtx_wf ?s" "mtx_abs ?s = Held (3, 0) 4294967295" "mtx_me ?self 0 = (3, 0)"
    by (simp_all add: mtx_wf_def mtx_abs_def mtx_me_def)
  with mutex_trylock_refines [of ?s ?self "\<lambda>_ s. s" 64 "[]" "[]"] show ?thesis by auto
qed

text \<open>
  C22. Unlocking refines the abstract mutex too: only the owner may unlock (\<open>EPERM\<close> otherwise, and
  nothing changes), a recursive mutex is released by the last unlock, and the kernel is asked to
  wake a waiter exactly when the mutex is released and its lock word was marked contended.
\<close>

theorem mutex_unlock_refines:
  assumes "mtx_wf s" and "th_id self \<noteq> 0"
  shows "\<exists>r s' rs' l'. exec (mtx_kernel b) (pthread_mutex_unlock self (whole a)) (r0 # rs) s l =
      Some (r, s', rs', l') \<and> mtx_wf s' \<and>
      (r, mtx_abs s') = spec_unlock (m_type s) (mtx_me self (m_flags s)) (mtx_abs s) \<and>
      l' = (if r = OK \<and> mtx_abs s' = Free \<and> m_lock s \<noteq> 1
            then l @ [wake_call a 0 (m_flags s AND GSYNC_SHARED)] else l)"
proof (cases "(m_owner_id s, m_shpid s) = mtx_me self (m_flags s)")
  case False
  with assms show ?thesis by (simp add: unlock_not_owner mtx_abs_def)
next
  case True
  with assms have h: "m_lock s \<noteq> 0" by (auto simp: mtx_wf_def mtx_me_def split: if_splits)
  show ?thesis
  proof (cases "m_type s = PTHREAD_MUTEX_RECURSIVE \<and> m_cnt s \<noteq> 1")
    case nested: True
    have "mtx_wf (s\<lparr>m_cnt := m_cnt s - 1\<rparr>)"
      using assms(1) h nested by (auto simp: mtx_wf_def)
    moreover have "1 < unat (m_cnt s)" "unat (m_cnt s - 1) = unat (m_cnt s) - 1"
      using assms(1) h nested by (cases rule: count_cases_32 [of "m_cnt s"]; simp add: mtx_wf_def)+
    ultimately show ?thesis
      using nested h True by (simp add: unlock_owner [OF assms(1) True] mtx_abs_def)
  next
    case last: False
    have "mtx_wf (s\<lparr>m_cnt := 0, m_shpid := 0, m_owner_id := 0, m_lock := 0\<rparr>)"
      using assms(1) by (auto simp: mtx_wf_def)
    with last h True show ?thesis
      by (auto simp: unlock_owner [OF assms(1) True] mtx_abs_def Let_def)
  qed
qed

lemma mutex_unlock_refines_witness:
  "\<exists>r s' rs' l'. exec (mtx_kernel 64)
      (pthread_mutex_unlock \<lparr>th_addr = 4096, th_id = 3, th_pid = 9\<rparr> (whole 64)) [reply0]
      \<lparr>m_lock = 2, m_owner_id = 3, m_cnt = 1, m_shpid = 9, m_type = 1, m_flags = 1\<rparr> [] =
    Some (r, s', rs', l') \<and> r = OK \<and> mtx_abs s' = Free \<and> l' = [wake_call 64 0 1]"
proof -
  let ?self = "\<lparr>th_addr = 4096, th_id = 3, th_pid = 9\<rparr>"
  let ?s = "\<lparr>m_lock = 2, m_owner_id = 3, m_cnt = 1, m_shpid = 9, m_type = 1, m_flags = 1\<rparr>"
  have "mtx_wf ?s" "mtx_abs ?s = Held (3, 9) 1" "mtx_me ?self 1 = (3, 9)"
    by (simp_all add: mtx_wf_def mtx_abs_def mtx_me_def)
  with mutex_unlock_refines [of ?s ?self 64 64 reply0 "[]" "[]"] show ?thesis by auto
qed



text \<open>
  C20. A robust mutex whose owner's process has died: whichever call takes it next finds that out,
  gets it in the inconsistent state and returns \<open>EOWNERDEAD\<close>. If the new owner unlocks it like that,
  every later call of anybody returns \<open>ENOTRECOVERABLE\<close>; if it marks the mutex consistent
  first, the mutex is released properly and everybody can lock it again.
\<close>

theorem robust_mutex_recovery:
  assumes "robust_mutex s" and "m_lock s \<noteq> 0" and "m_owner_id s \<noteq> NOTRECOVERABLE_ID"
    and "\<not> robust_mine self s" and "th_id self \<noteq> NOTRECOVERABLE_ID"
    and "th_pid self \<noteq> 0" and "th_pid self AND LLL_OWNER_MASK = th_pid self"
    and "r_port dead = MACH_PORT_NULL"
  shows "\<exists>s1 s2 s3. exec (mtx_kernel a) (mutex_take self (whole a) call) [dead] s [] =
      Some (Err EOWNERDEAD, s1, [], [Pid2Task (m_lock s AND LLL_OWNER_MASK)]) \<and>
    (\<exists>rs l. exec (mtx_kernel a) (pthread_mutex_unlock self (whole a)) [r] s1 [] = Some (OK, s2, rs, l)) \<and>
    m_lock s2 = 0 \<and>
    (\<forall>other call rs. exec (mtx_kernel a) (mutex_take other (whole a) call) rs s2 [] =
      Some (Err ENOTRECOVERABLE, s2, rs, [])) \<and>
    exec (mtx_kernel a) (pthread_mutex_consistent self (whole a)) [] s1 [] = Some (OK, s3, [], []) \<and>
    (\<exists>s4 rs l. exec (mtx_kernel a) (pthread_mutex_unlock self (whole a)) [r] s3 [] = Some (OK, s4, rs, l) \<and>
      (\<forall>other call rs. th_pid other \<noteq> 0 \<longrightarrow> (\<exists>s5. exec (mtx_kernel a) (mutex_take other (whole a) call) rs s4 [] =
        Some (OK, s5, rs, []) \<and> m_owner_id s5 = th_id other \<and> m_lock s5 = th_pid other)))"
proof -
  let ?s1 = "s\<lparr>m_owner_id := th_id self, m_cnt := 1,
      m_lock := (if call = Trylock then th_pid self else th_pid self OR LLL_WAITERS) OR LLL_DEAD_OWNER\<rparr>"
  let ?s2 = "?s1\<lparr>m_lock := 0, m_cnt := 0, m_owner_id := NOTRECOVERABLE_ID\<rparr>"
  let ?s3 = "?s1\<lparr>m_lock := th_pid self OR LLL_WAITERS, m_owner_id := th_id self, m_cnt := 1\<rparr>"
  let ?s4 = "?s3\<lparr>m_lock := 0, m_cnt := 0, m_owner_id := 0\<rparr>"
  note bits = pid_flag_bits [OF assms(7)]
  have rm: "robust_mutex ?s1" "robust_mutex ?s2" "robust_mutex ?s3" "robust_mutex ?s4"
    using assms(1) by (simp_all add: robust_mutex_def)
  have mine: "robust_mine self ?s1" "robust_mine self ?s3" 
    by (simp_all add: robust_mine_def bits)
  have "exec (mtx_kernel a) (mutex_take self (whole a) call) [dead] s [] =
      Some (Err EOWNERDEAD, ?s1, [], [Pid2Task (m_lock s AND LLL_OWNER_MASK)])"
    using robust_takeover [OF assms(1-4,8)] by simp
  moreover have "\<exists>rs l. exec (mtx_kernel a) (pthread_mutex_unlock self (whole a)) [r] ?s1 [] =
      Some (OK, ?s2, rs, l)"
    using robust_unlock [OF rm(1) _ mine(1)] assms(5) by simp
  moreover have "exec (mtx_kernel a) (pthread_mutex_consistent self (whole a)) [] ?s1 [] =
      Some (OK, ?s3, [], [])"
    by (rule robust_consistent [OF rm(1)]) simp
  moreover have "\<exists>rs l. exec (mtx_kernel a) (pthread_mutex_unlock self (whole a)) [r] ?s3 [] =
      Some (OK, ?s4, rs, l)"
    using robust_unlock [OF rm(3) _ mine(2)] assms(5) by (simp add: bits)
  moreover have "exec (mtx_kernel a) (mutex_take other (whole a) call) rs ?s2 [] =
      Some (Err ENOTRECOVERABLE, ?s2, rs, [])" for other call rs
    by (rule robust_dead_end [OF rm(2)]) simp
  moreover have "exec (mtx_kernel a) (mutex_take other (whole a) call) rs ?s4 [] =
      Some (OK, ?s4\<lparr>m_owner_id := th_id other, m_cnt := 1, m_lock := th_pid other\<rparr>, rs, [])"
    if "th_pid other \<noteq> 0" for other call rs
    using that by (intro robust_free [OF rm(4)]) simp_all
  ultimately show ?thesis by fastforce
qed

lemma robust_mutex_recovery_witness:
  "\<exists>s1. exec (mtx_kernel 64) (mutex_take \<lparr>th_addr = 4096, th_id = 3, th_pid = 9\<rparr> (whole 64) Lock)
      [reply0\<lparr>r_port := MACH_PORT_NULL\<rparr>]
      \<lparr>m_lock = 7, m_owner_id = 1, m_cnt = 1, m_shpid = 0, m_type = 0, m_flags = 0x101\<rparr> [] =
    Some (Err EOWNERDEAD, s1, [], [Pid2Task 7])"
  using robust_mutex_recovery [of "\<lparr>m_lock = 7, m_owner_id = 1, m_cnt = 1, m_shpid = 0, m_type = 0,
      m_flags = 0x101\<rparr>" "\<lparr>th_addr = 4096, th_id = 3, th_pid = 9\<rparr>" "reply0\<lparr>r_port := MACH_PORT_NULL\<rparr>" 64
      Lock reply0]
  by (auto simp: robust_mutex_def plain_type_def robust_mine_def)

text \<open>
  Mutex attributes: what a setter accepts a getter reads back, everything else is refused with
  \<open>EINVAL\<close> and changes nothing, and the settings do not disturb each other. Robustness is the exception:
  it can be set but never cleared again.
\<close>

theorem mutexattr_roundtrip:
  "(case pthread_mutexattr_settype at ty of (r, at') \<Rightarrow>
      if sint ty \<in> {0, 1, 2} then r = OK \<and> pthread_mutexattr_gettype at' = (OK, ty) \<and>
        pthread_mutexattr_getpshared at' = pthread_mutexattr_getpshared at
      else r = Err EINVAL \<and> at' = at) \<and>
    (case pthread_mutexattr_setpshared at sh of (r, at') \<Rightarrow>
      if sh \<in> {PTHREAD_PROCESS_PRIVATE, PTHREAD_PROCESS_SHARED}
      then r = OK \<and> pthread_mutexattr_getpshared at' = (OK, sh) \<and>
        pthread_mutexattr_gettype at' = pthread_mutexattr_gettype at \<and>
        pthread_mutexattr_getrobust at' = pthread_mutexattr_getrobust at
      else r = Err EINVAL \<and> at' = at) \<and>
    (case pthread_mutexattr_setrobust at rb of (r, at') \<Rightarrow>
      if rb \<in> {PTHREAD_MUTEX_ROBUST, PTHREAD_MUTEX_STALLED}
      then r = OK \<and> pthread_mutexattr_getrobust at' =
        (if rb = PTHREAD_MUTEX_ROBUST then (OK, PTHREAD_MUTEX_ROBUST)
         else pthread_mutexattr_getrobust at)
      else r = Err EINVAL \<and> at' = at)"
proof -
  have "sint ty < 0 \<or> sint ty \<ge> 3 \<longleftrightarrow> sint ty \<notin> {0, 1, 2}" by auto
  moreover have "(x AND NOT 1) AND 256 = x AND 256" "(x OR 1) AND 256 = x AND 256" for x :: u32
    by (rule and_not_disjoint and_disjoint_or; simp)+
  ultimately show ?thesis
    by (auto simp: pthread_mutexattr_settype_def pthread_mutexattr_gettype_def
        pthread_mutexattr_setpshared_def pthread_mutexattr_getpshared_def
        pthread_mutexattr_setrobust_def pthread_mutexattr_getrobust_def)
qed

text \<open>
  An initialised mutex is free, has the type and the sharing of its attributes, and is robust
  only if it is shared.
\<close>

theorem mutex_init_state:
  "\<exists>m. pthread_mutex_init m0 (Some at) = (OK, m) \<and> m_lock m = 0 \<and> m_owner_id m = 0 \<and>
    m_cnt m = 0 \<and> m_shpid m = 0 \<and> m_type m = ma_type at \<and>
    m_flags m AND GSYNC_SHARED = ma_flags at AND GSYNC_SHARED \<and>
    (m_flags m AND PTHREAD_MUTEX_ROBUST = 0 \<longleftrightarrow>
      ma_flags at AND PTHREAD_MUTEX_ROBUST = 0 \<or> ma_flags at AND GSYNC_SHARED = 0)"
proof -
  let ?f = "ma_flags at"
  have 1: "?f AND 257 = 256 \<longleftrightarrow> ?f AND 256 \<noteq> 0 \<and> ?f AND 1 = 0" by (rule and_257)
  have 2: "(?f AND - 257) AND 1 = ?f AND 1" "(?f AND - 257) AND 256 = 0"
    using and_not_disjoint [of 256 1 ?f] and_not_and_same [of ?f 256] by simp_all
  show ?thesis by (auto simp: pthread_mutex_init_def Let_def 1 2)
qed

end
