(* ===== verification/MutexExclusion.thy ===== *)
theory MutexExclusion
  imports Mutex
begin

text \<open>
  The mutexes that are not robust, under any interleaving: the invariant that ties owner,
  process, count and lock word together, its preservation by every step of the lock and unlock
  calls, and mutual exclusion for the three types, with nested locking of a recursive mutex.
\<close>

text \<open>
  Where a thread stands: it does not hold the mutex; it holds the lock word only; its id is
  recorded too; or it is fully recorded as the owner, with count \<open>d\<close>.
\<close>

datatype phase = Out | Got | Half | Own nat

text \<open>No two threads that use the mutex have the same id, and no id is 0.\<close>

definition distinct_ids :: "('t \<Rightarrow> thread) \<Rightarrow> bool" where
  "distinct_ids thr \<longleftrightarrow> inj (\<lambda>t. th_id (thr t)) \<and> (\<forall>t. th_id (thr t) \<noteq> 0)"

fun phase_inv :: "phase \<Rightarrow> thread \<Rightarrow> pthread_mutex \<Rightarrow> bool" where
  "phase_inv Out th s \<longleftrightarrow> False"
| "phase_inv Got th s \<longleftrightarrow> m_owner_id s = 0 \<and> m_shpid s = 0 \<and> m_cnt s = 0"
| "phase_inv Half th s \<longleftrightarrow> m_owner_id s = th_id th \<and> m_shpid s = 0 \<and> m_cnt s = 0"
| "phase_inv (Own d) th s \<longleftrightarrow> m_owner_id s = th_id th \<and> unat (m_cnt s) = d \<and>
     m_shpid s = (if m_flags s AND GSYNC_SHARED = 0 then 0 else th_pid th)"

definition plain_mutex :: "u32 \<Rightarrow> u32 \<Rightarrow> pthread_mutex \<Rightarrow> bool" where
  "plain_mutex ty fl s \<longleftrightarrow> m_type s = ty \<and> m_flags s = fl \<and> fl AND PTHREAD_MUTEX_ROBUST = 0 \<and>
     (ty = PTHREAD_MUTEX_NORMAL \<or> ty = PTHREAD_MUTEX_RECURSIVE \<or> ty = PTHREAD_MUTEX_ERRORCHECK)"

definition mutex_inv ::
  "('t \<Rightarrow> thread) \<Rightarrow> u32 \<Rightarrow> u32 \<Rightarrow> pthread_mutex \<Rightarrow> ('t \<Rightarrow> phase) \<Rightarrow> bool" where
  "mutex_inv thr ty fl s G \<longleftrightarrow> distinct_ids thr \<and> plain_mutex ty fl s \<and>
     (m_lock s = 0 \<and> phase_inv Got (thr undefined) s \<and> G = (\<lambda>_. Out) \<or>
      m_lock s \<noteq> 0 \<and> (\<exists>t. phase_inv (G t) (thr t) s \<and> (\<forall>u. u \<noteq> t \<longrightarrow> G u = Out)))"

lemma mutex_inv_plain: "mutex_inv thr ty fl s G \<Longrightarrow> plain_mutex ty fl s"
  by (simp add: mutex_inv_def)

lemma mutex_inv_holder:
  assumes "mutex_inv thr ty fl s G" and "G t = g" and "g \<noteq> Out"
  shows "m_lock s \<noteq> 0" and "phase_inv g (thr t) s" and "u \<noteq> t \<Longrightarrow> G u = Out"
proof -
  from assms obtain v where *: "m_lock s \<noteq> 0" "phase_inv (G v) (thr v) s"
    "\<And>u. u \<noteq> v \<Longrightarrow> G u = Out"
    by (auto simp: mutex_inv_def)
  with assms(2,3) have "v = t" by metis
  with * assms(2) show "m_lock s \<noteq> 0" and "phase_inv g (thr t) s" and "u \<noteq> t \<Longrightarrow> G u = Out"
    by auto
qed

lemma mutex_inv_step:
  assumes "mutex_inv thr ty fl s G" and "G t \<noteq> Out" and "phase_inv g' (thr t) s'"
    and "m_lock s' \<noteq> 0" and "m_type s' = m_type s" and "m_flags s' = m_flags s"
  shows "mutex_inv thr ty fl s' (G(t := g'))"
  using assms(1,3-) mutex_inv_holder(3) [OF assms(1) refl assms(2)]
  by (auto simp: mutex_inv_def plain_mutex_def)

lemma mutex_inv_unique: "mutex_inv thr ty fl s G \<Longrightarrow> G t \<noteq> Out \<Longrightarrow> G u \<noteq> Out \<Longrightarrow> t = u"
  using mutex_inv_holder(3) by metis

text \<open>Somebody who is out is not the recorded owner.\<close>

lemma mutex_inv_foreign:
  assumes "mutex_inv thr ty fl s G" and "G t = Out"
  shows "m_owner_id s \<noteq> th_id (thr t)"
proof (cases "m_lock s = 0")
  case True
  with assms show ?thesis by (auto simp: mutex_inv_def distinct_ids_def dest: sym)
next
  case False
  with assms obtain u where u: "phase_inv (G u) (thr u) s" by (auto simp: mutex_inv_def)
  then have "u \<noteq> t" using assms(2) by auto
  with assms(1) have "th_id (thr u) \<noteq> th_id (thr t)" "th_id (thr t) \<noteq> 0"
    by (auto simp: mutex_inv_def distinct_ids_def dest: injD)
  with u show ?thesis by (cases "G u") auto
qed

interpretation mtx: lock_client "mtx_lock (whole a)" "gsync_effect (mtx_lock (whole a))"
  "mutex_inv thr ty fl" t Out Got Got
  for a and thr :: "'t \<Rightarrow> thread" and ty fl and t :: 't
proof unfold_locales
  fix s and G :: "'t \<Rightarrow> phase" assume i: "mutex_inv thr ty fl s G" and g: "G t = Out"
  {
    assume "c_get (mtx_lock (whole a)) s \<noteq> 0"
    then obtain u where "phase_inv (G u) (thr u) s" "\<forall>v. v \<noteq> u \<longrightarrow> G v = Out"
      using i by (auto simp: mutex_inv_def mtx_lock_def)
    then have "phase_inv (G u) (thr u) (s\<lparr>m_lock := 2\<rparr>)" "\<forall>v. v \<noteq> u \<longrightarrow> G v = Out"
      by (cases "G u"; simp)+
    then show "mutex_inv thr ty fl (c_put (mtx_lock (whole a)) 2 s) G"
      using i by (auto simp: mutex_inv_def plain_mutex_def mtx_lock_def)
  }
  {
    fix w :: u32 assume "c_get (mtx_lock (whole a)) s = 0" and "w = 1 \<or> w = 2"
    with i show "mutex_inv thr ty fl (c_put (mtx_lock (whole a)) w s) (G(t := Got))"
      by (auto simp: mutex_inv_def plain_mutex_def mtx_lock_def intro!: exI [of _ t])
  }
next
  fix s and G :: "'t \<Rightarrow> phase" assume i: "mutex_inv thr ty fl s G" and g: "G t = Got"
  have "G(t := Out) = (\<lambda>_. Out)" using mutex_inv_holder(3) [OF i g] by auto
  then show "mutex_inv thr ty fl (c_put (mtx_lock (whole a)) 0 s) (G(t := Out))"
    using i mutex_inv_holder(2) [OF i g] by (simp add: mutex_inv_def plain_mutex_def mtx_lock_def)
qed (simp_all add: mtx_lock_def)

subsection \<open>The steps of the calls\<close>

lemma mtx_owned_p_out:
  "safe A (mutex_inv thr ty fl) M t (\<lambda>b g. \<not> b \<and> g = Out) Out
    (mtx_owned_p (whole a) (thr t) flags)"
  unfolding mtx_owned_p_def
  by (rule safe_bind [where R = "\<lambda>own g. own \<noteq> th_id (thr t) \<and> g = Out"], rule safe_load)
    (auto simp: mtx_owner_id_def mutex_inv_foreign)

lemma mtx_owned_p_own:
  assumes "flags AND 1 = fl AND 1"
  shows "safe A (mutex_inv thr ty fl) M t (\<lambda>b g. b \<and> g = Own d) (Own d)
    (mtx_owned_p (whole a) (thr t) flags)"
proof -
  have own: "m_owner_id s = th_id (thr t) \<and> (fl AND 1 \<noteq> 0 \<longrightarrow> m_shpid s = th_pid (thr t))"
    if "mutex_inv thr ty fl s G" "G t = Own d" for s G
    using mutex_inv_holder(2) [OF that] mutex_inv_plain [OF that(1)] by (auto simp: plain_mutex_def)
  show ?thesis
    unfolding mtx_owned_p_def
    by (rule safe_bind [where R = "\<lambda>own g. own = th_id (thr t) \<and> g = Own d"], rule safe_load,
        simp add: mtx_owner_id_def own, clarsimp simp: assms,
        rule safe_bind [where R = "\<lambda>pid g. pid = th_pid (thr t) \<and> g = Own d"], rule safe_load)
      (auto simp: mtx_shpid_def own)
qed

lemma mtx_set_owner_safe:
  assumes "flags AND 1 = fl AND 1"
  shows "safe A (mutex_inv thr ty fl) M t (\<lambda>_ g. g = Own 0) Got
    (mtx_set_owner (whole a) (th_id (thr t)) (th_pid (thr t)) flags)"
  unfolding mtx_set_owner_def
proof (rule safe_bind [where R = "\<lambda>_ g. g = (if fl AND 1 \<noteq> 0 then Half else Own 0)"],
    rule safe_store [where g' = "if fl AND 1 \<noteq> 0 then Half else Own 0"])
  fix s and G :: "'a \<Rightarrow> phase" assume i: "mutex_inv thr ty fl s G" and g: "G t = Got"
  show "mutex_inv thr ty fl (c_put (mtx_owner_id (whole a)) (th_id (thr t)) s)
      (G(t := if fl AND 1 \<noteq> 0 then Half else Own 0))"
    using mutex_inv_holder [OF i g] mutex_inv_plain [OF i]
    by (intro mutex_inv_step [OF i]) (auto simp: g mtx_owner_id_def plain_mutex_def)
next
  fix u :: unit and g :: phase assume g: "g = (if fl AND 1 \<noteq> 0 then Half else Own 0)"
  show "safe A (mutex_inv thr ty fl) M t (\<lambda>_ g. g = Own 0) g
      (if flags AND 1 \<noteq> 0 then store (mtx_shpid (whole a)) (th_pid (thr t)) else Ret ())"
  proof (cases "fl AND 1 = 0")
    case False
    have "mutex_inv thr ty fl (c_put (mtx_shpid (whole a)) (th_pid (thr t)) s) (G(t := Own 0))"
      if i: "mutex_inv thr ty fl s G" and h: "G t = Half" for s G
      using mutex_inv_holder [OF i h] mutex_inv_plain [OF i] False
      by (intro mutex_inv_step [OF i]) (auto simp: h mtx_shpid_def plain_mutex_def)
    with False show ?thesis by (auto simp: g assms intro!: safe_store [where g' = "Own 0"])
  qed (simp add: g assms)
qed simp

text \<open>Writing the count.\<close>

lemma mtx_cnt_step:
  assumes "mutex_inv thr ty fl s G" and "G t = Own d"
  shows "mutex_inv thr ty fl (s\<lparr>m_cnt := c\<rparr>) (G(t := Own (unat c)))"
  using mutex_inv_holder [OF assms] by (intro mutex_inv_step [OF assms(1)]) (auto simp: assms(2))

lemma mtx_store_cnt_safe:
  assumes "Q () (Own (unat c))"
  shows "safe A (mutex_inv thr ty fl) M t Q (Own d) (store (mtx_cnt (whole a)) c)"
  using assms
  by (intro safe_store [where g' = "Own (unat c)"]) (auto simp: mtx_cnt_def mtx_cnt_step)

lemma mtx_load_cnt_safe:
  assumes "\<And>c. unat c = d \<Longrightarrow> Q c (Own d)"
  shows "safe A (mutex_inv thr ty fl) M t Q (Own d) (load (mtx_cnt (whole a)))"
  by (rule safe_load) (auto simp: mtx_cnt_def dest!: mutex_inv_holder(2) intro!: assms)

lemma mtx_nest_safe:
  "safe A (mutex_inv thr ty fl) M t
    (\<lambda>r g. if Suc d < 2 ^ 32 then r = OK \<and> g = Own (Suc d) else r = Err EAGAIN \<and> g = Own d)
    (Own d) (mtx_nest (whole a))"
proof -
  have wrap: "c + 1 = 0 \<longleftrightarrow> \<not> Suc d < 2 ^ 32" if "unat c = d" for c :: u32
    using that by (simp add: wrap_iff_32)
  show ?thesis
    unfolding mtx_nest_def
    by (rule safe_bind [where R = "\<lambda>c g. unat c = d \<and> g = Own d"], rule mtx_load_cnt_safe, simp,
        clarsimp simp: wrap,
        rule safe_bind [where R = "\<lambda>c g. unat c = d \<and> g = Own d"], rule mtx_load_cnt_safe, simp,
        clarsimp, rule safe_bind [where R = "\<lambda>_ g. g = Own (Suc d)"], rule mtx_store_cnt_safe)
      (auto simp: unat_Suc_32 wrap)
qed

lemma mtx_unnest_safe:
  "safe A (mutex_inv thr ty fl) M t (\<lambda>b g. (b \<longleftrightarrow> d = 0) \<and> g = Own d) (Own (Suc d))
    (mtx_unnest (whole a))"
  unfolding mtx_unnest_def
  by (rule safe_bind [where R = "\<lambda>c g. unat c = Suc d \<and> g = Own (Suc d)"], rule mtx_load_cnt_safe,
      simp, clarsimp, rule safe_bind [where R = "\<lambda>_ g. g = Own d"], rule mtx_store_cnt_safe)
    (auto simp: unat_pred_32 unat_eq_one_32 simp flip: unat_eq_0)

subsection \<open>The calls\<close>

lemma mtx_flags_safe:
  "safe A (mutex_inv thr ty fl) M t (\<lambda>f g'. f = fl \<and> g' = g) g (load (mtx_flags (whole a)))"
  by (rule safe_load) (auto simp: mtx_flags_def plain_mutex_def dest: mutex_inv_plain)

lemma mtx_flags_shared_safe:
  "safe A (mutex_inv thr ty fl) M t (\<lambda>f g'. f = (fl AND GSYNC_SHARED) \<and> g' = g) g
    (mtx_flags_shared (whole a))"
  unfolding mtx_flags_shared_def by (rule safe_bind, rule mtx_flags_safe) auto

lemma MTX_TYPE_safe:
  "safe A (mutex_inv thr ty fl) M t (\<lambda>ty' g'. ty' = ty \<and> plain_type ty \<and> g' = g) g
    (MTX_TYPE (whole a))"
  unfolding MTX_TYPE_def
  by (rule safe_bind [where R = "\<lambda>ty' g'. ty' = ty \<and> plain_type ty \<and> fl AND PTHREAD_MUTEX_ROBUST = 0
        \<and> g' = g"], rule safe_load,
      force simp: mtx_type_def plain_mutex_def plain_type_def dest!: mutex_inv_plain,
      rule safe_bind, rule mtx_flags_safe) auto

text \<open>What the calls leave the mutex in: \<open>held ty d\<close> when the caller has locked it \<open>d + 1\<close> times.\<close>

definition mtx_held :: "u32 \<Rightarrow> nat \<Rightarrow> phase" where
  "mtx_held ty d = (if ty = PTHREAD_MUTEX_NORMAL then Got
     else if ty = PTHREAD_MUTEX_RECURSIVE then Own (Suc d) else Own 0)"

lemma mtx_set_count_safe:
  "safe A (mutex_inv thr ty fl) M t (\<lambda>_ g. g = Own (Suc 0)) (Own 0) (store (mtx_cnt (whole a)) 1)"
  by (rule mtx_store_cnt_safe) simp

lemmas mtx_taken_safe =
  safe_bind [OF mtx_set_owner_safe] safe_bind [OF mtx_set_count_safe]

lemma pthread_mutex_lock_safe:
  "safe A (mutex_inv thr ty fl) (mtx_kernel a) t (\<lambda>r g. r = OK \<and> g = mtx_held ty 0) Out
    (pthread_mutex_lock (thr t) (whole a))"
  unfolding pthread_mutex_lock_def
  by (rule safe_bind [OF mtx_flags_shared_safe], clarify, rule safe_bind [OF MTX_TYPE_safe], clarify)
    (auto simp: plain_type_def mtx_held_def
      intro!: safe_bind [OF mtx.lll_lock_safe] safe_bind [OF mtx_owned_p_out] mtx_taken_safe)

lemma pthread_mutex_trylock_safe:
  "safe A (mutex_inv thr ty fl) (mtx_kernel a) t
    (\<lambda>r g. if r = OK then g = mtx_held ty 0 else g = Out) Out
    (pthread_mutex_trylock (thr t) (whole a))"
  unfolding pthread_mutex_trylock_def
  by (rule safe_bind [OF MTX_TYPE_safe], clarify)
    (auto simp: plain_type_def mtx_held_def intro!: safe_mono [OF mtx.lll_trylock_safe]
      safe_bind [OF mtx.lll_trylock_safe] safe_bind [OF mtx_flags_safe]
      safe_bind [OF mtx_owned_p_out] mtx_taken_safe)

lemma mtx_owner_foreign:
  "safe A (mutex_inv thr ty fl) M t (\<lambda>own g. own \<noteq> th_id (thr t) \<and> g = Out) Out
    (load (mtx_owner_id (whole a)))"
  by (rule safe_load) (auto simp: mtx_owner_id_def mutex_inv_foreign)

lemma pthread_mutex_timedlock_safe:
  "safe A (mutex_inv thr ty fl) (mtx_kernel a) t
    (\<lambda>r g. if r = OK then g = mtx_held ty 0 else g = Out) Out
    (pthread_mutex_timedlock (thr t) (whole a) tsp)"
  unfolding pthread_mutex_timedlock_def
  by (rule safe_bind [OF mtx_flags_shared_safe], clarify, rule safe_bind [OF MTX_TYPE_safe], clarify)
    (auto simp: plain_type_def mtx_held_def intro!: safe_mono [OF mtx.lll_abstimed_lock_safe]
      safe_bind [OF mtx.lll_abstimed_lock_safe] safe_bind [OF mtx_owned_p_out]
      safe_bind [OF mtx_owner_foreign] mtx_taken_safe)

text \<open>Locking again, and unlocking.\<close>

lemma pthread_mutex_relock_safe:
  assumes "Suc (Suc d) < 2 ^ 32" and "ty = PTHREAD_MUTEX_RECURSIVE"
  shows "safe A (mutex_inv thr ty fl) (mtx_kernel a) t (\<lambda>r g. r = OK \<and> g = Own (Suc (Suc d)))
    (Own (Suc d)) (pthread_mutex_lock (thr t) (whole a))"
  unfolding pthread_mutex_lock_def
  by (rule safe_bind [OF mtx_flags_shared_safe], clarify, rule safe_bind [OF MTX_TYPE_safe], clarify)
    (use assms in \<open>auto intro!: safe_bind [OF mtx_owned_p_own] safe_mono [OF mtx_nest_safe]\<close>)

lemma mtx_disown_safe:
  "safe A (mutex_inv thr ty fl) M t (\<lambda>_ g. g = Got) (Own 0)
    (bind (store (mtx_shpid (whole a)) 0) (\<lambda>_. store (mtx_owner_id (whole a)) 0))"
proof (rule safe_bind [where R = "\<lambda>_ g. g = Half"], rule safe_store [where g' = Half])
  fix s and G :: "'a \<Rightarrow> phase" assume i: "mutex_inv thr ty fl s G" and g: "G t = Own 0"
  show "mutex_inv thr ty fl (c_put (mtx_shpid (whole a)) 0 s) (G(t := Half))"
    using mutex_inv_holder [OF i g]
    by (intro mutex_inv_step [OF i]) (auto simp: g mtx_shpid_def unat_eq_0)
next
  fix u :: unit and g assume g: "g = Half"
  have "mutex_inv thr ty fl (c_put (mtx_owner_id (whole a)) 0 s) (G(t := Got))"
    if i: "mutex_inv thr ty fl s G" and h: "G t = Half" for s G
    using mutex_inv_holder [OF i h]
    by (intro mutex_inv_step [OF i]) (auto simp: h mtx_owner_id_def)
  then show "safe A (mutex_inv thr ty fl) M t (\<lambda>_ g. g = Got) g (store (mtx_owner_id (whole a)) 0)"
    by (auto simp: g intro!: safe_store [where g' = Got])
qed simp

lemma mtx_release_split:
  "mtx_release m flags = bind (bind (store (mtx_shpid m) 0) (\<lambda>_. store (mtx_owner_id m) 0)) (\<lambda>_. lll_unlock (mtx_lock m) flags)"
  by (simp add: mtx_release_def bind_assoc)

lemma mtx_release_safe:
  assumes "flags = fl AND GSYNC_SHARED"
  shows "safe A (mutex_inv thr ty fl) (mtx_kernel a) t (\<lambda>_ g. g = Out) (Own 0)
    (mtx_release (whole a) flags)"
  unfolding mtx_release_split by (rule safe_bind [OF mtx_disown_safe]) (auto simp: assms intro!: mtx.lll_unlock_safe)

lemma pthread_mutex_unlock_safe:
  "safe A (mutex_inv thr ty fl) (mtx_kernel a) t (\<lambda>r g. r = OK \<and> g = Out) (mtx_held ty 0)
    (pthread_mutex_unlock (thr t) (whole a))"
  unfolding pthread_mutex_unlock_def
  by (rule safe_bind [OF mtx_flags_shared_safe], clarify, rule safe_bind [OF MTX_TYPE_safe], clarify)
    (auto simp: plain_type_def mtx_held_def intro!: safe_bind [OF mtx.lll_unlock_safe]
      safe_bind [OF mtx_owned_p_own] safe_bind [OF mtx_unnest_safe] safe_bind [OF mtx_release_safe])

lemma pthread_mutex_unlock_nested_safe:
  assumes "ty = PTHREAD_MUTEX_RECURSIVE"
  shows "safe A (mutex_inv thr ty fl) (mtx_kernel a) t (\<lambda>r g. r = OK \<and> g = Own (Suc d))
    (Own (Suc (Suc d))) (pthread_mutex_unlock (thr t) (whole a))"
  unfolding pthread_mutex_unlock_def
  by (rule safe_bind [OF mtx_flags_shared_safe], clarify, rule safe_bind [OF MTX_TYPE_safe], clarify)
    (use assms in \<open>auto intro!: safe_bind [OF mtx_owned_p_own] safe_bind [OF mtx_unnest_safe]\<close>)

subsection \<open>Mutual exclusion\<close>

text \<open>
  A client takes the mutex in any of the three ways, locks a recursive mutex some more times before it
  runs its critical section, and then unlocks as often as it has locked.
\<close>

primrec mutex_relock :: "nat \<Rightarrow> thread \<Rightarrow> ('s, pthread_mutex) cell \<Rightarrow> ('s, ret) prog" where
  "mutex_relock 0 self m = Ret OK"
| "mutex_relock (Suc d) self m =
    bind (mutex_relock d self m) (\<lambda>_. pthread_mutex_lock self m)"

primrec mutex_release :: "nat \<Rightarrow> thread \<Rightarrow> ('s, pthread_mutex) cell \<Rightarrow> ('s, ret) prog" where
  "mutex_release 0 self m = pthread_mutex_unlock self m"
| "mutex_release (Suc d) self m =
    bind (pthread_mutex_unlock self m) (\<lambda>_. mutex_release d self m)"

definition mutex_acquire ::
  "nat \<Rightarrow> thread \<Rightarrow> ('s, pthread_mutex) cell \<Rightarrow> lock_call \<Rightarrow> ('s, ret) prog" where
  "mutex_acquire d self m call =
    bind (mutex_take self m call) (\<lambda>r. if r = OK then mutex_relock d self m else Ret r)"

text \<open>The nesting depth: only a recursive mutex can be locked again.\<close>

definition mtx_depth :: "u32 \<Rightarrow> 31 word \<Rightarrow> nat" where
  "mtx_depth ty n = (if ty = PTHREAD_MUTEX_RECURSIVE then unat n else 0)"

lemma mtx_depth_bound: "Suc (Suc (mtx_depth ty n)) < 2 ^ 32"
  using unsigned_less [of n, where ?'a = nat] by (simp add: mtx_depth_def)

lemma mutex_take_safe:
  "safe A (mutex_inv thr ty fl) (mtx_kernel a) t
    (\<lambda>r g. if r = OK then g = mtx_held ty 0 else g = Out) Out (mutex_take (thr t) (whole a) call)"
  by (cases call) (auto intro: safe_mono [OF pthread_mutex_lock_safe]
      safe_mono [OF pthread_mutex_trylock_safe] safe_mono [OF pthread_mutex_timedlock_safe])

lemma mutex_relock_safe:
  assumes "d = 0 \<or> ty = PTHREAD_MUTEX_RECURSIVE" and "Suc d < 2 ^ 32"
  shows "safe A (mutex_inv thr ty fl) (mtx_kernel a) t (\<lambda>r g. r = OK \<and> g = mtx_held ty d)
    (mtx_held ty 0) (mutex_relock d (thr t) (whole a))"
  using assms
proof (induction d)
  case (Suc d)
  then have ty: "ty = PTHREAD_MUTEX_RECURSIVE" and IH: "safe A (mutex_inv thr ty fl) (mtx_kernel a) t
    (\<lambda>r g. r = OK \<and> g = mtx_held ty d) (mtx_held ty 0) (mutex_relock d (thr t) (whole a))"
    by auto
  show ?case
    by (simp, rule safe_bind [OF IH])
      (use Suc.prems ty in \<open>auto simp: mtx_held_def intro: pthread_mutex_relock_safe\<close>)
qed simp

lemma mutex_release_safe:
  assumes "d = 0 \<or> ty = PTHREAD_MUTEX_RECURSIVE"
  shows "safe A (mutex_inv thr ty fl) (mtx_kernel a) t (\<lambda>r g. r = OK \<and> g = Out) (mtx_held ty d)
    (mutex_release d (thr t) (whole a))"
  using assms
proof (induction d)
  case (Suc d)
  then have ty: "ty = PTHREAD_MUTEX_RECURSIVE" by simp
  show ?case
    by (simp add: mtx_held_def ty, rule safe_bind [OF pthread_mutex_unlock_nested_safe])
      (use Suc.IH ty in \<open>auto simp: mtx_held_def\<close>)
qed (simp add: pthread_mutex_unlock_safe)

interpretation mutex_excl: exclusive_lock "mtx_kernel a" "mutex_inv thr ty fl"
  "\<lambda>_. Out" "\<lambda>t. mtx_held ty (mtx_depth ty (depth t))"
  "\<lambda>t n. mutex_acquire (mtx_depth ty (depth t)) (thr t) (whole a) (calls t n)"
  "\<lambda>t n. mutex_release (mtx_depth ty (depth t)) (thr t) (whole a)"
  for a thr ty fl and depth :: "'t \<Rightarrow> 31 word" and calls :: "'t \<Rightarrow> nat \<Rightarrow> lock_call"
proof unfold_locales
  fix s and G :: "'t \<Rightarrow> phase" and t u
  assume "mutex_inv thr ty fl s G" and "G t = mtx_held ty (mtx_depth ty (depth t))"
    and "G u = mtx_held ty (mtx_depth ty (depth u))"
  then show "t = u"
    by (auto simp: mtx_held_def split: if_splits intro: mutex_inv_unique)
next
  fix A and t :: 't and n
  show "safe A (mutex_inv thr ty fl) (mtx_kernel a) t
      (\<lambda>r g. if r = OK then g = mtx_held ty (mtx_depth ty (depth t)) else g = Out) Out
      (mutex_acquire (mtx_depth ty (depth t)) (thr t) (whole a) (calls t n))"
    unfolding mutex_acquire_def
  proof (rule safe_bind [OF mutex_take_safe])
    fix r g assume rg: "if r = OK then g = mtx_held ty 0 else g = Out"
    have "safe A (mutex_inv thr ty fl) (mtx_kernel a) t
        (\<lambda>r g. r = OK \<and> g = mtx_held ty (mtx_depth ty (depth t))) (mtx_held ty 0)
        (mutex_relock (mtx_depth ty (depth t)) (thr t) (whole a))"
      using mtx_depth_bound [of ty "depth t"] by (intro mutex_relock_safe) (auto simp: mtx_depth_def)
    with rg show "safe A (mutex_inv thr ty fl) (mtx_kernel a) t
        (\<lambda>r g. if r = OK then g = mtx_held ty (mtx_depth ty (depth t)) else g = Out) g
        (if r = OK then mutex_relock (mtx_depth ty (depth t)) (thr t) (whole a) else Ret r)"
      by (cases "r = OK") (auto elim: safe_mono)
  qed
next
  fix A and t :: 't and n :: nat
  show "safe A (mutex_inv thr ty fl) (mtx_kernel a) t (\<lambda>_ g. g = Out)
      (mtx_held ty (mtx_depth ty (depth t)))
      (mutex_release (mtx_depth ty (depth t)) (thr t) (whole a))"
    by (rule safe_mono [OF mutex_release_safe]) (auto simp: mtx_depth_def)
qed simp

subsection \<open>Properties\<close>

definition new_mutex :: "u32 \<Rightarrow> u32 \<Rightarrow> pthread_mutex" where
  "new_mutex ty fl =
    \<lparr>m_lock = 0, m_owner_id = 0, m_cnt = 0, m_shpid = 0, m_type = ty, m_flags = fl\<rparr>"

definition mutex_user ::
  "u32 \<Rightarrow> u32 \<Rightarrow> thread \<Rightarrow> 31 word \<Rightarrow> (nat \<Rightarrow> lock_call) \<Rightarrow> (pthread_mutex, unit) prog" where
  "mutex_user a ty th n calls =
    cs_client (\<lambda>i. mutex_acquire (mtx_depth ty n) th (whole a) (calls i))
      (\<lambda>i. mutex_release (mtx_depth ty n) th (whole a))"

text \<open>
  C1. Mutual exclusion of mutexes that are not robust, of all three types, private or shared: any
  number of threads with different ids lock, try or wait with a timeout, lock a recursive mutex again
  as deep as they like, and unlock; never are two of them inside.
\<close>

theorem mutex_mutual_exclusion:
  assumes "gsync_contract M (mtx_lock (whole a))"
    and "plain_mutex ty fl (new_mutex ty fl)" and "distinct_ids thr"
    and "reach M (new_mutex ty fl) (\<lambda>t. mutex_user a ty (thr t) (depth t) (calls t)) s P"
    and "inside P t" and "t \<noteq> u"
  shows "\<not> inside P u"
  using assms mutex_excl.mutual_exclusion [where thr = thr and calls = calls and a = a and ty = ty and fl = fl
      and depth = depth and ?s0.0 = "new_mutex ty fl", of s P t u]
  by (auto simp: gsync_contract_iff mutex_inv_def new_mutex_def mutex_user_def)



definition two_threads :: "bool \<Rightarrow> thread" where
  "two_threads t = \<lparr>th_addr = 4096, th_id = (if t then 1 else 2), th_pid = 7\<rparr>"

lemma mutex_mutual_exclusion_witness:
  "inside (snd (sched (mtx_kernel 64) reply0 [(True, 17), (False, 4)] (new_mutex 1 1)
      (\<lambda>t. mutex_user 64 1 (two_threads t) 1 (\<lambda>_. Lock)))) True \<and>
    \<not> inside (snd (sched (mtx_kernel 64) reply0 [(True, 17), (False, 4)] (new_mutex 1 1)
      (\<lambda>t. mutex_user 64 1 (two_threads t) 1 (\<lambda>_. Lock)))) False"
  (is "inside (snd ?S) True \<and> _")
proof
  show i: "inside (snd ?S) True"
    by (simp add: two_threads_def new_mutex_def mutex_user_def mutex_acquire_def mtx_depth_def
        cs_client_def code_defs atomic_defs pstep_loop inside_def)
  have d: "distinct_ids two_threads" by (auto simp: distinct_ids_def two_threads_def inj_def)
  have "plain_mutex 1 1 (new_mutex 1 1)" by (simp add: plain_mutex_def new_mutex_def)
  show "\<not> inside (snd ?S) False"
    by (rule mutex_mutual_exclusion [OF gsync_effect_contract \<open>plain_mutex 1 1 (new_mutex 1 1)\<close> d
          reach_sched i]) (rule surjective_pairing, simp)
qed

text \<open>Two threads of process 1 and one of process 2; the first and the second have the same id.\<close>

definition race_thread :: "nat \<Rightarrow> thread" where
  "race_thread t =
    (if t = 0 then \<lparr>th_addr = 4096, th_id = 5, th_pid = 1\<rparr>
     else if t = 1 then \<lparr>th_addr = 4096, th_id = 5, th_pid = 2\<rparr>
     else \<lparr>th_addr = 8192, th_id = 7, th_pid = 1\<rparr>)"

text \<open>
  C24. The ids must be different across processes. Ids are counted in each process, so that a shared
  mutex meets equal ids; and because the owner's id and process are read one after the
  other, a thread can then take another thread of its process for itself. Here the id of thread
  0 of process 1 equals that of thread 1 of process 2; it reads the id while thread 1 holds the mutex,
  and the process when thread 2, of process 1, does: threads 0 and 2 are inside together.
\<close>

theorem mutex_shared_id_race:
  "\<exists>s P. reach (mtx_kernel 64) (new_mutex PTHREAD_MUTEX_RECURSIVE GSYNC_SHARED)
      (\<lambda>t. mutex_user 64 PTHREAD_MUTEX_RECURSIVE (race_thread t) 0 (\<lambda>_. Lock)) s P \<and>
    inside P 0 \<and> inside P 2"
proof -
  let ?S = "sched (mtx_kernel 64) reply0 [(1, 9), (0, 4), (1, 11), (2, 9), (0, 4)] (new_mutex 1 1)
      (\<lambda>t. mutex_user 64 1 (race_thread t) 0 (\<lambda>_. Lock))"
  have "inside (snd ?S) 0 \<and> inside (snd ?S) 2"
    by (simp add: race_thread_def new_mutex_def mutex_user_def mutex_acquire_def mtx_depth_def
        cs_client_def code_defs atomic_defs pstep_loop inside_def)
  moreover obtain s P where "?S = (s, P)" by fastforce
  moreover from this have "reach (mtx_kernel 64) (new_mutex 1 1)
      (\<lambda>t. mutex_user 64 1 (race_thread t) 0 (\<lambda>_. Lock)) s P" by (rule reach_sched)
  ultimately show ?thesis by auto
qed

end
