(* ===== verification/Cancel.thy ===== *)
theory Cancel
  imports MutexExclusion
begin

text \<open>
  \<open>pthread/cancel.c\<close> and the entry of \<open>pthread_exit\<close> from \<open>pthread/exit.c\<close>. A call that may end
  the thread answers a \<open>Value\<close>, or \<open>Exits\<close> when the thread starts to unwind its stack; from there
  on only its cleanup handlers run (\<open>with_cleanup\<close>).
\<close>

abbreviation (input) PTHREAD_CANCEL_DISABLE :: int where "PTHREAD_CANCEL_DISABLE \<equiv> 0"
abbreviation (input) PTHREAD_CANCEL_ENABLE :: int where "PTHREAD_CANCEL_ENABLE \<equiv> 1"
abbreviation (input) PTHREAD_CANCEL_DEFERRED :: int where "PTHREAD_CANCEL_DEFERRED \<equiv> 2"
abbreviation (input) PTHREAD_CANCEL_ASYNCHRONOUS :: int where "PTHREAD_CANCEL_ASYNCHRONOUS \<equiv> 3"
abbreviation (input) PTHREAD_CANCELED :: u32 where "PTHREAD_CANCELED \<equiv> 0xFFFFFFFF"
abbreviation (input) MACH_PORT_DEAD :: mport where "MACH_PORT_DEAD \<equiv> MachPort 0xFFFFFFFF"

subsection \<open>Exiting\<close>

datatype 'a unwinding = Value 'a | Exits

definition pthread_exit :: "('s, pthread) cell \<Rightarrow> u32 \<Rightarrow> ('s, 'a unwinding) prog" where
  [code_defs]: "pthread_exit self retval =
    bind (store (pth_retval self) retval) (\<lambda>_.
    bind (atomic_or (pth_flags self) PT_FLG_EXITING) (\<lambda>_. Ret Exits))"

text \<open>
  \<open>pthread_cleanup_push (h); p; pthread_cleanup_pop (pop)\<close>: the handler also runs when \<open>p\<close> is
  left by unwinding; \<open>pop\<close> says by the value of \<open>p\<close> whether it runs at the end.
\<close>

definition with_cleanup ::
  "('s, unit) prog \<Rightarrow> ('a \<Rightarrow> bool) \<Rightarrow> ('s, 'a unwinding) prog \<Rightarrow> ('s, 'a unwinding) prog" where
  [code_defs]: "with_cleanup h pop p =
    bind p (\<lambda>r. case r of
      Value a \<Rightarrow> if pop a then bind h (\<lambda>_. Ret (Value a)) else Ret (Value a)
    | Exits \<Rightarrow> bind h (\<lambda>_. Ret Exits))"

definition exit_thread :: "('s, pthread) cell \<Rightarrow> ('s, 'a unwinding) prog" where
  [code_defs]: "exit_thread self =
    bind (atomic_or (pth_flags self) PT_FLG_CANCELLED) (\<lambda>_. pthread_exit self PTHREAD_CANCELED)"

subsection \<open>State and type of cancellation\<close>

text \<open>The result and what is stored through \<open>prevp\<close>; a null \<open>prevp\<close> is a dummy there as well.\<close>

definition set_cancel_flag ::
  "('s, pthread) cell \<Rightarrow> u32 \<Rightarrow> bool \<Rightarrow> int \<Rightarrow> int \<Rightarrow> ('s, (ret \<times> int) unwinding) prog" where
  [code_defs]: "set_cancel_flag self flag on when_set when_clear = loop (\<lambda>_.
     bind (load (pth_flags self)) (\<lambda>oldval.
     let newval = (if on then oldval OR flag else oldval AND NOT flag);
         prev = (if oldval AND flag \<noteq> 0 then when_set else when_clear) in
     if oldval = newval then leave (Value (OK, prev))
     else bind (atomic_cas_bool (pth_flags self) oldval newval) (\<lambda>ok.
       if ok then
         (if CANCELLED_ENABLED_ASYNC_P newval then
            bind (pthread_exit self PTHREAD_CANCELED) leave
          else leave (Value (OK, prev)))
       else again ()))) ()"

definition pthread_setcancelstate ::
  "('s, pthread) cell \<Rightarrow> int \<Rightarrow> ('s, (ret \<times> int) unwinding) prog" where
  [code_defs]: "pthread_setcancelstate self state =
    (if state \<noteq> PTHREAD_CANCEL_ENABLE \<and> state \<noteq> PTHREAD_CANCEL_DISABLE
     then Ret (Value (Err EINVAL, 0))
     else set_cancel_flag self PT_FLG_CANCEL_DISABLE (state = PTHREAD_CANCEL_DISABLE)
       PTHREAD_CANCEL_DISABLE PTHREAD_CANCEL_ENABLE)"

definition pthread_setcanceltype ::
  "('s, pthread) cell \<Rightarrow> int \<Rightarrow> ('s, (ret \<times> int) unwinding) prog" where
  [code_defs]: "pthread_setcanceltype self type =
    (if type \<noteq> PTHREAD_CANCEL_DEFERRED \<and> type \<noteq> PTHREAD_CANCEL_ASYNCHRONOUS
     then Ret (Value (Err EINVAL, 0))
     else set_cancel_flag self PT_FLG_CANCEL_ASYNC (type = PTHREAD_CANCEL_ASYNCHRONOUS)
       PTHREAD_CANCEL_ASYNCHRONOUS PTHREAD_CANCEL_DEFERRED)"

definition pthread_testcancel :: "('s, pthread) cell \<Rightarrow> ('s, unit unwinding) prog" where
  [code_defs]: "pthread_testcancel self =
    bind (load (pth_flags self)) (\<lambda>flags.
    if CANCELLED_ENABLED_P flags then pthread_exit self PTHREAD_CANCELED else Ret (Value ()))"

subsection \<open>Cancelling another thread\<close>

text \<open>
  The program counter is compared with the address of \<open>_hurd_intr_rpc_mach_msg\<close> and set to that of
  \<open>exit_thread\<close>; both addresses are parameters.
\<close>

definition in_cancelpoint_p :: "u32 \<Rightarrow> u32 \<Rightarrow> ('s, pthread) cell \<Rightarrow> ('s, bool) prog" where
  [code_defs]: "in_cancelpoint_p intr_rpc pc pt =
    bind (load (pth_intr_port pt)) (\<lambda>port.
    if port \<noteq> MACH_PORT_NULL \<and> pc \<noteq> intr_rpc then
      bind (load (pth_intr_port pt)) (\<lambda>port.
      if port \<noteq> MACH_PORT_DEAD then
        bind (load (pth_intr_port pt)) (\<lambda>port.
        bind (sys (Lib ''interrupt_operation'' [Port port, Word 100])) (\<lambda>_. Ret True))
      else Ret True)
    else Ret False)"

text \<open>Force the thread of port \<open>ktid\<close> out; the result says whether all of it went well.\<close>

definition cancel_kthread ::
  "u32 \<Rightarrow> u32 \<Rightarrow> ('s, pthread) cell \<Rightarrow> u32 \<Rightarrow> mport \<Rightarrow> ('s, bool) prog" where
  [code_defs]: "cancel_kthread intr_rpc exit_addr pt oldval ktid =
    bind (sys (Lib ''thread_suspend'' [Port ktid])) (\<lambda>r0.
    if r_code r0 \<noteq> 0 then Ret False
    else
      bind (sys (Lib ''thread_abort'' [Port ktid])) (\<lambda>r1.
      bind (sys (Lib ''thread_get_state'' [Port ktid])) (\<lambda>r2.
      bind (if oldval AND PT_FLG_CANCEL_TRANS = 0 then Ret True
            else in_cancelpoint_p intr_rpc (r_val r2) pt) (\<lambda>divert.
      bind (if divert then
              bind (sys (Lib ''thread_set_state'' [Port ktid, Word exit_addr])) (\<lambda>r3.
              Ret (r_code r3 = 0))
            else Ret True) (\<lambda>ok3.
      bind (sys (Lib ''thread_resume'' [Port ktid])) (\<lambda>r4.
      Ret (r_code r1 = 0 \<and> r_code r2 = 0 \<and> ok3 \<and> r_code r4 = 0)))))))"

definition pthread_cancel ::
  "u32 \<Rightarrow> u32 \<Rightarrow> ('s, u32) cell \<Rightarrow> ('s, pthread) cell \<Rightarrow> ('s, pthread) cell \<Rightarrow>
    ('s, ret unwinding) prog" where
  [code_defs]: "pthread_cancel intr_rpc exit_addr mtflag self pt =
    bind (INVALID_P pt) (\<lambda>invalid.
    if invalid then Ret (Value (Err ESRCH))
    else bind (loop (\<lambda>_.
      bind (load (pth_flags pt)) (\<lambda>oldval.
      let newval = (oldval OR PT_FLG_CANCELLING) OR PT_FLG_CANCELLED in
      if oldval = newval then leave (Value OK)
      else if CANCELLED_ENABLED_ASYNC_P newval then
        bind (atomic_cas_bool (pth_flags pt) oldval (oldval OR PT_FLG_CANCELLING)) (\<lambda>ok.
        if \<not> ok then again ()
        else if c_addr pt = c_addr self then bind (pthread_exit self PTHREAD_CANCELED) leave
        else bind (load (pth_kport pt)) (\<lambda>ktid.
          bind (cancel_kthread intr_rpc exit_addr pt oldval ktid) (\<lambda>ok.
          leave (Value (if ok then OK else Err ESRCH)))))
      else bind (atomic_cas_bool (pth_flags pt) oldval newval) (\<lambda>ok.
        if ok then leave (Value OK) else again ()))) ()) (\<lambda>r.
    case r of
      Exits \<Rightarrow> Ret Exits
    | Value ret \<Rightarrow>
        if ret = OK then bind (atomic_store mtflag 1) (\<lambda>_. Ret (Value ret))
        else Ret (Value ret)))"

subsection \<open>Cancellation points\<close>

definition cancelpoint_begin :: "('s, pthread) cell \<Rightarrow> ('s, bool unwinding) prog" where
  [code_defs]: "cancelpoint_begin self =
    bind (load (pth_flags self)) (\<lambda>oldval.
    if oldval AND (PT_FLG_CANCEL_ASYNC OR PT_FLG_CANCEL_DISABLE) \<noteq> 0 then Ret (Value False)
    else bind (store (pth_intr_port self) MACH_PORT_DEAD) (\<lambda>_. loop (\<lambda>_.
      bind (load (pth_flags self)) (\<lambda>oldval.
      let newval = (oldval OR PT_FLG_CANCEL_ASYNC) OR PT_FLG_CANCEL_TRANS in
      if oldval = newval then leave (Value True)
      else bind (atomic_cas_bool (pth_flags self) oldval newval) (\<lambda>ok.
        if ok then
          (if CANCELLED_ENABLED_ASYNC_P newval then
             bind (pthread_exit self PTHREAD_CANCELED) leave
           else leave (Value True))
        else again ()))) ()))"

definition cancelpoint_end :: "('s, pthread) cell \<Rightarrow> bool \<Rightarrow> ('s, unit) prog" where
  [code_defs]: "cancelpoint_end self prev =
    (if \<not> prev then Ret ()
     else bind (atomic_and (pth_flags self) (NOT (PT_FLG_CANCEL_ASYNC OR PT_FLG_CANCEL_TRANS)))
       (\<lambda>_. Ret ()))"

text \<open>
  The code between the two: the canceller finds the thread in the trap of a blocking call and sets its
  program counter to \<open>exit_thread\<close>. So an answer of that call with \<open>r_cancelled\<close> does not return
  to the code: what follows is \<open>h\<close>.
\<close>

definition blocking :: "kcall \<Rightarrow> bool" where
  "blocking c = (case c of IntrRpc m x y \<Rightarrow> True | _ \<Rightarrow> False)"

primcorec divert :: "('s, 'a) prog \<Rightarrow> ('s, 'a) prog \<Rightarrow> ('s, 'a) prog" where
  "divert h p = (case p of
       Ret a \<Rightarrow> Ret a
     | Tau q \<Rightarrow> Tau (divert h q)
     | Act u k \<Rightarrow> Act u (\<lambda>s. divert h (k s))
     | Sys c k \<Rightarrow> Sys c (\<lambda>r. if blocking c \<and> r_cancelled r then h else divert h (k r)))"

lemma divert_simps [simp]:
  "divert h (Ret a) = Ret a"
  "divert h (Tau p) = Tau (divert h p)"
  "divert h (Act u k) = Act u (\<lambda>s. divert h (k s))"
  "divert h (Sys c g) = Sys c (\<lambda>r. if blocking c \<and> r_cancelled r then h else divert h (g r))"
  by (subst divert.code, simp)+

lemma lazy_unwinding_cong:
  "p = p' \<Longrightarrow> divert h p = divert h p'" "r = r' \<Longrightarrow> case_unwinding f g r = case_unwinding f g r'"
  by simp_all

text \<open>
  A cancellation point around the blocking call \<open>p\<close>. Only the transition from deferred to asynchronous
  cancellation opens it: with cancellation disabled nothing can divert the call, and with
  asynchronous cancellation, which can strike anywhere, the thread is not modelled to be struck.
\<close>

definition cancelpoint :: "('s, pthread) cell \<Rightarrow> ('s, 'a) prog \<Rightarrow> ('s, 'a unwinding) prog" where
  [code_defs]: "cancelpoint self p =
    bind (cancelpoint_begin self) (\<lambda>b. case b of
      Exits \<Rightarrow> Ret Exits
    | Value prev \<Rightarrow>
        bind (let p' = bind p (\<lambda>a. Ret (Value a))
              in if prev then divert (exit_thread self) p' else p') (\<lambda>r. case r of
          Exits \<Rightarrow> Ret Exits
        | Value a \<Rightarrow> bind (cancelpoint_end self prev) (\<lambda>_. Ret (Value a))))"

subsection \<open>Cancellation within an interleaving\<close>

lemma safe_divert:
  assumes "idle M p" and "\<And>a. Q a g" and "safe A I M t Q g h"
  shows "safe A I M t Q g (divert h p)"
proof (rule safe_coinduct_step [where X = "\<lambda>g' q. g' = g \<and> (\<exists>p. q = divert h p \<and> idle M p)"])
  fix g' and q :: "('a, 'b) prog" assume "g' = g \<and> (\<exists>p. q = divert h p \<and> idle M p)"
  then obtain p where "g' = g" "q = divert h p" "idle M p" by blast
  then show "safe_step A I M t Q
      (\<lambda>g' q. (g' = g \<and> (\<exists>p. q = divert h p \<and> idle M p)) \<or> safe A I M t Q g' q) g' q"
    using assms(2,3) by (cases p) (auto intro!: exI [of _ g])
qed (use assms(1) in blast)

lemma safe_pthread_exit:
  assumes "\<And>s G v. I s G \<Longrightarrow> I (c_put self v s) G" and "Q Exits g"
  shows "safe A I M t Q g (pthread_exit self retval)"
  unfolding pthread_exit_def
  by (rule safe_bind [where R = "\<lambda>_ g'. g' = g"], rule safe_store [where g' = g])
    (use assms in \<open>auto intro!: safe_bind [where R = "\<lambda>_ g'. g' = g"] safe_ActI [where h = "\<lambda>_. g"]
      simp: atomic_or_def\<close>)

lemma safe_exit_thread:
  assumes "\<And>s G v. I s G \<Longrightarrow> I (c_put self v s) G" and "Q Exits g"
  shows "safe A I M t Q g (exit_thread self)"
  unfolding exit_thread_def atomic_or_def
  by (simp, rule safe_ActI [where h = "\<lambda>_. g"])
    (use assms safe_pthread_exit [of I self Q g] in \<open>auto simp: fun_upd_idem\<close>)

lemma safe_cancelpoint_begin:
  assumes "\<And>s G v. I s G \<Longrightarrow> I (c_put self v s) G"
  shows "safe A I M t (\<lambda>_ g'. g' = g) g (cancelpoint_begin self)"
proof -
  have body: "safe A I M t (\<lambda>r g'. case r of Inl y \<Rightarrow> g' = g | Inr a \<Rightarrow> g' = g) g
    (bind (load (pth_flags self)) (\<lambda>oldval.
      let newval = (oldval OR PT_FLG_CANCEL_ASYNC) OR PT_FLG_CANCEL_TRANS in
      if oldval = newval then leave (Value True)
      else bind (atomic_cas_bool (pth_flags self) oldval newval) (\<lambda>ok.
        if ok then
          (if CANCELLED_ENABLED_ASYNC_P newval then
             bind (pthread_exit self PTHREAD_CANCELED) leave
           else leave (Value True))
        else again ())))"
    by (rule safe_bind [where R = "\<lambda>_ g'. g' = g"], rule safe_load)
      (auto simp: Let_def assms intro!: safe_bind [where R = "\<lambda>_ g'. g' = g"] safe_cas [where g' = g]
        safe_pthread_exit)
  show ?thesis
    unfolding cancelpoint_begin_def
    by (rule safe_bind [where R = "\<lambda>_ g'. g' = g"], rule safe_load)
      (auto intro!: safe_bind [where R = "\<lambda>_ g'. g' = g"] safe_store [where g' = g]
        safe_loop [where J = "\<lambda>_ g'. g' = g"] body simp: assms)
qed

lemma safe_cancelpoint:
  assumes "idle M p" and "\<And>s G v. I s G \<Longrightarrow> I (c_put self v s) G"
  shows "safe A I M t (\<lambda>_ g'. g' = g) g (cancelpoint self p)"
proof -
  have i: "idle M (bind p (\<lambda>a. Ret (Value a)))" using assms(1) by (rule idle_bind) simp
  have "safe A I M t (\<lambda>_ g'. g' = g) g (let p' = bind p (\<lambda>a. Ret (Value a))
      in if prev then divert (exit_thread self) p' else p')" for prev
    using safe_divert [OF i, of "\<lambda>_ g'. g' = g" g A I t "exit_thread self"]
      safe_idle [OF i, of "\<lambda>_ g'. g' = g" g A I t]
      safe_exit_thread [of I self "\<lambda>_ g'. g' = g" g A M t] assms(2)
    by (auto simp: Let_def)
  then show ?thesis
    unfolding cancelpoint_def
    by (intro safe_bind [OF safe_cancelpoint_begin [where I = I and self = self]])
      (auto split: unwinding.splits simp: cancelpoint_end_def atomic_and_def
        intro!: safe_bind [where R = "\<lambda>_ g'. g' = g"] safe_ActI [where h = "\<lambda>_. g"] assms(2))
qed

end
