(* ===== verification/Frame.thy ===== *)
theory Frame
  imports Cancel
begin

text \<open>
  Programs that leave a part of the state alone, for invariants that speak only of that part: \<open>framed v M p\<close>
  says that no step of \<open>p\<close> changes the view \<open>v\<close>. And the rule for a cancellation point whose wait
  learns something.
\<close>

coinductive framed :: "('s \<Rightarrow> 'v) \<Rightarrow> 's keff \<Rightarrow> ('s, 'a) prog \<Rightarrow> bool" for v M where
  framed_Ret: "framed v M (Ret a)"
| framed_Tau: "framed v M p \<Longrightarrow> framed v M (Tau p)"
| framed_Act: "\<forall>s. v (u s) = v s \<Longrightarrow> \<forall>s. framed v M (k s) \<Longrightarrow> framed v M (Act u k)"
| framed_Sys: "\<forall>s. v (M c s) = v s \<Longrightarrow> \<forall>r. framed v M (k r) \<Longrightarrow> framed v M (Sys c k)"

inductive_simps framed_simps [simp]:
  "framed v M (Ret a)"
  "framed v M (Tau p)"
  "framed v M (Act u k)"
  "framed v M (Sys c h)"

lemma framed_if [intro]: "framed v M p \<Longrightarrow> framed v M q \<Longrightarrow> framed v M (if b then p else q)"
  by simp

lemma framed_bind:
  assumes "framed v M p" and f: "\<And>a. framed v M (f a)"
  shows "framed v M (bind p f)"
proof (rule framed.coinduct [where X = "\<lambda>q. (\<exists>p. q = bind p f \<and> framed v M p) \<or> framed v M q"])
  fix q assume "(\<exists>p. q = bind p f \<and> framed v M p) \<or> framed v M q"
  then show "(\<exists>a. q = Ret a) \<or>
      (\<exists>p. q = Tau p \<and> (((\<exists>p'. p = bind p' f \<and> framed v M p') \<or> framed v M p) \<or> framed v M p)) \<or>
      (\<exists>u k. q = Act u k \<and> (\<forall>s. v (u s) = v s) \<and>
        (\<forall>s. ((\<exists>p. k s = bind p f \<and> framed v M p) \<or> framed v M (k s)) \<or> framed v M (k s))) \<or>
      (\<exists>c k. q = Sys c k \<and> (\<forall>s. v (M c s) = v s) \<and>
        (\<forall>r. ((\<exists>p. k r = bind p f \<and> framed v M p) \<or> framed v M (k r)) \<or> framed v M (k r)))"
  proof (elim disjE exE conjE)
    fix p assume q: "q = bind p f" and "framed v M p"
    then show ?thesis
    proof (cases p)
      case (Ret a)
      with q f [of a] show ?thesis by (cases "f a") auto
    qed auto
  next
    assume "framed v M q"
    then show ?thesis by (cases q) auto
  qed
qed (use assms(1) in blast)

lemma framed_loop:
  assumes b: "\<And>x. framed v M (b x)"
  shows "framed v M (loop b x)"
proof -
  have "framed v M (iter b p)" if "framed v M p" for p
  proof (rule framed.coinduct [where X = "\<lambda>q. \<exists>p. q = iter b p \<and> framed v M p"])
    fix q assume "\<exists>p. q = iter b p \<and> framed v M p"
    then obtain p where q: "q = iter b p" and p: "framed v M p" by blast
    show "(\<exists>a. q = Ret a) \<or>
        (\<exists>p. q = Tau p \<and> ((\<exists>p'. p = iter b p' \<and> framed v M p') \<or> framed v M p)) \<or>
        (\<exists>u k. q = Act u k \<and> (\<forall>s. v (u s) = v s) \<and>
          (\<forall>s. (\<exists>p. k s = iter b p \<and> framed v M p) \<or> framed v M (k s))) \<or>
        (\<exists>c k. q = Sys c k \<and> (\<forall>s. v (M c s) = v s) \<and>
          (\<forall>r. (\<exists>p. k r = iter b p \<and> framed v M p) \<or> framed v M (k r)))"
    proof (cases p)
      case (Ret r)
      with q b show ?thesis by (cases r) (auto simp: loop_def)
    qed (use p q in auto)
  qed (use that in blast)
  then show ?thesis using b by (simp add: loop_def)
qed

lemma safe_framed:
  fixes p :: "('s, 'a) prog"
  assumes "framed v M p" and "\<And>a. Q a g" and "\<And>c. is_Callback c \<Longrightarrow> A c g"
    and "\<And>s s' G. v s' = v s \<Longrightarrow> I s G \<Longrightarrow> I s' G"
  shows "safe A I M t Q g p"
proof (rule safe_coinduct_step [where X = "\<lambda>g' q. g' = g \<and> framed v M q"])
  fix g' and q :: "('s, 'a) prog" assume "g' = g \<and> framed v M q"
  then show "safe_step A I M t Q (\<lambda>g' q. (g' = g \<and> framed v M q) \<or> safe A I M t Q g' q) g' q"
    using assms(2,3,4) by (cases q) (auto intro!: exI [of _ g] simp: fun_upd_idem)
qed (use assms(1) in simp)

subsection \<open>Framed operations\<close>

named_theorems framing \<open>operations on memory outside the view\<close>

lemma framed_load [framing]: "framed v M (load c)"
  by (simp add: load_def)

lemma framed_store [framing]: "(\<And>s. v (c_put c x s) = v s) \<Longrightarrow> framed v M (store c x)"
  by (simp add: store_def)

lemma framed_atomic_load [framing]: "framed v M (atomic_load c)"
  by (simp add: atomic_load_def)

lemma framed_atomic_store [framing]: "(\<And>s. v (c_put c x s) = v s) \<Longrightarrow> framed v M (atomic_store c x)"
  by (simp add: atomic_store_def)

lemma framed_swap [framing]: "(\<And>s. v (c_put c x s) = v s) \<Longrightarrow> framed v M (atomic_swap c x)"
  by (simp add: atomic_swap_def)

lemma framed_cas [framing]: "(\<And>s. v (c_put c n s) = v s) \<Longrightarrow> framed v M (atomic_cas_bool c e n)"
  by (simp add: atomic_cas_bool_def)

lemma framed_add [framing]: "(\<And>s x. v (c_put c x s) = v s) \<Longrightarrow> framed v M (atomic_add c y)"
  by (simp add: atomic_add_def)

lemma framed_sys [framing]: "(\<And>s. v (M c s) = v s) \<Longrightarrow> framed v M (sys c)"
  by (simp add: sys_def)

text \<open>The kernel calls that only wait or wake.\<close>

definition wait_call :: "kcall \<Rightarrow> bool" where
  "wait_call c = (case c of
     MigGetReplyPort \<Rightarrow> True | MigDeallocReplyPort _ \<Rightarrow> True | MigPutReplyPort _ \<Rightarrow> True
   | IntrRpc _ _ _ \<Rightarrow> True | ClockGettime _ \<Rightarrow> True | SendMsg m _ \<Rightarrow> msgh_id m = 4205 \<and> mutation c = None | _ \<Rightarrow> False)"

lemma wait_call_simps [simp]:
  "wait_call MigGetReplyPort" "wait_call (MigDeallocReplyPort p)" "wait_call (MigPutReplyPort p)"
  "wait_call (IntrRpc m x y)" "wait_call (ClockGettime clk)"
  by (simp_all add: wait_call_def)

lemma idle_gsync_wait_call:
  assumes "\<And>c s. wait_call c \<Longrightarrow> M c s = s"
  shows "idle M (gsync_wait task addr v1 v2 msec flags)"
  by (auto simp: gsync_wait_def sys_def assms Let_def)


lemma framed_gsync_wait:
  assumes "\<And>c s. wait_call c \<Longrightarrow> v (M c s) = v s"
  shows "framed v M (gsync_wait task addr v1 v2 msec flags)"
  by (auto simp: gsync_wait_def sys_def assms Let_def)

lemma framed_gsync_wake:
  assumes "\<And>c s. wait_call c \<Longrightarrow> v (M c s) = v s" and "flags AND GSYNC_MUTATE = 0"
  shows "framed v M (gsync_wake task addr x flags)"
proof -
  have "wait_call (SendMsg (gsync_wake_request task addr x flags) n)" for n
    using assms(2) by (simp add: wait_call_def, simp add: gsync_wake_request_def)
  then show ?thesis by (simp add: gsync_wake_def sys_def assms(1))
qed

lemma framed_lll_wait [framing]:
  assumes "\<And>c s. wait_call c \<Longrightarrow> v (M c s) = v s"
  shows "framed v M (lll_wait ptr x flags)"
  using framed_gsync_wait [of v M] assms by (simp add: lll_wait_def)

lemma framed_lll_wake [framing]:
  assumes "\<And>c s. wait_call c \<Longrightarrow> v (M c s) = v s" and "flags AND GSYNC_MUTATE = 0"
  shows "framed v M (lll_wake ptr flags)"
  using framed_gsync_wake [of v M flags] assms by (auto simp: lll_wake_def intro!: framed_bind)

lemma framed_lll_lock [framing]:
  assumes "\<And>c s. wait_call c \<Longrightarrow> v (M c s) = v s" and "\<And>s x. v (c_put ptr x s) = v s"
  shows "framed v M (lll_lock ptr flags)"
  unfolding lll_lock_def by (auto intro!: framed_bind framed_loop framing simp: assms)

lemma framed_lll_unlock [framing]:
  assumes "\<And>c s. wait_call c \<Longrightarrow> v (M c s) = v s" and "\<And>s x. v (c_put ptr x s) = v s"
    and "flags AND GSYNC_MUTATE = 0"
  shows "framed v M (lll_unlock ptr flags)"
  unfolding lll_unlock_def by (auto intro!: framed_bind framing simp: assms)

subsection \<open>A cancellation point with a result\<close>

text \<open>
  The thread's ghost stays within \<open>H\<close> during the call, so the cleanup after a cancellation may rely on it.
\<close>

lemma safe_within:
  assumes "safe A (\<lambda>s G. I s G \<and> H (G t)) M t Q g p" and "H g"
  shows "safe A I M t (\<lambda>a g. Q a g \<and> H g) g p"
proof (rule safe_coinduct_step [where X = "\<lambda>g p. safe A (\<lambda>s G. I s G \<and> H (G t)) M t Q g p \<and> H g"])
  fix g p assume *: "safe A (\<lambda>s G. I s G \<and> H (G t)) M t Q g p \<and> H g"
  then have "safe_step A (\<lambda>s G. I s G \<and> H (G t)) M t Q (safe A (\<lambda>s G. I s G \<and> H (G t)) M t Q) g p"
    by (blast dest: safe_stepD)
  with * show "safe_step A I M t (\<lambda>a g. Q a g \<and> H g)
      (\<lambda>g p. (safe A (\<lambda>s G. I s G \<and> H (G t)) M t Q g p \<and> H g) \<or> safe A I M t (\<lambda>a g. Q a g \<and> H g) g p) g p"
    by (cases p) fastforce+
qed (use assms in simp)

lemma safe_divert_within:
  assumes "safe A (\<lambda>s G. I s G \<and> H (G t)) M t Q g p" and "H g"
    and h: "\<And>g. H g \<Longrightarrow> safe A I M t Q g h"
  shows "safe A I M t Q g (divert h p)"
proof (rule safe_coinduct_step [where X = "\<lambda>g q. \<exists>p. q = divert h p \<and> safe A (\<lambda>s G. I s G \<and> H (G t)) M t Q g p \<and> H g"])
  let ?S = "safe A (\<lambda>s G. I s G \<and> H (G t)) M t Q"
  let ?X = "\<lambda>g q. \<exists>p. q = divert h p \<and> ?S g p \<and> H g"
  fix g q assume "?X g q"
  then obtain p where q: "q = divert h p" and p: "?S g p" "H g" by blast
  from p(1) have st: "safe_step A (\<lambda>s G. I s G \<and> H (G t)) M t Q ?S g p" by (rule safe_stepD)
  show "safe_step A I M t Q (\<lambda>g q. ?X g q \<or> safe A I M t Q g q) g q"
  proof (cases p)
    case (Ret a)
    with st show ?thesis by (simp add: q)
  next
    case (Tau p')
    with st p show ?thesis by (auto simp: q)
  next
    case (Act u k)
    with st p show ?thesis by (fastforce simp: q)
  next
    case (Sys c k)
    have "\<exists>g'. I (M c s) (G(t := g')) \<and>
        (?X g' (if blocking c \<and> r_cancelled r then h else divert h (k r)) \<or>
         safe A I M t Q g' (if blocking c \<and> r_cancelled r then h else divert h (k r)))"
      if "I s G" "G t = g" for s G r
    proof -
      from st that p(2) obtain g' where "I (M c s) (G(t := g'))" "H g'" "?S g' (k r)"
        by (fastforce simp: Sys)
      then show ?thesis using h [of g'] by auto
    qed
    with st show ?thesis by (simp add: q Sys)
  qed
qed (use assms(1,2) in blast)

lemma safe_cancelpoint_within:
  assumes p: "safe A (\<lambda>s G. I s G \<and> H (G t)) M t R g p" and "H g"
    and self: "\<And>s G v. I s G \<Longrightarrow> I (c_put self v s) G"
  shows "safe A I M t (\<lambda>r g. H g \<and> (\<forall>a. r = Value a \<longrightarrow> R a g)) g (cancelpoint self p)"
proof -
  let ?Q = "\<lambda>r g. H g \<and> (\<forall>a. r = Value a \<longrightarrow> R a g)"
  let ?p = "bind p (\<lambda>a. Ret (Value a))"
  have v: "safe A (\<lambda>s G. I s G \<and> H (G t)) M t (\<lambda>r g. \<forall>a. r = Value a \<longrightarrow> R a g) g ?p"
    by (rule safe_bind [OF p]) simp
  have H: "safe A (\<lambda>s G. I s G \<and> H (G t)) M t ?Q g ?p"
    using safe_within [of A "\<lambda>s G. I s G \<and> H (G t)" H t M "\<lambda>r g. \<forall>a. r = Value a \<longrightarrow> R a g" g ?p] v assms(2)
    by (auto elim!: safe_mono)
  have "safe A I M t ?Q g (let p' = ?p in if prev then divert (exit_thread self) p' else p')" for prev
    using safe_divert_within [OF H assms(2), of "exit_thread self"] safe_within [OF v assms(2)]
      safe_exit_thread [of I self ?Q _ A M t] self
    by (auto simp: Let_def elim!: safe_mono)
  moreover have "safe A I M t ?Q g' (bind (cancelpoint_end self prev) (\<lambda>_. Ret (Value a)))"
    if "H g'" "R a g'" for prev a g'
    using that by (auto simp: cancelpoint_end_def atomic_and_def self fun_upd_idem
        intro!: safe_ActI [where h = "\<lambda>_. g'"])
  ultimately show ?thesis
    unfolding cancelpoint_def
    by (intro safe_bind [OF safe_cancelpoint_begin [where I = I and self = self]])
      (auto simp: assms(2) self split: unwinding.splits intro!: safe_bind [where R = "?Q"])
qed

end
