(* ===== verification/Compose.thy ===== *)
theory Compose
  imports Frame
begin

text \<open>
  Objects as parts of a larger state. A function that is given a cell of its object does the same to that
  object, wherever it lies: it is the lifting of the function on the object alone, and a proof about the object alone
  carries over to every state that contains it. And programs whose calls get only some of the possible answers.
\<close>

subsection \<open>Lifting\<close>

primcorec lift_prog :: "('w, 's) cell \<Rightarrow> ('s, 'a) prog \<Rightarrow> ('w, 'a) prog" where
  "lift_prog c p = (case p of
       Ret a \<Rightarrow> Ret a
     | Tau q \<Rightarrow> Tau (lift_prog c q)
     | Act u k \<Rightarrow> Act (\<lambda>w. c_put c (u (c_get c w)) w) (\<lambda>w. lift_prog c (k (c_get c w)))
     | Sys x k \<Rightarrow> Sys x (\<lambda>r. lift_prog c (k r)))"

lemma lift_simps [simp]:
  "lift_prog c (Ret a) = Ret a"
  "lift_prog c (Tau p) = Tau (lift_prog c p)"
  "lift_prog c (Act u k) = Act (\<lambda>w. c_put c (u (c_get c w)) w) (\<lambda>w. lift_prog c (k (c_get c w)))"
  "lift_prog c (Sys x h) = Sys x (\<lambda>r. lift_prog c (h r))"
  by (subst lift_prog.code, simp)+

named_theorems lifting \<open>lifting, moved inwards\<close>

lemma lift_if [lifting]: "lift_prog c (if b then p else q) = (if b then lift_prog c p else lift_prog c q)"
  by simp

lemma lift_bind [lifting]: "lift_prog c (bind p f) = bind (lift_prog c p) (\<lambda>a. lift_prog c (f a))"
proof (coinduction arbitrary: p rule: prog.coinduct_strong)
  case Eq_prog
  show ?case by (cases p) (auto simp: rel_fun_def)
qed

lemma lift_loop [lifting]: "lift_prog c (loop b x) = loop (\<lambda>x. lift_prog c (b x)) x"
proof -
  have "lift_prog c (iter b p) = iter (\<lambda>x. lift_prog c (b x)) (lift_prog c p)" for p
  proof (coinduction arbitrary: p rule: prog.coinduct_strong)
    case Eq_prog
    show ?case
    proof (cases p)
      case (Ret r)
      then show ?thesis by (cases r) (auto simp: loop_def)
    qed (auto simp: rel_fun_def)
  qed
  then show ?thesis by (simp add: loop_def)
qed

lemma lift_sys [lifting]: "lift_prog c (sys x) = sys x"
  by (simp add: sys_def)

text \<open>A cell of the part, as a cell of the whole.\<close>

definition through :: "('w, 's) cell \<Rightarrow> ('s, 'v) cell \<Rightarrow> ('w, 'v) cell" where
  "through c d = \<lparr>c_addr = c_addr d, c_get = (\<lambda>w. c_get d (c_get c w)),
    c_put = (\<lambda>v w. c_put c (c_put d v (c_get c w)) w)\<rparr>"

text \<open>The first part of a pair.\<close>

definition fst_cell :: "('a \<times> 'b, 'a) cell" where
  "fst_cell = \<lparr>c_addr = 0, c_get = fst, c_put = (\<lambda>v s. (v, snd s))\<rparr>"

lemma fst_cell_sel [simp]: "c_get fst_cell s = fst s" "c_put fst_cell w s = (w, snd s)"
  by (simp_all add: fst_cell_def)

lemma through_sel [simp]:
  "c_addr (through c d) = c_addr d" "c_get (through c d) w = c_get d (c_get c w)"
  "c_put (through c d) v w = c_put c (c_put d v (c_get c w)) w"
  by (simp_all add: through_def)

lemma through_field [lifting]:
  "through c (field off get upd (whole (c_addr c))) = field off get upd c"
  by (simp add: through_def field_def)

lemma lift_load [lifting]: "mem_cell c \<Longrightarrow> lift_prog c (load d) = load (through c d)"
  by (simp add: load_def fun_eq_iff mem_cell.put_get)

lemma lift_store [lifting]: "mem_cell c \<Longrightarrow> lift_prog c (store d v) = store (through c d) v"
  by (simp add: store_def fun_eq_iff mem_cell.put_get)

lemma lift_atomic_store [lifting]: "mem_cell c \<Longrightarrow> lift_prog c (atomic_store d v) = atomic_store (through c d) v"
  by (simp add: atomic_store_def fun_eq_iff mem_cell.put_get)

lemma lift_swap [lifting]: "mem_cell c \<Longrightarrow> lift_prog c (atomic_swap d v) = atomic_swap (through c d) v"
  by (simp add: atomic_swap_def fun_eq_iff mem_cell.put_get)

lemma lift_cas [lifting]: "mem_cell c \<Longrightarrow> lift_prog c (atomic_cas_bool d e n) = atomic_cas_bool (through c d) e n"
  by (simp add: atomic_cas_bool_def fun_eq_iff mem_cell.put_get)

lemma lift_gsync_wait [lifting]: "lift_prog c (gsync_wait task addr v1 v2 msec fl) = gsync_wait task addr v1 v2 msec fl"
  by (simp add: gsync_wait_def lifting cong: if_cong)

lemma lift_gsync_wake [lifting]: "lift_prog c (gsync_wake task addr v fl) = gsync_wake task addr v fl"
  by (simp add: gsync_wake_def lifting cong: if_cong)

lemma lift_lll_wait [lifting]: "lift_prog c (lll_wait (d :: ('s, u32) cell) v fl) = lll_wait (through c d) v fl"
  by (simp add: lll_wait_def lifting cong: if_cong)

lemma lift_lll_wake [lifting]: "lift_prog c (lll_wake (d :: ('s, u32) cell) fl) = lll_wake (through c d) fl"
  by (simp add: lll_wake_def lifting cong: if_cong)

lemma lift_lll_timed_wait [lifting]:
  "lift_prog c (lll_timed_wait (d :: ('s, u32) cell) v ms fl) = lll_timed_wait (through c d) v ms fl"
  by (simp add: lll_timed_wait_def lifting cong: if_cong)

lemma lift_lll_lock [lifting]: "mem_cell c \<Longrightarrow> lift_prog c (lll_lock d fl) = lll_lock (through c d) fl"
  by (simp add: lll_lock_def lifting cong: if_cong)

lemma lift_lll_unlock [lifting]: "mem_cell c \<Longrightarrow> lift_prog c (lll_unlock d fl) = lll_unlock (through c d) fl"
  by (simp add: lll_unlock_def lifting cong: if_cong)

text \<open>The proof about the part carries over: what else the invariant says must not depend on the part.\<close>

lemma safe_lift:
  assumes "mem_cell c" and "safe A I M t Q g p"
    and M: "\<And>x w. M' x w = c_put c (M x (c_get c w)) w"
    and J: "\<And>v w H. J (c_put c v w) H = J w H"
    and A: "\<And>x g. A x (fst g) \<Longrightarrow> A' x g" and Q: "\<And>a g. Q a g \<Longrightarrow> Q' a (g, h)"
  shows "safe A' (\<lambda>w G. I (c_get c w) (fst \<circ> G) \<and> J w (snd \<circ> G)) M' t
    Q' (g, h) (lift_prog c p)"
proof (rule safe_coinduct_step [where X = "\<lambda>g q. \<exists>p. q = lift_prog c p \<and> safe A I M t Q (fst g) p \<and> snd g = h"])
  let ?I = "\<lambda>w G. I (c_get c w) (fst \<circ> G) \<and> J w (snd \<circ> G)"
  let ?X = "\<lambda>g q. \<exists>p. q = lift_prog c p \<and> safe A I M t Q (fst g) p \<and> snd g = h"
  note [simp] = mem_cell.get_put [OF assms(1)]
  fix g q assume "?X g q"
  then obtain p where q: "q = lift_prog c p" and p: "safe A I M t Q (fst g) p" and h: "snd g = h" by blast
  from p have st: "safe_step A I M t Q (safe A I M t Q) (fst g) p" by (rule safe_stepD)
  have upd: "fst \<circ> G(t := (g', h)) = (fst \<circ> G)(t := g')" "snd \<circ> G(t := (g', h)) = snd \<circ> G"
    if "G t = g" for G and g' using that h by (auto simp: fun_eq_iff)
  show "safe_step A' ?I M' t Q'
    (\<lambda>g q. ?X g q \<or> safe A' ?I M' t Q' g q) g q"
  proof (cases p)
    case (Act u k)
    have "\<exists>g'. ?I (c_put c (u (c_get c w)) w) (G(t := g')) \<and> ?X g' (lift_prog c (k (c_get c w)))"
      if "?I w G" "G t = g" for w G
    proof -
      from st [unfolded Act safe_step_simps, rule_format, of "c_get c w" "fst \<circ> G"] that
      obtain g' where "I (u (c_get c w)) ((fst \<circ> G)(t := g'))" "safe A I M t Q g' (k (c_get c w))"
        by auto
      then show ?thesis using that upd [where G = G and g' = g', OF that(2)] J h by (intro exI [of _ "(g', h)"]) auto
    qed
    then show ?thesis unfolding q Act lift_simps safe_step_simps by blast
  next
    case (Sys x k)
    have "\<exists>g'. ?I (M' x w) (G(t := g')) \<and> ?X g' (lift_prog c (k r))" if "?I w G" "G t = g" for w G r
    proof -
      from st [unfolded Sys safe_step_simps, THEN conjunct2, rule_format, of "c_get c w" "fst \<circ> G"] that
      obtain g' where "I (M x (c_get c w)) ((fst \<circ> G)(t := g'))" "safe A I M t Q g' (k r)"
        by auto
      then show ?thesis using that upd [where G = G and g' = g', OF that(2)] J h by (intro exI [of _ "(g', h)"]) (auto simp: M)
    qed
    moreover have "is_Callback x \<longrightarrow> A' x g" using st A by (simp add: Sys)
    ultimately show ?thesis unfolding q Sys lift_simps safe_step_simps by blast
  next
    case (Ret a)
    with st h Q [of a "fst g"] show ?thesis by (cases g) (simp add: q)
  qed (use st h in \<open>auto simp: q\<close>)
qed (use assms(2) in auto)

subsection \<open>Mutexes as parts\<close>

lemma through_mtx [lifting]:
  "through c (mtx_lock (whole (c_addr c))) = mtx_lock c"
  "through c (mtx_owner_id (whole (c_addr c))) = mtx_owner_id c"
  "through c (mtx_cnt (whole (c_addr c))) = mtx_cnt c"
  "through c (mtx_shpid (whole (c_addr c))) = mtx_shpid c"
  "through c (mtx_type (whole (c_addr c))) = mtx_type c"
  "through c (mtx_flags (whole (c_addr c))) = mtx_flags c"
  by (simp_all add: mtx_lock_def mtx_owner_id_def mtx_cnt_def mtx_shpid_def mtx_type_def mtx_flags_def through_field)

text \<open>Locking and unlocking a mutex that is part of the state.\<close>

lemma lift_mtx [lifting]:
  assumes "mem_cell c"
  shows "lift_prog c (mtx_flags_shared (whole (c_addr c))) = mtx_flags_shared c"
    and "lift_prog c (MTX_TYPE (whole (c_addr c))) = MTX_TYPE c"
    and "lift_prog c (mtx_owned_p (whole (c_addr c)) self fl) = mtx_owned_p c self fl"
    and "lift_prog c (mtx_nest (whole (c_addr c))) = mtx_nest c"
    and "lift_prog c (mtx_set_owner (whole (c_addr c)) tid pid fl) = mtx_set_owner c tid pid fl"
    and "lift_prog c (mtx_unnest (whole (c_addr c))) = mtx_unnest c"
    and "lift_prog c (mtx_release (whole (c_addr c)) fl) = mtx_release c fl"
    and "lift_prog c (robust_owned_p (whole (c_addr c)) self) = robust_owned_p c self"
    and "lift_prog c (robust_lock_owned (whole (c_addr c))) = robust_lock_owned c"
    and "lift_prog c (robust_lock_taken self (whole (c_addr c)) r) = robust_lock_taken self c r"
  using assms
  by (simp_all add: mtx_flags_shared_def MTX_TYPE_def mtx_owned_p_def mtx_nest_def mtx_set_owner_def mtx_unnest_def
      mtx_release_def robust_owned_p_def robust_lock_owned_def robust_lock_taken_def lifting cong: if_cong)

lemma lift_valid_pid [lifting]: "lift_prog c (valid_pid pid) = valid_pid pid"
  by (simp add: valid_pid_def lifting cong: if_cong)

lemma lift_lll_robust [lifting]:
  assumes "mem_cell c"
  shows "lift_prog c (lll_robust_enter d pid) = lll_robust_enter (through c d) pid"
    and "lift_prog c (lll_robust_lock d pid fl) = lll_robust_lock (through c d) pid fl"
    and "lift_prog c (lll_set_wake d v fl) = lll_set_wake (through c d) v fl"
    and "lift_prog c (lll_robust_unlock d fl) = lll_robust_unlock (through c d) fl"
  using assms
  by (simp_all add: lll_robust_enter_def lll_robust_lock_def lll_set_wake_def lll_robust_unlock_def lifting cong: if_cong)

lemma lift_ROBUST_LOCK [lifting]:
  assumes "mem_cell c"
  shows "lift_prog c (ROBUST_LOCK self (whole (c_addr c)) cb) = ROBUST_LOCK self c (lift_prog c cb)"
proof -
  have "lift_prog c (case e of None \<Rightarrow> p | Some r \<Rightarrow> Ret r) = (case e of None \<Rightarrow> lift_prog c p | Some r \<Rightarrow> Ret r)"
    for e and p :: "(_, ret) prog" by (cases e) simp_all
  with assms show ?thesis by (simp add: ROBUST_LOCK_def lifting cong: if_cong option.case_cong)
qed

lemma lift_mutex [lifting]:
  assumes "mem_cell c"
  shows "lift_prog c (pthread_mutex_lock self (whole (c_addr c))) = pthread_mutex_lock self c"
    and "lift_prog c (pthread_mutex_unlock self (whole (c_addr c))) = pthread_mutex_unlock self c"
  using assms by (simp_all add: pthread_mutex_lock_def pthread_mutex_unlock_def lifting cong: if_cong)

subsection \<open>Restricted answers\<close>

text \<open>\<open>answers F p\<close> is \<open>p\<close> with a kernel that gives only answers in the range of \<open>F\<close>.\<close>

primcorec answers :: "(reply \<Rightarrow> reply) \<Rightarrow> ('s, 'a) prog \<Rightarrow> ('s, 'a) prog" where
  "answers F p = (case p of
       Ret a \<Rightarrow> Ret a
     | Tau q \<Rightarrow> Tau (answers F q)
     | Act u k \<Rightarrow> Act u (\<lambda>s. answers F (k s))
     | Sys x k \<Rightarrow> Sys x (\<lambda>r. answers F (k (F r))))"

lemma answers_simps [simp]:
  "answers F (Ret a) = Ret a"
  "answers F (Tau p) = Tau (answers F p)"
  "answers F (Act u k) = Act u (\<lambda>s. answers F (k s))"
  "answers F (Sys x h) = Sys x (\<lambda>r. answers F (h (F r)))"
  by (subst answers.code, simp)+

lemma lazy_answers_cong: "p = p' \<Longrightarrow> answers F p = answers F p'"
  by simp

named_theorems answering \<open>restricted answers, moved inwards\<close>

lemma answers_if [answering]: "answers F (if b then p else q) = (if b then answers F p else answers F q)"
  by simp

lemma answers_bind [answering]: "answers F (bind p f) = bind (answers F p) (\<lambda>a. answers F (f a))"
proof (coinduction arbitrary: p rule: prog.coinduct_strong)
  case Eq_prog
  show ?case by (cases p) (auto simp: rel_fun_def)
qed

lemma answers_loop [answering]: "answers F (loop b x) = loop (\<lambda>x. answers F (b x)) x"
proof -
  have "answers F (iter b p) = iter (\<lambda>x. answers F (b x)) (answers F p)" for p
  proof (coinduction arbitrary: p rule: prog.coinduct_strong)
    case Eq_prog
    show ?case
    proof (cases p)
      case (Ret r)
      then show ?thesis by (cases r) (auto simp: loop_def)
    qed (auto simp: rel_fun_def)
  qed
  then show ?thesis by (simp add: loop_def)
qed

lemma answers_id: "answers (\<lambda>r. r) p = p"
proof (coinduction arbitrary: p rule: prog.coinduct_strong)
  case Eq_prog
  show ?case by (cases p) (auto simp: rel_fun_def)
qed

lemma answers_atomic [answering]:
  "answers F (load c) = load c" "answers F (store c v) = store c v"
  "answers F (atomic_load c) = atomic_load c" "answers F (atomic_store c v) = atomic_store c v"
  "answers F (atomic_add w n) = atomic_add w n" "answers F (atomic_or w n) = atomic_or w n"
  "answers F (atomic_and w n) = atomic_and w n" "answers F (atomic_cas_bool c v v') = atomic_cas_bool c v v'"
  by (simp_all add: atomic_defs)

lemma answers_unwinding [answering]:
  "answers F (case r of Exits \<Rightarrow> p | Value a \<Rightarrow> q a) = (case r of Exits \<Rightarrow> answers F p | Value a \<Rightarrow> answers F (q a))"
  by (cases r) simp_all

lemma answers_divert [answering]:
  assumes "\<And>r. r_cancelled (F r) = r_cancelled r"
  shows "answers F (divert h p) = divert (answers F h) (answers F p)"
proof (coinduction arbitrary: p rule: prog.coinduct_strong)
  case Eq_prog
  show ?case by (cases p) (use assms in \<open>auto simp: rel_fun_def\<close>)
qed

lemma answers_cancelpoint [answering]:
  assumes "\<And>r. r_cancelled (F r) = r_cancelled r"
  shows "answers F (cancelpoint self p) = cancelpoint self (answers F p)"
  by (simp add: cancelpoint_def cancelpoint_begin_def cancelpoint_end_def exit_thread_def pthread_exit_def
      Let_def answering assms cong: if_cong unwinding.case_cong)

lemma answers_with_cleanup [answering]:
  "answers F (with_cleanup h pop p) = with_cleanup (answers F h) pop (answers F p)"
  by (simp add: with_cleanup_def answering cong: if_cong unwinding.case_cong)

lemma safe_answers:
  assumes "safe A I M t Q g p"
  shows "safe A I M t Q g (answers F p)"
proof (rule safe_coinduct_step [where X = "\<lambda>g q. \<exists>p. q = answers F p \<and> safe A I M t Q g p"])
  fix g q assume "\<exists>p. q = answers F p \<and> safe A I M t Q g p"
  then obtain p where q: "q = answers F p" and "safe A I M t Q g p" by blast
  from this(2) have s: "safe_step A I M t Q (safe A I M t Q) g p" by (rule safe_stepD)
  show "safe_step A I M t Q (\<lambda>g q. (\<exists>p. q = answers F p \<and> safe A I M t Q g p) \<or> safe A I M t Q g q) g q"
    by (cases p; use s in \<open>simp add: q\<close>) blast+
qed (use assms in blast)

end
