(* ===== verification/Cond.thy ===== *)
theory Cond
  imports Compose
begin

text \<open>
  \<open>pthread/cond.c\<close>: condition variables. One 64-bit word holds the wakeup sequence in its low and the number
  of waiters in its high limb; a wakeup changes the sequence, so that a thread that has registered but
  does not sleep yet is turned back by the kernel. The flags hold the clock in their high half.
\<close>

abbreviation (input) CLOCK_MONOTONIC :: int where "CLOCK_MONOTONIC \<equiv> 1"
abbreviation (input) COND_CLK_SHIFT :: nat where "COND_CLK_SHIFT \<equiv> 16"
abbreviation (input) COND_CLK_MASK :: u32 where "COND_CLK_MASK \<equiv> 0xFFFF"

subsection \<open>Attributes\<close>

record pthread_condattr =
  ca_flags :: u32

definition cond_dfl_attr :: pthread_condattr where
  "cond_dfl_attr = \<lparr>ca_flags = push_bit COND_CLK_SHIFT (word_of_int CLOCK_REALTIME)\<rparr>"

definition pthread_condattr_init :: "pthread_condattr \<Rightarrow> ret \<times> pthread_condattr" where
  "pthread_condattr_init _ = (OK, cond_dfl_attr)"

definition pthread_condattr_setpshared :: "pthread_condattr \<Rightarrow> int \<Rightarrow> ret \<times> pthread_condattr" where
  "pthread_condattr_setpshared at pshared =
    (if pshared \<noteq> PTHREAD_PROCESS_SHARED \<and> pshared \<noteq> PTHREAD_PROCESS_PRIVATE then (Err EINVAL, at)
     else (OK, at\<lparr>ca_flags := (ca_flags at AND NOT GSYNC_SHARED) OR
        (if pshared = PTHREAD_PROCESS_SHARED then GSYNC_SHARED else 0)\<rparr>))"

definition pthread_condattr_getpshared :: "pthread_condattr \<Rightarrow> ret \<times> int" where
  "pthread_condattr_getpshared at =
    (OK, if ca_flags at AND GSYNC_SHARED \<noteq> 0 then PTHREAD_PROCESS_SHARED else PTHREAD_PROCESS_PRIVATE)"

definition pthread_condattr_setclock :: "pthread_condattr \<Rightarrow> int \<Rightarrow> ret \<times> pthread_condattr" where
  "pthread_condattr_setclock at clk =
    (if clk \<noteq> CLOCK_REALTIME \<and> clk \<noteq> CLOCK_MONOTONIC then (Err EINVAL, at)
     else (OK, at\<lparr>ca_flags := push_bit COND_CLK_SHIFT (word_of_int clk) OR (ca_flags at AND COND_CLK_MASK)\<rparr>))"

text \<open>\<open>flags >> COND_CLK_SHIFT\<close> on an \<open>int\<close>, which keeps the sign.\<close>

definition cond_clock :: "u32 \<Rightarrow> int" where
  "cond_clock flags = sint flags div 2 ^ COND_CLK_SHIFT"

definition pthread_condattr_getclock :: "pthread_condattr \<Rightarrow> ret \<times> int" where
  "pthread_condattr_getclock at = (OK, cond_clock (ca_flags at))"

definition pthread_condattr_destroy :: "pthread_condattr \<Rightarrow> ret \<times> pthread_condattr" where
  "pthread_condattr_destroy at = (OK, at)"

subsection \<open>The condition variable\<close>

text \<open>\<open>cv_mutex\<close> is the address of the mutex that a waiter has saved, or 0.\<close>

record pthread_cond =
  cv_seq_nw :: xint
  cv_mutex :: u32
  cv_flags :: u32

definition cond_seq_nw :: "('s, pthread_cond) cell \<Rightarrow> ('s, xint) cell" where
  [code_defs]: "cond_seq_nw = field 0 cv_seq_nw cv_seq_nw_update"

definition cond_mutex :: "('s, pthread_cond) cell \<Rightarrow> ('s, u32) cell" where
  [code_defs]: "cond_mutex = field 8 cv_mutex cv_mutex_update"

definition cond_flags :: "('s, pthread_cond) cell \<Rightarrow> ('s, u32) cell" where
  [code_defs]: "cond_flags = field 12 cv_flags cv_flags_update"

lemma cond_sel [simp]:
  "c_addr (cond_seq_nw c) = c_addr c" "c_get (cond_seq_nw c) s = cv_seq_nw (c_get c s)"
  "c_put (cond_seq_nw c) x s = c_put c ((c_get c s)\<lparr>cv_seq_nw := x\<rparr>) s"
  "c_get (cond_mutex c) s = cv_mutex (c_get c s)"
  "c_put (cond_mutex c) v s = c_put c ((c_get c s)\<lparr>cv_mutex := v\<rparr>) s"
  "c_get (cond_flags c) s = cv_flags (c_get c s)"
  by (simp_all add: cond_seq_nw_def cond_mutex_def cond_flags_def)

definition pthread_cond_init :: "pthread_condattr option \<Rightarrow> ret \<times> pthread_cond" where
  "pthread_cond_init attrp =
    (let attr = (case attrp of None \<Rightarrow> cond_dfl_attr | Some at \<Rightarrow> at)
     in (OK, \<lparr>cv_seq_nw = xint_of 0, cv_mutex = 0, cv_flags = ca_flags attr\<rparr>))"

definition pthread_cond_destroy :: "('s, pthread_cond) cell \<Rightarrow> ('s, ret) prog" where
  [code_defs]: "pthread_cond_destroy condp =
    bind (atomic_load (hi_cell (cond_seq_nw condp))) (\<lambda>nw. Ret (if nw \<noteq> 0 then Err EBUSY else OK))"

subsection \<open>Waiting\<close>

text \<open>Lock the mutex and mark it as contended, so that its release wakes a thread unconditionally.\<close>

definition pthread_mutex_cond_lock :: "thread \<Rightarrow> ('s, pthread_mutex) cell \<Rightarrow> ('s, ret) prog" where
  [code_defs]: "pthread_mutex_cond_lock self mtxp =
    bind (pthread_mutex_lock self mtxp) (\<lambda>ret.
    if ret = OK then
      bind (load (mtx_flags mtxp)) (\<lambda>fl.
      if fl AND PTHREAD_MUTEX_ROBUST = 0 then bind (atomic_store (mtx_lock mtxp) 2) (\<lambda>_. Ret ret)
      else
        bind (load (mtx_lock mtxp)) (\<lambda>w.
        if w AND LLL_WAITERS = 0 then
          bind (load (mtx_lock mtxp)) (\<lambda>w.
          bind (atomic_store (mtx_lock mtxp) (w OR LLL_WAITERS)) (\<lambda>_. Ret ret))
        else Ret ret))
    else Ret ret)"

text \<open>The handler for a cancelled wait; \<open>sw\<close> is the word as it was before the registration.\<close>

definition cond_cleanup ::
  "thread \<Rightarrow> ('s, pthread_cond) cell \<Rightarrow> ('s, pthread_mutex) cell \<Rightarrow> xint \<Rightarrow> ('s, unit) prog" where
  [code_defs]: "cond_cleanup self condp mtxp sw =
    bind (atomic_addx_hi (cond_seq_nw condp) (- 1)) (\<lambda>tmp.
    bind (if lo sw \<noteq> lo tmp then
            bind (load (cond_flags condp)) (\<lambda>fl. lll_wake (lo_cell (cond_seq_nw condp)) (fl OR GSYNC_BROADCAST))
          else Ret ()) (\<lambda>_.
    bind (pthread_mutex_cond_lock self mtxp) (\<lambda>_. Ret ())))"

text \<open>Save the mutex of a condition variable that is not shared.\<close>

definition cond_save_mutex ::
  "('s, pthread_cond) cell \<Rightarrow> ('s, pthread_mutex) cell \<Rightarrow> u32 \<Rightarrow> ('s, unit) prog" where
  [code_defs]: "cond_save_mutex condp mtxp pshared =
    (if pshared AND GSYNC_SHARED = 0 then
       bind (load (cond_mutex condp)) (\<lambda>m.
       if m = 0 then atomic_store (cond_mutex condp) (c_addr mtxp) else Ret ())
     else Ret ())"

text \<open>
  The loop \<open>do { .. } while (0)\<close>, whose \<open>continue\<close> leaves it: after an interruption the waiter stays
  counted.
\<close>

definition cond_leave :: "('s, pthread_cond) cell \<Rightarrow> int \<Rightarrow> ('s, int) prog" where
  [code_defs]: "cond_leave condp ret =
    (if ret = KERN_INTERRUPTED then Ret ret
     else bind (atomic_add (hi_cell (cond_seq_nw condp)) (- 1)) (\<lambda>_. Ret ret))"

text \<open>The wait \<open>block\<close> as a cancellation point, with the handler in place.\<close>

definition cond_sleep ::
  "thread \<Rightarrow> ('s, pthread) cell \<Rightarrow> ('s, pthread_cond) cell \<Rightarrow> ('s, pthread_mutex) cell \<Rightarrow> xint \<Rightarrow>
    ('s, int) prog \<Rightarrow> ('s, int unwinding) prog" where
  [code_defs]: "cond_sleep self pself condp mtxp sw block =
    with_cleanup (cond_cleanup self condp mtxp sw) (\<lambda>_. False)
      (bind (cancelpoint pself block) (\<lambda>r. case r of
         Exits \<Rightarrow> Ret Exits
       | Value ret \<Rightarrow> bind (cond_leave condp ret) (\<lambda>ret. Ret (Value ret))))"

definition pthread_cond_wait ::
  "thread \<Rightarrow> ('s, pthread) cell \<Rightarrow> ('s, pthread_cond) cell \<Rightarrow> ('s, pthread_mutex) cell \<Rightarrow>
    ('s, ret unwinding) prog" where
  [code_defs]: "pthread_cond_wait self pself condp mtxp =
    bind (load (cond_flags condp)) (\<lambda>fl.
    let flags = fl AND GSYNC_SHARED in
    bind (cond_save_mutex condp mtxp flags) (\<lambda>_.
    bind (pthread_mutex_unlock self mtxp) (\<lambda>ret.
    if ret \<noteq> OK then Ret (Value ret)
    else
      bind (atomic_addx_hi (cond_seq_nw condp) 1) (\<lambda>sw.
      bind (cond_sleep self pself condp mtxp sw
        (lll_wait (lo_cell (cond_seq_nw condp)) (lo sw) flags)) (\<lambda>r. case r of
        Exits \<Rightarrow> Ret Exits
      | Value _ \<Rightarrow> bind (pthread_mutex_cond_lock self mtxp) (\<lambda>ret. Ret (Value ret)))))))"

text \<open>The result is the kernel's code when that is neither 0 nor a timeout.\<close>

definition pthread_cond_timedwait ::
  "thread \<Rightarrow> ('s, pthread) cell \<Rightarrow> ('s, pthread_cond) cell \<Rightarrow> ('s, pthread_mutex) cell \<Rightarrow> timespec \<Rightarrow>
    ('s, ret unwinding) prog" where
  [code_defs]: "pthread_cond_timedwait self pself condp mtxp tsp =
    bind (load (cond_flags condp)) (\<lambda>fl.
    let pshared = fl AND GSYNC_SHARED in
    bind (load (cond_flags condp)) (\<lambda>fl.
    let clk = cond_clock fl in
    if bad_nsec tsp then Ret (Value (Err EINVAL))
    else
      bind (cond_save_mutex condp mtxp pshared) (\<lambda>_.
      bind (pthread_mutex_unlock self mtxp) (\<lambda>ret.
      if ret \<noteq> OK then Ret (Value ret)
      else
        bind (atomic_addx_hi (cond_seq_nw condp) 1) (\<lambda>sw.
        bind (cond_sleep self pself condp mtxp sw
          (lll_abstimed_wait (lo_cell (cond_seq_nw condp)) (lo sw) tsp pshared clk)) (\<lambda>r. case r of
          Exits \<Rightarrow> Ret Exits
        | Value ret \<Rightarrow>
            bind (pthread_mutex_cond_lock self mtxp) (\<lambda>r2.
            Ret (Value (if ret = 0 then r2 else if ret = KERN_TIMEDOUT then Err ETIMEDOUT else Code ret)))))))))"

subsection \<open>Waking\<close>

definition pthread_cond_signal :: "('s, pthread_cond) cell \<Rightarrow> ('s, ret) prog" where
  [code_defs]: "pthread_cond_signal condp =
    bind (atomic_addx_lo (cond_seq_nw condp) 1) (\<lambda>tmp.
    if hi tmp > 0 then
      bind (load (cond_flags condp)) (\<lambda>fl.
      bind (lll_wake (lo_cell (cond_seq_nw condp)) (fl AND GSYNC_SHARED)) (\<lambda>_. Ret OK))
    else Ret OK)"

text \<open>\<open>mtx_at\<close> gives the mutex at an address.\<close>

definition pthread_cond_broadcast ::
  "(u32 \<Rightarrow> ('s, pthread_mutex) cell) \<Rightarrow> ('s, pthread_cond) cell \<Rightarrow> ('s, ret) prog" where
  [code_defs]: "pthread_cond_broadcast mtx_at condp =
    bind (atomic_addx_lo (cond_seq_nw condp) 1) (\<lambda>tmp.
    if hi tmp > 0 then
      bind (load (cond_flags condp)) (\<lambda>fl.
      let flags = (fl AND GSYNC_SHARED) OR GSYNC_BROADCAST in
      bind (load (cond_mutex condp)) (\<lambda>m.
      if m \<noteq> 0 then
        bind (load (cond_mutex condp)) (\<lambda>m.
        bind (lll_requeue (lo_cell (cond_seq_nw condp)) (mtx_lock (mtx_at m)) True flags) (\<lambda>_. Ret OK))
      else bind (lll_wake (lo_cell (cond_seq_nw condp)) flags) (\<lambda>_. Ret OK)))
    else Ret OK)"

subsection \<open>The variants that the Hurd's cancellation interrupts\<close>

text \<open>
  Of the signal state of the calling thread: its address, the flag \<open>cancel\<close>, and whether the hook \<open>cancel_hook\<close> is
  set. The hook is the nested function \<open>cancel_self\<close>, run by whoever cancels the thread.
\<close>

record 's hurd_sigstate =
  hs_addr :: u32
  hs_cancel :: "('s, u32) cell"
  hs_hook :: "('s, bool) cell"

definition cond_cancel_self :: "('s, pthread_cond) cell \<Rightarrow> u32 \<Rightarrow> ('s, unit) prog" where
  [code_defs]: "cond_cancel_self condp flags =
    bind (atomic_add (lo_cell (cond_seq_nw condp)) 1) (\<lambda>_.
    lll_wake (lo_cell (cond_seq_nw condp)) (flags OR GSYNC_BROADCAST))"

definition hurd_spin_lock :: "'s hurd_sigstate \<Rightarrow> ('s, unit) prog" where
  [code_defs]: "hurd_spin_lock stp = bind (sys (Lib ''__spin_lock'' [Word (hs_addr stp)])) (\<lambda>_. Ret ())"

definition hurd_spin_unlock :: "'s hurd_sigstate \<Rightarrow> ('s, unit) prog" where
  [code_defs]: "hurd_spin_unlock stp = bind (sys (Lib ''__spin_unlock'' [Word (hs_addr stp)])) (\<lambda>_. Ret ())"

text \<open>The end of the wait: the hook is cleared and the flag fetched; the answer says whether it was set.\<close>

definition hurd_cond_cancelled :: "'s hurd_sigstate \<Rightarrow> ('s, bool) prog" where
  [code_defs]: "hurd_cond_cancelled stp =
    bind (hurd_spin_lock stp) (\<lambda>_.
    bind (store (hs_hook stp) False) (\<lambda>_.
    bind (load (hs_cancel stp)) (\<lambda>cancel.
    bind (if cancel \<noteq> 0 then store (hs_cancel stp) 0 else Ret ()) (\<lambda>_.
    bind (hurd_spin_unlock stp) (\<lambda>_. Ret (cancel \<noteq> 0))))))"

definition pt_hurd_cond_wait ::
  "thread \<Rightarrow> 's hurd_sigstate \<Rightarrow> ('s, pthread_cond) cell \<Rightarrow> ('s, pthread_mutex) cell \<Rightarrow> timespec option \<Rightarrow>
    ('s, ret) prog" where
  [code_defs]: "pt_hurd_cond_wait self stp condp mtxp tsp =
    (if (case tsp of None \<Rightarrow> False | Some ts \<Rightarrow> bad_nsec ts) then Ret (Err EINVAL)
     else
       bind (hurd_spin_lock stp) (\<lambda>_.
       bind (load (hs_cancel stp)) (\<lambda>cancel.
       if cancel \<noteq> 0 then
         bind (store (hs_cancel stp) 0) (\<lambda>_. bind (hurd_spin_unlock stp) (\<lambda>_. Ret (Err EINTR)))
       else
         bind (load (cond_flags condp)) (\<lambda>fl.
         let flags = fl AND GSYNC_SHARED in
         bind (cond_save_mutex condp mtxp flags) (\<lambda>_.
         bind (pthread_mutex_unlock self mtxp) (\<lambda>ret.
         if ret \<noteq> OK then bind (hurd_spin_unlock stp) (\<lambda>_. Ret ret)
         else
           bind (atomic_addx_hi (cond_seq_nw condp) 1) (\<lambda>tmp.
           bind (store (hs_hook stp) True) (\<lambda>_.
           bind (hurd_spin_unlock stp) (\<lambda>_.
           bind (case tsp of
               None \<Rightarrow> lll_wait (lo_cell (cond_seq_nw condp)) (lo tmp) flags
             | Some ts \<Rightarrow> lll_abstimed_wait (lo_cell (cond_seq_nw condp)) (lo tmp) ts flags CLOCK_REALTIME) (\<lambda>ret.
           bind (cond_leave condp ret) (\<lambda>ret.
           bind (hurd_cond_cancelled stp) (\<lambda>cancelled.
           if cancelled then Ret (Err EINTR) else pthread_mutex_cond_lock self mtxp))))))))))))"

definition pthread_hurd_cond_wait_np ::
  "thread \<Rightarrow> 's hurd_sigstate \<Rightarrow> ('s, pthread_cond) cell \<Rightarrow> ('s, pthread_mutex) cell \<Rightarrow> ('s, ret) prog" where
  [code_defs]: "pthread_hurd_cond_wait_np self stp condp mtxp = pt_hurd_cond_wait self stp condp mtxp None"

definition pthread_hurd_cond_timedwait_np ::
  "thread \<Rightarrow> 's hurd_sigstate \<Rightarrow> ('s, pthread_cond) cell \<Rightarrow> ('s, pthread_mutex) cell \<Rightarrow> timespec \<Rightarrow>
    ('s, ret) prog" where
  [code_defs]: "pthread_hurd_cond_timedwait_np self stp condp mtxp tsp =
    pt_hurd_cond_wait self stp condp mtxp (Some tsp)"

end
