(* ===== verification/CondExclusion.thy ===== *)
theory CondExclusion
  imports Cond
begin

text \<open>
  Condition variables together with mutexes that are not robust, under any interleaving: threads lock the mutex, wait on
  the condition variable, with or without a timeout, or wake the others, and unlock. The part of the
  invariant about the mutex is that of the mutex alone, lifted.
\<close>

record 't cond_world =
  cw_cond :: pthread_cond
  cw_mtx :: pthread_mutex
  cw_pt :: "'t \<Rightarrow> pthread"

definition cw_cond_cell :: "u32 \<Rightarrow> ('t cond_world, pthread_cond) cell" where
  "cw_cond_cell a = \<lparr>c_addr = a, c_get = cw_cond, c_put = (\<lambda>v s. s\<lparr>cw_cond := v\<rparr>)\<rparr>"

definition cw_mtx_cell :: "u32 \<Rightarrow> ('t cond_world, pthread_mutex) cell" where
  "cw_mtx_cell a = \<lparr>c_addr = a, c_get = cw_mtx, c_put = (\<lambda>v s. s\<lparr>cw_mtx := v\<rparr>)\<rparr>"

definition cw_pt_cell :: "('t \<Rightarrow> u32) \<Rightarrow> 't \<Rightarrow> ('t cond_world, pthread) cell" where
  "cw_pt_cell addr t = \<lparr>c_addr = addr t, c_get = (\<lambda>s. cw_pt s t),
    c_put = (\<lambda>v s. s\<lparr>cw_pt := (cw_pt s)(t := v)\<rparr>)\<rparr>"

lemma cw_cells [simp]:
  "c_addr (cw_cond_cell a) = a" "c_get (cw_cond_cell a) s = cw_cond s"
  "c_put (cw_cond_cell a) x s = s\<lparr>cw_cond := x\<rparr>"
  "c_addr (cw_mtx_cell a) = a" "c_get (cw_mtx_cell a) s = cw_mtx s"
  "c_put (cw_mtx_cell a) m s = s\<lparr>cw_mtx := m\<rparr>"
  "c_get (cw_pt_cell addr t) s = cw_pt s t"
  "c_put (cw_pt_cell addr t) d s = s\<lparr>cw_pt := (cw_pt s)(t := d)\<rparr>"
  by (simp_all add: cw_cond_cell_def cw_mtx_cell_def cw_pt_cell_def)

interpretation cw_mtx: mem_cell "cw_mtx_cell b" for b
  by unfold_locales simp_all

interpretation cw_cond: mem_cell "cw_cond_cell a" for a
  by unfold_locales simp_all

abbreviation cond_kernel :: "u32 \<Rightarrow> 't cond_world keff" where
  "cond_kernel b \<equiv> gsync_effect (mtx_lock (cw_mtx_cell b))"

subsection \<open>The invariant\<close>

text \<open>
  The ghost of a thread is its phase with the mutex, and whether it is counted as a waiter. The count is
  exact as long as no wait is interrupted (\<open>strict\<close>).
\<close>

definition cond_ok :: "bool \<Rightarrow> ('t::finite) cond_world \<Rightarrow> ('t \<Rightarrow> bool) \<Rightarrow> bool" where
  "cond_ok strict s H \<longleftrightarrow> cv_flags (cw_cond s) AND GSYNC_MUTATE = 0 \<and>
     (strict \<longrightarrow> card (UNIV :: 't set) < 2 ^ 32 \<and> unat (hi (cv_seq_nw (cw_cond s))) = card {t. H t})"

definition cond_inv ::
  "bool \<Rightarrow> (('t::finite) \<Rightarrow> thread) \<Rightarrow> u32 \<Rightarrow> u32 \<Rightarrow> 't cond_world \<Rightarrow> ('t \<Rightarrow> phase \<times> bool) \<Rightarrow> bool" where
  "cond_inv strict thr ty fl s G \<longleftrightarrow>
     mutex_inv thr ty fl (cw_mtx s) (fst \<circ> G) \<and> cond_ok strict s (snd \<circ> G)"

lemma cond_ok_other [simp]:
  "cond_ok strict (s\<lparr>cw_mtx := m\<rparr>) H = cond_ok strict s H"
  "cond_ok strict (s\<lparr>cw_pt := f\<rparr>) H = cond_ok strict s H"
  by (simp_all add: cond_ok_def)

lemma cond_inv_pt [simp]: "cond_inv strict thr ty fl (s\<lparr>cw_pt := f\<rparr>) G = cond_inv strict thr ty fl s G"
  by (simp add: cond_inv_def)

lemma cond_ghost_upd:
  "G t = (g, h) \<Longrightarrow> fst \<circ> G(t := (g, h')) = fst \<circ> G" "snd \<circ> G(t := (g', h')) = (snd \<circ> G)(t := h')"
  by (auto simp: fun_eq_iff)

text \<open>What holds of the mutex alone holds of it here.\<close>

lemma cond_mutex_safe:
  assumes "safe (\<lambda>_ _. False) (mutex_inv thr ty fl) (mtx_kernel b) t Q g p"
    and "\<And>a g'. Q a g' \<Longrightarrow> R a (g', h)"
  shows "safe A (cond_inv strict thr ty fl) (cond_kernel b) t R (g, h) (lift_prog (cw_mtx_cell b) p)"
proof -
  have "cond_inv strict thr ty fl = (\<lambda>s G. mutex_inv thr ty fl (c_get (cw_mtx_cell b) s) (fst \<circ> G) \<and>
      cond_ok strict s (snd \<circ> G))"
    by (simp add: fun_eq_iff cond_inv_def)
  moreover have "safe A \<dots> (cond_kernel b) t R (g, h) (lift_prog (cw_mtx_cell b) p)"
    by (rule safe_lift [OF cw_mtx.mem_cell_axioms assms(1)])
      (use assms(2) in \<open>auto simp: gsync_effect_def split: option.splits\<close>)
  ultimately show ?thesis by simp
qed

lemma lift_mutex_cond_lock:
  "mem_cell c \<Longrightarrow> lift_prog c (pthread_mutex_cond_lock self (whole (c_addr c))) = pthread_mutex_cond_lock self c"
  by (simp add: pthread_mutex_cond_lock_def lifting cong: if_cong)

lemma lift_cw_mtx:
  "lift_prog (cw_mtx_cell b) (pthread_mutex_lock self (whole b)) = pthread_mutex_lock self (cw_mtx_cell b)"
  "lift_prog (cw_mtx_cell b) (pthread_mutex_unlock self (whole b)) = pthread_mutex_unlock self (cw_mtx_cell b)"
  "lift_prog (cw_mtx_cell b) (pthread_mutex_cond_lock self (whole b)) = pthread_mutex_cond_lock self (cw_mtx_cell b)"
  using lift_mutex [OF cw_mtx.mem_cell_axioms] lift_mutex_cond_lock [OF cw_mtx.mem_cell_axioms] by simp_all

text \<open>Marking the lock as contended, by the one who holds it.\<close>

lemma mtx_mark_safe:
  "safe A (mutex_inv thr ty fl) M t (\<lambda>_ g. g = mtx_held ty 0) (mtx_held ty 0) (atomic_store (mtx_lock (whole b)) 2)"
proof (rule safe_atomic_store)
  fix s and G :: "'a \<Rightarrow> phase" assume i: "mutex_inv thr ty fl s G" and g: "G t = mtx_held ty 0"
  have h: "mtx_held ty 0 \<noteq> Out" by (simp add: mtx_held_def)
  have "phase_inv (mtx_held ty 0) (thr t) (s\<lparr>m_lock := 2\<rparr>)"
    using mutex_inv_holder(2) [OF i g h] by (auto simp: mtx_held_def split: if_splits)
  then show "mutex_inv thr ty fl (c_put (mtx_lock (whole b)) 2 s) (G(t := mtx_held ty 0))"
    using h by (intro mutex_inv_step [OF i]) (auto simp: g)
qed simp

lemma mutex_cond_lock_safe:
  "safe A (mutex_inv thr ty fl) (mtx_kernel b) t (\<lambda>r g. r = OK \<and> g = mtx_held ty 0) Out
    (pthread_mutex_cond_lock (thr t) (whole b))"
  unfolding pthread_mutex_cond_lock_def
proof (rule safe_bind [OF pthread_mutex_lock_safe], clarsimp)
  have "safe A (mutex_inv thr ty fl) (mtx_kernel b) t (\<lambda>f g. f AND 256 = 0 \<and> g = mtx_held ty 0) (mtx_held ty 0)
      (load (mtx_flags (whole b)))"
    by (rule safe_load) (auto simp: plain_mutex_def dest: mutex_inv_plain)
  then show "safe A (mutex_inv thr ty fl) (mtx_kernel b) t (\<lambda>r g. r = OK \<and> g = mtx_held ty 0) (mtx_held ty 0)
    (bind (load (mtx_flags (whole b))) (\<lambda>fl. if fl AND 256 = 0
       then bind (atomic_store (mtx_lock (whole b)) 2) (\<lambda>_. Ret OK)
       else bind (load (mtx_lock (whole b))) (\<lambda>w. if w AND LLL_WAITERS = 0 then
          bind (load (mtx_lock (whole b))) (\<lambda>w.
          bind (atomic_store (mtx_lock (whole b)) (w OR LLL_WAITERS)) (\<lambda>_. Ret OK)) else Ret OK)))"
    by (rule safe_bind) (auto intro!: safe_bind [OF mtx_mark_safe])
qed

lemmas cw_lock_safe = cond_mutex_safe [OF pthread_mutex_lock_safe, unfolded lift_cw_mtx]
lemmas cw_unlock_safe = cond_mutex_safe [OF pthread_mutex_unlock_safe, unfolded lift_cw_mtx]
lemmas cw_relock_safe = cond_mutex_safe [OF mutex_cond_lock_safe, unfolded lift_cw_mtx]

subsection \<open>The steps of the calls\<close>

text \<open>A thread in phase \<open>ph\<close> of the mutex that is not counted.\<close>

definition uncounted :: "bool \<Rightarrow> phase \<Rightarrow> phase \<times> bool \<Rightarrow> bool" where
  "uncounted strict ph g \<longleftrightarrow> fst g = ph \<and> (strict \<longrightarrow> \<not> snd g)"

lemma cond_register_safe:
  assumes "uncounted strict ph g"
  shows "safe A (cond_inv strict thr ty fl) M (t :: 't::finite) (\<lambda>_ g. g = (ph, True)) g
    (atomic_addx_hi (cond_seq_nw (cw_cond_cell a)) 1)"
  unfolding atomic_addx_hi_def
proof (rule safe_addx [where g' = "(ph, True)"])
  fix s and G :: "'t \<Rightarrow> phase \<times> bool" assume i: "cond_inv strict thr ty fl s G" and g: "G t = g"
  have G: "fst \<circ> G(t := (ph, True)) = fst \<circ> G" "snd \<circ> G(t := (ph, True)) = (snd \<circ> G)(t := True)"
    using assms g by (auto simp: uncounted_def fun_eq_iff)
  let ?n = "hi (cv_seq_nw (cw_cond s))"
  have "unat (?n + 1) = card {u. ((snd \<circ> G)(t := True)) u}" if strict
  proof -
    have "\<not> (snd \<circ> G) t" using assms g that by (simp add: uncounted_def)
    then have c: "card {u. ((snd \<circ> G)(t := True)) u} = Suc (card {u. (snd \<circ> G) u})"
      using count_class_enter [where C = "\<lambda>x. x" and G = "snd \<circ> G" and p = True] by simp
    have "card {u. ((snd \<circ> G)(t := True)) u} \<le> card (UNIV :: 't set)" by (rule count_bound)
    moreover have n: "card (UNIV :: 't set) < 2 ^ 32" "unat ?n = card {u. (snd \<circ> G) u}"
      using i that by (simp_all add: cond_inv_def cond_ok_def)
    ultimately have "unat (?n + 1) = Suc (unat ?n)" using c by (intro unat_Suc_bound) linarith
    then show ?thesis by (simp only: n c)
  qed
  then show "cond_inv strict thr ty fl (c_put (cond_seq_nw (cw_cond_cell a))
      \<lparr>lo = lo (c_get (cond_seq_nw (cw_cond_cell a)) s) + 0, hi = hi (c_get (cond_seq_nw (cw_cond_cell a)) s) + 1\<rparr> s)
      (G(t := (ph, True)))"
    using i by (simp add: cond_inv_def cond_ok_def G)
qed simp

lemma cond_inv_deregister:
  assumes "cond_inv strict thr ty fl s (G :: 't::finite \<Rightarrow> _)" and "G t = (ph, True)"
  shows "cond_inv strict thr ty fl (s\<lparr>cw_cond := (cw_cond s)\<lparr>cv_seq_nw :=
    \<lparr>lo = x, hi = hi (cv_seq_nw (cw_cond s)) - 1\<rparr>\<rparr>\<rparr>) (G(t := (ph, False)))"
proof -
  have G: "fst \<circ> G(t := (ph, False)) = fst \<circ> G" "snd \<circ> G(t := (ph, False)) = (snd \<circ> G)(t := False)"
    using assms(2) by (auto simp: fun_eq_iff)
  let ?n = "hi (cv_seq_nw (cw_cond s))"
  have "unat (?n - 1) = card {u. ((snd \<circ> G)(t := False)) u}" if strict
  proof -
    have "Suc (card {u. ((snd \<circ> G)(t := False)) u}) = card {u. (snd \<circ> G) u}"
      using count_class_leave [where C = "\<lambda>x. x" and G = "snd \<circ> G" and t = t and p = False] assms(2) by simp
    moreover have "unat ?n = card {u. (snd \<circ> G) u}" using assms(1) that by (simp add: cond_inv_def cond_ok_def)
    ultimately have "unat ?n = Suc (card {u. ((snd \<circ> G)(t := False)) u})" by simp
    moreover from this have "?n \<noteq> 0" by auto
    ultimately show ?thesis using unat_pred_32 by simp
  qed
  then show ?thesis using assms(1) by (simp add: cond_inv_def cond_ok_def G)
qed

lemma cond_deregister_safe:
  "safe A (cond_inv strict thr ty fl) M (t :: 't::finite) (\<lambda>_ g. g = (ph, False)) (ph, True)
    (atomic_addx_hi (cond_seq_nw (cw_cond_cell a)) (- 1))"
  "safe A (cond_inv strict thr ty fl) M (t :: 't::finite) (\<lambda>_ g. g = (ph, False)) (ph, True)
    (atomic_add (hi_cell (cond_seq_nw (cw_cond_cell a))) (- 1))"
proof -
  show "safe A (cond_inv strict thr ty fl) M t (\<lambda>_ g. g = (ph, False)) (ph, True)
    (atomic_addx_hi (cond_seq_nw (cw_cond_cell a)) (- 1))"
    unfolding atomic_addx_hi_def
    by (rule safe_addx [where g' = "(ph, False)"]) (auto dest: cond_inv_deregister)
  have x: "(x :: xint)\<lparr>hi := v\<rparr> = \<lparr>lo = lo x, hi = v\<rparr>" for x v by (cases x) simp
  show "safe A (cond_inv strict thr ty fl) M t (\<lambda>_ g. g = (ph, False)) (ph, True)
    (atomic_add (hi_cell (cond_seq_nw (cw_cond_cell a))) (- 1))"
    by (intro safe_add [where g' = "(ph, False)"]) (auto simp: x dest: cond_inv_deregister)
qed

text \<open>The sequence.\<close>

lemma cond_bump_safe:
  "safe A (cond_inv strict thr ty fl) M (t :: 't::finite) (\<lambda>_ g'. g' = g) g
    (atomic_addx_lo (cond_seq_nw (cw_cond_cell a)) 1)"
  unfolding atomic_addx_lo_def
  by (rule safe_addx [where g' = g]) (auto simp: cond_inv_def cond_ok_def fun_upd_idem)

lemma cond_flags_safe:
  "safe A (cond_inv strict thr ty fl) M t (\<lambda>f g'. f AND GSYNC_MUTATE = 0 \<and> g' = g) g
    (load (cond_flags (cw_cond_cell a)))"
  by (rule safe_load) (simp add: cond_inv_def cond_ok_def)

lemma cond_save_mutex_safe:
  "safe A (cond_inv strict thr ty fl) M t (\<lambda>_ g'. g' = g) g
    (cond_save_mutex (cw_cond_cell a) (cw_mtx_cell b) pshared)"
  unfolding cond_save_mutex_def
  by (auto intro!: safe_bind [OF safe_load [where Q = "\<lambda>_ g'. g' = g"]] safe_atomic_store [where g' = g]
      simp: cond_inv_def cond_ok_def fun_upd_idem)

lemma cond_wake_safe:
  assumes "flags AND GSYNC_MUTATE = 0"
  shows "safe A (cond_inv strict thr ty fl) (cond_kernel b) t (\<lambda>_ g'. g' = g) g (lll_wake ptr flags)"
  by (rule safe_lll_wake [OF gsync_effect_contract assms]) simp

lemma cond_requeue_safe:
  "safe A (cond_inv strict thr ty fl) (cond_kernel b) t (\<lambda>_ g'. g' = g) g (lll_requeue src dst one flags)"
  unfolding lll_requeue_def gsync_requeue_def
  by (auto intro!: safe_bind [where R = "\<lambda>_ g'. g' = g"] safe_sys [OF gsync_effect_contract])

text \<open>A wait, when the kernel's answers are restricted to those of \<open>F\<close>.\<close>

definition never_interrupts :: "(reply \<Rightarrow> reply) \<Rightarrow> bool" where
  "never_interrupts F \<longleftrightarrow> (\<forall>r. r_code (F r) \<noteq> KERN_INTERRUPTED \<and> r_retcode (F r) \<noteq> KERN_INTERRUPTED)"

lemma gsync_wait_answers:
  assumes "strict \<longrightarrow> never_interrupts F"
  shows "safe A I (gsync_effect c) t (\<lambda>r g'. g' = g \<and> (strict \<longrightarrow> r \<noteq> KERN_INTERRUPTED)) g
    (answers F (gsync_wait task addr v1 v2 msec flags))"
  using assms
  by (auto simp: gsync_wait_def sys_def never_interrupts_def intro!: safe_Sys_skip)

lemma lll_wait_answers:
  assumes "strict \<longrightarrow> never_interrupts F"
  shows "safe A I (gsync_effect c) t (\<lambda>r g'. g' = g \<and> (strict \<longrightarrow> r \<noteq> KERN_INTERRUPTED)) g
      (answers F (lll_wait ptr v flags))"
    and "safe A I (gsync_effect c) t (\<lambda>r g'. g' = g \<and> (strict \<longrightarrow> r \<noteq> KERN_INTERRUPTED)) g
      (answers F (lll_abstimed_wait ptr v tsp flags clk))"
  using gsync_wait_answers [OF assms]
  by (auto simp: lll_wait_def lll_abstimed_wait_def lll_timed_wait_def compute_reltime_def sys_def intro!: safe_Sys_skip)

subsection \<open>The calls\<close>

lemma cond_leave_safe:
  assumes "strict \<longrightarrow> ret \<noteq> KERN_INTERRUPTED"
  shows "safe A (cond_inv strict thr ty fl) M (t :: 't::finite) (\<lambda>_ g. uncounted strict ph g) (ph, True)
    (cond_leave (cw_cond_cell a) ret)"
  unfolding cond_leave_def
  using assms by (auto simp: uncounted_def intro!: safe_bind [OF cond_deregister_safe(2)])

lemma cond_cleanup_safe:
  "safe A (cond_inv strict thr ty fl) (cond_kernel b) (t :: 't::finite) (\<lambda>_ g. uncounted strict (mtx_held ty 0) g)
    (Out, True) (cond_cleanup (thr t) (cw_cond_cell a) (cw_mtx_cell b) sw)"
  unfolding cond_cleanup_def
proof (rule safe_bind [OF cond_deregister_safe(1)])
  fix tmp and g :: "phase \<times> bool" assume g: "g = (Out, False)"
  have m: "(f OR 8) AND 16 = f AND (16 :: u32)" for f by (rule and_disjoint_or) simp
  have "safe A (cond_inv strict thr ty fl) (cond_kernel b) t (\<lambda>_ g'. g' = g) g
    (if lo sw \<noteq> lo tmp
     then bind (load (cond_flags (cw_cond_cell a)))
       (\<lambda>fl. lll_wake (lo_cell (cond_seq_nw (cw_cond_cell a))) (fl OR GSYNC_BROADCAST))
     else Ret ())"
    by (auto intro!: safe_bind [OF cond_flags_safe] cond_wake_safe simp: m)
  then show "safe A (cond_inv strict thr ty fl) (cond_kernel b) t (\<lambda>_ g. uncounted strict (mtx_held ty 0) g) g
    (bind (if lo sw \<noteq> lo tmp
       then bind (load (cond_flags (cw_cond_cell a)))
         (\<lambda>fl. lll_wake (lo_cell (cond_seq_nw (cw_cond_cell a))) (fl OR GSYNC_BROADCAST))
       else Ret ())
      (\<lambda>_. bind (pthread_mutex_cond_lock (thr t) (cw_mtx_cell b)) (\<lambda>_. Ret ())))"
    by (rule safe_bind) (auto simp: g uncounted_def intro!: safe_bind [OF cw_relock_safe [where R = "\<lambda>_ g. g = (mtx_held ty 0, False)"]])
qed

text \<open>What holds after a call that may unwind: the mutex is held either way.\<close>

lemma cond_sleep_safe:
  assumes F: "\<And>r. r_cancelled (F r) = r_cancelled r"
    and "\<And>I. safe A I (cond_kernel b) t (\<lambda>r g'. g' = (Out, True) \<and> (strict \<longrightarrow> r \<noteq> KERN_INTERRUPTED)) (Out, True)
      (answers F block)"
  shows "safe A (cond_inv strict thr ty fl) (cond_kernel b) (t :: 't::finite)
    (\<lambda>r g. uncounted strict (if r = Exits then mtx_held ty 0 else Out) g) (Out, True)
    (answers F (cond_sleep (thr t) (cw_pt_cell addr t) (cw_cond_cell a) (cw_mtx_cell b) sw block))"
  unfolding cond_sleep_def answers_with_cleanup answers_bind answers_cancelpoint [OF F]
proof -
  let ?I = "cond_inv strict thr ty fl"
  have c: "safe A ?I (cond_kernel b) t (\<lambda>r g. g = (Out, True) \<and> (\<forall>v. r = Value v \<longrightarrow> strict \<longrightarrow> v \<noteq> KERN_INTERRUPTED))
      (Out, True) (cancelpoint (cw_pt_cell addr t) (answers F block))"
    by (rule safe_cancelpoint_within [where H = "\<lambda>g. g = (Out, True)" and R = "\<lambda>v _. strict \<longrightarrow> v \<noteq> KERN_INTERRUPTED"])
      (rule safe_mono [OF assms(2)], simp_all)
  show "safe A ?I (cond_kernel b) t (\<lambda>r g. uncounted strict (if r = Exits then mtx_held ty 0 else Out) g) (Out, True)
    (with_cleanup (answers F (cond_cleanup (thr t) (cw_cond_cell a) (cw_mtx_cell b) sw)) (\<lambda>_. False)
      (bind (cancelpoint (cw_pt_cell addr t) (answers F block)) (\<lambda>r. answers F (case r of
         Exits \<Rightarrow> Ret Exits
       | Value ret \<Rightarrow> bind (cond_leave (cw_cond_cell a) ret) (\<lambda>ret. Ret (Value ret))))))"
    unfolding with_cleanup_def bind_assoc
    by (rule safe_bind [OF c])
      (auto split: unwinding.splits simp: answering bind_assoc intro!: safe_bind [OF safe_answers [OF cond_leave_safe]]
        safe_bind [OF safe_answers [OF cond_cleanup_safe]])
qed

lemma pthread_cond_signal_safe:
  "safe A (cond_inv strict thr ty fl) (cond_kernel b) (t :: 't::finite) (\<lambda>_ g'. g' = g) g
    (pthread_cond_signal (cw_cond_cell a))"
  unfolding pthread_cond_signal_def
  by (rule safe_bind [OF cond_bump_safe])
    (auto intro!: safe_bind [OF cond_flags_safe] safe_bind [OF cond_wake_safe])

lemma pthread_cond_broadcast_safe:
  "safe A (cond_inv strict thr ty fl) (cond_kernel b) (t :: 't::finite) (\<lambda>_ g'. g' = g) g
    (pthread_cond_broadcast mtx_at (cw_cond_cell a))"
proof -
  have m: "((f AND 1) OR 8) AND 16 = (0 :: u32)" for f
    using and_disjoint_or [of 8 16 "f AND 1"] by simp
  have l: "safe A (cond_inv strict thr ty fl) (cond_kernel b) t (\<lambda>_ g'. g' = g) g (load (cond_mutex (cw_cond_cell a)))" for g
    by (rule safe_load) simp
  show ?thesis
    unfolding pthread_cond_broadcast_def
    by (rule safe_bind [OF cond_bump_safe])
      (auto simp: Let_def m intro!: safe_bind [OF cond_flags_safe] safe_bind [OF l] safe_bind [OF cond_requeue_safe]
        safe_bind [OF cond_wake_safe])
qed

lemma cond_block_after:
  assumes F: "\<And>r. r_cancelled (F r) = r_cancelled r" and "strict \<longrightarrow> never_interrupts F"
    and g: "uncounted strict (mtx_held ty 0) g"
    and block: "\<And>sw I. safe A I (cond_kernel b) t (\<lambda>r g'. g' = (Out, True) \<and> (strict \<longrightarrow> r \<noteq> KERN_INTERRUPTED))
      (Out, True) (answers F (block sw))"
  shows "safe A (cond_inv strict thr ty fl) (cond_kernel b) (t :: 't::finite) (\<lambda>_ g. uncounted strict (mtx_held ty 0) g) g
    (answers F (bind (pthread_mutex_unlock (thr t) (cw_mtx_cell b)) (\<lambda>ret.
      if ret \<noteq> OK then Ret (Value ret)
      else
        bind (atomic_addx_hi (cond_seq_nw (cw_cond_cell a)) 1) (\<lambda>sw.
        bind (cond_sleep (thr t) (cw_pt_cell addr t) (cw_cond_cell a) (cw_mtx_cell b) sw (block sw)) (\<lambda>r. case r of
          Exits \<Rightarrow> Ret Exits
        | Value ret \<Rightarrow> bind (pthread_mutex_cond_lock (thr t) (cw_mtx_cell b)) (\<lambda>r2. Ret (Value (res ret r2))))))))"
proof -
  obtain h where h: "g = (mtx_held ty 0, h)" "strict \<longrightarrow> \<not> h" using g by (cases g) (auto simp: uncounted_def)
  have s: "safe A (cond_inv strict thr ty fl) (cond_kernel b) t
      (\<lambda>r g. uncounted strict (if r = Exits then mtx_held ty 0 else Out) g) (Out, True)
      (answers F (cond_sleep (thr t) (cw_pt_cell addr t) (cw_cond_cell a) (cw_mtx_cell b) sw (block sw)))" for sw
    by (rule cond_sleep_safe [OF F block])
  have r: "safe A (cond_inv strict thr ty fl) (cond_kernel b) t (\<lambda>_ g. uncounted strict (mtx_held ty 0) g) g'
      (pthread_mutex_cond_lock (thr t) (cw_mtx_cell b))" if "uncounted strict Out g'" for g'
    using that by (cases g') (auto simp: uncounted_def intro!: cw_relock_safe)
  show ?thesis
    unfolding h(1) answers_bind
    by (rule safe_bind [OF safe_answers [OF cw_unlock_safe [where R = "\<lambda>r g. r = OK \<and> g = (Out, h)"]]])
      (auto simp: answering h(2) uncounted_def [of _ Out] intro!: safe_bind [OF safe_answers [OF cond_register_safe [where ph = Out]]] safe_bind [OF s]
        safe_bind [OF safe_answers [OF r]] split: unwinding.splits)
qed

end
