(* ===== verification/CondClients.thy ===== *)
theory CondClients
  imports CondExclusion
begin

text \<open>
  Threads that share a condition variable and its mutex. Each works off a list of calls; it locks the mutex for
  each of them, is inside before and after the call, and unlocks in a cleanup handler.
\<close>

datatype cond_op = Wait | Timedwait timespec | Signal | Broadcast

fun cond_call ::
  "thread \<Rightarrow> ('s, pthread) cell \<Rightarrow> ('s, pthread_cond) cell \<Rightarrow> ('s, pthread_mutex) cell \<Rightarrow> cond_op \<Rightarrow>
    ('s, ret unwinding) prog" where
  "cond_call self pself condp mtxp Wait = pthread_cond_wait self pself condp mtxp"
| "cond_call self pself condp mtxp (Timedwait ts) = pthread_cond_timedwait self pself condp mtxp ts"
| "cond_call self pself condp mtxp Signal = bind (pthread_cond_signal condp) (\<lambda>r. Ret (Value r))"
| "cond_call self pself condp mtxp Broadcast = bind (pthread_cond_broadcast (\<lambda>_. mtxp) condp) (\<lambda>r. Ret (Value r))"

primrec cond_user ::
  "thread \<Rightarrow> ('s, pthread) cell \<Rightarrow> ('s, pthread_cond) cell \<Rightarrow> ('s, pthread_mutex) cell \<Rightarrow> cond_op list \<Rightarrow>
    ('s, unit) prog" where
  "cond_user self pself condp mtxp [] = Ret ()"
| "cond_user self pself condp mtxp (call # calls) =
    bind (pthread_mutex_lock self mtxp) (\<lambda>_.
    bind (sys (Callback 0 0)) (\<lambda>_.
    bind (with_cleanup (bind (pthread_mutex_unlock self mtxp) (\<lambda>_. Ret ())) (\<lambda>_. True)
      (bind (cond_call self pself condp mtxp call) (\<lambda>r. case r of
         Exits \<Rightarrow> Ret Exits
       | Value _ \<Rightarrow> bind (sys (Callback 0 0)) (\<lambda>_. Ret (Value ()))))) (\<lambda>r. case r of
      Exits \<Rightarrow> Ret ()
    | Value _ \<Rightarrow> cond_user self pself condp mtxp calls)))"

lemma pthread_cond_wait_safe:
  assumes F: "\<And>r. r_cancelled (F r) = r_cancelled r" and "strict \<longrightarrow> never_interrupts F"
    and "uncounted strict (mtx_held ty 0) g"
  shows "safe A (cond_inv strict thr ty fl) (cond_kernel b) (t :: 't::finite) (\<lambda>_ g. uncounted strict (mtx_held ty 0) g) g
      (answers F (pthread_cond_wait (thr t) (cw_pt_cell addr t) (cw_cond_cell a) (cw_mtx_cell b)))"
proof -
  have "safe A (cond_inv strict thr ty fl) (cond_kernel b) t (\<lambda>_ g. uncounted strict (mtx_held ty 0) g) g
    (answers F (bind (pthread_mutex_unlock (thr t) (cw_mtx_cell b)) (\<lambda>ret.
      if ret \<noteq> OK then Ret (Value ret)
      else
        bind (atomic_addx_hi (cond_seq_nw (cw_cond_cell a)) 1) (\<lambda>sw.
        bind (cond_sleep (thr t) (cw_pt_cell addr t) (cw_cond_cell a) (cw_mtx_cell b) sw
          (lll_wait (lo_cell (cond_seq_nw (cw_cond_cell a))) (lo sw) flags)) (\<lambda>r. case r of
          Exits \<Rightarrow> Ret Exits
        | Value ret \<Rightarrow> bind (pthread_mutex_cond_lock (thr t) (cw_mtx_cell b)) (\<lambda>r2. Ret (Value r2)))))))" for flags
    by (rule cond_block_after [OF assms, where block = "\<lambda>sw. lll_wait (lo_cell (cond_seq_nw (cw_cond_cell a))) (lo sw) flags" and res = "\<lambda>_ r. r"])
      (rule lll_wait_answers [OF assms(2)])
  then show ?thesis
    unfolding pthread_cond_wait_def answers_bind [of _ "load _"] answers_bind [of _ "cond_save_mutex _ _ _"] Let_def
    by (auto intro!: safe_bind [OF safe_answers [OF cond_flags_safe]] safe_bind [OF safe_answers [OF cond_save_mutex_safe]])
qed

lemma pthread_cond_timedwait_safe:
  assumes F: "\<And>r. r_cancelled (F r) = r_cancelled r" and "strict \<longrightarrow> never_interrupts F"
    and "uncounted strict (mtx_held ty 0) g"
  shows "safe A (cond_inv strict thr ty fl) (cond_kernel b) (t :: 't::finite) (\<lambda>_ g. uncounted strict (mtx_held ty 0) g) g
      (answers F (pthread_cond_timedwait (thr t) (cw_pt_cell addr t) (cw_cond_cell a) (cw_mtx_cell b) ts))"
proof -
  have "safe A (cond_inv strict thr ty fl) (cond_kernel b) t (\<lambda>_ g. uncounted strict (mtx_held ty 0) g) g
    (answers F (bind (pthread_mutex_unlock (thr t) (cw_mtx_cell b)) (\<lambda>ret.
      if ret \<noteq> OK then Ret (Value ret)
      else
        bind (atomic_addx_hi (cond_seq_nw (cw_cond_cell a)) 1) (\<lambda>sw.
        bind (cond_sleep (thr t) (cw_pt_cell addr t) (cw_cond_cell a) (cw_mtx_cell b) sw
          (lll_abstimed_wait (lo_cell (cond_seq_nw (cw_cond_cell a))) (lo sw) ts pshared clk)) (\<lambda>r. case r of
          Exits \<Rightarrow> Ret Exits
        | Value ret \<Rightarrow> bind (pthread_mutex_cond_lock (thr t) (cw_mtx_cell b)) (\<lambda>r2.
            Ret (Value (if ret = 0 then r2 else if ret = KERN_TIMEDOUT then Err ETIMEDOUT else Code ret))))))))" for pshared clk
    by (rule cond_block_after [OF assms, where block = "\<lambda>sw. lll_abstimed_wait (lo_cell (cond_seq_nw (cw_cond_cell a))) (lo sw) ts pshared clk"
          and res = "\<lambda>ret r2. if ret = 0 then r2 else if ret = KERN_TIMEDOUT then Err ETIMEDOUT else Code ret"])
      (rule lll_wait_answers [OF assms(2)])
  then show ?thesis
    unfolding pthread_cond_timedwait_def answers_bind [of _ "load _"] answers_if [of _ "bad_nsec _"]
      answers_bind [of _ "cond_save_mutex _ _ _"] Let_def
    using assms(3)
    by (auto intro!: safe_bind [OF safe_answers [OF cond_flags_safe]] safe_bind [OF safe_answers [OF cond_save_mutex_safe]])
qed

lemma cond_call_safe:
  assumes F: "\<And>r. r_cancelled (F r) = r_cancelled r" and "strict \<longrightarrow> never_interrupts F"
    and "uncounted strict (mtx_held ty 0) g"
  shows "safe A (cond_inv strict thr ty fl) (cond_kernel b) (t :: 't::finite) (\<lambda>_ g. uncounted strict (mtx_held ty 0) g) g
      (answers F (cond_call (thr t) (cw_pt_cell addr t) (cw_cond_cell a) (cw_mtx_cell b) call))"
  by (cases call)
    (use assms(3) in \<open>auto simp: answering intro!: pthread_cond_wait_safe [OF assms] pthread_cond_timedwait_safe [OF assms]
      safe_bind [OF safe_answers [OF pthread_cond_signal_safe]] safe_bind [OF safe_answers [OF pthread_cond_broadcast_safe]]\<close>)

text \<open>A thread between its calls.\<close>

abbreviation (input) cond_idle :: "bool \<Rightarrow> phase \<times> bool \<Rightarrow> bool" where
  "cond_idle strict \<equiv> uncounted strict Out"

lemma cond_user_safe:
  assumes F: "\<And>r. r_cancelled (F r) = r_cancelled r" and "strict \<longrightarrow> never_interrupts F"
  shows "cond_idle strict g \<Longrightarrow> safe (\<lambda>_ g. fst g = mtx_held ty 0) (cond_inv strict thr ty fl) (cond_kernel b) (t :: 't::finite)
      (\<lambda>_ g. cond_idle strict g) g
      (answers F (cond_user (thr t) (cw_pt_cell addr t) (cw_cond_cell a) (cw_mtx_cell b) calls))"
proof (induction calls arbitrary: g)
  case (Cons call calls)
  let ?safe = "safe (\<lambda>_ g. fst g = mtx_held ty 0) (cond_inv strict thr ty fl) (cond_kernel b) t"
  have lock: "?safe (\<lambda>_ g. uncounted strict (mtx_held ty 0) g) g (pthread_mutex_lock (thr t) (cw_mtx_cell b))"
    if "uncounted strict Out g" for g
    using that by (cases g) (auto simp: uncounted_def intro!: cw_lock_safe)
  have unlock: "?safe (\<lambda>_ g. uncounted strict Out g) g (pthread_mutex_unlock (thr t) (cw_mtx_cell b))"
    if "uncounted strict (mtx_held ty 0) g" for g
    using that by (cases g) (auto simp: uncounted_def intro!: cw_unlock_safe)
  have call: "?safe (\<lambda>_ g. uncounted strict (mtx_held ty 0) g) g (answers F (sys (Callback 0 0)))"
    if "uncounted strict (mtx_held ty 0) g" for g
    using that by (auto simp: sys_def uncounted_def intro!: safe_Sys_skip)
  show ?case
    using Cons.prems
    unfolding cond_user.simps with_cleanup_def answers_bind
    by (auto simp: answering bind_assoc split: unwinding.splits
        intro!: safe_bind [OF safe_answers [OF lock]] safe_bind [OF safe_answers [OF unlock]] safe_bind [OF call] 
          safe_bind [OF cond_call_safe [OF assms]] Cons.IH)
qed simp

text \<open>Mutex and condition variable at the start, and the run of the threads.\<close>

definition cond_start :: "pthread_condattr option \<Rightarrow> u32 \<Rightarrow> u32 \<Rightarrow> ('t \<Rightarrow> pthread) \<Rightarrow> 't cond_world" where
  "cond_start at ty fl pts = \<lparr>cw_cond = snd (pthread_cond_init at), cw_mtx = new_mutex ty fl, cw_pt = pts\<rparr>"

definition condattr_ok :: "pthread_condattr option \<Rightarrow> bool" where
  "condattr_ok at = (case at of None \<Rightarrow> True | Some at \<Rightarrow> ca_flags at AND GSYNC_MUTATE = 0)"

lemma cond_start_inv:
  assumes "plain_mutex ty fl (new_mutex ty fl)" and "distinct_ids thr" and "condattr_ok at"
    and "strict \<longrightarrow> card (UNIV :: 't set) < 2 ^ 32"
  shows "cond_inv strict thr ty fl (cond_start at ty fl pts) (\<lambda>_ :: 't::finite. (Out, False))"
proof -
  have "cv_flags (snd (pthread_cond_init at)) AND GSYNC_MUTATE = 0" "cv_seq_nw (snd (pthread_cond_init at)) = xint_of 0"
    using assms(3) by (auto simp: condattr_ok_def pthread_cond_init_def cond_dfl_attr_def split: option.splits)
  moreover have "mutex_inv thr ty fl (new_mutex ty fl) (\<lambda>_. Out)"
    using assms(1,2) by (simp only: mutex_inv_def) (simp add: new_mutex_def)
  ultimately show ?thesis
    using assms(4) by (simp add: cond_inv_def cond_ok_def cond_start_def comp_def xint_of_def)
qed

lemma cond_users_reach:
  fixes P :: "'t::finite \<Rightarrow> ('t cond_world, unit) prog"
  assumes "gsync_contract M (mtx_lock (cw_mtx_cell b))"
    and "\<And>r. r_cancelled (F r) = r_cancelled r" and "strict \<longrightarrow> never_interrupts F"
    and "strict \<longrightarrow> card (UNIV :: 't set) < 2 ^ 32"
    and "plain_mutex ty fl (new_mutex ty fl)" and "distinct_ids thr" and "condattr_ok at"
    and "reach M (cond_start at ty fl pts)
      (\<lambda>t. answers F (cond_user (thr t) (cw_pt_cell addr t) (cw_cond_cell a) (cw_mtx_cell b) (calls t))) s P"
  obtains G where "cond_inv strict thr ty fl s G" and "\<And>t. inside P t \<Longrightarrow> fst (G t) = mtx_held ty 0"
    and "\<And>t x. P t = Ret x \<Longrightarrow> cond_idle strict (G t)"
proof -
  have M: "M = cond_kernel b" using assms(1) by (simp add: gsync_contract_iff)
  let ?A = "\<lambda>_ g. fst g = mtx_held ty 0" and ?I = "cond_inv strict thr ty fl" and ?Q = "\<lambda>_ g. cond_idle strict g"
  have "\<exists>G. ?I s G \<and> (\<forall>t. safe ?A ?I (cond_kernel b) t ?Q (G t) (P t))"
  proof (rule safe_reach [where I = ?I and ?G0.0 = "\<lambda>_. (Out, False)" and A = "\<lambda>_. ?A" and Q = "\<lambda>_. ?Q",
        OF assms(8) [unfolded M] cond_start_inv [OF assms(5-7,4)]])
    fix t
    show "safe ?A ?I (cond_kernel b) t ?Q (Out, False)
      (answers F (cond_user (thr t) (cw_pt_cell addr t) (cw_cond_cell a) (cw_mtx_cell b) (calls t)))"
      by (rule cond_user_safe [OF assms(2,3)]) (simp_all add: uncounted_def)
  qed
  then obtain G where G: "?I s G" "\<And>t. safe ?A ?I (cond_kernel b) t ?Q (G t) (P t)" by blast
  have "fst (G t) = mtx_held ty 0" if "inside P t" for t
    using that G(2) [of t] by (auto simp: inside_def safe_Sys_iff)
  moreover have "cond_idle strict (G t)" if "P t = Ret x" for t x
    using G(2) [of t] by (simp add: that)
  ultimately show thesis using that G(1) by blast
qed

subsection \<open>Properties\<close>

text \<open>
  C2. Condition variables and mutexes together: any number of threads lock a mutex, wait on a condition variable with
  it, with or without a timeout, signal or broadcast, and unlock, interleaved arbitrarily, with
  a kernel that may answer anything and wake anybody at any time, and with cancellation in the waits, whose handlers lock the mutex
  again; never are two of them inside, before or after the call.
\<close>

theorem cond_exclusion:
  fixes P :: "'t::finite \<Rightarrow> ('t cond_world, unit) prog"
  assumes "gsync_contract M (mtx_lock (cw_mtx_cell b))"
    and "plain_mutex ty fl (new_mutex ty fl)" and "distinct_ids thr" and "condattr_ok at"
    and "reach M (cond_start at ty fl pts)
      (\<lambda>t. cond_user (thr t) (cw_pt_cell addr t) (cw_cond_cell a) (cw_mtx_cell b) (calls t)) s P"
    and "inside P t" and "t \<noteq> u"
  shows "\<not> inside P u"
proof -
  obtain G where G: "cond_inv False thr ty fl s G" "\<And>t. inside P t \<Longrightarrow> fst (G t) = mtx_held ty 0"
    by (rule cond_users_reach [where F = "\<lambda>r. r" and strict = False, unfolded answers_id, OF assms(1) _ _ _ assms(2-5)]) auto
  then have i: "mutex_inv thr ty fl (cw_mtx s) (fst \<circ> G)" by (simp add: cond_inv_def)
  have "mtx_held ty 0 \<noteq> Out" by (simp add: mtx_held_def)
  then show ?thesis using mutex_inv_holder(3) [OF i, of t "mtx_held ty 0" u] G(2) assms(6,7) by force
qed

text \<open>
  C16. Nothing is left behind: when the kernel does not report an interrupted wait, then once all threads are done, by
  returning or by cancellation in a wait, no waiter is counted, the condition variable can be destroyed and the mutex is
  free.
\<close>

theorem cond_restored:
  fixes P :: "'t::finite \<Rightarrow> ('t cond_world, unit) prog"
  assumes "gsync_contract M (mtx_lock (cw_mtx_cell b))"
    and "\<And>r. r_cancelled (F r) = r_cancelled r" and "never_interrupts F" and "card (UNIV :: 't set) < 2 ^ 32"
    and "plain_mutex ty fl (new_mutex ty fl)" and "distinct_ids thr" and "condattr_ok at"
    and "reach M (cond_start at ty fl pts)
      (\<lambda>t. answers F (cond_user (thr t) (cw_pt_cell addr t) (cw_cond_cell a) (cw_mtx_cell b) (calls t))) s P"
    and "\<And>t. \<exists>x. P t = Ret x"
  shows "exec M (pthread_cond_destroy (cw_cond_cell a)) rs s l = Some (OK, s, rs, l) \<and> m_lock (cw_mtx s) = 0"
proof -
  obtain G where G: "cond_inv True thr ty fl s G" "\<And>t x. P t = Ret x \<Longrightarrow> cond_idle True (G t)"
    by (rule cond_users_reach [where strict = True, OF assms(1,2) _ _ assms(5-8)]) (use assms(3,4) in auto)
  have "cond_idle True (G t)" for t using assms(9) [of t] G(2) by blast
  then have g: "fst (G t) = Out" "\<not> snd (G t)" for t by (simp_all add: uncounted_def)
  have "hi (cv_seq_nw (cw_cond s)) = 0"
    using G(1) g(2) by (simp add: cond_inv_def cond_ok_def unat_eq_0)
  moreover have "m_lock (cw_mtx s) = 0"
    using G(1) g(1) by (auto simp: cond_inv_def mutex_inv_def)
  ultimately show ?thesis by (simp add: pthread_cond_destroy_def runs)
qed

text \<open>Two threads; the first waits, the second signals.\<close>

definition cond_demo ::
  "(reply \<Rightarrow> reply) \<Rightarrow> (bool \<times> nat) list \<Rightarrow> bool cond_world \<times> (bool \<Rightarrow> (bool cond_world, unit) prog)" where
  "cond_demo F ts = sched (cond_kernel 96) (reply0\<lparr>r_cancelled := True\<rparr>) ts
     (cond_start None PTHREAD_MUTEX_NORMAL 0 (\<lambda>_. undefined\<lparr>pt_flags := 0\<rparr>))
     (\<lambda>t. answers F (cond_user (two_threads t) (cw_pt_cell (\<lambda>_. 4096) t) (cw_cond_cell 64) (cw_mtx_cell 96)
        [if t then Wait else Signal]))"

lemma cond_demo_reach:
  "reach (cond_kernel 96) (cond_start None 0 0 (\<lambda>_. undefined\<lparr>pt_flags := 0\<rparr>))
     (\<lambda>t. answers F (cond_user (two_threads t) (cw_pt_cell (\<lambda>_. 4096) t) (cw_cond_cell 64) (cw_mtx_cell 96)
        [if t then Wait else Signal]))
     (fst (cond_demo F ts)) (snd (cond_demo F ts))"
  unfolding cond_demo_def by (rule reach_sched) (rule surjective_pairing)

lemma cond_demo_ok:
  "plain_mutex 0 0 (new_mutex 0 0)" "distinct_ids two_threads" "condattr_ok None"
  by (auto simp: plain_mutex_def new_mutex_def distinct_ids_def two_threads_def inj_def condattr_ok_def)

lemmas cond_demo_eval = cond_demo_def cond_start_def new_mutex_def two_threads_def pthread_cond_init_def cond_dfl_attr_def
  xint_of_def code_defs atomic_defs loop_def Let_def blocking_def CANCELLED_ENABLED_ASYNC_P_def

lemma cond_exclusion_witness:
  "inside (snd (cond_demo (\<lambda>r. r) [(True, 20), (False, 5)])) False \<and>
    \<not> inside (snd (cond_demo (\<lambda>r. r) [(True, 20), (False, 5)])) True"
proof
  show i: "inside (snd (cond_demo (\<lambda>r. r) [(True, 20), (False, 5)])) False"
    by (simp add: cond_demo_eval inside_def cong: lazy_cong lazy_unwinding_cong lazy_answers_cong)
  show "\<not> inside (snd (cond_demo (\<lambda>r. r) [(True, 20), (False, 5)])) True"
    by (rule cond_exclusion [OF gsync_effect_contract cond_demo_ok cond_demo_reach [where F = "\<lambda>r. r", unfolded answers_id] i]) simp
qed

lemma cond_restored_witness:
  "m_lock (cw_mtx (fst (cond_demo (\<lambda>r. reply0\<lparr>r_cancelled := r_cancelled r\<rparr>) [(True, 20), (False, 60), (True, 60)]))) = 0"
  (is "m_lock (cw_mtx (fst (cond_demo ?F ?ts))) = 0")
proof -
  have "snd (cond_demo ?F ?ts) t = Ret ()" for t
    by (cases t) (simp_all add: cond_demo_eval cong: lazy_cong lazy_unwinding_cong lazy_answers_cong)
  then have "\<exists>x. snd (cond_demo ?F ?ts) t = Ret x" for t by blast
  then show ?thesis
    using cond_restored [OF gsync_effect_contract _ _ _ cond_demo_ok cond_demo_reach [of ?F]]
    by (simp add: never_interrupts_def)
qed

end
