(* ===== verification/CondRuns.thy ===== *)
theory CondRuns
  imports CondClients
begin

text \<open>
  What the functions of \<open>pthread/cond.c\<close> do when they run alone: whom a wakeup reaches, what a timed wait
  returns for each answer of the kernel, and what an interruption leaves behind.
\<close>

abbreviation requeue_call :: "u32 \<Rightarrow> u32 \<Rightarrow> bool \<Rightarrow> u32 \<Rightarrow> kcall" where
  "requeue_call src dst one flags \<equiv> SendMsg (gsync_requeue_request MachTaskSelf src dst one flags) 56"

text \<open>
  A wakeup always moves the sequence, and calls the kernel only when a waiter is counted: a signal wakes one of them; a
  broadcast moves all but one to the mutex that they saved, and wakes all of them when none is saved.
\<close>

theorem cond_wakeups:
  "(let s' = s\<lparr>cv_seq_nw := (cv_seq_nw s)\<lparr>lo := lo (cv_seq_nw s) + 1\<rparr>\<rparr>;
        flags = (cv_flags s AND GSYNC_SHARED) OR GSYNC_BROADCAST
    in exec (gsync_effect w) (pthread_cond_signal (whole a)) (r # rs) s l =
         (if hi (cv_seq_nw s) = 0 then Some (OK, s', r # rs, l)
          else Some (OK, s', rs, l @ [wake_call a 0 (cv_flags s AND GSYNC_SHARED)])) \<and>
       exec (gsync_effect w) (pthread_cond_broadcast mtx_at (whole a)) (r # rs) s l =
         (if hi (cv_seq_nw s) = 0 then Some (OK, s', r # rs, l)
          else if cv_mutex s = 0 then Some (OK, s', rs, l @ [wake_call a 0 flags])
          else Some (OK, s', rs, l @ [requeue_call a (c_addr (mtx_lock (mtx_at (cv_mutex s)))) True flags])))"
proof -
  have m: "((cv_flags s AND 1) OR 8) AND 16 = 0"
    using and_disjoint_or [of 8 16 "cv_flags s AND 1"] by simp
  show ?thesis
    by (simp add: pthread_cond_signal_def pthread_cond_broadcast_def atomic_addx_lo_def Let_def runs m word_neq_0_conv
        lll_requeue_def gsync_requeue_def sys_def gsync_effect_def)
qed

text \<open>A condition variable that is not shared, on \<open>CLOCK_REALTIME\<close>, and its mutex of the default type with the given lock word.\<close>

definition cond_at :: "u32 \<Rightarrow> u32 \<Rightarrow> u32 \<Rightarrow> u32 \<Rightarrow> ('t \<Rightarrow> pthread) \<Rightarrow> 't cond_world" where
  "cond_at q n m w pts = \<lparr>cw_cond = \<lparr>cv_seq_nw = \<lparr>lo = q, hi = n\<rparr>, cv_mutex = m, cv_flags = 0\<rparr>,
    cw_mtx = (new_mutex PTHREAD_MUTEX_NORMAL 0)\<lparr>m_lock := w\<rparr>, cw_pt = pts\<rparr>"

text \<open>
  C37. A timed wait by the holder of the mutex: it releases the mutex, counts itself, and asks the kernel to sleep only while the
  sequence is still the one of that moment; the mutex is its own again afterwards. Only \<open>KERN_SUCCESS\<close> and
  \<open>KERN_TIMEDOUT\<close> become POSIX results: every other code of the kernel, among them that of a sequence that has moved, is
  returned as it is. After \<open>KERN_INTERRUPTED\<close> the thread stays counted.
\<close>

theorem cond_timedwait_codes:
  assumes "pt_flags (pts t) = 0" and "\<not> bad_nsec ts" and "0 \<le> reltime ts now"
  shows "let r = reply0\<lparr>r_now := now, r_retcode := code\<rparr> in
    exec (cond_kernel b) (pthread_cond_timedwait self (cw_pt_cell addr t) (cw_cond_cell a) (cw_mtx_cell b) ts)
      [r, r, r, r] (cond_at q n m 1 pts) [] = Some (
    Value (if code = 0 then OK else if code = KERN_TIMEDOUT then Err ETIMEDOUT else Code code),
    cond_at q (if code = KERN_INTERRUPTED then n + 1 else n) (if m = 0 then b else m) 2
      (pts(t := (pts t)\<lparr>pt_sig := (pt_sig (pts t))\<lparr>ss_intr_port := MACH_PORT_DEAD\<rparr>\<rparr>)), [],
    [ClockGettime CLOCK_REALTIME, MigGetReplyPort,
     IntrRpc (gsync_wait_request MachTaskSelf (MachPort 1) a q 0 (word_of_int (reltime ts now)) GSYNC_TIMED) 64 32,
     MigPutReplyPort (MachPort 1)])"
proof -
  have c: "cond_clock 0 = 0" by (simp add: cond_clock_def)
  have pt: "(pts t)\<lparr>pt_sig := x, pt_flags := 0\<rparr> = (pts t)\<lparr>pt_sig := x\<rparr>" for x
    using assms(1) by (cases "pts t") simp
  show ?thesis
    using assms
    by (simp add: code_defs atomic_defs loop_def Let_def cond_at_def new_mutex_def c pt CANCELLED_ENABLED_ASYNC_P_def
        cong: lazy_cong lazy_unwinding_cong)
qed

lemma cond_timedwait_codes_witness:
  "exec (cond_kernel 96) (pthread_cond_timedwait (two_threads True) (cw_pt_cell (\<lambda>_. 4096) True) (cw_cond_cell 64) (cw_mtx_cell 96)
      \<lparr>tv_sec = 5, tv_nsec = 0\<rparr>) (let r = reply0\<lparr>r_retcode := 28\<rparr> in [r, r, r, r]) (cond_at 3 0 96 1 (\<lambda>_. undefined\<lparr>pt_flags := 0\<rparr>)) [] \<noteq> None"
  using cond_timedwait_codes [of "\<lambda>_. undefined\<lparr>pt_flags := 0\<rparr>" True "\<lparr>tv_sec = 5, tv_nsec = 0\<rparr>" "\<lparr>tv_sec = 0, tv_nsec = 0\<rparr>"
      28 96 "two_threads True" "\<lambda>_. 4096" 64 3 0 96]
  by (simp add: bad_nsec_def reltime_def Let_def reply0_def)

text \<open>
  The variant that the Hurd's cancellation interrupts loses the timeout: it answers what the relocking of the mutex answers,
  for every code of the kernel.
\<close>

lemma hurd_cond_timedwait_code:
  assumes "\<not> bad_nsec ts" and "0 \<le> reltime ts now" and "c_get (hs_cancel stp) = (\<lambda>_. 0)" and "c_put (hs_hook stp) = (\<lambda>_ s. s)"
  shows "let r = reply0\<lparr>r_now := now, r_retcode := code\<rparr> in
    \<exists>l. exec (cond_kernel b) (pthread_hurd_cond_timedwait_np self stp (cw_cond_cell a) (cw_mtx_cell b) ts)
      [r, r, r, r, r, r, r, r] (cond_at q n m 1 pts) [] = Some (
    OK, cond_at q (if code = KERN_INTERRUPTED then n + 1 else n) (if m = 0 then b else m) 2 pts, [], l)"
    using assms
    by (simp add: code_defs atomic_defs loop_def Let_def cond_at_def new_mutex_def cong: lazy_cong lazy_unwinding_cong)

subsection \<open>Attributes\<close>

lemma bit_cond_masks:
  "bit (16 :: int) n \<longleftrightarrow> n = 4" "bit (65535 :: int) n \<longleftrightarrow> n < 16" 
proof -
  have "(16 :: int) = 2 ^ 4" "(65535 :: int) = mask 16" by (simp_all add: mask_eq_exp_minus_1)
  then show "bit (16 :: int) n \<longleftrightarrow> n = 4" "bit (65535 :: int) n \<longleftrightarrow> n < 16"
    by (simp_all only: bit_exp_iff bit_mask_iff) auto
qed

lemma cond_clock_set:
  assumes "c = CLOCK_REALTIME \<or> c = CLOCK_MONOTONIC"
  shows "cond_clock (push_bit COND_CLK_SHIFT (word_of_int c) OR (f AND COND_CLK_MASK)) = c"
proof -
  have "signed_drop_bit 16 (push_bit 16 (word_of_int c) OR (f AND 65535)) = (word_of_int c :: u32)"
    by (rule bit_word_eqI) (use assms in \<open>auto simp: bit_simps bit_cond_masks\<close>)
  moreover have "cond_clock x = sint (signed_drop_bit 16 x)" for x
    by (simp add: cond_clock_def sint_signed_drop_bit_eq drop_bit_eq_div)
  ultimately show ?thesis using assms by auto
qed

lemma condattr_bits:
  "(f AND NOT 1 OR 0) AND 16 = f AND (16 :: u32)" "(f AND NOT 1 OR 1) AND 16 = f AND (16 :: u32)"
  "(push_bit 16 x OR (f AND 65535)) AND 16 = f AND (16 :: u32)"
  "(push_bit 16 x OR (f AND 65535)) AND 1 = f AND (1 :: u32)"
  by (rule bit_word_eqI; auto simp: bit_simps bit_cond_masks)+

lemma condattr_ok_set:
  "condattr_ok (Some (snd (pthread_condattr_init at)))"
  "condattr_ok (Some at) \<Longrightarrow> condattr_ok (Some (snd (pthread_condattr_setpshared at p)))"
  "condattr_ok (Some at) \<Longrightarrow> condattr_ok (Some (snd (pthread_condattr_setclock at c)))"
  using condattr_bits
  by (simp_all add: condattr_ok_def pthread_condattr_init_def cond_dfl_attr_def pthread_condattr_setpshared_def
    pthread_condattr_setclock_def)

text \<open>
  What is set in the attributes is what is read back, for the clock as for the sharing, and setting the clock keeps the
  sharing.
\<close>

theorem condattr_roundtrip:
  assumes "fst (pthread_condattr_setclock at clk) = OK" and "fst (pthread_condattr_setpshared at p) = OK"
  shows "pthread_condattr_getclock (snd (pthread_condattr_setclock at clk)) = (OK, clk) \<and>
    pthread_condattr_getpshared (snd (pthread_condattr_setpshared at p)) = (OK, p) \<and>
    pthread_condattr_getpshared (snd (pthread_condattr_setclock at clk)) = pthread_condattr_getpshared at"
  using assms cond_clock_set [of clk "ca_flags at"] condattr_bits(4)
  by (auto simp: pthread_condattr_setclock_def pthread_condattr_setpshared_def pthread_condattr_getclock_def
     pthread_condattr_getpshared_def split: if_splits)
lemma condattr_roundtrip_witness:
  "pthread_condattr_getclock (snd (pthread_condattr_setclock cond_dfl_attr CLOCK_MONOTONIC)) = (OK, CLOCK_MONOTONIC)"
  using condattr_roundtrip [of cond_dfl_attr CLOCK_MONOTONIC PTHREAD_PROCESS_SHARED]
  by (simp add: pthread_condattr_setclock_def pthread_condattr_setpshared_def)

end
