(* ===== verification/Specific.thy ===== *)
theory Specific
  imports Thread
begin

text \<open>
  \<open>pthread/specific.c\<close>: keys and thread-specific data. The global table \<open>__pthread_keys\<close> has a
  sequence number and a destructor for every key; a number is odd while the key is in use. A thread
  keeps its values in blocks of 16 entries, each with the value and the key's number when it was
  set. The first block of a created thread is part of its descriptor, the others are allocated.
\<close>

abbreviation (input) PTHREAD_KEYS_MAX :: nat where "PTHREAD_KEYS_MAX \<equiv> 512"
abbreviation (input) PTHREAD_KEY_L2_SIZE :: nat where "PTHREAD_KEY_L2_SIZE \<equiv> 16"
abbreviation (input) PTHREAD_KEY_L1_SIZE :: nat where "PTHREAD_KEY_L1_SIZE \<equiv> 32"
abbreviation (input) PTHREAD_DESTRUCTION_ITERATIONS :: nat where "PTHREAD_DESTRUCTION_ITERATIONS \<equiv> 4"

text \<open>The union member is \<open>kd_ptr\<close>: a value in a thread's block, a destructor in the table.\<close>

record pthread_key_data =
  kd_seq :: u32
  kd_ptr :: u32

definition key_seq :: "('s, pthread_key_data) cell \<Rightarrow> ('s, u32) cell" where
  [code_defs]: "key_seq = field 0 kd_seq kd_seq_update"

definition key_ptr :: "('s, pthread_key_data) cell \<Rightarrow> ('s, u32) cell" where
  [code_defs]: "key_ptr = field 4 kd_ptr kd_ptr_update"

lemma key_sel [simp]:
  "c_get (key_seq c) s = kd_seq (c_get c s)"
  "c_put (key_seq c) v s = c_put c ((c_get c s)\<lparr>kd_seq := v\<rparr>) s"
  "c_get (key_ptr c) s = kd_ptr (c_get c s)"
  "c_put (key_ptr c) v s = c_put c ((c_get c s)\<lparr>kd_ptr := v\<rparr>) s"
  by (simp_all add: key_seq_def key_ptr_def comp_def)

lemma key_data_both [simp]: "x\<lparr>kd_seq := q, kd_ptr := v\<rparr> = \<lparr>kd_seq = q, kd_ptr = v\<rparr>"
  by (cases x) simp

text \<open>
  What the functions reach: the table, the memory of entries by their addresses, and of the running
  thread's descriptor the block that is part of it, the array of blocks and the flag.
\<close>

record 's tsd =
  td_keys :: "nat \<Rightarrow> ('s, pthread_key_data) cell"
  td_entry :: "u32 \<Rightarrow> ('s, pthread_key_data) cell"
  td_blk1 :: u32
  td_specific :: "nat \<Rightarrow> ('s, u32) cell"
  td_used :: "('s, u32) cell"

definition unused_p :: "u32 \<Rightarrow> bool" where
  "unused_p seq \<longleftrightarrow> even seq"

subsection \<open>Keys\<close>

text \<open>The result and what is stored through \<open>keyp\<close>.\<close>

definition pthread_key_create :: "'s tsd \<Rightarrow> u32 \<Rightarrow> ('s, ret \<times> nat) prog" where
  [code_defs]: "pthread_key_create m destr = loop (\<lambda>i.
     if \<not> i < PTHREAD_KEYS_MAX then leave (Err EAGAIN, 0)
     else
       bind (load (key_seq (td_keys m i))) (\<lambda>seq.
       if unused_p seq then
         bind (atomic_cas_bool (key_seq (td_keys m i)) seq (seq + 1)) (\<lambda>ok.
         if ok then bind (store (key_ptr (td_keys m i)) destr) (\<lambda>_. leave (OK, i))
         else again (i + 1))
       else again (i + 1))) 0"

definition pthread_key_delete :: "'s tsd \<Rightarrow> u32 \<Rightarrow> ('s, ret) prog" where
  [code_defs]: "pthread_key_delete m key =
    (if unat key \<ge> PTHREAD_KEYS_MAX then Ret (Err EINVAL)
     else
       bind (load (key_seq (td_keys m (unat key)))) (\<lambda>seq.
       if unused_p seq then Ret (Err EINVAL)
       else bind (atomic_add (key_seq (td_keys m (unat key))) 1) (\<lambda>_. Ret OK)))"

subsection \<open>Values\<close>

definition l2_entry :: "u32 \<Rightarrow> nat \<Rightarrow> u32" where
  "l2_entry lp i = lp + 8 * of_nat i"

definition pthread_getspecific :: "'s tsd \<Rightarrow> u32 \<Rightarrow> ('s, u32) prog" where
  [code_defs]: "pthread_getspecific m key =
    (if unat key \<ge> PTHREAD_KEYS_MAX then Ret 0
     else
       let idx = unat key div PTHREAD_KEY_L2_SIZE in
       bind (load (td_specific m idx)) (\<lambda>lp.
       if lp = 0 then Ret 0
       else
         let lp = td_entry m (l2_entry lp (unat key mod PTHREAD_KEY_L2_SIZE)) in
         bind (load (key_ptr lp)) (\<lambda>retp.
         if retp \<noteq> 0 then
           bind (load (key_seq lp)) (\<lambda>seq.
           bind (load (key_seq (td_keys m (unat key)))) (\<lambda>kseq.
           if seq \<noteq> kseq then bind (store (key_ptr lp) 0) (\<lambda>_. Ret 0) else Ret retp))
         else Ret retp)))"

text \<open>\<open>calloc\<close> answers the address of a zeroed block, or 0.\<close>

definition zero_block :: "'s tsd \<Rightarrow> u32 \<Rightarrow> 's \<Rightarrow> 's" where
  "zero_block m lp s = fold (\<lambda>i. c_put (td_entry m (l2_entry lp i)) \<lparr>kd_seq = 0, kd_ptr = 0\<rparr>)
     [0..<PTHREAD_KEY_L2_SIZE] s"

definition calloc_block :: "'s tsd \<Rightarrow> ('s, u32) prog" where
  [code_defs]: "calloc_block m =
    bind (sys (Lib ''calloc'' [Word 16, Word 8])) (\<lambda>r.
    if r_val r = 0 then Ret 0 else Act (zero_block m (r_val r)) (\<lambda>_. Ret (r_val r)))"

definition set_entry :: "'s tsd \<Rightarrow> u32 \<Rightarrow> nat \<Rightarrow> u32 \<Rightarrow> u32 \<Rightarrow> ('s, ret) prog" where
  [code_defs]: "set_entry m lp i seq valp =
    (let lp = td_entry m (l2_entry lp i) in
     bind (store (key_seq lp) seq) (\<lambda>_.
     bind (store (key_ptr lp) valp) (\<lambda>_.
     if valp \<noteq> 0 then bind (store (td_used m) 1) (\<lambda>_. Ret OK) else Ret OK)))"

definition pthread_setspecific :: "'s tsd \<Rightarrow> u32 \<Rightarrow> u32 \<Rightarrow> ('s, ret) prog" where
  [code_defs]: "pthread_setspecific m key valp =
    (if unat key \<ge> PTHREAD_KEYS_MAX then Ret (Err EINVAL)
     else
       bind (load (key_seq (td_keys m (unat key)))) (\<lambda>seq.
       if unused_p seq then Ret (Err EINVAL)
       else
         let idx = unat key div PTHREAD_KEY_L2_SIZE; i = unat key mod PTHREAD_KEY_L2_SIZE in
         bind (load (td_specific m idx)) (\<lambda>lp.
         if lp = 0 then
           (if valp = 0 then Ret OK
            else bind (calloc_block m) (\<lambda>lp.
              if lp = 0 then Ret (Err ENOMEM)
              else bind (store (td_specific m idx) lp) (\<lambda>_. set_entry m lp i seq valp)))
         else set_entry m lp i seq valp)))"

subsection \<open>The end of a thread\<close>

text \<open>One entry; the key's slot of the table is \<open>q\<close>.\<close>

definition dealloc_entry :: "'s tsd \<Rightarrow> ('s, pthread_key_data) cell \<Rightarrow> nat \<Rightarrow> ('s, unit) prog" where
  [code_defs]: "dealloc_entry m lp q =
    bind (load (key_ptr lp)) (\<lambda>dp.
    if dp = 0 then Ret ()
    else
      bind (store (key_ptr lp) 0) (\<lambda>_.
      bind (load (key_seq lp)) (\<lambda>seq.
      bind (load (key_seq (td_keys m q))) (\<lambda>kseq.
      if seq = kseq then
        bind (load (key_ptr (td_keys m q))) (\<lambda>destr.
        if destr \<noteq> 0 then
          bind (load (key_ptr (td_keys m q))) (\<lambda>destr.
          bind (sys (Callback destr dp)) (\<lambda>_. Ret ()))
        else Ret ())
      else Ret ()))))"

text \<open>One block: \<open>q\<close> counts along, and the result is its value after the block.\<close>

definition dealloc_block :: "'s tsd \<Rightarrow> u32 \<Rightarrow> nat \<Rightarrow> ('s, nat) prog" where
  [code_defs]: "dealloc_block m l2 q = loop (\<lambda>(inner, q).
     if \<not> inner < PTHREAD_KEY_L2_SIZE then leave q
     else bind (dealloc_entry m (td_entry m (l2_entry l2 inner)) q) (\<lambda>_.
       again (inner + 1, q + 1))) (0, q)"

text \<open>One pass over all blocks.\<close>

definition dealloc_pass :: "'s tsd \<Rightarrow> ('s, unit) prog" where
  [code_defs]: "dealloc_pass m = loop (\<lambda>(q, cnt).
     if \<not> cnt < PTHREAD_KEY_L1_SIZE then leave ()
     else
       bind (load (td_specific m cnt)) (\<lambda>l2.
       if l2 = 0 then again (q + PTHREAD_KEY_L1_SIZE, cnt + 1)
       else bind (dealloc_block m l2 q) (\<lambda>q. again (q, cnt + 1)))) (0, 0)"

definition free_blocks :: "'s tsd \<Rightarrow> ('s, unit) prog" where
  [code_defs]: "free_blocks m = loop (\<lambda>cnt.
     if \<not> cnt < PTHREAD_KEY_L1_SIZE then leave ()
     else
       bind (load (td_specific m cnt)) (\<lambda>l2.
       bind (sys (Lib ''free'' [Word l2])) (\<lambda>_.
       bind (store (td_specific m cnt) 0) (\<lambda>_. again (cnt + 1))))) 1"

definition dealloc_tsd :: "'s tsd \<Rightarrow> ('s, unit) prog" where
  [code_defs]: "dealloc_tsd m =
    bind (load (td_used m)) (\<lambda>used.
    if used = 0 then Ret ()
    else
      bind (loop (\<lambda>iters.
        bind (store (td_used m) 0) (\<lambda>_.
        bind (dealloc_pass m) (\<lambda>_.
        bind (load (td_used m)) (\<lambda>used.
        if used = 0 then leave ()
        else if iters + 1 < PTHREAD_DESTRUCTION_ITERATIONS then again (iters + 1)
        else leave ())))) 0) (\<lambda>_.
      bind (Act (zero_block m (td_blk1 m)) (\<lambda>_. Ret ())) (\<lambda>_.
      bind (free_blocks m) (\<lambda>_. store (td_used m) 0))))"

subsection \<open>The world of one thread and the table\<close>

record tsd_world =
  tw_keys :: "nat \<Rightarrow> pthread_key_data"
  tw_entry :: "u32 \<Rightarrow> pthread_key_data"
  tw_specific :: "nat \<Rightarrow> u32"
  tw_used :: u32

definition tsd_of :: "u32 \<Rightarrow> tsd_world tsd" where
  "tsd_of self = \<lparr>
    td_keys = (\<lambda>i. \<lparr>c_addr = 8 * of_nat i, c_get = (\<lambda>s. tw_keys s i),
      c_put = (\<lambda>v s. s\<lparr>tw_keys := (tw_keys s)(i := v)\<rparr>)\<rparr>),
    td_entry = (\<lambda>a. \<lparr>c_addr = a, c_get = (\<lambda>s. tw_entry s a),
      c_put = (\<lambda>v s. s\<lparr>tw_entry := (tw_entry s)(a := v)\<rparr>)\<rparr>),
    td_blk1 = self + 24,
    td_specific = (\<lambda>i. \<lparr>c_addr = self + 152 + 4 * of_nat i, c_get = (\<lambda>s. tw_specific s i),
      c_put = (\<lambda>v s. s\<lparr>tw_specific := (tw_specific s)(i := v)\<rparr>)\<rparr>),
    td_used = \<lparr>c_addr = self + 280, c_get = tw_used, c_put = (\<lambda>v s. s\<lparr>tw_used := v\<rparr>)\<rparr>\<rparr>"

lemma tsd_of_sel [simp]:
  "c_get (td_keys (tsd_of self) i) s = tw_keys s i"
  "c_put (td_keys (tsd_of self) i) v s = s\<lparr>tw_keys := (tw_keys s)(i := v)\<rparr>"
  "c_get (td_entry (tsd_of self) a) s = tw_entry s a"
  "c_put (td_entry (tsd_of self) a) v s = s\<lparr>tw_entry := (tw_entry s)(a := v)\<rparr>"
  "td_blk1 (tsd_of self) = self + 24"
  "c_get (td_specific (tsd_of self) i) s = tw_specific s i"
  "c_put (td_specific (tsd_of self) i) w s = s\<lparr>tw_specific := (tw_specific s)(i := w)\<rparr>"
  "c_get (td_used (tsd_of self)) s = tw_used s"
  "c_put (td_used (tsd_of self)) w s = s\<lparr>tw_used := w\<rparr>"
  by (simp_all add: tsd_of_def)

interpretation tsd_keys: mem_cell "td_keys (tsd_of self) i" for self i
  by unfold_locales simp_all

interpretation tsd_entry: mem_cell "td_entry (tsd_of self) a" for self a
  by unfold_locales simp_all

interpretation tsd_specific: mem_cell "td_specific (tsd_of self) i" for self i
  by unfold_locales simp_all


subsection \<open>A thread's values as a map\<close>

definition tsd_addr :: "(nat \<Rightarrow> u32) \<Rightarrow> nat \<Rightarrow> u32" where
  "tsd_addr sp k = l2_entry (sp (k div PTHREAD_KEY_L2_SIZE)) (k mod PTHREAD_KEY_L2_SIZE)"

abbreviation has_block :: "(nat \<Rightarrow> u32) \<Rightarrow> nat \<Rightarrow> bool" where
  "has_block sp k \<equiv> sp (k div PTHREAD_KEY_L2_SIZE) \<noteq> 0"

definition tsd_value :: "tsd_world \<Rightarrow> nat \<Rightarrow> u32" where
  "tsd_value s k =
    (let e = tw_entry s (tsd_addr (tw_specific s) k) in
     if has_block (tw_specific s) k \<and> kd_seq e = kd_seq (tw_keys s k) then kd_ptr e else 0)"

definition blocks_ok :: "(nat \<Rightarrow> u32) \<Rightarrow> bool" where
  "blocks_ok sp \<longleftrightarrow> (\<forall>k < PTHREAD_KEYS_MAX. \<forall>j < PTHREAD_KEYS_MAX.
     has_block sp k \<longrightarrow> has_block sp j \<longrightarrow> tsd_addr sp k = tsd_addr sp j \<longrightarrow> k = j)"

definition fresh_block :: "(nat \<Rightarrow> u32) \<Rightarrow> u32 \<Rightarrow> bool" where
  "fresh_block sp a \<longleftrightarrow> (\<forall>k < PTHREAD_KEYS_MAX. \<forall>i < PTHREAD_KEY_L2_SIZE.
     has_block sp k \<longrightarrow> tsd_addr sp k \<noteq> l2_entry a i)"

lemma l2_entry_inj:
  assumes "i < 16" and "j < 16" and "l2_entry a i = l2_entry a j"
  shows "i = j"
proof -
  have "(8 * of_nat i :: u32) = 8 * of_nat j" using assms(3) by (simp add: l2_entry_def)
  then have "(of_nat (8 * i) :: u32) = of_nat (8 * j)" by simp
  then have "take_bit 32 (8 * i) = take_bit 32 (8 * j)"
    unfolding word_of_nat_eq_iff by simp
  moreover have "8 * i < 2 ^ 32" "8 * j < 2 ^ 32" using assms(1,2) by simp_all
  ultimately show ?thesis by (simp add: take_bit_nat_eq_self del: power_numeral)
qed

lemma same_block:
  assumes "k div 16 = j div (16 :: nat)" and "tsd_addr sp k = tsd_addr sp j"
  shows "k = j"
proof -
  have "k mod 16 = j mod 16"
    using assms by (intro l2_entry_inj [where a = "sp (j div 16)"]) (simp_all add: tsd_addr_def)
  with assms(1) show ?thesis by (metis div_mult_mod_eq)
qed

lemma blocks_ok_insert:
  assumes "blocks_ok sp" and "fresh_block sp a" and "k < 512"
  shows "blocks_ok (sp(k div 16 := a))"
  unfolding blocks_ok_def
proof (intro allI impI)
  fix i j :: nat
  assume *: "i < 512" "j < 512" "has_block (sp(k div 16 := a)) i" "has_block (sp(k div 16 := a)) j"
    "tsd_addr (sp(k div 16 := a)) i = tsd_addr (sp(k div 16 := a)) j"
  have f: "tsd_addr sp x \<noteq> l2_entry a (y mod 16)" if "x < 512" "has_block sp x" for x y
    using assms(2) that by (simp add: fresh_block_def)
  show "i = j"
  proof (cases "i div 16 = j div 16")
    case True
    then show ?thesis using *(5) by (rule same_block)
  next
    case False
    with * f [of i j] f [of j i] assms(1) show ?thesis
      unfolding blocks_ok_def by (fastforce simp: tsd_addr_def split: if_splits)
  qed
qed

lemma zero_block_sel [simp]:
  "tw_keys (zero_block (tsd_of self) lp s) = tw_keys s"
  "tw_specific (zero_block (tsd_of self) lp s) = tw_specific s"
  "tw_used (zero_block (tsd_of self) lp s) = tw_used s"
  "tw_entry (zero_block (tsd_of self) lp s) a =
    (if \<exists>i < 16. a = l2_entry lp i then \<lparr>kd_seq = 0, kd_ptr = 0\<rparr> else tw_entry s a)"
proof -
  have *: "tw_keys (fold f is s) = tw_keys s \<and> tw_specific (fold f is s) = tw_specific s \<and>
      tw_used (fold f is s) = tw_used s \<and>
      tw_entry (fold f is s) a = (if \<exists>i \<in> set is. a = l2_entry lp i then \<lparr>kd_seq = 0, kd_ptr = 0\<rparr> else tw_entry s a)"
    if "f = (\<lambda>i. c_put (td_entry (tsd_of self) (l2_entry lp i)) \<lparr>kd_seq = 0, kd_ptr = 0\<rparr>)" for f "is"
    using that by (induction "is" arbitrary: s) (auto split: if_splits)
  show "tw_keys (zero_block (tsd_of self) lp s) = tw_keys s"
    "tw_specific (zero_block (tsd_of self) lp s) = tw_specific s"
    "tw_used (zero_block (tsd_of self) lp s) = tw_used s"
    "tw_entry (zero_block (tsd_of self) lp s) a =
      (if \<exists>i < 16. a = l2_entry lp i then \<lparr>kd_seq = 0, kd_ptr = 0\<rparr> else tw_entry s a)"
    using * [OF refl, of "[0..<16]"] unfolding zero_block_def set_upt by (simp_all add: Bex_def)
qed

lemma tsd_value_zero_block:
  assumes "fresh_block (tw_specific s) a" and "k < 512"
  shows "tsd_value (zero_block (tsd_of self) a s) k = tsd_value s k"
  using assms unfolding fresh_block_def by (auto simp: tsd_value_def Let_def)

lemma tsd_value_new_block:
  assumes "fresh_block (tw_specific s) a" and "k < 512" and "j < 512" and "\<not> has_block (tw_specific s) k"
  shows "tsd_value ((zero_block (tsd_of self) a s)\<lparr>tw_specific := (tw_specific s)(k div 16 := a)\<rparr>) j
    = tsd_value s j"
proof (cases "j div 16 = k div 16")
  case True
  moreover have "\<exists>i < 16. l2_entry a (j mod 16) = l2_entry a i" by (rule exI [of _ "j mod 16"]) simp
  ultimately show ?thesis using assms(4) by (simp add: tsd_value_def Let_def tsd_addr_def)
next
  case False
  with assms show ?thesis
    unfolding fresh_block_def by (auto simp: tsd_value_def Let_def tsd_addr_def)
qed

lemma tsd_value_set_entry:
  assumes "blocks_ok (tw_specific s)" and "k < 512" and "j < 512" and "has_block (tw_specific s) k"
  shows "tsd_value (s\<lparr>tw_entry := (tw_entry s)(tsd_addr (tw_specific s) k :=
      \<lparr>kd_seq = kd_seq (tw_keys s k), kd_ptr = v\<rparr>)\<rparr>) j = (if j = k then v else tsd_value s j)"
  using assms unfolding blocks_ok_def by (auto simp: tsd_value_def Let_def)

lemma tsd_value_used [simp]: "tsd_value (s\<lparr>tw_used := u\<rparr>) k = tsd_value s k"
  by (simp add: tsd_value_def)


subsection \<open>The operations alone\<close>

abbreviation quiet :: "'s keff" where
  "quiet \<equiv> \<lambda>_ s. s"

text \<open>
  C33. \<open>pthread_setspecific\<close> implements the update of a map from keys to values: it refuses keys that are
  not in use; it fails without a change when a block is needed and there is no memory for one;
  otherwise it stores the value under the key and changes no other key's value.
\<close>

theorem pthread_setspecific_refines:
  assumes "blocks_ok (tw_specific s)" and "r_val r \<noteq> 0 \<Longrightarrow> fresh_block (tw_specific s) (r_val r)"
  shows "\<exists>ret s' rs' l'. exec quiet (pthread_setspecific (tsd_of self) key v) (r # rs) s l = Some (ret, s', rs', l') \<and>
    blocks_ok (tw_specific s') \<and> tw_keys s' = tw_keys s \<and>
    ret = (if unat key \<ge> PTHREAD_KEYS_MAX \<or> unused_p (kd_seq (tw_keys s (unat key))) then Err EINVAL
           else if \<not> has_block (tw_specific s) (unat key) \<and> v \<noteq> 0 \<and> r_val r = 0 then Err ENOMEM
           else OK) \<and>
    (\<forall>j < PTHREAD_KEYS_MAX. tsd_value s' j = (if ret = OK \<and> j = unat key then v else tsd_value s j))"
proof -
  let ?k = "unat key" and ?sp = "tw_specific s" and ?seq = "kd_seq (tw_keys s (unat key))"
  consider (bad) "?k \<ge> 512 \<or> unused_p ?seq"
    | (null) "?k < 512" "\<not> unused_p ?seq" "\<not> has_block ?sp ?k" "v = 0"
    | (nomem) "?k < 512" "\<not> unused_p ?seq" "\<not> has_block ?sp ?k" "v \<noteq> 0" "r_val r = 0"
    | (new) "?k < 512" "\<not> unused_p ?seq" "\<not> has_block ?sp ?k" "v \<noteq> 0" "r_val r \<noteq> 0"
    | (old) "?k < 512" "\<not> unused_p ?seq" "has_block ?sp ?k"
    by fastforce
  then show ?thesis
  proof cases
    case new
    let ?z = "(zero_block (tsd_of self) (r_val r) s)\<lparr>tw_specific := ?sp(?k div 16 := r_val r)\<rparr>"
    let ?s = "?z\<lparr>tw_entry := (tw_entry ?z)(tsd_addr (tw_specific ?z) ?k := \<lparr>kd_seq = ?seq, kd_ptr = v\<rparr>), tw_used := 1\<rparr>"
    have b: "blocks_ok (tw_specific ?z)" using assms new by (simp add: blocks_ok_insert)
    have "tsd_value ?s j = (if j = ?k then v else tsd_value s j)" if "j < 512" for j
      using tsd_value_set_entry [OF b new(1) that, of v] tsd_value_new_block [OF assms(2) [OF new(5)] new(1) that new(3)] new
      by simp
    with b new show ?thesis
      by (simp add: pthread_setspecific_def calloc_block_def set_entry_def runs sys_def Let_def tsd_addr_def
          del: zero_block_sel(4))
  next
    case old
    let ?t = "s\<lparr>tw_entry := (tw_entry s)(tsd_addr ?sp ?k := \<lparr>kd_seq = ?seq, kd_ptr = v\<rparr>)\<rparr>"
    have "tsd_value ?t j = (if j = ?k then v else tsd_value s j)" if "j < 512" for j
      using tsd_value_set_entry [OF assms(1) old(1) that old(3)] .
    with old assms(1) show ?thesis
      by (cases "v = 0") (simp_all add: pthread_setspecific_def set_entry_def runs Let_def tsd_addr_def)
  qed (use assms(1) in \<open>simp_all add: pthread_setspecific_def calloc_block_def runs sys_def Let_def, auto simp: runs tsd_value_def Let_def\<close>)
qed

theorem pthread_getspecific_run:
  assumes "blocks_ok (tw_specific s)" and "unat key < PTHREAD_KEYS_MAX"
  shows "\<exists>s'. exec M (pthread_getspecific (tsd_of self) key) rs s l = Some (tsd_value s (unat key), s', rs, l) \<and>
    tw_keys s' = tw_keys s \<and> tw_specific s' = tw_specific s \<and>
    (\<forall>j < PTHREAD_KEYS_MAX. tsd_value s' j = tsd_value s j)"
proof -
  let ?k = "unat key" and ?sp = "tw_specific s"
  let ?a = "tsd_addr ?sp ?k"
  have "tsd_value (s\<lparr>tw_entry := (tw_entry s)(?a := (tw_entry s ?a)\<lparr>kd_ptr := 0\<rparr>)\<rparr>) j = tsd_value s j"
    if "j < 512" "has_block ?sp ?k" "kd_seq (tw_entry s ?a) \<noteq> kd_seq (tw_keys s ?k)" for j
    using assms that unfolding blocks_ok_def by (auto simp: tsd_value_def Let_def)
  moreover have "tsd_value s ?k =
      (if has_block ?sp ?k \<and> kd_seq (tw_entry s ?a) = kd_seq (tw_keys s ?k) then kd_ptr (tw_entry s ?a) else 0)"
    by (simp add: tsd_value_def Let_def)
  ultimately show ?thesis
    using assms(2) by (auto simp: pthread_getspecific_def runs Let_def tsd_addr_def [symmetric])
qed

text \<open>The first slot that is not in use is the one that is taken.\<close>

lemma pthread_key_create_run:
  assumes "i < PTHREAD_KEYS_MAX" and "unused_p (kd_seq (tw_keys s i))"
    and "\<And>j. j < i \<Longrightarrow> \<not> unused_p (kd_seq (tw_keys s j))"
  shows "exec M (pthread_key_create (tsd_of self) d) rs s l =
    Some ((OK, i), s\<lparr>tw_keys := (tw_keys s)(i := \<lparr>kd_seq = kd_seq (tw_keys s i) + 1, kd_ptr = d\<rparr>)\<rparr>, rs, l)"
proof -
  let ?b = "\<lambda>i. if \<not> i < PTHREAD_KEYS_MAX then leave (Err EAGAIN, 0)
     else bind (load (key_seq (td_keys (tsd_of self) i))) (\<lambda>seq.
       if unused_p seq then
         bind (atomic_cas_bool (key_seq (td_keys (tsd_of self) i)) seq (seq + 1)) (\<lambda>ok.
         if ok then bind (store (key_ptr (td_keys (tsd_of self) i)) d) (\<lambda>_. leave (OK, i))
         else again (i + 1))
       else again (i + 1))"
  have "exec M (loop ?b j) rs s l =
      Some ((OK, i), s\<lparr>tw_keys := (tw_keys s)(i := \<lparr>kd_seq = kd_seq (tw_keys s i) + 1, kd_ptr = d\<rparr>)\<rparr>, rs, l)"
    if "j \<le> i" for j
    using that
  proof (induction rule: inc_induct)
    case base
    show ?case using assms(1,2) by (simp add: exec_loop runs, simp add: fun_upd_def)
  next
    case (step n)
    then show ?case using assms(1,3) by (simp add: exec_loop [of M ?b n] runs)
  qed
  then show ?thesis by (simp add: pthread_key_create_def)
qed

text \<open>
  Deleting a key forgets every value set under it: it cannot be read any more, neither while the key
  is unused nor after the slot was created again, and a deleted key cannot be deleted or set.
\<close>

theorem pthread_key_delete_forgets:
  assumes "unat key < PTHREAD_KEYS_MAX" and "tsd_value s (unat key) \<noteq> 0" and "\<not> unused_p (kd_seq (tw_keys s (unat key)))"
    and "\<And>j. j < unat key \<Longrightarrow> \<not> unused_p (kd_seq (tw_keys s j))"
  shows "\<exists>s1 s2. exec M (pthread_key_delete (tsd_of self) key) rs s l = Some (OK, s1, rs, l) \<and>
    tsd_value s1 (unat key) = 0 \<and>
    exec M (pthread_key_delete (tsd_of self) key) rs s1 l = Some (Err EINVAL, s1, rs, l) \<and>
    exec M (pthread_setspecific (tsd_of self) key v) rs s1 l = Some (Err EINVAL, s1, rs, l) \<and>
    exec M (pthread_key_create (tsd_of self) d) rs s1 l = Some ((OK, unat key), s2, rs, l) \<and>
    tsd_value s2 (unat key) = 0 \<and>
    (\<forall>j < PTHREAD_KEYS_MAX. j \<noteq> unat key \<longrightarrow> tsd_value s2 j = tsd_value s j)"
proof -
  let ?k = "unat key"
  let ?q = "kd_seq (tw_keys s ?k)"
  let ?s1 = "s\<lparr>tw_keys := (tw_keys s)(?k := (tw_keys s ?k)\<lparr>kd_seq := ?q + 1\<rparr>)\<rparr>"
  let ?s2 = "?s1\<lparr>tw_keys := (tw_keys ?s1)(?k := \<lparr>kd_seq = ?q + 1 + 1, kd_ptr = d\<rparr>)\<rparr>"
  have e: "kd_seq (tw_entry s (tsd_addr (tw_specific s) ?k)) = ?q"
    using assms(2) by (auto simp: tsd_value_def Let_def split: if_splits)
  have u: "unused_p (?q + 1)" using assms(3) by (simp add: unused_p_def)
  have "exec M (pthread_key_create (tsd_of self) d) rs ?s1 l = Some ((OK, ?k), ?s2, rs, l)"
    using pthread_key_create_run [of ?k ?s1 M self d rs l] assms(1,4) u by simp
  moreover have "tsd_value ?s1 ?k = 0" "tsd_value ?s2 ?k = 0"
    using e by (simp_all add: tsd_value_def Let_def)
  ultimately show ?thesis
    using assms(1,3) u
    by (intro exI [of _ ?s1] exI [of _ ?s2])
      (simp add: pthread_key_delete_def pthread_setspecific_def runs tsd_value_def Let_def)
qed


subsection \<open>The destructors\<close>

text \<open>The call that an entry with key \<open>k\<close> of the table leads to.\<close>

definition entry_call :: "pthread_key_data \<Rightarrow> pthread_key_data \<Rightarrow> kcall list" where
  "entry_call k e = (if kd_ptr e \<noteq> 0 \<and> kd_seq e = kd_seq k \<and> kd_ptr k \<noteq> 0
     then [Callback (kd_ptr k) (kd_ptr e)] else [])"

definition block_calls :: "tsd_world \<Rightarrow> u32 \<Rightarrow> nat \<Rightarrow> nat \<Rightarrow> kcall list" where
  "block_calls s l2 q n = concat (map (\<lambda>i. entry_call (tw_keys s (q + i)) (tw_entry s (l2_entry l2 i))) [0..<n])"

definition clear_where :: "(u32 \<Rightarrow> bool) \<Rightarrow> tsd_world \<Rightarrow> tsd_world" where
  "clear_where P s = s\<lparr>tw_entry := \<lambda>a. if P a then (tw_entry s a)\<lparr>kd_ptr := 0\<rparr> else tw_entry s a\<rparr>"

lemma clear_where_sel [simp]:
  "tw_keys (clear_where P s) = tw_keys s"
  "tw_specific (clear_where P s) = tw_specific s"
  "tw_used (clear_where P s) = tw_used s"
  "tw_entry (clear_where P s) a = (if P a then (tw_entry s a)\<lparr>kd_ptr := 0\<rparr> else tw_entry s a)"
  by (simp_all add: clear_where_def)

lemma clear_where_add:
  "(clear_where P s)\<lparr>tw_entry := (tw_entry (clear_where P s))(a := (tw_entry s a)\<lparr>kd_ptr := 0\<rparr>)\<rparr> =
    clear_where (\<lambda>x. P x \<or> x = a) s"
  by (auto simp: clear_where_def fun_eq_iff)

lemma clear_where_more: "clear_where P (clear_where Q s) = clear_where (\<lambda>x. P x \<or> Q x) s"
  by (auto simp: clear_where_def fun_eq_iff)

lemma clear_where_skip: "kd_ptr (tw_entry s a) = 0 \<Longrightarrow> clear_where (\<lambda>x. P x \<or> x = a) s = clear_where P s"
  by (auto simp: clear_where_def fun_eq_iff)

lemma clear_where_none [simp]: "clear_where (\<lambda>_. False) s = s"
  by (simp add: clear_where_def)

lemma dealloc_entry_run:
  assumes "length (entry_call (tw_keys s q) (tw_entry s a)) \<le> length rs"
  shows "exec quiet (dealloc_entry (tsd_of self) (td_entry (tsd_of self) a) q) rs s l =
    Some ((), clear_where (\<lambda>x. x = a) s, drop (length (entry_call (tw_keys s q) (tw_entry s a))) rs,
      l @ entry_call (tw_keys s q) (tw_entry s a))"
proof -
  have c: "s\<lparr>tw_entry := (tw_entry s)(a := (tw_entry s a)\<lparr>kd_ptr := 0\<rparr>)\<rparr> = clear_where (\<lambda>x. x = a) s"
    using clear_where_add [of "\<lambda>_. False" s a] by simp
  have n: "kd_ptr (tw_entry s a) = 0 \<Longrightarrow> clear_where (\<lambda>x. x = a) s = s"
    using clear_where_skip [of s a "\<lambda>_. False"] by simp
  show ?thesis
    using assms by (cases rs) (auto simp: dealloc_entry_def entry_call_def runs sys_def c n split: if_splits)
qed

lemma block_calls_Suc:
  "block_calls s l2 q (Suc n) = block_calls s l2 q n @ entry_call (tw_keys s (q + n)) (tw_entry s (l2_entry l2 n))"
  by (simp add: block_calls_def)

lemma block_calls_le: "n \<le> m \<Longrightarrow> length (block_calls s l2 q n) \<le> length (block_calls s l2 q m)"
  by (induction m rule: dec_induct) (simp_all add: block_calls_Suc)

lemma dealloc_block_run:
  assumes "length (block_calls s l2 q 16) \<le> length rs"
  shows "exec quiet (dealloc_block (tsd_of self) l2 q) rs s l =
    Some (q + 16, clear_where (\<lambda>a. \<exists>i < 16. a = l2_entry l2 i) s,
      drop (length (block_calls s l2 q 16)) rs, l @ block_calls s l2 q 16)"
proof -
  let ?m = "tsd_of self"
  let ?b = "\<lambda>(inner, q). if \<not> inner < PTHREAD_KEY_L2_SIZE then leave q
     else bind (dealloc_entry ?m (td_entry ?m (l2_entry l2 inner)) q) (\<lambda>_. again (inner + 1, q + 1))"
  let ?C = "\<lambda>n. clear_where (\<lambda>a. \<exists>i < n. a = l2_entry l2 i) s"
  let ?L = "\<lambda>n. block_calls s l2 q n"
  have "exec quiet (loop ?b (0, q)) rs s l =
      exec quiet (loop ?b (n, q + n)) (drop (length (?L n)) rs) (?C n) (l @ ?L n)" if "n \<le> 16" for n
    using that
  proof (induction n)
    case 0
    then show ?case by (simp add: block_calls_def)
  next
    case (Suc n)
    let ?e = "entry_call (tw_keys s (q + n)) (tw_entry s (l2_entry l2 n))"
    have e: "tw_entry (?C n) (l2_entry l2 n) = tw_entry s (l2_entry l2 n)"
      using Suc.prems by (auto dest: l2_entry_inj [rotated 2])
    have c: "clear_where (\<lambda>x. x = l2_entry l2 n) (?C n) = ?C (Suc n)"
      unfolding clear_where_more by (rule arg_cong [where f = "\<lambda>P. clear_where P s"]) (auto simp: less_Suc_eq)
    have "length ?e \<le> length (drop (length (?L n)) rs)"
      using assms block_calls_le [OF Suc.prems, of s l2 q] by (simp add: block_calls_Suc)
    then have "exec quiet (dealloc_entry ?m (td_entry ?m (l2_entry l2 n)) (q + n)) (drop (length (?L n)) rs) (?C n) (l @ ?L n) =
        Some ((), ?C (Suc n), drop (length (?L (Suc n))) rs, l @ ?L (Suc n))"
      using dealloc_entry_run [of "?C n" "q + n" "l2_entry l2 n" "drop (length (?L n)) rs" self "l @ ?L n"]
      unfolding e clear_where_sel(1) c by (simp add: block_calls_Suc add.commute del: clear_where_sel(4))
    from exec_bind [OF this, of "\<lambda>_. again (n + 1, q + n + 1)"] Suc.prems
    have "exec quiet (?b (n, q + n)) (drop (length (?L n)) rs) (?C n) (l @ ?L n) =
        Some (Inl (Suc n, q + Suc n), ?C (Suc n), drop (length (?L (Suc n))) rs, l @ ?L (Suc n))" by simp
    from exec_loop_again [where b = ?b, OF this] Suc show ?case by simp
  qed
  from this [of 16] show ?thesis unfolding dealloc_block_def by (simp add: exec_loop)
qed


text \<open>
  The slot of the table at which the destructors of block \<open>n\<close> are looked up: the counter \<open>q\<close> moves
  by 16 over a block that exists, and by 32 over one that does not.
\<close>

definition slot_base :: "(nat \<Rightarrow> u32) \<Rightarrow> nat \<Rightarrow> nat" where
  "slot_base sp n = (\<Sum>c < n. if sp c = 0 then 32 else 16)"

definition pass_calls :: "tsd_world \<Rightarrow> nat \<Rightarrow> kcall list" where
  "pass_calls s n = concat (map (\<lambda>c. if tw_specific s c = 0 then []
     else block_calls s (tw_specific s c) (slot_base (tw_specific s) c) PTHREAD_KEY_L2_SIZE) [0..<n])"

abbreviation in_blocks :: "(nat \<Rightarrow> u32) \<Rightarrow> nat \<Rightarrow> u32 \<Rightarrow> bool" where
  "in_blocks sp n a \<equiv> \<exists>c < n. sp c \<noteq> 0 \<and> (\<exists>i < 16. a = l2_entry (sp c) i)"

lemma pass_calls_Suc:
  "pass_calls s (Suc n) = pass_calls s n @ (if tw_specific s n = 0 then []
     else block_calls s (tw_specific s n) (slot_base (tw_specific s) n) 16)"
  by (simp add: pass_calls_def)

lemma pass_calls_le: "n \<le> m \<Longrightarrow> length (pass_calls s n) \<le> length (pass_calls s m)"
  by (induction m rule: dec_induct) (simp_all add: pass_calls_Suc)

lemma block_calls_clear:
  assumes "\<And>i. i < n \<Longrightarrow> \<not> P (l2_entry l2 i)"
  shows "block_calls (clear_where P s) l2 q n = block_calls s l2 q n"
  unfolding block_calls_def by (rule arg_cong [where f = concat]) (use assms in auto)

lemma blocks_ok_disjoint:
  assumes "blocks_ok sp" and "c < 32" and "n < 32" and "sp c \<noteq> 0" and "sp n \<noteq> 0"
    and "i < 16" and "j < 16" and "l2_entry (sp c) i = l2_entry (sp n) j"
  shows "c = n"
proof -
  have "16 * c + i = 16 * n + j"
    using assms(1) [unfolded blocks_ok_def, rule_format, of "16 * c + i" "16 * n + j"] assms(2-)
    by (simp add: tsd_addr_def)
  then show ?thesis using assms(6,7) by arith
qed

lemma dealloc_pass_run:
  assumes "blocks_ok (tw_specific s)" and "length (pass_calls s 32) \<le> length rs"
  shows "exec quiet (dealloc_pass (tsd_of self)) rs s l =
    Some ((), clear_where (in_blocks (tw_specific s) 32) s, drop (length (pass_calls s 32)) rs, l @ pass_calls s 32)"
proof -
  let ?m = "tsd_of self" and ?sp = "tw_specific s"
  let ?b = "\<lambda>(q, cnt). if \<not> cnt < PTHREAD_KEY_L1_SIZE then leave ()
     else
       bind (load (td_specific ?m cnt)) (\<lambda>l2.
       if l2 = 0 then again (q + PTHREAD_KEY_L1_SIZE, cnt + 1)
       else bind (dealloc_block ?m l2 q) (\<lambda>q. again (q, cnt + 1)))"
  let ?C = "\<lambda>n. clear_where (in_blocks ?sp n) s"
  let ?L = "pass_calls s" and ?q = "slot_base ?sp"
  have "exec quiet (loop ?b (0, 0)) rs s l =
      exec quiet (loop ?b (?q n, n)) (drop (length (?L n)) rs) (?C n) (l @ ?L n)" if "n \<le> 32" for n
    using that
  proof (induction n)
    case 0
    then show ?case by (simp add: pass_calls_def slot_base_def)
  next
    case (Suc n)
    have "exec quiet (?b (?q n, n)) (drop (length (?L n)) rs) (?C n) (l @ ?L n) =
        Some (Inl (?q (Suc n), Suc n), ?C (Suc n), drop (length (?L (Suc n))) rs, l @ ?L (Suc n))"
    proof (cases "?sp n = 0")
      case True
      have "?C (Suc n) = ?C n"
        using True by (intro arg_cong [where f = "\<lambda>P. clear_where P s"]) (auto simp: less_Suc_eq)
      with True Suc.prems show ?thesis by (simp add: runs pass_calls_Suc slot_base_def)
    next
      case False
      let ?B = "block_calls s (?sp n) (?q n) 16"
      have e: "block_calls (?C n) (?sp n) (?q n) 16 = ?B"
      proof (rule block_calls_clear, rule notI)
        fix i assume "i < (16 :: nat)" and "in_blocks ?sp n (l2_entry (?sp n) i)"
        then obtain c j where "c < n" "?sp c \<noteq> 0" "j < 16" "l2_entry (?sp c) j = l2_entry (?sp n) i"
          by fastforce
        with blocks_ok_disjoint [OF assms(1), of c n j i] \<open>i < 16\<close> False Suc.prems show False by simp
      qed
      have c: "clear_where (\<lambda>a. \<exists>i < 16. a = l2_entry (?sp n) i) (?C n) = ?C (Suc n)"
        unfolding clear_where_more using False
        by (intro arg_cong [where f = "\<lambda>P. clear_where P s"]) (auto simp: less_Suc_eq)
      have "length ?B \<le> length (drop (length (?L n)) rs)"
        using assms(2) pass_calls_le [OF Suc.prems, of s] False by (simp add: pass_calls_Suc)
      then have "exec quiet (dealloc_block ?m (?sp n) (?q n)) (drop (length (?L n)) rs) (?C n) (l @ ?L n) =
          Some (?q (Suc n), ?C (Suc n), drop (length (?L (Suc n))) rs, l @ ?L (Suc n))"
        using dealloc_block_run [of "?C n" "?sp n" "?q n" "drop (length (?L n)) rs" self "l @ ?L n"] False
        unfolding e c by (simp add: pass_calls_Suc slot_base_def add.commute)
      from exec_bind [OF this, of "\<lambda>q. again (q, n + 1)"] False Suc.prems show ?thesis by (simp add: runs)
    qed
    from exec_loop_again [where b = ?b, OF this] Suc show ?case by simp
  qed
  from this [of 32] show ?thesis unfolding dealloc_pass_def by (simp add: exec_loop)
qed


definition free_call :: "u32 \<Rightarrow> kcall" where
  "free_call a = Lib ''free'' [Word a]"

lemma free_blocks_run:
  assumes "31 \<le> length rs"
  shows "exec quiet (free_blocks (tsd_of self)) rs s l =
    Some ((), s\<lparr>tw_specific := \<lambda>c. if 1 \<le> c \<and> c < 32 then 0 else tw_specific s c\<rparr>, drop 31 rs,
      l @ map (\<lambda>c. free_call (tw_specific s c)) [1..<32])"
proof -
  let ?m = "tsd_of self" and ?sp = "tw_specific s"
  let ?b = "\<lambda>cnt. if \<not> cnt < PTHREAD_KEY_L1_SIZE then leave ()
     else
       bind (load (td_specific ?m cnt)) (\<lambda>l2.
       bind (sys (Lib ''free'' [Word l2])) (\<lambda>_.
       bind (store (td_specific ?m cnt) 0) (\<lambda>_. again (cnt + 1))))"
  let ?S = "\<lambda>n. s\<lparr>tw_specific := \<lambda>c. if 1 \<le> c \<and> c < n then 0 else ?sp c\<rparr>"
  have "exec quiet (loop ?b 1) rs s l =
      exec quiet (loop ?b n) (drop (n - 1) rs) (?S n) (l @ map (\<lambda>c. free_call (?sp c)) [1..<n])"
    if "1 \<le> n" "n \<le> 32" for n
    using that
  proof (induction n rule: dec_induct)
    case base
    have "?S 1 = s" by (simp add: fun_eq_iff)
    then show ?case by simp
  next
    case (step n)
    have "(?S n)\<lparr>tw_specific := (tw_specific (?S n))(n := 0)\<rparr> = ?S (Suc n)"
      using step(1) by (auto simp: fun_eq_iff less_Suc_eq intro!: tsd_world.equality)
    moreover obtain r rs' where "drop (n - 1) rs = r # rs'" "drop n rs = rs'"
    proof -
      have "n - 1 < length rs" using step assms by simp
      then have "drop (n - 1) rs = rs ! (n - 1) # drop (Suc (n - 1)) rs" by (simp add: Cons_nth_drop_Suc)
      with step(1) show thesis by (intro that) simp_all
    qed
    ultimately have "exec quiet (?b n) (drop (n - 1) rs) (?S n) (l @ map (\<lambda>c. free_call (?sp c)) [1..<n]) =
        Some (Inl (Suc n), ?S (Suc n), drop n rs, l @ map (\<lambda>c. free_call (?sp c)) [1..<Suc n])"
      using step by (simp add: runs sys_def free_call_def)
    from exec_loop_again [where b = ?b, OF this] step show ?case by simp
  qed
  from this [of 32] show ?thesis unfolding free_blocks_def by (simp add: exec_loop)
qed

text \<open>
  Everything that \<open>__pthread_dealloc_tsd\<close> does for destructors that set no values: the calls, in order,
  and no value is left.
\<close>

theorem dealloc_tsd_run:
  assumes "blocks_ok (tw_specific s)" and "tw_used s \<noteq> 0"
    and "length rs = length (pass_calls s 32) + 31"
  shows "\<exists>s'. exec quiet (dealloc_tsd (tsd_of self)) rs s l = Some ((), s', [],
      l @ pass_calls s 32 @ map (\<lambda>c. free_call (tw_specific s c)) [1..<32]) \<and>
    tw_used s' = 0 \<and> (\<forall>k < PTHREAD_KEYS_MAX. tsd_value s' k = 0)"
proof -
  let ?m = "tsd_of self" and ?n = "length (pass_calls s 32)"
  let ?s0 = "s\<lparr>tw_used := 0\<rparr>"
  let ?s1 = "clear_where (in_blocks (tw_specific s) 32) ?s0"
  let ?s2 = "zero_block ?m (self + 24) ?s1"
  let ?s3 = "?s2\<lparr>tw_specific := \<lambda>c. if 1 \<le> c \<and> c < 32 then 0 else tw_specific s c\<rparr>"
  let ?b = "\<lambda>iters. bind (store (td_used ?m) 0) (\<lambda>_. bind (dealloc_pass ?m) (\<lambda>_.
        bind (load (td_used ?m)) (\<lambda>used. if used = 0 then leave ()
        else if iters + 1 < PTHREAD_DESTRUCTION_ITERATIONS then again (iters + 1) else leave ())))"
  have pc: "pass_calls ?s0 32 = pass_calls s 32"
    by (simp add: pass_calls_def block_calls_def cong: if_cong)
  have p: "exec quiet (dealloc_pass ?m) rs ?s0 l = Some ((), ?s1, drop ?n rs, l @ pass_calls s 32)"
    using dealloc_pass_run [of ?s0 rs self l] assms by (simp add: pc)
  have "exec quiet (?b 0) rs s l = Some (Inr (), ?s1, drop ?n rs, l @ pass_calls s 32)"
    by (simp add: runs exec_bind [OF p])
  from exec_loop_leave [where b = ?b, OF this]
  have o: "exec quiet (loop ?b 0) rs s l = Some ((), ?s1, drop ?n rs, l @ pass_calls s 32)" .
  have f: "exec quiet (free_blocks ?m) (drop ?n rs) ?s2 (l @ pass_calls s 32) =
      Some ((), ?s3, [], (l @ pass_calls s 32) @ map (\<lambda>c. free_call (tw_specific s c)) [1..<32])"
    using free_blocks_run [of "drop ?n rs" self ?s2] assms(3) by (simp cong: if_cong)
  have "tsd_value ?s3 k = 0" if "k < 512" for k
  proof (cases "has_block (tw_specific ?s3) k")
    case True
    then have "k div 16 = 0" "tw_specific s 0 \<noteq> 0" using that by (auto split: if_splits)
    then have "in_blocks (tw_specific s) 32 (tsd_addr (tw_specific s) k)"
      unfolding tsd_addr_def by (intro exI [of _ "0 :: nat"] exI [of _ "k mod 16"] conjI) simp_all
    then have "kd_ptr (tw_entry ?s1 (tsd_addr (tw_specific s) k)) = 0" by simp
    then show ?thesis using \<open>k div 16 = 0\<close> by (simp add: tsd_value_def Let_def tsd_addr_def)
  next
    case False
    then show ?thesis by (simp add: tsd_value_def Let_def)
  qed
  moreover have "exec quiet (dealloc_tsd ?m) rs s l = Some ((), ?s3\<lparr>tw_used := 0\<rparr>, [],
      l @ pass_calls s 32 @ map (\<lambda>c. free_call (tw_specific s c)) [1..<32])"
    using assms(2) by (simp add: dealloc_tsd_def runs exec_bind [OF o] exec_bind [OF f])
  ultimately show ?thesis by (intro exI [of _ "?s3\<lparr>tw_used := 0\<rparr>"]) simp
qed


text \<open>The calls of the destructors, in the order of the keys.\<close>

definition destructor_calls :: "tsd_world \<Rightarrow> kcall list" where
  "destructor_calls s = concat (map (\<lambda>k.
     if tsd_value s k \<noteq> 0 \<and> kd_ptr (tw_keys s k) \<noteq> 0
     then [Callback (kd_ptr (tw_keys s k)) (tsd_value s k)] else []) [0..<PTHREAD_KEYS_MAX])"

abbreviation no_gap :: "(nat \<Rightarrow> u32) \<Rightarrow> bool" where
  "no_gap sp \<equiv> \<forall>c d. c < d \<and> d < PTHREAD_KEY_L1_SIZE \<and> sp d \<noteq> 0 \<longrightarrow> sp c \<noteq> 0"

lemma slot_base_no_gap:
  assumes "no_gap sp" and "n < 32" and "sp n \<noteq> 0"
  shows "slot_base sp n = 16 * n"
proof -
  have "(\<Sum>c < n. if sp c = 0 then 32 else 16) = (\<Sum>c < n. 16 :: nat)"
    by (rule sum.cong) (use assms in auto)
  then show ?thesis by (simp add: slot_base_def)
qed

lemma value_call:
  assumes "n < 32" and "i < 16" and "tw_specific s n \<noteq> 0"
  shows "entry_call (tw_keys s (16 * n + i)) (tw_entry s (l2_entry (tw_specific s n) i)) =
    (if tsd_value s (16 * n + i) \<noteq> 0 \<and> kd_ptr (tw_keys s (16 * n + i)) \<noteq> 0
     then [Callback (kd_ptr (tw_keys s (16 * n + i))) (tsd_value s (16 * n + i))] else [])"
  using assms by (auto simp: entry_call_def tsd_value_def tsd_addr_def Let_def)

lemma pass_calls_no_gap:
  assumes "no_gap (tw_specific s)"
  shows "pass_calls s 32 = destructor_calls s"
proof -
  let ?f = "\<lambda>k. if tsd_value s k \<noteq> 0 \<and> kd_ptr (tw_keys s k) \<noteq> 0
     then [Callback (kd_ptr (tw_keys s k)) (tsd_value s k)] else []"
  have "pass_calls s n = concat (map ?f [0..<16 * n])" if "n \<le> 32" for n
    using that
  proof (induction n)
    case 0
    then show ?case by (simp add: pass_calls_def)
  next
    case (Suc n)
    have u: "[0..<16 * Suc n] = [0..<16 * n] @ map (\<lambda>i. 16 * n + i) [0..<16]"
      using map_add_upt [of "16 * n" 16] upt_add_eq_append [of 0 "16 * n" 16] by (simp add: add.commute)
    have "(if tw_specific s n = 0 then []
       else block_calls s (tw_specific s n) (slot_base (tw_specific s) n) 16) =
      concat (map (\<lambda>i. ?f (16 * n + i)) [0..<16])"
    proof (cases "tw_specific s n = 0")
      case True
      then have "tsd_value s (16 * n + i) = 0" if "i < 16" for i using that by (simp add: tsd_value_def Let_def)
      then have "map (\<lambda>i. ?f (16 * n + i)) [0..<16] = map (\<lambda>_. []) [0..<16]" by (intro map_cong refl) simp
      with True show ?thesis by simp
    next
      case False
      then have "block_calls s (tw_specific s n) (16 * n) 16 = concat (map (\<lambda>i. ?f (16 * n + i)) [0..<16])"
        unfolding block_calls_def using Suc.prems
        by (intro arg_cong [where f = concat] map_cong refl value_call) simp_all
      with False Suc.prems slot_base_no_gap [OF assms, of n] show ?thesis by simp
    qed
    with Suc show ?case by (simp only: pass_calls_Suc u map_append concat_append map_map comp_def)
  qed
  from this [of 32] show ?thesis by (simp add: destructor_calls_def)
qed



text \<open>A thread with a value for key 3 in its descriptor's block, and one for key 40 in its third block.\<close>

definition gap_world :: "u32 \<Rightarrow> tsd_world" where
  "gap_world v = \<lparr>
    tw_keys = (\<lambda>k. \<lparr>kd_seq = 1, kd_ptr = 1000 + of_nat k\<rparr>),
    tw_entry = (\<lambda>a. if a = 4096 + 24 + 24 then \<lparr>kd_seq = 1, kd_ptr = v\<rparr>
      else if a = 8192 + 64 then \<lparr>kd_seq = 1, kd_ptr = 78\<rparr> else \<lparr>kd_seq = 0, kd_ptr = 0\<rparr>),
    tw_specific = (\<lambda>c. if c = 0 then 4096 + 24 else if c = 2 then 8192 else 0),
    tw_used = 1\<rparr>"

lemma blocks_okI:
  assumes "\<And>c d i j. c < d \<Longrightarrow> d < 32 \<Longrightarrow> i < 16 \<Longrightarrow> j < 16 \<Longrightarrow> sp c \<noteq> 0 \<Longrightarrow> sp d \<noteq> 0 \<Longrightarrow>
    l2_entry (sp c) i \<noteq> l2_entry (sp d) j"
  shows "blocks_ok sp"
  unfolding blocks_ok_def
proof (intro allI impI)
  fix k j :: nat assume "k < 512" "j < 512" "has_block sp k" "has_block sp j" "tsd_addr sp k = tsd_addr sp j"
  moreover from this have "k div 16 < 32" "j div 16 < 32" by simp_all
  moreover from calculation have "k div 16 = j div 16"
    using assms [of "k div 16" "j div 16" "k mod 16" "j mod 16"] assms [of "j div 16" "k div 16" "j mod 16" "k mod 16"]
    by (cases "k div 16" "j div 16" rule: linorder_cases) (auto simp: tsd_addr_def)
  ultimately show "k = j" using same_block by blast
qed

lemma entries_apart:
  assumes "a + 120 < b" and "b < 2 ^ 31" and "i < 16" and "j < 16"
  shows "l2_entry (of_nat a) i \<noteq> l2_entry (of_nat b) j"
proof
  assume "l2_entry (of_nat a) i = l2_entry (of_nat b) j"
  then have "(of_nat (a + 8 * i) :: u32) = of_nat (b + 8 * j)" by (simp add: l2_entry_def)
  then have "take_bit 32 (a + 8 * i) = take_bit 32 (b + 8 * j)" unfolding word_of_nat_eq_iff by simp
  moreover have "a + 8 * i < 2 ^ 32" "b + 8 * j < 2 ^ 32" using assms by simp_all
  ultimately have "a + 8 * i = b + 8 * j" by (simp add: take_bit_nat_eq_self del: power_numeral)
  with assms show False by simp
qed

lemma gap_world_blocks_ok: "blocks_ok (tw_specific (gap_world v))"
  by (rule blocks_okI) (use entries_apart [of 4120 8192] in \<open>auto simp: gap_world_def split: if_splits\<close>)

lemma gap_world_calls:
  "pass_calls (gap_world 77) 32 = [Callback 1003 77, Callback 1056 78]"
  by code_simp


text \<open>
  A block that is missing before one that exists shifts the lookup by 16 slots: the value of key 40 is given to
  the destructor of key 56, and the destructor of key 40 never sees it.
\<close>

theorem dealloc_tsd_wrong_destructor:
  "destructor_calls (gap_world 77) = [Callback 1003 77, Callback 1040 78] \<and>
   (\<exists>s' l'. exec quiet (dealloc_tsd (tsd_of 4096)) (replicate 33 r) (gap_world 77) [] = Some ((), s', [], l') \<and>
     filter is_Callback l' = [Callback 1003 77, Callback 1056 78])"
proof
  show "destructor_calls (gap_world 77) = [Callback 1003 77, Callback 1040 78]" by code_simp
  have u: "tw_used (gap_world 77) \<noteq> 0" by (simp add: gap_world_def)
  have "filter is_Callback (map (\<lambda>c. free_call (tw_specific (gap_world 77) c)) [1..<32]) = []"
    by (simp add: filter_empty_conv free_call_def)
  then show "\<exists>s' l'. exec quiet (dealloc_tsd (tsd_of 4096)) (replicate 33 r) (gap_world 77) [] = Some ((), s', [], l') \<and>
     filter is_Callback l' = [Callback 1003 77, Callback 1056 78]"
    using dealloc_tsd_run [OF gap_world_blocks_ok u, of "replicate 33 r" 4096 "[]"]
    unfolding gap_world_calls by force
qed


subsection \<open>Keys under any interleaving\<close>

text \<open>A thread that creates a key has tried the slots below \<open>i\<close>, or owns a slot; \<open>k0\<close> is the table at the start.\<close>

datatype key_phase = KeyScan nat | KeyTaken nat | KeyOwner nat

definition slot_taken :: "(nat \<Rightarrow> pthread_key_data) \<Rightarrow> tsd_world \<Rightarrow> nat \<Rightarrow> bool" where
  "slot_taken k0 s i \<longleftrightarrow> unused_p (kd_seq (k0 i)) \<and> kd_seq (tw_keys s i) = kd_seq (k0 i) + 1"

definition key_inv ::
  "('t \<Rightarrow> u32) \<Rightarrow> (nat \<Rightarrow> pthread_key_data) \<Rightarrow> tsd_world \<Rightarrow> ('t \<Rightarrow> key_phase) \<Rightarrow> bool" where
  "key_inv d k0 s G \<longleftrightarrow>
     (\<forall>i. kd_seq (tw_keys s i) = kd_seq (k0 i) \<or> slot_taken k0 s i) \<and>
     (\<forall>t i. G t = KeyTaken i \<or> G t = KeyOwner i \<longrightarrow> i < PTHREAD_KEYS_MAX \<and> slot_taken k0 s i) \<and>
     (\<forall>t i. G t = KeyOwner i \<longrightarrow> kd_ptr (tw_keys s i) = d t) \<and>
     (\<forall>t u i. (G t = KeyTaken i \<or> G t = KeyOwner i) \<longrightarrow> (G u = KeyTaken i \<or> G u = KeyOwner i) \<longrightarrow> t = u) \<and>
     (\<forall>t i. G t = KeyScan i \<longrightarrow> (\<forall>j < i. \<not> unused_p (kd_seq (tw_keys s j))))"

lemma slot_taken_used: "slot_taken k0 s i \<Longrightarrow> \<not> unused_p (kd_seq (tw_keys s i))"
  by (simp add: slot_taken_def unused_p_def)

lemma key_inv_take:
  assumes "key_inv d k0 s G" and "G t = KeyScan i" and "i < 512" and "unused_p (kd_seq (tw_keys s i))"
  shows "key_inv d k0 (s\<lparr>tw_keys := (tw_keys s)(i := (tw_keys s i)\<lparr>kd_seq := kd_seq (tw_keys s i) + 1\<rparr>)\<rparr>)
    (G(t := KeyTaken i))"
proof -
  have n: "\<not> slot_taken k0 s i" using assms(4) slot_taken_used by blast
  then have "kd_seq (tw_keys s i) = kd_seq (k0 i)" using assms(1) by (auto simp: key_inv_def)
  moreover have "G u \<noteq> KeyTaken i" "G u \<noteq> KeyOwner i" for u using assms(1) n by (auto simp: key_inv_def)
  ultimately show ?thesis
    using assms by (auto simp: key_inv_def slot_taken_def unused_p_def)
qed

lemma key_inv_name:
  assumes "key_inv d k0 s G" and "G t = KeyTaken i"
  shows "key_inv d k0 (s\<lparr>tw_keys := (tw_keys s)(i := (tw_keys s i)\<lparr>kd_ptr := d t\<rparr>)\<rparr>) (G(t := KeyOwner i))"
proof -
  have u: "u = t" if "G u = KeyTaken i \<or> G u = KeyOwner i" for u
    using assms that unfolding key_inv_def by blast
  then have "G u \<noteq> KeyOwner i" for u using assms(2) by force
  moreover have "\<not> unused_p (kd_seq (tw_keys s i))"
    using assms slot_taken_used unfolding key_inv_def by blast
  moreover have "slot_taken k0 (s\<lparr>tw_keys := (tw_keys s)(i := (tw_keys s i)\<lparr>kd_ptr := v\<rparr>)\<rparr>) j = slot_taken k0 s j" for v j
    by (simp add: slot_taken_def)
  ultimately show ?thesis using assms u by (auto simp: key_inv_def)
qed

lemma key_inv_scan:
  assumes "key_inv d k0 s G" and "G t = KeyScan i" and "\<not> unused_p (kd_seq (tw_keys s i))"
  shows "key_inv d k0 s (G(t := KeyScan (Suc i)))"
  using assms by (auto simp: key_inv_def less_Suc_eq)

lemma key_inv_seq:
  assumes "key_inv d k0 s G"
  shows "unused_p (kd_seq (tw_keys s i)) \<Longrightarrow> kd_seq (tw_keys s i) = kd_seq (k0 i)"
    and "kd_seq (tw_keys s i) \<noteq> kd_seq (k0 i) \<Longrightarrow> \<not> unused_p (kd_seq (tw_keys s i))"
  using assms slot_taken_used by (auto simp: key_inv_def)

lemma key_create_safe:
  "safe A (key_inv d k0) M (t :: 't)
    (\<lambda>r g. g = (if fst r = OK then KeyOwner (snd r) else KeyScan PTHREAD_KEYS_MAX) \<and> (fst r = OK \<or> fst r = Err EAGAIN))
    (KeyScan 0) (pthread_key_create (tsd_of self) (d t))"
proof -
  let ?I = "key_inv d k0"
  have l: "safe A ?I M t (\<lambda>seq g. if unused_p seq then seq = kd_seq (k0 i) \<and> g = KeyScan i else g = KeyScan (Suc i))
      (KeyScan i) (load (key_seq (td_keys (tsd_of self) i)))" for i
    unfolding load_def
    by (rule safe_ActI [where h = "\<lambda>s. if unused_p (kd_seq (tw_keys s i)) then KeyScan i else KeyScan (Suc i)"])
      (auto simp: fun_upd_idem key_inv_seq(1) intro: key_inv_scan)
  have c: "safe A ?I M t (\<lambda>ok g. g = (if ok then KeyTaken i else KeyScan (Suc i)))
      (KeyScan i) (atomic_cas_bool (key_seq (td_keys (tsd_of self) i)) (kd_seq (k0 i)) (kd_seq (k0 i) + 1))"
    if "i < 512" "unused_p (kd_seq (k0 i))" for i
    unfolding atomic_cas_bool_def
    by (rule safe_ActI [where h = "\<lambda>s. if kd_seq (tw_keys s i) = kd_seq (k0 i) then KeyTaken i else KeyScan (Suc i)"])
      (use that in \<open>auto simp: key_inv_seq(2) dest: key_inv_take intro: key_inv_scan\<close>)
  have n: "safe A ?I M t (\<lambda>_ g. g = KeyOwner i) (KeyTaken i) (store (key_ptr (td_keys (tsd_of self) i)) (d t))" for i
    by (rule safe_store [where g' = "KeyOwner i"]) (auto intro: key_inv_name)
  show ?thesis
    unfolding pthread_key_create_def
    by (rule safe_loop [where J = "\<lambda>i g. g = KeyScan i \<and> i \<le> 512"])
      (auto intro!: safe_bind [OF l] safe_bind [OF c] safe_bind [OF n] split: if_splits)
qed


text \<open>
  C35. Threads that create keys at the same time get different keys, from every table and under every
  interleaving; the key is below 512, in use, was not in use before and carries the thread's own
  destructor. A thread gets \<open>EAGAIN\<close> only when all 512 keys are in use.
\<close>

theorem key_create_distinct:
  assumes "reach M s0 (\<lambda>t. pthread_key_create (tsd_of (a t)) (d t)) s P"
  shows "(P t = Ret (OK, i) \<longrightarrow>
      i < PTHREAD_KEYS_MAX \<and> unused_p (kd_seq (tw_keys s0 i)) \<and> \<not> unused_p (kd_seq (tw_keys s i)) \<and>
      kd_ptr (tw_keys s i) = d t \<and> (P u = Ret (OK, i) \<longrightarrow> t = u)) \<and>
    (P t = Ret (Err e, i) \<longrightarrow> e = EAGAIN \<and> (\<forall>j < PTHREAD_KEYS_MAX. \<not> unused_p (kd_seq (tw_keys s j))))"
proof -
  let ?I = "key_inv d (tw_keys s0)"
  let ?Q = "\<lambda>r g. g = (if fst r = OK then KeyOwner (snd r) else KeyScan PTHREAD_KEYS_MAX) \<and> (fst r = OK \<or> fst r = Err EAGAIN)"
  have "?I s0 (\<lambda>_. KeyScan 0)" by (simp add: key_inv_def)
  then obtain G where G: "?I s G" "\<And>t. safe (\<lambda>_ _. True) ?I M t ?Q (G t) (P t)"
    using safe_reach [OF assms, of ?I "\<lambda>_. KeyScan 0" "\<lambda>_ _ _. True" "\<lambda>_. ?Q"] key_create_safe [of "\<lambda>_ _. True" d _ M]
    by blast
  have k: "G v = KeyOwner j" if "P v = Ret (OK, j)" for v j using G(2) [of v] that by simp
  have "?I s G \<Longrightarrow> G t = KeyOwner i \<Longrightarrow> i < 512 \<and> slot_taken (tw_keys s0) s i \<and> kd_ptr (tw_keys s i) = d t \<and>
      (G u = KeyOwner i \<longrightarrow> t = u)"
    unfolding key_inv_def by blast
  with G(1) k slot_taken_used have "P t = Ret (OK, i) \<longrightarrow>
      i < 512 \<and> unused_p (kd_seq (tw_keys s0 i)) \<and> \<not> unused_p (kd_seq (tw_keys s i)) \<and>
      kd_ptr (tw_keys s i) = d t \<and> (P u = Ret (OK, i) \<longrightarrow> t = u)"
    by (meson slot_taken_def)
  moreover have "e = EAGAIN \<and> (\<forall>j < 512. \<not> unused_p (kd_seq (tw_keys s j)))" if "P t = Ret (Err e, i)"
  proof -
    have "G t = KeyScan 512" "e = EAGAIN" using G(2) [of t] that by auto
    with G(1) show ?thesis unfolding key_inv_def by blast
  qed
  ultimately show ?thesis by blast
qed

definition key_demo :: "(bool \<times> nat) list \<Rightarrow> tsd_world \<times> (bool \<Rightarrow> (tsd_world, ret \<times> nat) prog)" where
  "key_demo ts = sched quiet reply0 ts
     \<lparr>tw_keys = \<lambda>_. \<lparr>kd_seq = 0, kd_ptr = 0\<rparr>, tw_entry = \<lambda>_. \<lparr>kd_seq = 0, kd_ptr = 0\<rparr>, tw_specific = \<lambda>_. 0, tw_used = 0\<rparr>
     (\<lambda>t. pthread_key_create (tsd_of (if t then 4096 else 8192)) (if t then 11 else 22))"

lemma key_create_distinct_witness:
  "snd (key_demo [(True, 1), (False, 3), (True, 5)]) False = Ret (OK, 0) \<and>
   snd (key_demo [(True, 1), (False, 3), (True, 5)]) True = Ret (OK, 1) \<and>
   kd_ptr (tw_keys (fst (key_demo [(True, 1), (False, 3), (True, 5)])) 1) = 11"
proof -
  let ?d = "key_demo [(True, 1), (False, 3), (True, 5)]"
  have r: "reach quiet
     \<lparr>tw_keys = \<lambda>_. \<lparr>kd_seq = 0, kd_ptr = 0\<rparr>, tw_entry = \<lambda>_. \<lparr>kd_seq = 0, kd_ptr = 0\<rparr>, tw_specific = \<lambda>_. 0, tw_used = 0\<rparr>
     (\<lambda>t. pthread_key_create (tsd_of (if t then 4096 else 8192)) (if t then 11 else 22)) (fst ?d) (snd ?d)"
    unfolding key_demo_def by (rule reach_sched) (rule surjective_pairing)
  have p: "snd ?d False = Ret (OK, 0)" "snd ?d True = Ret (OK, 1)"
    by (simp_all add: key_demo_def pthread_key_create_def atomic_defs pstep_loop unused_p_def)
  with key_create_distinct [OF r, of True 1] show ?thesis by simp
qed


subsection \<open>The properties at a concrete thread\<close>

lemma gap_world_values: "tsd_value (gap_world v) 3 = v" "tsd_value (gap_world v) 40 = 78"
  by (simp_all add: tsd_value_def gap_world_def tsd_addr_def l2_entry_def Let_def)

lemma pthread_setspecific_refines_witness:
  "\<exists>s' rs' l'. exec quiet (pthread_setspecific (tsd_of 4096) 3 99) [reply0] (gap_world 77) [] = Some (OK, s', rs', l') \<and>
    tsd_value s' 3 = 99 \<and> tsd_value s' 40 = 78"
proof -
  have "\<not> unused_p (kd_seq (tw_keys (gap_world 77) 3))" "has_block (tw_specific (gap_world 77)) 3"
    by (simp_all add: gap_world_def unused_p_def)
  with pthread_setspecific_refines [OF gap_world_blocks_ok, of reply0 77 4096 3 99 "[]" "[]"]
  show ?thesis by (fastforce simp: gap_world_values)
qed

lemma pthread_key_delete_forgets_witness:
  "\<exists>s1. exec quiet (pthread_key_delete (tsd_of 4096) 3) [] (gap_world 77) [] = Some (OK, s1, [], []) \<and>
    tsd_value (gap_world 77) 3 = 77 \<and> tsd_value s1 3 = 0"
proof -
  have "\<not> unused_p (kd_seq (tw_keys (gap_world 77) k))" for k by (simp add: gap_world_def unused_p_def)
  then have "\<exists>s1 s2. exec quiet (pthread_key_delete (tsd_of 4096) 3) [] (gap_world 77) [] = Some (OK, s1, [], []) \<and>
      tsd_value s1 3 = 0"
    using pthread_key_delete_forgets [of 3 "gap_world 77" quiet 4096 "[]" "[]" 5 6] by (fastforce simp: gap_world_values)
  then show ?thesis by (simp add: gap_world_values)
qed

abbreviation plain_world :: tsd_world where
  "plain_world \<equiv> (gap_world 77)\<lparr>tw_specific := \<lambda>c. if c = 0 then 4120 else 0\<rparr>"



subsection \<open>Destructors that set values\<close>

lemma dealloc_entry_within: "within M 1 (\<lambda>_. True) (dealloc_entry m lp q)"
  unfolding dealloc_entry_def
  by (auto intro!: within_bind_load within_bind_store within_Ret within_Sys simp: sys_def)

lemma dealloc_block_within: "within M 16 (\<lambda>_. True) (dealloc_block m l2 q)"
proof -
  have "within M (1 * (16 - fst (0 :: nat, q))) (\<lambda>_. True) (dealloc_block m l2 q)"
    unfolding dealloc_block_def
    by (rule within_loop [where J = "\<lambda>_. True" and f = "\<lambda>x. 16 - fst x"])
      (auto intro!: within_Ret within_bind [OF dealloc_entry_within, where m = 0, simplified])
  then show ?thesis by simp
qed

lemma dealloc_pass_within: "within M 512 (\<lambda>_. True) (dealloc_pass m)"
proof -
  have "within M (16 * (32 - snd (0 :: nat, 0 :: nat))) (\<lambda>_. True) (dealloc_pass m)"
    unfolding dealloc_pass_def
    by (rule within_loop [where J = "\<lambda>_. True" and f = "\<lambda>x. 32 - snd x"])
      (auto intro!: within_Ret within_bind_load within_bind [OF dealloc_block_within, where m = 0, simplified], arith+)
  then show ?thesis by simp
qed

lemma free_blocks_within: "within M 31 (\<lambda>_. True) (free_blocks m)"
proof -
  have "within M (1 * (32 - 1)) (\<lambda>_. True) (free_blocks m)"
    unfolding free_blocks_def
    by (rule within_loop [where J = "\<lambda>_. True" and f = "\<lambda>x. 32 - x"])
      (auto simp: sys_def intro!: within_Ret within_bind_load within_bind_store within_Sys)
  then show ?thesis by simp
qed

text \<open>
  C36. Destructors may set values again, and run again for those: whatever they do, and whatever the memory
  holds, \<open>__pthread_dealloc_tsd\<close> ends, after at most four passes over the 512 entries and the
  release of 31 blocks.
\<close>

theorem dealloc_tsd_ends: "within M (4 * 512 + 31) (\<lambda>_. True) (dealloc_tsd m)"
proof -
  let ?b = "\<lambda>iters. bind (store (td_used m) 0) (\<lambda>_. bind (dealloc_pass m) (\<lambda>_.
        bind (load (td_used m)) (\<lambda>used. if used = 0 then leave ()
        else if iters + 1 < PTHREAD_DESTRUCTION_ITERATIONS then again (iters + 1) else leave ())))"
  have "within M (512 * (4 - 0)) (\<lambda>_. True) (loop ?b (0 :: nat))"
    by (rule within_loop [where J = "\<lambda>i. i < 4" and f = "\<lambda>i. 4 - i"])
      (auto intro!: within_bind_store within_bind [OF dealloc_pass_within, where m = 0, simplified]
        within_bind_load within_Ret)
  then have "within M (4 * 512) (\<lambda>_. True) (loop ?b (0 :: nat))" by simp
  then have "within M (4 * 512 + 31) (\<lambda>_. True) (bind (loop ?b (0 :: nat)) (\<lambda>_.
      bind (Act (zero_block m (td_blk1 m)) (\<lambda>_. Ret ())) (\<lambda>_. bind (free_blocks m) (\<lambda>_. store (td_used m) 0))))"
    by (rule within_bind)
      (auto intro!: within_Act within_bind [OF free_blocks_within, where m = 0, simplified] within_store)
  then show ?thesis unfolding dealloc_tsd_def by (intro within_bind_load) (simp add: within_Ret)
qed

end
