(* ===== verification/Attr.thy ===== *)
theory Attr
  imports Cancel
begin

text \<open>
  \<open>pthread/attr.c\<close>: thread attributes, as functions on the attribute object. The page size
  (\<open>vm_page_size\<close>) and the library's default attributes (\<open>__pthread_dfl_attr\<close>, filled in at startup by
  \<open>__pthread_initialize\<close>) are arguments.
\<close>

abbreviation (input) PTHREAD_CREATE_JOINABLE :: u32 where "PTHREAD_CREATE_JOINABLE \<equiv> 0x1"
abbreviation (input) PTHREAD_CREATE_DETACHED :: u32 where "PTHREAD_CREATE_DETACHED \<equiv> 0x2"
abbreviation (input) PTHREAD_INHERIT_SCHED :: u32 where "PTHREAD_INHERIT_SCHED \<equiv> 0x4"
abbreviation (input) PTHREAD_EXPLICIT_SCHED :: u32 where "PTHREAD_EXPLICIT_SCHED \<equiv> 0x8"
abbreviation (input) PTHREAD_SCOPE_SYSTEM :: u32 where "PTHREAD_SCOPE_SYSTEM \<equiv> 0x10"
abbreviation (input) PTHREAD_SCOPE_PROCESS :: u32 where "PTHREAD_SCOPE_PROCESS \<equiv> 0x20"
abbreviation (input) PTHREAD_STACK_MIN :: u32 where "PTHREAD_STACK_MIN \<equiv> 16384"
abbreviation (input) SCHED_OTHER :: u32 where "SCHED_OTHER \<equiv> 0"
abbreviation (input) SCHED_FIFO :: u32 where "SCHED_FIFO \<equiv> 1"
abbreviation (input) SCHED_RR :: u32 where "SCHED_RR \<equiv> 2"

record sched_attr =
  sa_policy :: u32
  sa_data :: u32

record pthread_attr =
  at_stack :: u32
  at_stacksize :: u32
  at_guardsize :: u32
  at_flags :: u32
  at_sched :: sched_attr

text \<open>The defaults: the stack limit \<open>lim\<close> of the process, if there is one, clipped from below.\<close>

definition dfl_stacksize :: "u32 option \<Rightarrow> u32" where
  "dfl_stacksize lim = (case lim of
     None \<Rightarrow> 2 * 1024 * 1024
   | Some cur \<Rightarrow> if cur < PTHREAD_STACK_MIN then PTHREAD_STACK_MIN else cur)"

definition pthread_dfl_attr :: "u32 option \<Rightarrow> pthread_attr" where
  "pthread_dfl_attr lim = \<lparr>at_stack = 0, at_stacksize = dfl_stacksize lim, at_guardsize = 0,
    at_flags = PTHREAD_CREATE_JOINABLE OR PTHREAD_INHERIT_SCHED,
    at_sched = \<lparr>sa_policy = SCHED_OTHER, sa_data = 0\<rparr>\<rparr>"

definition pthread_attr_init :: "pthread_attr \<Rightarrow> pthread_attr \<Rightarrow> ret \<times> pthread_attr" where
  "pthread_attr_init dfl a = (OK, dfl)"

definition pthread_attr_setstackaddr :: "pthread_attr \<Rightarrow> u32 \<Rightarrow> ret \<times> pthread_attr" where
  "pthread_attr_setstackaddr a stack = (OK, a\<lparr>at_stack := stack\<rparr>)"

definition pthread_attr_getstackaddr :: "pthread_attr \<Rightarrow> ret \<times> u32" where
  "pthread_attr_getstackaddr a = (OK, at_stack a)"

definition pthread_attr_setstacksize :: "pthread_attr \<Rightarrow> u32 \<Rightarrow> ret \<times> pthread_attr" where
  "pthread_attr_setstacksize a sz =
    (if sz < PTHREAD_STACK_MIN then (Err EINVAL, a) else (OK, a\<lparr>at_stacksize := sz\<rparr>))"

definition pthread_attr_getstacksize :: "pthread_attr \<Rightarrow> pthread_attr \<Rightarrow> ret \<times> u32" where
  "pthread_attr_getstacksize dfl a =
    (OK, if at_stacksize a \<noteq> 0 then at_stacksize a else at_stacksize dfl)"

definition pthread_attr_setstack :: "pthread_attr \<Rightarrow> u32 \<Rightarrow> u32 \<Rightarrow> ret \<times> pthread_attr" where
  "pthread_attr_setstack a stack sz =
    (if sz < PTHREAD_STACK_MIN then (Err EINVAL, a)
     else (OK, a\<lparr>at_stacksize := sz, at_stack := stack + sz\<rparr>))"

definition pthread_attr_getstack :: "pthread_attr \<Rightarrow> ret \<times> u32 \<times> u32" where
  "pthread_attr_getstack a = (OK, at_stack a - at_stacksize a, at_stacksize a)"

definition pthread_attr_setdetachstate :: "pthread_attr \<Rightarrow> u32 \<Rightarrow> ret \<times> pthread_attr" where
  "pthread_attr_setdetachstate a state =
    (if state \<noteq> PTHREAD_CREATE_JOINABLE \<and> state \<noteq> PTHREAD_CREATE_DETACHED then (Err EINVAL, a)
     else (OK, a\<lparr>at_flags := state OR
       (at_flags a AND NOT (PTHREAD_CREATE_DETACHED OR PTHREAD_CREATE_JOINABLE))\<rparr>))"

definition pthread_attr_getdetachstate :: "pthread_attr \<Rightarrow> ret \<times> u32" where
  "pthread_attr_getdetachstate a =
    (OK, at_flags a AND (PTHREAD_CREATE_DETACHED OR PTHREAD_CREATE_JOINABLE))"

definition pthread_attr_setguardsize :: "u32 \<Rightarrow> pthread_attr \<Rightarrow> u32 \<Rightarrow> ret \<times> pthread_attr" where
  "pthread_attr_setguardsize page a sz =
    (if sz < page then (Err EINVAL, a) else (OK, a\<lparr>at_guardsize := sz\<rparr>))"

definition pthread_attr_getguardsize :: "pthread_attr \<Rightarrow> ret \<times> u32" where
  "pthread_attr_getguardsize a = (OK, at_guardsize a)"

definition pthread_attr_setscope :: "pthread_attr \<Rightarrow> u32 \<Rightarrow> ret \<times> pthread_attr" where
  "pthread_attr_setscope a scope =
    (if scope = PTHREAD_SCOPE_PROCESS then Err ENOTSUP
     else if scope \<noteq> PTHREAD_SCOPE_SYSTEM then Err EINVAL else OK, a)"

definition pthread_attr_getscope :: "pthread_attr \<Rightarrow> ret \<times> u32" where
  "pthread_attr_getscope a = (OK, at_flags a AND (PTHREAD_SCOPE_PROCESS OR PTHREAD_SCOPE_SYSTEM))"

definition pthread_attr_setinheridsched :: "pthread_attr \<Rightarrow> u32 \<Rightarrow> ret \<times> pthread_attr" where
  "pthread_attr_setinheridsched a inh =
    (if inh = PTHREAD_EXPLICIT_SCHED then Err ENOTSUP
     else if inh \<noteq> PTHREAD_INHERIT_SCHED then Err EINVAL else OK, a)"

definition pthread_attr_getinheritsched :: "pthread_attr \<Rightarrow> ret \<times> u32" where
  "pthread_attr_getinheritsched a =
    (OK, at_flags a AND (PTHREAD_INHERIT_SCHED OR PTHREAD_EXPLICIT_SCHED))"

definition pthread_attr_setschedparam :: "pthread_attr \<Rightarrow> u32 \<Rightarrow> ret \<times> pthread_attr" where
  "pthread_attr_setschedparam a prio = (OK, a\<lparr>at_sched := (at_sched a)\<lparr>sa_data := prio\<rparr>\<rparr>)"

definition pthread_attr_getschedparam :: "pthread_attr \<Rightarrow> ret \<times> u32" where
  "pthread_attr_getschedparam a = (OK, sa_data (at_sched a))"

definition pthread_attr_setschedpolicy :: "pthread_attr \<Rightarrow> u32 \<Rightarrow> ret \<times> pthread_attr" where
  "pthread_attr_setschedpolicy a policy =
    (if policy = SCHED_FIFO \<or> policy = SCHED_RR then Err ENOTSUP
     else if policy \<noteq> SCHED_OTHER then Err EINVAL else OK, a)"

definition pthread_attr_getschedpolicy :: "pthread_attr \<Rightarrow> ret \<times> u32" where
  "pthread_attr_getschedpolicy a = (OK, sa_policy (at_sched a))"

definition pthread_attr_destroy :: "pthread_attr \<Rightarrow> ret \<times> pthread_attr" where
  "pthread_attr_destroy a = (OK, a)"

text \<open>The attributes of a thread, from its descriptor \<open>pt\<close> at address \<open>th\<close>.\<close>

definition pthread_getattr_np ::
  "pthread_attr \<Rightarrow> u32 \<Rightarrow> pthread \<Rightarrow> pthread_attr \<Rightarrow> ret \<times> pthread_attr" where
  "pthread_getattr_np dfl th pt a =
    (if th = 0 \<or> pt_id pt = 0 then (Err ESRCH, a)
     else (OK, a\<lparr>at_stacksize := pt_stacksize pt, at_stack := pt_stack pt + pt_stacksize pt,
       at_guardsize := pt_guardsize pt,
       at_flags := (if pt_joinpt pt = th then PTHREAD_CREATE_DETACHED else PTHREAD_CREATE_JOINABLE)
         OR PTHREAD_SCOPE_SYSTEM OR PTHREAD_INHERIT_SCHED,
       at_sched := at_sched dfl\<rparr>))"

subsection \<open>Properties\<close>

text \<open>
  Thread attributes: a stack that is set is read back, with its size; the detach state and the
  guard size too; sizes below the minimum and unknown values are refused without a change;
  and setting the detach state leaves scope and inheritance alone.
\<close>

theorem attr_roundtrip:
  "(case pthread_attr_setstack at stack sz of (r, at') \<Rightarrow>
      if sz < PTHREAD_STACK_MIN then r = Err EINVAL \<and> at' = at
      else r = OK \<and> pthread_attr_getstack at' = (OK, stack, sz) \<and>
        pthread_attr_getstacksize dfl at' = (OK, sz)) \<and>
    (case pthread_attr_setdetachstate at st of (r, at') \<Rightarrow>
      if st = PTHREAD_CREATE_JOINABLE \<or> st = PTHREAD_CREATE_DETACHED
      then r = OK \<and> pthread_attr_getdetachstate at' = (OK, st) \<and>
        pthread_attr_getscope at' = pthread_attr_getscope at \<and>
        pthread_attr_getinheritsched at' = pthread_attr_getinheritsched at
      else r = Err EINVAL \<and> at' = at) \<and>
    (case pthread_attr_setguardsize page at sz of (r, at') \<Rightarrow>
      if sz < page then r = Err EINVAL \<and> at' = at
      else r = OK \<and> pthread_attr_getguardsize at' = (OK, sz))"
proof -
  have d: "(st OR (x AND - 4)) AND 3 = st" "(st OR (x AND - 4)) AND 48 = x AND 48"
    "(st OR (x AND - 4)) AND 12 = x AND 12" if "st = 1 \<or> st = 2" for x :: u32
  proof -
    have 1: "(x AND - 4) AND 3 = 0" "(x AND - 4) AND 48 = x AND 48" "(x AND - 4) AND 12 = x AND 12"
      using and_not_and_same [of x 3] and_not_disjoint [of 3 48 x] and_not_disjoint [of 3 12 x]
      by simp_all
    have "(st OR y) AND 3 = st" if "y AND 3 = 0" for y :: u32
      using \<open>st = 1 \<or> st = 2\<close> that by (auto simp: bit.conj_disj_distrib2)
    moreover have "st AND 48 = 0" "st AND 12 = 0" using that by auto
    ultimately show "(st OR (x AND - 4)) AND 3 = st" "(st OR (x AND - 4)) AND 48 = x AND 48"
      "(st OR (x AND - 4)) AND 12 = x AND 12"
      using 1 by (simp_all add: bit.conj_disj_distrib2)
  qed
  have z: "sz \<noteq> 0" if "\<not> sz < (16384 :: u32)" using that by auto
  show ?thesis
    using d z by (auto simp: pthread_attr_setstack_def pthread_attr_getstack_def
        pthread_attr_getstacksize_def pthread_attr_setdetachstate_def pthread_attr_getdetachstate_def
        pthread_attr_setguardsize_def pthread_attr_getguardsize_def pthread_attr_getscope_def
        pthread_attr_getinheritsched_def)
qed

text \<open>
  The attributes that are read from a running thread describe its stack: its lowest address and
  its size are those of the descriptor, and the state is detached exactly when the thread is its own joiner.
\<close>

theorem getattr_np_stack:
  assumes "th \<noteq> 0" and "pt_id pt \<noteq> 0"
  shows "\<exists>at'. pthread_getattr_np dfl th pt at = (OK, at') \<and>
    pthread_attr_getstack at' = (OK, pt_stack pt, pt_stacksize pt) \<and>
    (pthread_attr_getdetachstate at' = (OK, PTHREAD_CREATE_DETACHED) \<longleftrightarrow> pt_joinpt pt = th)"
  using assms by (simp add: pthread_getattr_np_def pthread_attr_getstack_def
      pthread_attr_getdetachstate_def)

lemma getattr_np_stack_witness:
  "\<exists>at'. pthread_getattr_np (pthread_dfl_attr None) 4096
      (pthread0\<lparr>pt_id := 3, pt_stack := 65536, pt_stacksize := 32768\<rparr>) (pthread_dfl_attr None) = (OK, at') \<and>
    pthread_attr_getstack at' = (OK, 65536, 32768)"
  using getattr_np_stack [of 4096 "pthread0\<lparr>pt_id := 3, pt_stack := 65536, pt_stacksize := 32768\<rparr>"
      "pthread_dfl_attr None" "pthread_dfl_attr None"] by auto

end
