(* ===== verification/HurdList.thy ===== *)
theory HurdList
  imports Prelude
begin

text \<open>
  \<open>hurd/list.h\<close>: circular doubly linked lists that are embedded in other objects. The heap maps the address of
  a link to its two pointers, and every macro is its sequence of assignments, each seeing the ones
  before it.
\<close>

record hurd_list =
  l_prev :: u32
  l_next :: u32

type_synonym heap = "u32 \<Rightarrow> hurd_list"

definition set_prev :: "u32 \<Rightarrow> u32 \<Rightarrow> heap \<Rightarrow> heap" where
  "set_prev a v h = h(a := (h a)\<lparr>l_prev := v\<rparr>)"

definition set_next :: "u32 \<Rightarrow> u32 \<Rightarrow> heap \<Rightarrow> heap" where
  "set_next a v h = h(a := (h a)\<lparr>l_next := v\<rparr>)"

definition hurd_list_init :: "u32 \<Rightarrow> heap \<Rightarrow> heap" where
  "hurd_list_init lp h = set_next lp lp (set_prev lp lp h)"

definition hurd_list_empty_p :: "u32 \<Rightarrow> heap \<Rightarrow> bool" where
  "hurd_list_empty_p lp h \<longleftrightarrow> l_next (h lp) = lp"

definition hurd_list_add :: "u32 \<Rightarrow> u32 \<Rightarrow> u32 \<Rightarrow> heap \<Rightarrow> heap" where
  "hurd_list_add prevp nextp nodep h =
    (let h = set_prev nextp nodep h;
         h = set_next nodep nextp h;
         h = set_next prevp nodep h
     in set_prev nodep prevp h)"

definition hurd_list_add_head :: "u32 \<Rightarrow> u32 \<Rightarrow> heap \<Rightarrow> heap" where
  "hurd_list_add_head listp nodep h = hurd_list_add listp (l_next (h listp)) nodep h"

definition hurd_list_add_tail :: "u32 \<Rightarrow> u32 \<Rightarrow> heap \<Rightarrow> heap" where
  "hurd_list_add_tail listp nodep h = hurd_list_add (l_prev (h listp)) listp nodep h"

definition hurd_list_del :: "u32 \<Rightarrow> heap \<Rightarrow> heap" where
  "hurd_list_del nodep h =
    (let h = set_next (l_prev (h nodep)) (l_next (h nodep)) h
     in set_prev (l_next (h nodep)) (l_prev (h nodep)) h)"

text \<open>The nodes that \<open>hurd_list_each\<close> visits, from the node \<open>n\<close> on; \<open>None\<close> if it never gets back.\<close>

partial_function (option) walk :: "heap \<Rightarrow> u32 \<Rightarrow> u32 \<Rightarrow> u32 list option" where
  "walk h listp n =
    (if n = listp then Some []
     else Option.bind (walk h listp (l_next (h n))) (\<lambda>ns. Some (n # ns)))"

definition hurd_list_each :: "heap \<Rightarrow> u32 \<Rightarrow> u32 list option" where
  "hurd_list_each h listp = walk h listp (l_next (h listp))"

lemma in_set_tlD: "x \<in> set (tl xs) \<Longrightarrow> x \<in> set xs"
  by (cases xs) auto

subsection \<open>What a heap represents\<close>

text \<open>Neighbours point to each other all along \<open>ns\<close>.\<close>

fun linked :: "heap \<Rightarrow> u32 list \<Rightarrow> bool" where
  "linked h (a # b # ns) \<longleftrightarrow> l_next (h a) = b \<and> l_prev (h b) = a \<and> linked h (b # ns)"
| "linked h ns \<longleftrightarrow> True"

definition is_list :: "heap \<Rightarrow> u32 \<Rightarrow> u32 list \<Rightarrow> bool" where
  "is_list h lp xs \<longleftrightarrow> distinct (lp # xs) \<and> linked h (lp # xs @ [lp])"

lemma heap_sel [simp]:
  "l_prev (set_prev a v h b) = (if b = a then v else l_prev (h b))"
  "l_next (set_prev a v h b) = l_next (h b)"
  "l_next (set_next a v h b) = (if b = a then v else l_next (h b))"
  "l_prev (set_next a v h b) = l_prev (h b)"
  by (simp_all add: set_prev_def set_next_def)

lemma linked_append: "linked h (xs @ a # ys) \<longleftrightarrow> linked h (xs @ [a]) \<and> linked h (a # ys)"
proof (induction xs)
  case (Cons x xs)
  then show ?case by (cases xs) auto
qed simp

lemma linked_cong:
  assumes "\<And>x. x \<in> set (butlast ns) \<Longrightarrow> l_next (h' x) = l_next (h x)"
    and "\<And>x. x \<in> set (tl ns) \<Longrightarrow> l_prev (h' x) = l_prev (h x)"
  shows "linked h' ns = linked h ns"
  using assms
proof (induction ns rule: linked.induct [of _ h])
  case (1 a b ns)
  then show ?case by (cases ns) auto
qed auto

text \<open>Linking a fresh node between two neighbours, and unlinking one; ends may coincide.\<close>

lemma linked_add:
  assumes "linked h (us @ [p, q] @ vs)" and "distinct (butlast (us @ [p, q] @ vs))"
    and "distinct (tl (us @ [p, q] @ vs))" and "n \<notin> set (us @ [p, q] @ vs)"
  shows "linked (hurd_list_add p q n h) (us @ [p, n, q] @ vs)"
proof -
  let ?h = "hurd_list_add p q n h"
  from assms(1) have l: "linked h (us @ [p])" "linked h (q # vs)"
    using linked_append [of h us p "q # vs"] linked_append [of h "[p]" q vs] by auto
  have b: "p \<notin> set us" "p \<notin> set (butlast (q # vs))"
    using assms(2) by (auto simp: butlast_append split: if_splits)
  have t: "q \<notin> set vs" "q \<notin> set (tl (us @ [p]))"
    using assms(3) by (cases us; auto)+
  have "linked ?h (us @ [p]) = linked h (us @ [p])"
    by (rule linked_cong) (use assms(4) b t in \<open>auto simp: hurd_list_add_def Let_def dest: in_set_tlD\<close>)
  moreover have "linked ?h (q # vs) = linked h (q # vs)"
    by (rule linked_cong) (use assms(4) b t in \<open>auto simp: hurd_list_add_def Let_def
        split: if_splits dest: in_set_butlastD\<close>)
  moreover have "linked ?h [p, n, q]"
    using assms(4) by (auto simp: hurd_list_add_def Let_def)
  ultimately show ?thesis
    using l linked_append [of ?h us p "[n, q] @ vs"] linked_append [of ?h "[p, n]" q vs] by simp
qed

lemma linked_del:
  assumes "linked h (us @ [p, n, q] @ vs)" and "distinct (butlast (us @ [p, n, q] @ vs))"
    and "distinct (tl (us @ [p, n, q] @ vs))" and "n \<noteq> p" and "n \<noteq> q"
  shows "linked (hurd_list_del n h) (us @ [p, q] @ vs)"
proof -
  let ?h = "hurd_list_del n h"
  from assms(1) have l: "linked h (us @ [p])" "linked h [p, n, q]" "linked h (q # vs)"
    using linked_append [of h us p "[n, q] @ vs"] linked_append [of h "[p, n]" q vs] by auto
  have b: "p \<notin> set us" "p \<notin> set (butlast (q # vs))"
    using assms(2) by (auto simp: butlast_append split: if_splits)
  have t: "q \<notin> set vs" "q \<notin> set (tl (us @ [p]))"
    using assms(3) by (cases us; auto)+
  have "linked ?h (us @ [p]) = linked h (us @ [p])"
    by (rule linked_cong) (use l b t assms(4,5) in \<open>auto simp: hurd_list_del_def Let_def\<close>)
  moreover have "linked ?h (q # vs) = linked h (q # vs)"
    by (rule linked_cong) (use l b t assms(4,5) in \<open>auto simp: hurd_list_del_def Let_def\<close>)
  moreover have "linked ?h [p, q]"
    using l(2) assms(4,5) by (auto simp: hurd_list_del_def Let_def)
  ultimately show ?thesis
    using l linked_append [of ?h us p "q # vs"] linked_append [of ?h "[p]" q vs] by simp
qed

lemma cycle_distinct:
  assumes "distinct (lp # xs)"
  shows "distinct (butlast (lp # xs @ [lp]))" and "distinct (tl (lp # xs @ [lp]))"
  using assms by (auto simp: butlast_append)

text \<open>The last node before the list head, and the first one after it.\<close>

lemma cycle_last:
  obtains us p where "lp # xs = us @ [p]" and "lp # xs @ zs = us @ p # zs"
proof -
  obtain us p where e: "lp # xs = us @ [p]" by (cases "lp # xs" rule: rev_cases) auto
  have "lp # xs @ zs = (lp # xs) @ zs" by simp
  also have "\<dots> = us @ p # zs" by (simp only: e append.assoc append.simps)
  finally show thesis using that e by blast
qed

lemma is_list_prev:
  assumes "is_list h lp xs" and "lp # xs = us @ [p]"
  shows "l_prev (h lp) = p"
proof -
  have "lp # xs @ [lp] = (lp # xs) @ [lp]" by simp
  also have "\<dots> = us @ [p, lp]" by (simp only: assms(2) append.assoc append.simps)
  finally have e: "lp # xs @ [lp] = us @ [p, lp]" .
  have "linked h (us @ [p, lp])" using assms(1) unfolding is_list_def e by simp
  then show ?thesis using linked_append [of h us p "[lp]"] by simp
qed

lemma is_list_next: "is_list h lp xs \<Longrightarrow> xs @ [lp] = q # vs \<Longrightarrow> l_next (h lp) = q"
  by (cases xs) (auto simp: is_list_def)

lemma is_list_init: "is_list (hurd_list_init lp h) lp []"
  by (simp add: is_list_def hurd_list_init_def)

lemma is_list_add_head:
  assumes "is_list h lp xs" and "n \<notin> set (lp # xs)"
  shows "is_list (hurd_list_add_head lp n h) lp (n # xs)"
proof -
  obtain q vs where q: "xs @ [lp] = q # vs" by (cases xs) auto
  have d: "distinct (lp # xs)" "linked h (lp # xs @ [lp])" using assms(1) by (simp_all add: is_list_def)
  have "linked (hurd_list_add lp q n h) ([] @ [lp, n, q] @ vs)"
  proof (rule linked_add)
    show "n \<notin> set ([] @ [lp, q] @ vs)" using assms(2) arg_cong [OF q, of set] by auto
  qed (use d cycle_distinct [OF d(1)] q in simp_all)
  then show ?thesis
    using assms(2) d(1) is_list_next [OF assms(1) q] by (auto simp: is_list_def hurd_list_add_head_def q)
qed

lemma is_list_add_tail:
  assumes "is_list h lp xs" and "n \<notin> set (lp # xs)"
  shows "is_list (hurd_list_add_tail lp n h) lp (xs @ [n])"
proof -
  obtain us p where u: "lp # xs = us @ [p]" by (rule cycle_last)
  have e: "lp # xs @ zs = us @ p # zs" for zs
    using u by (metis append.assoc append_Cons append_Nil)
  have d: "distinct (lp # xs)" "linked h (lp # xs @ [lp])" using assms(1) by (simp_all add: is_list_def)
  have c: "us @ [p, lp] @ [] = lp # xs @ [lp]" using e [of "[lp]"] by simp
  have "linked (hurd_list_add p lp n h) (us @ [p, n, lp] @ [])"
    by (rule linked_add; unfold c) (use d cycle_distinct [OF d(1)] assms(2) in auto)
  moreover have "us @ [p, n, lp] @ [] = lp # (xs @ [n]) @ [lp]" using e [of "[n, lp]"] by simp
  ultimately have "linked (hurd_list_add p lp n h) (lp # (xs @ [n]) @ [lp])" by (simp only:)
  then show ?thesis
    using assms(2) d(1) is_list_prev [OF assms(1) u]
    unfolding is_list_def hurd_list_add_tail_def by auto
qed

lemma is_list_del:
  assumes "is_list h lp (xs @ n # ys)"
  shows "is_list (hurd_list_del n h) lp (xs @ ys)"
proof -
  obtain us p where u: "lp # xs = us @ [p]" by (rule cycle_last)
  have e: "lp # xs @ zs = us @ p # zs" for zs
    using u by (metis append.assoc append_Cons append_Nil)
  obtain q vs where q: "ys @ [lp] = q # vs" by (cases ys) auto
  have d: "distinct (lp # xs @ n # ys)" "linked h (lp # (xs @ n # ys) @ [lp])"
    using assms by (simp_all add: is_list_def)
  have "p \<in> set (lp # xs)" "q \<in> set (ys @ [lp])" by (simp_all only: u q) simp_all
  with d(1) have ne: "n \<noteq> p" "n \<noteq> q" by auto
  have c: "us @ [p, n, q] @ vs = lp # (xs @ n # ys) @ [lp]" using e [of "n # q # vs"] q by simp
  have "linked (hurd_list_del n h) (us @ [p, q] @ vs)"
    by (rule linked_del [OF _ _ _ ne]; unfold c) (use d(2) cycle_distinct [OF d(1)] in simp_all)
  moreover have "us @ [p, q] @ vs = lp # (xs @ ys) @ [lp]" using e [of "q # vs"] q by simp
  ultimately have "linked (hurd_list_del n h) (lp # (xs @ ys) @ [lp])" by (simp only:)
  then show ?thesis using d(1) unfolding is_list_def by simp
qed

lemma walk_linked:
  assumes "linked h (n # ns @ [lp])" and "lp \<notin> set (n # ns)"
  shows "walk h lp n = Some (n # ns)"
  using assms
proof (induction ns arbitrary: n)
  case Nil
  then show ?case by (simp add: walk.simps [of h lp n] walk.simps [of h lp lp])
next
  case (Cons m ns)
  then show ?case by (auto simp: walk.simps [of h lp n])
qed

lemma is_list_each:
  assumes "is_list h lp xs"
  shows "hurd_list_each h lp = Some xs"
proof (cases xs)
  case Nil
  with assms show ?thesis by (simp add: is_list_def hurd_list_each_def walk.simps [of h lp lp])
next
  case (Cons n ns)
  with assms show ?thesis by (auto simp: is_list_def hurd_list_each_def intro: walk_linked)
qed

subsection \<open>Properties\<close>

text \<open>
  C27. The list macros implement lists: after the initialisation the list is empty; adding at the head
  or the tail and deleting a node represent consing, appending and removing it, wherever
  the node is and also when neighbours coincide.
\<close>

theorem hurd_list_correct:
  "is_list (hurd_list_init lp h) lp [] \<and>
    (is_list h lp xs \<and> n \<notin> set (lp # xs) \<longrightarrow>
      is_list (hurd_list_add_head lp n h) lp (n # xs) \<and>
      is_list (hurd_list_add_tail lp n h) lp (xs @ [n])) \<and>
    (is_list h lp (xs @ n # ys) \<longrightarrow> is_list (hurd_list_del n h) lp (xs @ ys))"
  using is_list_init is_list_add_head is_list_add_tail is_list_del by blast

lemma hurd_list_correct_witness:
  "is_list (hurd_list_del 8 (hurd_list_add_tail 4 12 (hurd_list_add_head 4 8
      (hurd_list_init 4 (\<lambda>_. \<lparr>l_prev = 0, l_next = 0\<rparr>))))) 4 [12]"
proof -
  let ?h0 = "hurd_list_init 4 (\<lambda>_. \<lparr>l_prev = 0, l_next = 0\<rparr>)"
  have "is_list ?h0 4 []" using hurd_list_correct by blast
  then have "is_list (hurd_list_add_head 4 8 ?h0) 4 [8]"
    using hurd_list_correct [where lp = 4 and h = ?h0 and xs = "[]" and n = 8] by simp
  then have "is_list (hurd_list_add_tail 4 12 (hurd_list_add_head 4 8 ?h0)) 4 [8, 12]"
    using hurd_list_correct [where lp = 4 and h = "hurd_list_add_head 4 8 ?h0" and xs = "[8]" and n = 12] by simp
  then show ?thesis
    using hurd_list_correct [where lp = 4 and xs = "[]" and n = 8 and ys = "[12]"
        and h = "hurd_list_add_tail 4 12 (hurd_list_add_head 4 8 ?h0)"]
    by simp
qed

text \<open>
  Going round a list terminates and visits its nodes in order, each of them once; the test for
  emptiness is right.
\<close>

theorem hurd_list_each_visits:
  assumes "is_list h lp xs"
  shows "hurd_list_each h lp = Some xs \<and> distinct xs \<and> (hurd_list_empty_p lp h \<longleftrightarrow> xs = [])"
  using is_list_each [OF assms] assms
  by (cases xs) (auto simp: is_list_def hurd_list_empty_p_def)

lemma hurd_list_each_visits_witness:
  "hurd_list_each (hurd_list_init 4 (\<lambda>_. \<lparr>l_prev = 0, l_next = 0\<rparr>)) 4 = Some []"
  using hurd_list_each_visits [OF is_list_init, of 4] by blast

end
