(* ===== verification/Create.thy ===== *)
theory Create
  imports Specific Attr HurdList
begin

text \<open>
  \<open>pthread/create.c\<close>: the birth and the death of a thread. The library's global variables and the memory
  of descriptors, list links and thread control blocks are the cells of one record. A list link is the
  second word of a descriptor, and the first word of an unused control block is the next one in the free list.
\<close>

record 's rtl =
  g_desc :: "u32 \<Rightarrow> ('s, pthread) cell"
  g_tsd :: "u32 \<Rightarrow> 's tsd"
  g_links :: "('s, heap) cell"
  g_running :: u32
  g_running_lock :: "('s, u32) cell"
  g_id_counter :: "('s, u32) cell"
  g_total :: "('s, u32) cell"
  g_mtflag :: "('s, u32) cell"
  g_tls_list :: "('s, u32) cell"
  g_tcb_next :: "u32 \<Rightarrow> ('s, u32) cell"
  g_dfl_attr :: "('s, pthread_attr) cell"

text \<open>
  What the build and the target fix: \<open>vm_page_size\<close>, the size and the alignment of \<open>struct pthread\<close>
  (which contains the C library's resolver state), and the address of \<open>thread_entry\<close>.
\<close>

record target =
  vm_page_size :: u32
  sizeof_pthread :: u32
  alignof_pthread :: u32
  thread_entry_addr :: u32

definition pt_link :: "u32 \<Rightarrow> u32" where
  "pt_link pt = pt + 4"

subsection \<open>Thread control blocks\<close>

text \<open>
  \<open>alloc_tls\<close> answers whether it succeeded. \<open>SETUP_TCB\<close> links the block back to the descriptor; that is
  what \<open>PTHREAD_SELF\<close> reads, which is the argument of the functions here.
\<close>

definition alloc_tls :: "'s rtl \<Rightarrow> u32 \<Rightarrow> ('s, bool) prog" where
  [code_defs]: "alloc_tls g pt =
    bind (loop (\<lambda>_.
      bind (load (g_tls_list g)) (\<lambda>tcb.
      bind (store (pth_tcb (g_desc g pt)) tcb) (\<lambda>_.
      if tcb = 0 then leave ()
      else
        bind (load (g_tcb_next g tcb)) (\<lambda>next.
        bind (atomic_cas_bool (g_tls_list g) tcb next) (\<lambda>ok.
        if ok then leave () else again ()))))) ()) (\<lambda>_.
    bind (load (pth_tcb (g_desc g pt))) (\<lambda>tcb.
    bind (sys (Lib ''_dl_allocate_tls'' [Word tcb])) (\<lambda>r.
    bind (store (pth_tcb (g_desc g pt)) (r_val r)) (\<lambda>_.
    Ret (r_val r \<noteq> 0)))))"

definition dealloc_tls :: "'s rtl \<Rightarrow> u32 \<Rightarrow> ('s, unit) prog" where
  [code_defs]: "dealloc_tls g pt =
    bind (load (pth_tcb (g_desc g pt))) (\<lambda>tcb.
    bind (sys (Lib ''_dl_deallocate_tls'' [Word tcb, Word 0])) (\<lambda>_.
    bind (loop (\<lambda>_.
      bind (load (g_tls_list g)) (\<lambda>tmp.
      bind (load (pth_tcb (g_desc g pt))) (\<lambda>tcb.
      bind (store (g_tcb_next g tcb) tmp) (\<lambda>_.
      bind (load (pth_tcb (g_desc g pt))) (\<lambda>tcb.
      bind (atomic_cas_bool (g_tls_list g) tmp tcb) (\<lambda>ok.
      if ok then leave () else again ())))))) ()) (\<lambda>_.
    store (pth_tcb (g_desc g pt)) 0)))"

subsection \<open>Stacks\<close>

definition roundup_page :: "u32 \<Rightarrow> u32 \<Rightarrow> u32" where
  "roundup_page page sz = (sz + page - 1) AND NOT (page - 1)"

definition vm_deallocate :: "u32 \<Rightarrow> u32 \<Rightarrow> ('s, unit) prog" where
  [code_defs]: "vm_deallocate addr tot =
    bind (sys (Lib ''vm_deallocate'' [Port MachTaskSelf, Word addr, Word tot])) (\<lambda>_. Ret ())"

definition free_stack :: "('s, pthread) cell \<Rightarrow> ('s, unit) prog" where
  [code_defs]: "free_stack pt =
    bind (load (pth_flags pt)) (\<lambda>flags.
    if flags AND PT_FLG_USR_STACK \<noteq> 0 then Ret ()
    else
      bind (load (pth_stacksize pt)) (\<lambda>sz.
      bind (load (pth_guardsize pt)) (\<lambda>gsz.
      bind (load (pth_stack pt)) (\<lambda>stack.
      vm_deallocate (stack - gsz) (sz + gsz)))))"

text \<open>Map a stack with its guard; the result is its end and its two sizes.\<close>

definition map_stack :: "target \<Rightarrow> u32 \<Rightarrow> u32 \<Rightarrow> ('s, (u32 \<times> u32 \<times> u32) option) prog" where
  [code_defs]: "map_stack tg sz guardsize =
    (let sz = roundup_page (vm_page_size tg) sz;
         guardsize = (if guardsize \<noteq> 0 then roundup_page (vm_page_size tg) guardsize else guardsize);
         tot = sz + guardsize
     in bind (sys (Lib ''vm_map'' [Port MachTaskSelf, Word tot])) (\<lambda>r.
        if r_code r \<noteq> 0 then Ret None
        else
          let stack = r_val r in
          bind (if guardsize \<noteq> 0 then
                  bind (sys (Lib ''vm_protect'' [Port MachTaskSelf, Word stack, Word guardsize])) (\<lambda>p.
                  Ret (r_code p = 0))
                else Ret True) (\<lambda>ok.
          if ok then Ret (Some (stack + tot, sz, guardsize))
          else bind (vm_deallocate stack tot) (\<lambda>_. Ret None))))"

text \<open>A descriptor at \<open>pt\<close> in zeroed memory: the kernel's fresh pages, or the \<open>memset\<close> on a user's stack.\<close>

definition zero_pthread :: "'s rtl \<Rightarrow> u32 \<Rightarrow> 's \<Rightarrow> 's" where
  "zero_pthread g pt s =
    fold (\<lambda>i. c_put (td_specific (g_tsd g pt) i) 0) [0..<PTHREAD_KEY_L1_SIZE]
      (zero_block (g_tsd g pt) (td_blk1 (g_tsd g pt)) (c_put (g_desc g pt) pthread0 s))"

definition pt_place :: "target \<Rightarrow> u32 \<Rightarrow> u32" where
  "pt_place tg stack = (stack - sizeof_pthread tg) AND NOT (alignof_pthread tg - 1)"

definition pt_init :: "'s rtl \<Rightarrow> pthread_attr \<Rightarrow> u32 \<Rightarrow> u32 \<Rightarrow> u32 \<Rightarrow> u32 \<Rightarrow> ('s, unit) prog" where
  [code_defs]: "pt_init g attrp pt stack sz guardsize =
    bind (Act (zero_pthread g pt) (\<lambda>_. Ret ())) (\<lambda>_.
    bind (if at_stack attrp \<noteq> 0 then
            bind (load (pth_flags (g_desc g pt))) (\<lambda>flags.
            store (pth_flags (g_desc g pt)) (flags OR PT_FLG_USR_STACK))
          else Ret ()) (\<lambda>_.
    bind (store (pth_stacksize (g_desc g pt)) sz) (\<lambda>_.
    bind (store (pth_stack (g_desc g pt)) (stack - sz)) (\<lambda>_.
    bind (store (pth_guardsize (g_desc g pt)) guardsize) (\<lambda>_.
    bind (store (pth_id (g_desc g pt)) PTHREAD_INVALID_ID) (\<lambda>_.
    bind (store (td_specific (g_tsd g pt) 0) (td_blk1 (g_tsd g pt))) (\<lambda>_.
    if at_flags attrp AND PTHREAD_CREATE_DETACHED \<noteq> 0 then store (pth_joinpt (g_desc g pt)) pt
    else Ret ())))))))"

text \<open>
  The kernel thread and what belongs to it. Each failure undoes the steps before it, in reverse; the
  result says whether all of it worked.
\<close>

definition pt_kthread :: "'s rtl \<Rightarrow> u32 \<Rightarrow> ('s, bool) prog" where
  [code_defs]: "pt_kthread g pt =
    (let fail_kthread = bind (free_stack (g_desc g pt)) (\<lambda>_. Ret False) in
     bind (sys (Lib ''thread_create'' [Port MachTaskSelf])) (\<lambda>r.
     if r_code r \<noteq> 0 then fail_kthread
     else
       let ktid = r_port r;
           fail_sigstate = bind (sys (Lib ''thread_terminate'' [Port ktid])) (\<lambda>_. fail_kthread);
           fail_tls = bind (sys (Lib ''_hurd_sigstate_delete'' [Port ktid])) (\<lambda>_. fail_sigstate) in
       bind (sys (Lib ''_hurd_thread_sigstate'' [Port ktid])) (\<lambda>r.
       let stp = r_val r in
       if stp = 0 then fail_sigstate
       else bind (alloc_tls g pt) (\<lambda>ok.
         if \<not> ok then fail_tls
         else
           bind (store (pth_sigstate (g_desc g pt)) stp) (\<lambda>_.
           bind (store (pth_sig (g_desc g pt))
             \<lparr>ss_thread = ktid, ss_intr_port = MACH_PORT_NULL, ss_blocked = 0\<rparr>) (\<lambda>_. Ret True))))))"

text \<open>The new descriptor, or 0.\<close>

definition pt_allocate :: "'s rtl \<Rightarrow> target \<Rightarrow> pthread_attr \<Rightarrow> ('s, u32) prog" where
  [code_defs]: "pt_allocate g tg attrp =
    bind (load (g_dfl_attr g)) (\<lambda>dfl.
    let stack = at_stack attrp;
        sz = (if at_stacksize attrp \<noteq> 0 then at_stacksize attrp else at_stacksize dfl);
        guardsize = at_guardsize attrp in
    bind (if stack = 0 then map_stack tg sz guardsize else Ret (Some (stack, sz, guardsize))) (\<lambda>m.
    case m of
      None \<Rightarrow> Ret 0
    | Some (stack, sz, guardsize) \<Rightarrow>
        let pt = pt_place tg stack in
        bind (pt_init g attrp pt stack sz guardsize) (\<lambda>_.
        bind (pt_kthread g pt) (\<lambda>ok. Ret (if ok then pt else 0)))))"


subsection \<open>The life of a thread\<close>

text \<open>
  The end of the process takes the place of the end of the thread in the last one; neither call returns.
\<close>

definition released_stack :: "('s, pthread) cell \<Rightarrow> bool \<Rightarrow> ('s, u32 \<times> u32 \<times> u32) prog" where
  [code_defs]: "released_stack d detached_p =
    (if \<not> detached_p then Ret (0, 0, c_addr (pth_id d))
     else
       bind (load (pth_flags d)) (\<lambda>flags.
       if flags AND PT_FLG_USR_STACK = 0 then
         bind (load (pth_stacksize d)) (\<lambda>sz.
         bind (load (pth_guardsize d)) (\<lambda>gsz.
         bind (load (pth_stack d)) (\<lambda>stack.
         bind (load (pth_guardsize d)) (\<lambda>gsz'.
         Ret (stack - gsz', sz + gsz, 0)))))
       else Ret (0, 0, 0)))"

definition terminate_self :: "'s rtl \<Rightarrow> u32 \<Rightarrow> bool \<Rightarrow> ('s, unit) prog" where
  [code_defs]: "terminate_self g pt detached_p =
    (let d = g_desc g pt in
     bind (load (pth_kport d)) (\<lambda>ktid.
     bind (sys MigGetReplyPort) (\<lambda>r.
     bind (sys (Lib ''_hurd_sigstate_delete'' [Port ktid])) (\<lambda>_.
     bind (store (pth_sigstate d) 0) (\<lambda>_.
     bind (released_stack d detached_p) (\<lambda>(stack, sz, death_ev).
     bind (dealloc_tls g pt) (\<lambda>_.
     bind (thread_terminate_release2 ktid MachTaskSelf ktid (r_port r) stack sz death_ev) (\<lambda>_.
     Ret ()))))))))"

definition pthread_cleanup :: "'s rtl \<Rightarrow> u32 \<Rightarrow> ('s, unit) prog" where
  [code_defs]: "pthread_cleanup g pt =
    (let d = g_desc g pt in
     bind (load (pth_joinpt d)) (\<lambda>joinpt.
     let detached_p = (joinpt = pt) in
     bind (atomic_or (pth_flags d) PT_FLG_EXITING) (\<lambda>_.
     bind (lll_lock (g_running_lock g) 0) (\<lambda>_.
     bind (Act (\<lambda>s. c_put (g_links g) (hurd_list_del (pt_link pt) (c_get (g_links g) s)) s) (\<lambda>_. Ret ())) (\<lambda>_.
     bind (lll_unlock (g_running_lock g) 0) (\<lambda>_.
     bind (sys (Lib ''__call_tls_dtors'' [])) (\<lambda>_.
     bind (sys (Lib ''__libc_thread_freeres'' [])) (\<lambda>_.
     bind (dealloc_tsd (g_tsd g pt)) (\<lambda>_.
     bind (atomic_add (g_total g) (- 1)) (\<lambda>tot.
     if tot = 1 then bind (sys (Lib ''exit'' [Word 0])) (\<lambda>_. Ret ())
     else terminate_self g pt detached_p))))))))))"

text \<open>
  The start routine is user code; it may also end the thread by unwinding (\<open>r_cancelled\<close>), and then
  \<open>pthread_exit\<close> has stored the result.
\<close>

definition thread_entry :: "'s rtl \<Rightarrow> u32 \<Rightarrow> ('s, unit) prog" where
  [code_defs]: "thread_entry g pt =
    (let d = g_desc g pt in
     bind (lll_lock (g_running_lock g) 0) (\<lambda>_.
     bind (Act (\<lambda>s. c_put (g_links g) (hurd_list_add_tail (g_running g) (pt_link pt) (c_get (g_links g) s)) s)
       (\<lambda>_. Ret ())) (\<lambda>_.
     bind (load (g_id_counter g)) (\<lambda>counter.
     bind (store (g_id_counter g) (counter + 1)) (\<lambda>_.
     bind (store (pth_id d) ((counter + 1) AND PTHREAD_ID_MASK)) (\<lambda>_.
     bind (lll_unlock (g_running_lock g) 0) (\<lambda>_.
     bind (sys (Lib ''__ctype_init'' [])) (\<lambda>_.
     bind (sys (Lib ''uselocale'' [])) (\<lambda>_.
     bind (load (pth_sigstate d)) (\<lambda>stp.
     bind (sys (Lib ''_hurd_sigstate_set_global_rcv'' [Word stp])) (\<lambda>_.
     bind (load (pth_start_fct d)) (\<lambda>start_fct.
     bind (load (pth_argp d)) (\<lambda>argp.
     bind (sys (Callback start_fct argp)) (\<lambda>r.
     bind (if r_cancelled r then bind (pthread_exit d (r_val r) :: ('s, unit unwinding) prog) (\<lambda>_. Ret ())
           else store (pth_retval d) (r_val r)) (\<lambda>_.
     pthread_cleanup g pt)))))))))))))))"

text \<open>
  \<open>__pthread_set_machine_state\<close> points the new thread at \<open>thread_entry\<close>, with its stack below the
  descriptor, where its argument and a return address are. \<open>__pthread_set_ctx\<close> reads the registers,
  installs the segment of the TCB and writes the registers back.
\<close>

definition set_ctx :: "mport \<Rightarrow> u32 \<Rightarrow> u32 \<Rightarrow> u32 \<Rightarrow> ('s, bool) prog" where
  [code_defs]: "set_ctx ktid ip sp tp =
    bind (sys (Lib ''thread_get_state'' [Port ktid])) (\<lambda>r.
    if r_code r \<noteq> 0 then Ret False
    else
      bind (sys (Lib ''set_tls_descriptor'' [Port ktid, Word tp])) (\<lambda>r.
      if r_code r \<noteq> 0 then Ret False
      else
        bind (sys (Lib ''thread_set_state'' [Port ktid, Word ip, Word sp])) (\<lambda>r.
        Ret (r_code r = 0))))"

definition set_machine_state :: "'s rtl \<Rightarrow> u32 \<Rightarrow> u32 \<Rightarrow> ('s, bool) prog" where
  [code_defs]: "set_machine_state g pt entry =
    (let up = pt AND NOT 15 in
     bind (load (pth_kport (g_desc g pt))) (\<lambda>ktid.
     bind (load (pth_tcb (g_desc g pt))) (\<lambda>tcb.
     set_ctx ktid entry (up - 8) tcb)))"

text \<open>The result and what is stored through \<open>ptp\<close>; \<open>parent\<close> is the calling thread.\<close>

definition pthread_create ::
  "'s rtl \<Rightarrow> target \<Rightarrow> u32 \<Rightarrow> pthread_attr option \<Rightarrow> u32 \<Rightarrow> u32 \<Rightarrow> ('s, ret \<times> u32) prog" where
  [code_defs]: "pthread_create g tg parent attrp start_fct argp =
    bind (case attrp of None \<Rightarrow> load (g_dfl_attr g) | Some a \<Rightarrow> Ret a) (\<lambda>attrp.
    bind (pt_allocate g tg attrp) (\<lambda>pt.
    if pt = 0 then Ret (Err EAGAIN, 0)
    else
      let d = g_desc g pt; pd = g_desc g parent in
      bind (store (pth_start_fct d) start_fct) (\<lambda>_.
      bind (store (pth_argp d) argp) (\<lambda>_.
      bind (if parent = 0 then Ret 0 else load (pth_sigstate pd)) (\<lambda>stp.
      bind (if stp \<noteq> 0 then
              bind (sys (Lib ''__spin_lock'' [Word stp])) (\<lambda>_.
              bind (load (pth_blocked pd)) (\<lambda>blocked.
              bind (store (pth_blocked d) blocked) (\<lambda>_.
              bind (sys (Lib ''__spin_unlock'' [Word stp])) (\<lambda>_. Ret ()))))
            else store (pth_blocked d) 0) (\<lambda>_.
      bind (atomic_add (g_total g) 1) (\<lambda>_.
      bind (set_machine_state g pt (thread_entry_addr tg)) (\<lambda>ok.
      if \<not> ok then
        bind (load (pth_kport d)) (\<lambda>ktid.
        bind (sys (Lib ''_hurd_sigstate_delete'' [Port ktid])) (\<lambda>_.
        bind (dealloc_tls g pt) (\<lambda>_.
        bind (sys (Lib ''thread_terminate'' [Port ktid])) (\<lambda>_.
        bind (free_stack d) (\<lambda>_.
        bind (atomic_add (g_total g) (- 1)) (\<lambda>_.
        Ret (Err EAGAIN, 0)))))))
      else
        bind (atomic_store (g_mtflag g) 1) (\<lambda>_.
        bind (load (pth_kport d)) (\<lambda>ktid.
        bind (sys (Lib ''thread_resume'' [Port ktid])) (\<lambda>_.
        Ret (OK, pt))))))))))))"

definition pthread_deallocate :: "('s, pthread) cell \<Rightarrow> ('s, unit) prog" where
  [code_defs]: "pthread_deallocate pt =
    bind (atomic_or (pth_flags pt) PT_FLG_TERMINATED) (\<lambda>flags.
    if flags AND PT_FLG_TERMINATED = 0 then free_stack pt else Ret ())"

text \<open>The walk over the running threads, without a lock: the child after \<open>fork\<close> has one thread.\<close>

definition pthread_free_stacks :: "'s rtl \<Rightarrow> u32 \<Rightarrow> ('s, unit) prog" where
  [code_defs]: "pthread_free_stacks g self =
    bind (load (g_links g)) (\<lambda>h.
    loop (\<lambda>runp.
      if runp = g_running g then leave ()
      else
        let pt = runp - 4 in
        bind (if pt = self then Ret ()
              else bind (dealloc_tls g pt) (\<lambda>_. free_stack (g_desc g pt))) (\<lambda>_.
        bind (load (g_links g)) (\<lambda>h. again (l_next (h runp))))) (l_next (h (g_running g))))"

end
