(* ===== verification/AtFork.thy ===== *)
theory AtFork
  imports Create
begin

text \<open>
  \<open>pthread/fork.c\<close>: the handlers around \<open>fork\<close>. They form a chain that is not circular, new ones in front; the
  pointer to the oldest is kept apart. The C library's \<open>fork\<close> calls the three hooks.
\<close>

record atfork =
  af_prepare :: u32
  af_parent :: u32
  af_child :: u32
  af_dso :: u32
  af_prev :: u32
  af_next :: u32

abbreviation (input) atfork_size :: u32 where "atfork_size \<equiv> 24"

text \<open>What the functions reach: the nodes by their addresses, the three static variables, and \<open>__pthread_concurrency\<close>.\<close>

record 's atforks =
  fk_node :: "u32 \<Rightarrow> ('s, atfork) cell"
  fk_handlers :: "('s, u32) cell"
  fk_last :: "('s, u32) cell"
  fk_lock :: "('s, u32) cell"
  fk_concurrency :: "('s, u32) cell"

definition fkn_prepare :: "('s, atfork) cell \<Rightarrow> ('s, u32) cell" where
  [code_defs]: "fkn_prepare = field 0 af_prepare af_prepare_update"
definition fkn_parent :: "('s, atfork) cell \<Rightarrow> ('s, u32) cell" where
  [code_defs]: "fkn_parent = field 4 af_parent af_parent_update"
definition fkn_child :: "('s, atfork) cell \<Rightarrow> ('s, u32) cell" where
  [code_defs]: "fkn_child = field 8 af_child af_child_update"
definition fkn_dso :: "('s, atfork) cell \<Rightarrow> ('s, u32) cell" where
  [code_defs]: "fkn_dso = field 12 af_dso af_dso_update"
definition fkn_prev :: "('s, atfork) cell \<Rightarrow> ('s, u32) cell" where
  [code_defs]: "fkn_prev = field 16 af_prev af_prev_update"
definition fkn_next :: "('s, atfork) cell \<Rightarrow> ('s, u32) cell" where
  [code_defs]: "fkn_next = field 20 af_next af_next_update"

text \<open>\<open>if (p != NULL) p ();\<close>\<close>

definition call_handler :: "('s, u32) cell \<Rightarrow> ('s, unit) prog" where
  [code_defs]: "call_handler fp =
    bind (load fp) (\<lambda>p.
    if p \<noteq> 0 then bind (load fp) (\<lambda>p. bind (sys (Callback p 0)) (\<lambda>_. Ret ())) else Ret ())"

subsection \<open>The hooks\<close>

text \<open>From the oldest handler forwards; the lock on the running threads is kept until after the \<open>fork\<close>.\<close>

definition pt_atfork_prepare :: "'s atforks \<Rightarrow> ('s, u32) cell \<Rightarrow> ('s, unit) prog" where
  [code_defs]: "pt_atfork_prepare f running_threads_lock =
    bind (lll_lock (fk_lock f) 0) (\<lambda>_.
    bind (load (fk_handlers f)) (\<lambda>hp.
    bind (load (fk_last f)) (\<lambda>lastp.
    bind (lll_unlock (fk_lock f) 0) (\<lambda>_.
    bind (if lastp \<noteq> 0 then
            loop (\<lambda>lastp.
              bind (call_handler (fkn_prepare (fk_node f lastp))) (\<lambda>_.
              if lastp = hp then leave ()
              else bind (load (fkn_prev (fk_node f lastp))) again)) lastp
          else Ret ()) (\<lambda>_.
    bind (lll_lock running_threads_lock 0) (\<lambda>_. Ret ()))))))"

definition pt_atfork_parent :: "'s atforks \<Rightarrow> ('s, u32) cell \<Rightarrow> ('s, unit) prog" where
  [code_defs]: "pt_atfork_parent f running_threads_lock =
    bind (lll_lock (fk_lock f) 0) (\<lambda>_.
    bind (load (fk_handlers f)) (\<lambda>hp.
    bind (lll_unlock (fk_lock f) 0) (\<lambda>_.
    bind (loop (\<lambda>hp.
      if hp = 0 then leave ()
      else
        bind (call_handler (fkn_parent (fk_node f hp))) (\<lambda>_.
        bind (load (fkn_next (fk_node f hp))) again)) hp) (\<lambda>_.
    lll_unlock running_threads_lock 0))))"

text \<open>The end of the child's hook: the handlers run, and are freed one by one.\<close>

definition atfork_child_handlers :: "'s atforks \<Rightarrow> ('s, unit) prog" where
  [code_defs]: "atfork_child_handlers f =
    bind (load (fk_handlers f)) (\<lambda>hp.
    bind (loop (\<lambda>hp.
      if hp = 0 then leave ()
      else
        bind (load (fkn_next (fk_node f hp))) (\<lambda>tmp.
        bind (call_handler (fkn_child (fk_node f hp))) (\<lambda>_.
        bind (sys (Lib ''free'' [Word hp])) (\<lambda>_. again tmp)))) hp) (\<lambda>_.
    bind (store (fk_lock f) 0) (\<lambda>_.
    bind (store (fk_last f) 0) (\<lambda>_.
    store (fk_handlers f) 0))))"

definition clear_keys :: "'s tsd \<Rightarrow> ('s, unit) prog" where
  [code_defs]: "clear_keys m = loop (\<lambda>i.
    if i < PTHREAD_KEYS_MAX then bind (store (td_keys m i) \<lparr>kd_seq = 0, kd_ptr = 0\<rparr>) (\<lambda>_. again (i + 1))
    else leave ()) 0"

text \<open>The child has one thread, \<open>self\<close>; the library starts anew.\<close>

definition pt_atfork_child :: "'s atforks \<Rightarrow> 's rtl \<Rightarrow> u32 \<Rightarrow> ('s, unit) prog" where
  [code_defs]: "pt_atfork_child f g self =
    bind (store (g_running_lock g) 0) (\<lambda>_.
    bind (store (g_total g) 1) (\<lambda>_.
    bind (store (g_id_counter g) 1) (\<lambda>_.
    bind (store (pth_id (g_desc g self)) 1) (\<lambda>_.
    bind (clear_keys (g_tsd g self)) (\<lambda>_.
    bind (store (fk_concurrency f) 0) (\<lambda>_.
    bind (store (g_mtflag g) 0) (\<lambda>_.
    bind (pthread_free_stacks g self) (\<lambda>_.
    bind (Act (\<lambda>s. c_put (g_links g) (hurd_list_init (g_running g) (c_get (g_links g) s)) s) (\<lambda>_. Ret ())) (\<lambda>_.
    bind (Act (\<lambda>s. c_put (g_links g) (hurd_list_add_tail (g_running g) (pt_link self) (c_get (g_links g) s)) s)
      (\<lambda>_. Ret ())) (\<lambda>_.
    atfork_child_handlers f))))))))))"

subsection \<open>Registration\<close>

text \<open>\<open>dso\<close> is the handle of the calling object, 0 when the weak symbol is undefined. \<open>prev\<close> of the new node is not set.\<close>

definition pthread_atfork :: "'s atforks \<Rightarrow> u32 \<Rightarrow> u32 \<Rightarrow> u32 \<Rightarrow> u32 \<Rightarrow> ('s, ret) prog" where
  [code_defs]: "pthread_atfork f dso prepare parent child =
    bind (sys (Lib ''malloc'' [Word atfork_size])) (\<lambda>r.
    let hp = r_val r; node = fk_node f hp in
    if hp = 0 then Ret (Err ENOMEM)
    else
      bind (store (fkn_prepare node) prepare) (\<lambda>_.
      bind (store (fkn_parent node) parent) (\<lambda>_.
      bind (store (fkn_child node) child) (\<lambda>_.
      bind (store (fkn_dso node) dso) (\<lambda>_.
      bind (lll_lock (fk_lock f) 0) (\<lambda>_.
      bind (load (fk_handlers f)) (\<lambda>first.
      bind (store (fkn_next node) first) (\<lambda>_.
      bind (if first \<noteq> 0 then
              bind (load (fk_handlers f)) (\<lambda>first. store (fkn_prev (fk_node f first)) hp)
            else Ret ()) (\<lambda>_.
      bind (store (fk_handlers f) hp) (\<lambda>_.
      bind (load (fk_last f)) (\<lambda>lastp.
      bind (if lastp = 0 then store (fk_last f) hp else Ret ()) (\<lambda>_.
      bind (lll_unlock (fk_lock f) 0) (\<lambda>_. Ret OK)))))))))))))"

text \<open>The loop goes round with the same node as long as that belongs to another object.\<close>

definition unregister_atfork :: "'s atforks \<Rightarrow> u32 \<Rightarrow> ('s, unit) prog" where
  [code_defs]: "unregister_atfork f dso =
    bind (lll_lock (fk_lock f) 0) (\<lambda>_.
    bind (load (fk_handlers f)) (\<lambda>hp.
    bind (loop (\<lambda>hp.
      if hp = 0 then leave ()
      else
        let node = fk_node f hp in
        bind (load (fkn_dso node)) (\<lambda>d.
        if d \<noteq> dso then again hp
        else
          bind (load (fkn_next node)) (\<lambda>tmp.
          bind (load (fkn_prev node)) (\<lambda>prev.
          bind (if prev \<noteq> 0 then
                  bind (load (fkn_prev node)) (\<lambda>prev. store (fkn_next (fk_node f prev)) tmp)
                else store (fk_handlers f) tmp) (\<lambda>_.
          bind (load (fkn_next node)) (\<lambda>next.
          bind (if next \<noteq> 0 then
                  bind (load (fkn_next node)) (\<lambda>next.
                  bind (load (fkn_prev node)) (\<lambda>prev. store (fkn_prev (fk_node f next)) prev))
                else Ret ()) (\<lambda>_.
          bind (sys (Lib ''free'' [Word hp])) (\<lambda>_. again tmp)))))))) hp) (\<lambda>_.
    lll_unlock (fk_lock f) 0)))"

end
