(* ===== verification/AtForkOrder.thy ===== *)
theory AtForkOrder
  imports AtFork
begin

text \<open>
  The order in which the handlers run, from their registration on; and what unregistering does to the
  chain.
\<close>

record fork_world =
  aw_node :: "u32 \<Rightarrow> atfork"
  aw_handlers :: u32
  aw_last :: u32
  aw_lock :: u32
  aw_running_lock :: u32

definition fork_node :: "u32 \<Rightarrow> (fork_world, atfork) cell" where
  "fork_node a = \<lparr>c_addr = a, c_get = (\<lambda>s. aw_node s a), c_put = (\<lambda>v s. s\<lparr>aw_node := (aw_node s)(a := v)\<rparr>)\<rparr>"

definition fork_running_lock :: "(fork_world, u32) cell" where
  "fork_running_lock = \<lparr>c_addr = 20, c_get = aw_running_lock, c_put = (\<lambda>v s. s\<lparr>aw_running_lock := v\<rparr>)\<rparr>"

definition fork_tab :: "fork_world atforks" where
  "fork_tab = \<lparr>fk_node = fork_node,
    fk_handlers = \<lparr>c_addr = 8, c_get = aw_handlers, c_put = (\<lambda>v s. s\<lparr>aw_handlers := v\<rparr>)\<rparr>,
    fk_last = \<lparr>c_addr = 12, c_get = aw_last, c_put = (\<lambda>v s. s\<lparr>aw_last := v\<rparr>)\<rparr>,
    fk_lock = \<lparr>c_addr = 16, c_get = aw_lock, c_put = (\<lambda>v s. s\<lparr>aw_lock := v\<rparr>)\<rparr>,
    fk_concurrency = \<lparr>c_addr = 24, c_get = (\<lambda>_. 0), c_put = (\<lambda>_ s. s)\<rparr>\<rparr>"

lemma fork_sel [simp]:
  "c_get (fork_node a) s = aw_node s a" "c_put (fork_node a) n s = s\<lparr>aw_node := (aw_node s)(a := n)\<rparr>"
  "c_get fork_running_lock s = aw_running_lock s" "c_put fork_running_lock v s = s\<lparr>aw_running_lock := v\<rparr>"
  "fk_node fork_tab = fork_node"
  "c_get (fk_handlers fork_tab) s = aw_handlers s" "c_put (fk_handlers fork_tab) v s = s\<lparr>aw_handlers := v\<rparr>"
  "c_get (fk_last fork_tab) s = aw_last s" "c_put (fk_last fork_tab) v s = s\<lparr>aw_last := v\<rparr>"
  "c_get (fk_lock fork_tab) s = aw_lock s" "c_put (fk_lock fork_tab) v s = s\<lparr>aw_lock := v\<rparr>"
  by (simp_all add: fork_node_def fork_running_lock_def fork_tab_def)

subsection \<open>The chain\<close>

text \<open>The nodes from the newest to the oldest; only the newest has no \<open>prev\<close>.\<close>

fun fork_chain :: "(u32 \<Rightarrow> atfork) \<Rightarrow> u32 list \<Rightarrow> bool" where
  "fork_chain h [] \<longleftrightarrow> True"
| "fork_chain h [n] \<longleftrightarrow> af_next (h n) = 0"
| "fork_chain h (n # m # ns) \<longleftrightarrow> af_next (h n) = m \<and> af_prev (h m) = n \<and> fork_chain h (m # ns)"

definition fork_handlers :: "fork_world \<Rightarrow> u32 list \<Rightarrow> (u32 \<times> u32 \<times> u32) list \<Rightarrow> bool" where
  "fork_handlers s ns hs \<longleftrightarrow> fork_chain (aw_node s) ns \<and> distinct ns \<and> 0 \<notin> set ns \<and>
    aw_handlers s = hd (ns @ [0]) \<and> aw_last s = last (0 # ns) \<and> aw_lock s = 0 \<and>
    hs = map (\<lambda>n. (af_prepare (aw_node s n), af_parent (aw_node s n), af_child (aw_node s n))) ns"

lemma fork_chain_cong:
  assumes "\<And>n. n \<in> set ns \<Longrightarrow> af_next (h' n) = af_next (h n)" and "\<And>n. n \<in> set (tl ns) \<Longrightarrow> af_prev (h' n) = af_prev (h n)"
  shows "fork_chain h' ns = fork_chain h ns"
  using assms by (induction h ns rule: fork_chain.induct) auto

abbreviation fork_kernel :: "fork_world keff" where
  "fork_kernel \<equiv> gsync_effect (fk_lock fork_tab)"

definition fork_linked :: "u32 \<Rightarrow> u32 \<Rightarrow> u32 \<times> u32 \<times> u32 \<Rightarrow> fork_world \<Rightarrow> fork_world" where
  "fork_linked a dso h s = (case h of (p, q, c) \<Rightarrow>
    let first = aw_handlers s;
        nodes = (aw_node s)(a := \<lparr>af_prepare = p, af_parent = q, af_child = c, af_dso = dso,
          af_prev = af_prev (aw_node s a), af_next = first\<rparr>)
    in s\<lparr>aw_node := if first = 0 then nodes else nodes(first := (nodes first)\<lparr>af_prev := a\<rparr>),
        aw_handlers := a, aw_last := if aw_last s = 0 then a else aw_last s\<rparr>)"

lemma exec_register:
  assumes "aw_lock s = 0" and "a \<noteq> 0" and "a \<noteq> aw_handlers s"
  shows "exec fork_kernel (bind (pthread_atfork fork_tab dso p q c) f) (reply0\<lparr>r_val := a\<rparr> # rs) s l =
    exec fork_kernel (f OK) rs (fork_linked a dso (p, q, c) s) (l @ [Lib ''malloc'' [Word atfork_size]])"
proof -
  have n: "(n :: atfork)\<lparr>af_prepare := p, af_parent := q, af_child := c, af_dso := dso, af_next := first\<rparr> =
    \<lparr>af_prepare = p, af_parent = q, af_child = c, af_dso = dso, af_prev = af_prev n, af_next = first\<rparr>" for n first
    by (cases n) simp
  have m: "gsync_effect (fk_lock fork_tab) (Lib g xs) = (\<lambda>s. s)" for g xs
    by (simp add: fun_eq_iff)
  show ?thesis
    using assms
    by (cases s) (simp add: pthread_atfork_def code_defs atomic_defs fork_linked_def loop_def Let_def n m cong: lazy_cong)
qed

lemma fork_linked_chain:
  assumes "fork_handlers s ns hs" and "a \<notin> set ns" and "a \<noteq> 0"
  shows "fork_handlers (fork_linked a dso h s) (a # ns) (h # hs)"
proof (cases ns)
  case Nil
  with assms show ?thesis by (cases h) (simp add: fork_handlers_def fork_linked_def Let_def)
next
  case (Cons m ms)
  let ?h = "aw_node (fork_linked a dso h s)"
  have s: "fork_chain (aw_node s) (m # ms)" "distinct (m # ms)" "m \<noteq> 0" "a \<noteq> m" "aw_handlers s = m"
    "aw_last s = last (m # ms)" "0 \<notin> set (m # ms)" "aw_lock s = 0"
    using assms by (auto simp: fork_handlers_def Cons)
  have "fork_chain ?h (m # ms) = fork_chain (aw_node s) (m # ms)"
    by (rule fork_chain_cong) (use assms(2) s in \<open>auto simp: fork_linked_def Let_def Cons split: prod.splits\<close>)
  moreover have "af_next (?h a) = m" "af_prev (?h m) = a"
    using s by (auto simp: fork_linked_def Let_def split: prod.splits)
  moreover have "map (\<lambda>n. (af_prepare (?h n), af_parent (?h n), af_child (?h n))) (a # m # ms) = h # hs"
    using assms s by (cases h) (auto simp: fork_linked_def Let_def fork_handlers_def Cons)
  moreover have "aw_last s \<noteq> 0" using s(6,7) last_in_set [of "m # ms"] by (metis list.distinct(1))
  ultimately show ?thesis
    using s assms(2,3) unfolding fork_handlers_def Cons
    by (cases h) (simp add: fork_linked_def Let_def)
qed

subsection \<open>Running the handlers\<close>

definition handler_calls :: "u32 list \<Rightarrow> kcall list" where
  "handler_calls ps = map (\<lambda>p. Callback p 0) (filter (\<lambda>p. p \<noteq> 0) ps)"

lemma handler_calls_simps [simp]:
  "handler_calls [] = []" "handler_calls (p # ps) = (if p = 0 then handler_calls ps else Callback p 0 # handler_calls ps)"
  "handler_calls (ps @ qs) = handler_calls ps @ handler_calls qs"
  by (simp_all add: handler_calls_def)

lemma exec_call_handler:
  assumes "length (handler_calls [c_get c s]) \<le> length rs"
  shows "exec fork_kernel (bind (call_handler c) f) rs s l =
      exec fork_kernel (f ()) (drop (length (handler_calls [c_get c s])) rs) s (l @ handler_calls [c_get c s])"
    and "exec fork_kernel (iter b (bind (call_handler c) g)) rs s l =
      exec fork_kernel (iter b (g ())) (drop (length (handler_calls [c_get c s])) rs) s (l @ handler_calls [c_get c s])"
proof -
  have m: "gsync_effect (fk_lock fork_tab) (Callback x y) = (\<lambda>s. s)" for x y
    by (simp add: fun_eq_iff)
  show "exec fork_kernel (bind (call_handler c) f) rs s l =
      exec fork_kernel (f ()) (drop (length (handler_calls [c_get c s])) rs) s (l @ handler_calls [c_get c s])"
    using assms by (cases "c_get c s = 0"; cases rs) (simp_all add: call_handler_def load_def sys_def m)
  show "exec fork_kernel (iter b (bind (call_handler c) g)) rs s l =
      exec fork_kernel (iter b (g ())) (drop (length (handler_calls [c_get c s])) rs) s (l @ handler_calls [c_get c s])"
    using assms by (cases "c_get c s = 0"; cases rs) (simp_all add: call_handler_def load_def sys_def m)
qed

lemma fork_chain_mid: "fork_chain h (xs @ m # n # ys) \<Longrightarrow> af_prev (h n) = m \<and> af_next (h m) = n"
proof (induction xs)
  case (Cons x xs)
  then show ?case by (cases xs) auto
qed simp

lemma fork_chain_next: "fork_chain h (n # ns) \<Longrightarrow> af_next (h n) = hd (ns @ [0])"
  by (cases ns) simp_all

lemma fork_chain_tl: "fork_chain h (n # ns) \<Longrightarrow> fork_chain h ns"
  by (cases ns) simp_all

abbreviation (input) prepare_walk :: "u32 \<Rightarrow> u32 \<Rightarrow> (fork_world, unit) prog" where
  "prepare_walk hp \<equiv> loop (\<lambda>lastp.
     bind (call_handler (fkn_prepare (fork_node lastp))) (\<lambda>_.
     if lastp = hp then leave ()
     else bind (load (fkn_prev (fork_node lastp))) again))"

lemma exec_prepare_walk:
  assumes "fork_chain (aw_node s) (xs @ n # ys)" and "distinct (xs @ [n])" and "hp = hd (xs @ [n])"
    and "cs = handler_calls (map (\<lambda>n. af_prepare (aw_node s n)) (rev (xs @ [n])))" and "length cs \<le> length rs"
  shows "exec fork_kernel (prepare_walk hp n) rs s l = Some ((), s, drop (length cs) rs, l @ cs)"
  using assms
proof (induction xs arbitrary: n ys cs rs l rule: rev_induct)
  case Nil
  then show ?case
    by (simp add: exec_loop exec_call_handler fkn_prepare_def)
next
  case (snoc m xs)
  let ?c = "handler_calls [af_prepare (aw_node s n)]"
    and ?cs = "handler_calls (map (\<lambda>n. af_prepare (aw_node s n)) (rev (xs @ [m])))"
  have "n \<noteq> hp" using snoc.prems(2,3) by (cases xs) auto
  moreover have "af_prev (aw_node s n) = m" using snoc.prems(1) fork_chain_mid [of "aw_node s" xs m n ys] by simp
  moreover have cs: "cs = ?c @ ?cs" using snoc.prems(4) by simp
  ultimately have "exec fork_kernel (prepare_walk hp n) rs s l =
      exec fork_kernel (prepare_walk hp m) (drop (length ?c) rs) s (l @ ?c)"
    using snoc.prems(5) 
    by (simp add: exec_loop [of _ _ n] exec_call_handler fkn_prepare_def fkn_prev_def run_iter)
  also have "\<dots> = Some ((), s, drop (length ?cs) (drop (length ?c) rs), (l @ ?c) @ ?cs)"
    by (rule snoc.IH [where ys = "n # ys"]) (use snoc.prems cs in \<open>auto simp: hd_append\<close>)
  finally show ?case by (simp only: cs append.assoc length_append drop_drop add.commute)
qed

abbreviation (input) parent_walk :: "u32 \<Rightarrow> (fork_world, unit) prog" where
  "parent_walk \<equiv> loop (\<lambda>hp.
     if hp = 0 then leave ()
     else
       bind (call_handler (fkn_parent (fork_node hp))) (\<lambda>_.
       bind (load (fkn_next (fork_node hp))) again))"

lemma exec_parent_walk:
  assumes "fork_chain (aw_node s) ns" and "0 \<notin> set ns"
    and "cs = handler_calls (map (\<lambda>n. af_parent (aw_node s n)) ns)" and "length cs \<le> length rs"
  shows "exec fork_kernel (parent_walk (hd (ns @ [0]))) rs s l = Some ((), s, drop (length cs) rs, l @ cs)"
  using assms
proof (induction ns arbitrary: cs rs l)
  case Nil
  then show ?case by (simp add: exec_loop)
next
  case (Cons n ns)
  let ?c = "handler_calls [af_parent (aw_node s n)]" and ?cs = "handler_calls (map (\<lambda>n. af_parent (aw_node s n)) ns)"
  have cs: "cs = ?c @ ?cs" using Cons.prems(3) by simp
  have "exec fork_kernel (parent_walk (hd ((n # ns) @ [0]))) rs s l =
      exec fork_kernel (parent_walk (hd (ns @ [0]))) (drop (length ?c) rs) s (l @ ?c)"
    using Cons.prems(2,4) cs fork_chain_next [OF Cons.prems(1)]
    by (simp add: exec_loop [of _ _ n] exec_call_handler fkn_parent_def fkn_next_def run_iter)
  also have "\<dots> = Some ((), s, drop (length ?cs) (drop (length ?c) rs), (l @ ?c) @ ?cs)"
    by (rule Cons.IH) (use Cons.prems cs fork_chain_tl in auto)
  finally show ?case by (simp only: cs append.assoc length_append drop_drop add.commute)
qed

abbreviation (input) child_walk :: "u32 \<Rightarrow> (fork_world, unit) prog" where
  "child_walk \<equiv> loop (\<lambda>hp.
     if hp = 0 then leave ()
     else
       bind (load (fkn_next (fork_node hp))) (\<lambda>tmp.
       bind (call_handler (fkn_child (fork_node hp))) (\<lambda>_.
       bind (sys (Lib ''free'' [Word hp])) (\<lambda>_. again tmp))))"

definition child_calls :: "(u32 \<times> u32) list \<Rightarrow> kcall list" where
  "child_calls xs = concat (map (\<lambda>(p, n). handler_calls [p] @ [Lib ''free'' [Word n]]) xs)"

lemma exec_child_walk:
  assumes "fork_chain (aw_node s) ns" and "0 \<notin> set ns"
    and "cs = child_calls (map (\<lambda>n. (af_child (aw_node s n), n)) ns)" and "length cs \<le> length rs"
  shows "exec fork_kernel (child_walk (hd (ns @ [0]))) rs s l = Some ((), s, drop (length cs) rs, l @ cs)"
  using assms
proof (induction ns arbitrary: cs rs l)
  case Nil
  then show ?case by (simp add: exec_loop child_calls_def)
next
  case (Cons n ns)
  let ?c = "handler_calls [af_child (aw_node s n)]" and ?f = "Lib ''free'' [Word n]"
    and ?cs = "child_calls (map (\<lambda>n. (af_child (aw_node s n), n)) ns)"
  have cs: "cs = ?c @ ?f # ?cs" using Cons.prems(3) by (simp add: child_calls_def)
  then obtain r rs' where r: "drop (length ?c) rs = r # rs'" "length ?cs \<le> length rs'"
    using Cons.prems(4) by (cases "drop (length ?c) rs") (auto dest: arg_cong [where f = length])
  have "exec fork_kernel (child_walk (hd ((n # ns) @ [0]))) rs s l =
      exec fork_kernel (child_walk (hd (ns @ [0]))) rs' s ((l @ ?c) @ [?f])"
    using Cons.prems(2,4) cs fork_chain_next [OF Cons.prems(1)] r
    by (simp add: exec_loop [of _ _ n] exec_call_handler fkn_child_def fkn_next_def run_iter sys_def)
  also have "\<dots> = Some ((), s, drop (length ?cs) rs', ((l @ ?c) @ [?f]) @ ?cs)"
    by (rule Cons.IH) (use Cons.prems fork_chain_tl r(2) in auto)
  also have "drop (length ?cs) rs' = drop (Suc (length ?cs)) (drop (length ?c) rs)"
    by (simp only: r(1) drop_Suc_Cons)
  also have "\<dots> = drop (length cs) rs"
    by (simp only: cs drop_drop length_append length_Cons add.commute)
  finally show ?case by (simp add: cs)
qed

primrec register_all :: "u32 \<Rightarrow> (u32 \<times> u32 \<times> u32) list \<Rightarrow> (fork_world, unit) prog" where
  "register_all dso [] = Ret ()"
| "register_all dso (h # hs) = (case h of (p, q, c) \<Rightarrow>
    bind (pthread_atfork fork_tab dso p q c) (\<lambda>_. register_all dso hs))"

lemma exec_register_all:
  assumes "fork_handlers s ns hs" and "distinct as" and "set as \<inter> set ns = {}" and "0 \<notin> set as" and "length hs' = length as"
  shows "\<exists>s'. exec fork_kernel (bind (register_all dso hs') f) (map (\<lambda>a. reply0\<lparr>r_val := a\<rparr>) as @ rs) s l =
      exec fork_kernel (f ()) rs s' (l @ replicate (length hs') (Lib ''malloc'' [Word atfork_size])) \<and>
    fork_handlers s' (rev as @ ns) (rev hs' @ hs) \<and> aw_running_lock s' = aw_running_lock s"
  using assms
proof (induction as arbitrary: hs' s ns hs l)
  case (Cons a as)
  then obtain p q c hs1 where h: "hs' = (p, q, c) # hs1" by (cases hs') auto
  let ?s = "fork_linked a dso (p, q, c) s"
  have "a \<noteq> 0" "a \<noteq> aw_handlers s" "aw_lock s = 0"
    using Cons.prems by (cases ns; auto simp: fork_handlers_def)+
  then have "exec fork_kernel (bind (register_all dso hs') f) (map (\<lambda>a. reply0\<lparr>r_val := a\<rparr>) (a # as) @ rs) s l =
      exec fork_kernel (bind (register_all dso hs1) f) (map (\<lambda>a. reply0\<lparr>r_val := a\<rparr>) as @ rs) ?s
        (l @ [Lib ''malloc'' [Word atfork_size]])"
    by (simp add: h bind_assoc exec_register)
  moreover have "fork_handlers ?s (a # ns) ((p, q, c) # hs)"
    using Cons.prems by (intro fork_linked_chain) auto
  moreover have "aw_running_lock ?s = aw_running_lock s" by (simp add: fork_linked_def Let_def)
  ultimately show ?case
    using Cons.IH [of ?s "a # ns" "(p, q, c) # hs" hs1 "l @ [Lib ''malloc'' [Word atfork_size]]"] Cons.prems
    by (auto simp: h)
qed auto

text \<open>The static variables at the start, and any memory.\<close>

definition fork_start :: "(u32 \<Rightarrow> atfork) \<Rightarrow> fork_world" where
  "fork_start mem = \<lparr>aw_node = mem, aw_handlers = 0, aw_last = 0, aw_lock = 0, aw_running_lock = 0\<rparr>"

lemma fork_lock_id: "fork_handlers s ns hs \<Longrightarrow> s\<lparr>aw_lock := 0\<rparr> = s"
  by (cases s) (simp add: fork_handlers_def)

lemma exec_prepare:
  assumes h: "fork_handlers s ns hs" and "aw_running_lock s = 0"
    and "cs = handler_calls (map fst (rev hs))" and "length cs \<le> length rs"
  shows "exec fork_kernel (bind (pt_atfork_prepare fork_tab fork_running_lock) f) rs s l =
    exec fork_kernel (f ()) (drop (length cs) rs) (s\<lparr>aw_running_lock := 1\<rparr>) (l @ cs)"
proof -
  have l: "aw_lock s = 0" using h by (simp add: fork_handlers_def)
  show ?thesis
  proof (cases ns rule: rev_cases)
    case Nil
    with assms l show ?thesis
      by (simp add: pt_atfork_prepare_def runs exec_lll_unlock_one fork_handlers_def fork_lock_id [OF h])
  next
    case (snoc xs n)
    have n: "n \<noteq> 0" "aw_last s = n" and hp: "aw_handlers s = hd (xs @ [n])"
      and c: "fork_chain (aw_node s) (xs @ n # [])" "distinct (xs @ [n])"
      and cs: "cs = handler_calls (map (\<lambda>n. af_prepare (aw_node s n)) (rev (xs @ [n])))"
      using assms snoc by (auto simp: fork_handlers_def rev_map comp_def hd_append)
    show ?thesis
      using assms(2) n l
      unfolding pt_atfork_prepare_def fork_sel(5)
      by (simp add: runs exec_lll_unlock_one exec_bind [OF exec_prepare_walk [OF c hp cs assms(4)]] fork_lock_id [OF h])
  qed
qed

lemma exec_parent:
  assumes "fork_handlers s ns hs" and "aw_running_lock s = 1"
    and "cs = handler_calls (map (fst \<circ> snd) hs)" and "length cs \<le> length rs"
  shows "exec fork_kernel (pt_atfork_parent fork_tab fork_running_lock) rs s l =
    Some ((), s\<lparr>aw_running_lock := 0\<rparr>, drop (length cs) rs, l @ cs)"
proof -
  have h: "fork_chain (aw_node s) ns" "0 \<notin> set ns" "hd (ns @ [0]) = aw_handlers s"
    and cs: "cs = handler_calls (map (\<lambda>n. af_parent (aw_node s n)) ns)"
    using assms by (auto simp: fork_handlers_def comp_def)
  have "aw_lock s = 0" using assms(1) by (simp add: fork_handlers_def)
  then show ?thesis
    using assms(2)
    unfolding pt_atfork_parent_def fork_sel(5)
    by (simp add: runs exec_lll_unlock_one fork_lock_id [OF assms(1)]
        exec_bind [OF exec_parent_walk [OF h(1,2) cs assms(4), unfolded h(3)]])
qed

lemma exec_child_handlers:
  assumes "fork_handlers s ns hs"
    and "cs = child_calls (zip (map (snd \<circ> snd) hs) ns)" and "length cs \<le> length rs"
  shows "exec fork_kernel (atfork_child_handlers fork_tab) rs s l =
    Some ((), s\<lparr>aw_handlers := 0, aw_last := 0\<rparr>, drop (length cs) rs, l @ cs)"
proof -
  have h: "fork_chain (aw_node s) ns" "0 \<notin> set ns" "hd (ns @ [0]) = aw_handlers s"
    using assms by (auto simp: fork_handlers_def)
  have "zip (map (snd \<circ> snd) hs) ns = map (\<lambda>n. (af_child (aw_node s n), n)) ns"
    using assms(1) by (auto simp: fork_handlers_def zip_map1 zip_same_conv_map comp_def)
  then have cs: "cs = child_calls (map (\<lambda>n. (af_child (aw_node s n), n)) ns)" using assms(2) by simp
  have "s\<lparr>aw_lock := 0, aw_last := 0, aw_handlers := 0\<rparr> = s\<lparr>aw_handlers := 0, aw_last := 0\<rparr>"
    using assms(1) by (cases s) (simp add: fork_handlers_def)
  then show ?thesis
    unfolding atfork_child_handlers_def fork_sel(5)
    by (simp add: runs exec_bind [OF exec_child_walk [OF h(1,2) cs assms(3), unfolded h(3)]])
qed

lemma handler_calls_length: "length (handler_calls ps) \<le> length ps"
  by (simp add: handler_calls_def)

lemma child_calls_length: "length (child_calls xs) \<le> 2 * length xs"
proof (induction xs)
  case (Cons x xs)
  then show ?case using handler_calls_length by (cases x) (auto simp: child_calls_def)
qed (simp add: child_calls_def)

text \<open>Registration, the hook before \<open>fork\<close>, and one of the hooks after it; \<open>mem\<close> is what \<open>malloc\<close> finds.\<close>

definition fork_run ::
  "(u32 \<Rightarrow> atfork) \<Rightarrow> u32 \<Rightarrow> u32 list \<Rightarrow> (u32 \<times> u32 \<times> u32) list \<Rightarrow> reply list \<Rightarrow> (fork_world, unit) prog \<Rightarrow>
    (unit \<times> fork_world \<times> reply list \<times> kcall list) option" where
  "fork_run mem dso as hs rs hook =
    exec fork_kernel (bind (register_all dso hs) (\<lambda>_.
      bind (pt_atfork_prepare fork_tab fork_running_lock) (\<lambda>_. hook)))
      (map (\<lambda>a. reply0\<lparr>r_val := a\<rparr>) as @ rs) (fork_start mem) []"

definition calls_before_fork :: "(u32 \<times> u32 \<times> u32) list \<Rightarrow> kcall list" where
  "calls_before_fork hs = replicate (length hs) (Lib ''malloc'' [Word atfork_size]) @ handler_calls (map fst hs)"

lemma fork_run_hook:
  assumes "distinct as" and "0 \<notin> set as" and "length hs = length as" and "3 * length hs \<le> length rs"
  obtains s rs' where "fork_run mem dso as hs rs hook = exec fork_kernel hook rs' s (calls_before_fork hs)"
    and "fork_handlers s (rev as) (rev hs)" and "aw_running_lock s = 1" and "2 * length hs \<le> length rs'"
proof -
  let ?M = "replicate (length hs) (Lib ''malloc'' [Word atfork_size])" and ?p = "handler_calls (map fst hs)"
  let ?rest = "\<lambda>_ :: unit. bind (pt_atfork_prepare fork_tab fork_running_lock) (\<lambda>_. hook)"
  have s0: "fork_handlers (fork_start mem) [] []" "aw_running_lock (fork_start mem) = 0"
    by (simp_all add: fork_handlers_def fork_start_def)
  obtain s where s: "fork_run mem dso as hs rs hook = exec fork_kernel (?rest ()) rs s ?M"
    "fork_handlers s (rev as) (rev hs)" "aw_running_lock s = 0"
    using exec_register_all [OF s0(1) assms(1) _ assms(2,3), of dso ?rest rs "[]"] s0(2) by (auto simp: fork_run_def)
  have p: "length ?p \<le> length hs" using handler_calls_length [of "map fst hs"] by simp
  have "fork_run mem dso as hs rs hook =
      exec fork_kernel hook (drop (length ?p) rs) (s\<lparr>aw_running_lock := 1\<rparr>) (calls_before_fork hs)"
    unfolding s(1) calls_before_fork_def by (rule exec_prepare [OF s(2,3)]) (use p assms(4) in simp_all)
  moreover have "fork_handlers (s\<lparr>aw_running_lock := 1\<rparr>) (rev as) (rev hs)" using s(2) by (simp add: fork_handlers_def)
  ultimately show ?thesis using p assms(4) by (intro that) auto
qed

subsection \<open>Properties\<close>



subsection \<open>Unregistering\<close>



text \<open>
  Unregistering the only handler leaves the pointer to the oldest one where it was. And since \<open>prev\<close> of a node is not set,
  what the memory held before decides where the chain is cut: unless that was null, the freed node stays at its head.
\<close>

theorem unregister_atfork_dangling:
  assumes "a \<noteq> 0" and "af_prev (mem a) \<noteq> a"
  shows "\<exists>s. exec fork_kernel (bind (pthread_atfork fork_tab dso p q c) (\<lambda>_. unregister_atfork fork_tab dso))
      [reply0\<lparr>r_val := a\<rparr>, reply0] (fork_start mem) [] =
      Some ((), s, [], [Lib ''malloc'' [Word atfork_size], Lib ''free'' [Word a]]) \<and>
    aw_last s = a \<and> aw_handlers s = (if af_prev (mem a) = 0 then 0 else a)"
proof -
  have m: "gsync_effect (fk_lock fork_tab) (Lib f xs) = (\<lambda>s. s)" for f xs by (simp add: fun_eq_iff)
  show ?thesis
    using assms
    by (simp add: exec_register fork_start_def)
       (simp add: unregister_atfork_def fork_linked_def code_defs atomic_defs loop_def Let_def m cong: lazy_cong)
qed

lemma unregister_atfork_dangling_witness:
  "\<exists>s. exec fork_kernel (bind (pthread_atfork fork_tab 1 2 3 4) (\<lambda>_. unregister_atfork fork_tab 1))
      [reply0\<lparr>r_val := 64\<rparr>, reply0] (fork_start (\<lambda>_. \<lparr>af_prepare = 9, af_parent = 9, af_child = 9, af_dso = 9, af_prev = 9, af_next = 9\<rparr>)) [] =
      Some ((), s, [], [Lib ''malloc'' [Word 24], Lib ''free'' [Word 64]]) \<and> aw_last s = 64 \<and> aw_handlers s = 64"
  using unregister_atfork_dangling [of 64 "\<lambda>_. \<lparr>af_prepare = 9, af_parent = 9, af_child = 9, af_dso = 9, af_prev = 9, af_next = 9\<rparr>"]
  by simp

end
