(* ===== verification/Semaphore.thy ===== *)
theory Semaphore
  imports Cancel
begin

text \<open>
  \<open>pthread/sem.c\<close>, the unnamed semaphores: one 64-bit word with the value in its low and the number of
  registered waiters in its high limb. The functions report errors by -1 and \<open>errno\<close>; the
  result \<open>Err e\<close> stands for that pair.
\<close>

abbreviation (input) SEM_VALUE_MAX :: u32 where "SEM_VALUE_MAX \<equiv> 0x7FFFFFFF"

record sem_t =
  sm_val_nw :: xint
  sm_flags :: u32

definition sem_val_nw :: "('s, sem_t) cell \<Rightarrow> ('s, xint) cell" where
  "sem_val_nw = field 0 sm_val_nw sm_val_nw_update"

definition sem_flags :: "('s, sem_t) cell \<Rightarrow> ('s, u32) cell" where
  "sem_flags = field 8 sm_flags sm_flags_update"

lemma sem_sel [simp]:
  "c_addr (sem_val_nw c) = c_addr c"
  "c_get (sem_val_nw c) s = sm_val_nw (c_get c s)"
  "c_put (sem_val_nw c) v s = c_put c ((c_get c s)\<lparr>sm_val_nw := v\<rparr>) s"
  "c_get (sem_flags c) s = sm_flags (c_get c s)"
  by (simp_all add: sem_val_nw_def sem_flags_def)

definition sem_init :: "sem_t \<Rightarrow> bool \<Rightarrow> u32 \<Rightarrow> ret \<times> sem_t" where
  "sem_init sem pshared val =
    (if val > SEM_VALUE_MAX then (Err EINVAL, sem)
     else (OK, sem\<lparr>sm_val_nw := \<lparr>lo = val, hi = 0\<rparr>,
       sm_flags := (if pshared then GSYNC_SHARED else 0)\<rparr>))"

subsection \<open>Posting\<close>

definition sem_post_bump :: "('s, sem_t) cell \<Rightarrow> ('s, xint option) prog" where
  [code_defs]: "sem_post_bump semp = loop (\<lambda>_.
     bind (atomic_loadx (sem_val_nw semp)) (\<lambda>tmp.
     if lo tmp = SEM_VALUE_MAX then leave None
     else bind (atomic_casx_bool (sem_val_nw semp) (lo tmp) (hi tmp) (lo tmp + 1) (hi tmp)) (\<lambda>ok.
       if ok then leave (Some tmp) else again ()))) ()"

definition sem_post :: "('s, sem_t) cell \<Rightarrow> ('s, ret) prog" where
  [code_defs]: "sem_post semp =
    bind (sem_post_bump semp) (\<lambda>r. case r of
      None \<Rightarrow> Ret (Err EOVERFLOW)
    | Some tmp \<Rightarrow>
        if hi tmp > 0 then
          bind (load (sem_flags semp)) (\<lambda>fl.
          bind (lll_wake (lo_cell (sem_val_nw semp)) fl) (\<lambda>_. Ret OK))
        else Ret OK)"

subsection \<open>Waiting\<close>

text \<open>\<open>__sem_trywait\<close>, answering whether the value was decremented.\<close>

definition sem_trywait_int :: "('s, sem_t) cell \<Rightarrow> ('s, bool) prog" where
  [code_defs]: "sem_trywait_int semp = loop (\<lambda>_.
     bind (atomic_load (lo_cell (sem_val_nw semp))) (\<lambda>val.
     if val = 0 then leave False
     else bind (atomic_cas_bool (lo_cell (sem_val_nw semp)) val (val - 1)) (\<lambda>ok.
       if ok then leave True else again ()))) ()"

definition sem_cleanup :: "('s, sem_t) cell \<Rightarrow> ('s, unit) prog" where
  [code_defs]: "sem_cleanup semp = bind (atomic_addx_hi (sem_val_nw semp) (- 1)) (\<lambda>_. Ret ())"

text \<open>One round of the waiting loops: take the value and leave the queue, or go to sleep by \<open>block\<close>.\<close>

definition sem_round ::
  "('s, sem_t) cell \<Rightarrow> ('s, (unit + ret unwinding)) prog \<Rightarrow> ('s, unit + ret unwinding) prog" where
  [code_defs]: "sem_round semp block =
     bind (atomic_loadx (sem_val_nw semp)) (\<lambda>tmp.
     if lo tmp > 0 then
       bind (atomic_casx_bool (sem_val_nw semp) (lo tmp) (hi tmp) (lo tmp - 1) (hi tmp - 1)) (\<lambda>ok.
       if ok then leave (Value OK) else again ())
     else block)"

definition sem_wait :: "('s, pthread) cell \<Rightarrow> ('s, sem_t) cell \<Rightarrow> ('s, ret unwinding) prog" where
  [code_defs]: "sem_wait self semp =
    bind (sem_trywait_int semp) (\<lambda>ok.
    if ok then Ret (Value OK)
    else bind (atomic_addx_hi (sem_val_nw semp) 1) (\<lambda>_.
      with_cleanup (sem_cleanup semp) (\<lambda>ret. ret \<noteq> OK) (loop (\<lambda>_.
        sem_round semp (bind (cancelpoint self
          (bind (load (sem_flags semp)) (\<lambda>fl. lll_wait (lo_cell (sem_val_nw semp)) 0 fl))) (\<lambda>r.
          case r of
            Exits \<Rightarrow> leave Exits
          | Value res \<Rightarrow> if res = KERN_INTERRUPTED then leave (Value (Err EINTR)) else again ()))) ())))"

definition sem_trywait :: "('s, sem_t) cell \<Rightarrow> ('s, ret) prog" where
  [code_defs]: "sem_trywait semp =
    bind (sem_trywait_int semp) (\<lambda>ok. Ret (if ok then OK else Err EAGAIN))"

definition sem_timedwait ::
  "('s, pthread) cell \<Rightarrow> ('s, sem_t) cell \<Rightarrow> timespec \<Rightarrow> ('s, ret unwinding) prog" where
  [code_defs]: "sem_timedwait self semp tsp =
    bind (sem_trywait_int semp) (\<lambda>ok.
    if ok then Ret (Value OK)
    else bind (atomic_addx_hi (sem_val_nw semp) 1) (\<lambda>_.
      with_cleanup (sem_cleanup semp) (\<lambda>ret. ret \<noteq> OK) (loop (\<lambda>_.
        sem_round semp (if bad_nsec tsp then leave (Value (Err ETIMEDOUT)) else
          bind (cancelpoint self
            (bind (load (sem_flags semp)) (\<lambda>fl.
              lll_abstimed_wait (lo_cell (sem_val_nw semp)) 0 tsp fl CLOCK_REALTIME))) (\<lambda>r.
          case r of
            Exits \<Rightarrow> leave Exits
          | Value res \<Rightarrow>
              if res = KERN_INTERRUPTED then leave (Value (Err EINTR))
              else if res = KERN_TIMEDOUT then leave (Value (Err ETIMEDOUT))
              else again ()))) ())))"

definition sem_getvalue :: "('s, sem_t) cell \<Rightarrow> ('s, ret \<times> u32) prog" where
  [code_defs]: "sem_getvalue semp =
    bind (atomic_load (lo_cell (sem_val_nw semp))) (\<lambda>v. Ret (OK, v))"

definition sem_destroy :: "('s, sem_t) cell \<Rightarrow> ('s, ret) prog" where
  [code_defs]: "sem_destroy semp =
    bind (atomic_load (hi_cell (sem_val_nw semp))) (\<lambda>nw.
    Ret (if nw \<noteq> 0 then Err EBUSY else OK))"

subsection \<open>The semaphore under any interleaving\<close>

text \<open>A world of one semaphore and the descriptors of its users.\<close>

record 't sem_world =
  sw_sem :: sem_t
  sw_pt :: "'t \<Rightarrow> pthread"

definition sw_sem_cell :: "u32 \<Rightarrow> ('t sem_world, sem_t) cell" where
  "sw_sem_cell a = \<lparr>c_addr = a, c_get = sw_sem, c_put = (\<lambda>v s. s\<lparr>sw_sem := v\<rparr>)\<rparr>"

definition sw_pt_cell :: "('t \<Rightarrow> u32) \<Rightarrow> 't \<Rightarrow> ('t sem_world, pthread) cell" where
  "sw_pt_cell addr t = \<lparr>c_addr = addr t, c_get = (\<lambda>s. sw_pt s t),
    c_put = (\<lambda>v s. s\<lparr>sw_pt := (sw_pt s)(t := v)\<rparr>)\<rparr>"

lemma sw_cells [simp]:
  "c_addr (sw_sem_cell a) = a" "c_get (sw_sem_cell a) s = sw_sem s"
  "c_put (sw_sem_cell a) v s = s\<lparr>sw_sem := v\<rparr>"
  "c_get (sw_pt_cell addr t) s = sw_pt s t"
  "c_put (sw_pt_cell addr t) w s = s\<lparr>sw_pt := (sw_pt s)(t := w)\<rparr>"
  by (simp_all add: sw_sem_cell_def sw_pt_cell_def)

text \<open>Where a user of the semaphore stands.\<close>

datatype sem_phase = Idle | Queued | Holding

definition sem_inv :: "nat \<Rightarrow> ('t::finite) sem_world \<Rightarrow> ('t \<Rightarrow> sem_phase) \<Rightarrow> bool" where
  "sem_inv n s G \<longleftrightarrow> card (UNIV :: 't set) < 2 ^ 32 \<and> n \<le> unat SEM_VALUE_MAX \<and>
     unat (lo (sm_val_nw (sw_sem s))) + card {t. G t = Holding} = n \<and>
     unat (hi (sm_val_nw (sw_sem s))) = card {t. G t = Queued} \<and>
     sm_flags (sw_sem s) AND GSYNC_MUTATE = 0"

lemma sem_inv_pt [simp]: "sem_inv n (s\<lparr>sw_pt := f\<rparr>) G = sem_inv n s G"
  by (simp add: sem_inv_def)

lemma sem_inv_val:
  "sem_inv n (s\<lparr>sw_sem := (sw_sem s)\<lparr>sm_val_nw := x\<rparr>\<rparr>) G \<longleftrightarrow>
    card (UNIV :: ('t::finite) set) < 2 ^ 32 \<and> n \<le> unat SEM_VALUE_MAX \<and>
    unat (lo x) + card {t. G t = Holding} = n \<and> unat (hi x) = card {t :: 't. G t = Queued} \<and>
    sm_flags (sw_sem s) AND GSYNC_MUTATE = 0"
  by (simp add: sem_inv_def)

text \<open>The five moves.\<close>

lemma sem_take:
  assumes "sem_inv n s G" and "G t = Idle" and "lo (sm_val_nw (sw_sem s)) \<noteq> 0"
  shows "sem_inv n (s\<lparr>sw_sem := (sw_sem s)\<lparr>sm_val_nw :=
    (sm_val_nw (sw_sem s))\<lparr>lo := lo (sm_val_nw (sw_sem s)) - 1\<rparr>\<rparr>\<rparr>) (G(t := Holding))"
proof -
  have "card {u. (G(t := Holding)) u = Holding} = Suc (card {u. G u = Holding})"
    by (rule count_enter) (simp add: assms)
  moreover have "{u. (G(t := Holding)) u = Queued} = {u. G u = Queued}"
    by (rule count_other) (simp_all add: assms)
  moreover have "0 < unat (lo (sm_val_nw (sw_sem s)))" using assms(3) by (simp add: unat_gt_0)
  ultimately show ?thesis
    using assms(1) unat_pred_32 [OF assms(3)] by (simp add: sem_inv_def)
qed

lemma sem_queue:
  assumes "sem_inv n s (G :: 't::finite \<Rightarrow> _)" and "G t = Idle"
  shows "sem_inv n (s\<lparr>sw_sem := (sw_sem s)\<lparr>sm_val_nw :=
    \<lparr>lo = lo (sm_val_nw (sw_sem s)) + 0, hi = hi (sm_val_nw (sw_sem s)) + 1\<rparr>\<rparr>\<rparr>) (G(t := Queued))"
proof -
  let ?h = "hi (sm_val_nw (sw_sem s))"
  have 1: "card {u. (G(t := Queued)) u = Queued} = Suc (card {u. G u = Queued})"
    by (rule count_enter) (simp add: assms)
  moreover have "{u. (G(t := Queued)) u = Holding} = {u. G u = Holding}"
    by (rule count_other) (simp_all add: assms)
  moreover have "card {u. (G(t := Queued)) u = Queued} \<le> card (UNIV :: 't set)" by (rule count_bound)
  then have "unat (?h + 1) = Suc (unat ?h)"
    using assms(1) 1 by (intro unat_Suc_bound) (simp add: sem_inv_def)
  ultimately show ?thesis using assms(1) by (simp add: sem_inv_def)
qed

lemma sem_unqueue:
  assumes "sem_inv n s G" and "G t = Queued"
  shows "hi (sm_val_nw (sw_sem s)) \<noteq> 0"
    and "unat (hi (sm_val_nw (sw_sem s)) - 1) = card {u. (G(t := q)) u = Queued} \<or> q = Queued"
proof -
  have "card {u. G u = Queued} \<noteq> 0" using assms(2) by auto
  then show h: "hi (sm_val_nw (sw_sem s)) \<noteq> 0" using assms(1) by (auto simp: sem_inv_def)
  show "unat (hi (sm_val_nw (sw_sem s)) - 1) = card {u. (G(t := q)) u = Queued} \<or> q = Queued"
  proof (cases "q = Queued")
    case False
    have "Suc (card {u. (G(t := q)) u = Queued}) = card {u. G u = Queued}"
      by (rule count_leave) (rule assms(2), rule False)
    then show ?thesis using assms(1) unat_pred_32 [OF h] unfolding sem_inv_def by linarith
  qed simp
qed

lemma sem_give_up:
  assumes "sem_inv n s G" and "G t = Queued"
  shows "sem_inv n (s\<lparr>sw_sem := (sw_sem s)\<lparr>sm_val_nw :=
    \<lparr>lo = lo (sm_val_nw (sw_sem s)) + 0, hi = hi (sm_val_nw (sw_sem s)) + (- 1)\<rparr>\<rparr>\<rparr>) (G(t := Idle))"
  using assms(1) sem_unqueue(2) [OF assms, of Idle] count_other [of G t Holding Idle] assms(2)
  by (simp add: sem_inv_def)

lemma sem_dequeue:
  assumes "sem_inv n s G" and "G t = Queued" and "lo (sm_val_nw (sw_sem s)) > 0"
  shows "sem_inv n (s\<lparr>sw_sem := (sw_sem s)\<lparr>sm_val_nw :=
    \<lparr>lo = lo (sm_val_nw (sw_sem s)) - 1, hi = hi (sm_val_nw (sw_sem s)) - 1\<rparr>\<rparr>\<rparr>) (G(t := Holding))"
proof -
  have "lo (sm_val_nw (sw_sem s)) \<noteq> 0" using assms(3) by auto
  then have "0 < unat (lo (sm_val_nw (sw_sem s)))"
    "unat (lo (sm_val_nw (sw_sem s)) - 1) = unat (lo (sm_val_nw (sw_sem s))) - 1"
    using unat_pred_32 by (simp_all add: unat_gt_0)
  then show ?thesis
    using assms(1) sem_unqueue(2) [OF assms(1,2), of Holding] count_enter [of G t Holding] assms(2)
    by (simp add: sem_inv_def)
qed

lemma sem_give_back:
  assumes "sem_inv n s G" and "G t = Holding"
  shows "sem_inv n (s\<lparr>sw_sem := (sw_sem s)\<lparr>sm_val_nw :=
    \<lparr>lo = lo (sm_val_nw (sw_sem s)) + 1, hi = hi (sm_val_nw (sw_sem s))\<rparr>\<rparr>\<rparr>) (G(t := Idle))"
    and "lo (sm_val_nw (sw_sem s)) \<noteq> SEM_VALUE_MAX"
proof -
  have c: "Suc (card {u. (G(t := Idle)) u = Holding}) = card {u. G u = Holding}"
    by (rule count_leave) (simp_all add: assms)
  then have l: "unat (lo (sm_val_nw (sw_sem s))) < unat SEM_VALUE_MAX"
    using assms(1) unfolding sem_inv_def by linarith
  then show "lo (sm_val_nw (sw_sem s)) \<noteq> SEM_VALUE_MAX" by auto
  have "unat (lo (sm_val_nw (sw_sem s)) + 1) = Suc (unat (lo (sm_val_nw (sw_sem s))))"
    by (rule unat_Suc_bound) (use l in simp)
  then show "sem_inv n (s\<lparr>sw_sem := (sw_sem s)\<lparr>sm_val_nw :=
    \<lparr>lo = lo (sm_val_nw (sw_sem s)) + 1, hi = hi (sm_val_nw (sw_sem s))\<rparr>\<rparr>\<rparr>) (G(t := Idle))"
    using c assms(1) count_other [of G t Queued Idle] assms(2) by (simp add: sem_inv_def)
qed

abbreviation sem_kernel :: "u32 \<Rightarrow> 't sem_world keff" where
  "sem_kernel a \<equiv> gsync_effect (lo_cell (sem_val_nw (sw_sem_cell a)))"

lemma sem_cas_safe:
  assumes "v \<noteq> 0"
  shows "safe A (sem_inv n) M (t :: 't::finite) (\<lambda>ok g. g = (if ok then Holding else Idle)) Idle
    (atomic_cas_bool (lo_cell (sem_val_nw (sw_sem_cell a))) v (v - 1))"
  by (rule safe_cas [where g' = Holding]) (use assms in \<open>auto dest: sem_take\<close>)

lemma sem_trywait_int_safe:
  "safe A (sem_inv n) M (t :: 't::finite) (\<lambda>ok g. g = (if ok then Holding else Idle)) Idle
    (sem_trywait_int (sw_sem_cell a))"
  unfolding sem_trywait_int_def
  by (rule safe_loop [where J = "\<lambda>_ g. g = Idle"], simp,
      rule safe_bind [where R = "\<lambda>_ g. g = Idle"], rule safe_atomic_load)
    (auto intro!: safe_bind [OF sem_cas_safe])

lemma sem_addx_safe:
  "safe A (sem_inv n) M (t :: 't::finite) (\<lambda>_ g. g = Queued) Idle
    (atomic_addx_hi (sem_val_nw (sw_sem_cell a)) 1)"
  unfolding atomic_addx_hi_def
  by (rule safe_addx [where g' = Queued]) (simp_all add: sem_queue [simplified])

lemma sem_cleanup_safe:
  "safe A (sem_inv n) M (t :: 't::finite) (\<lambda>_ g. g = Idle) Queued (sem_cleanup (sw_sem_cell a))"
  unfolding sem_cleanup_def atomic_addx_hi_def
  by (rule safe_bind [where R = "\<lambda>_ g. g = Idle"], rule safe_addx [where g' = Idle])
    (simp_all add: sem_give_up [simplified])

text \<open>A round of waiting ends with the semaphore taken, or leaves the thread in the queue.\<close>

abbreviation sem_left :: "unit + ret unwinding \<Rightarrow> sem_phase \<Rightarrow> bool" where
  "sem_left r g \<equiv> (case r of Inl _ \<Rightarrow> g = Queued
     | Inr x \<Rightarrow> g = (if x = Value OK then Holding else Queued))"

lemma sem_round_safe:
  assumes "safe A (sem_inv n) M (t :: 't::finite) sem_left Queued block"
  shows "safe A (sem_inv n) M t sem_left Queued (sem_round (sw_sem_cell a) block)"
  unfolding sem_round_def
proof (rule safe_bind [where R = "\<lambda>_ g. g = Queued"], rule safe_loadx, simp)
  fix tmp g assume g: "g = Queued"
  have c: "safe A (sem_inv n) M t (\<lambda>ok g. g = (if ok then Holding else Queued)) Queued
      (atomic_casx_bool (sem_val_nw (sw_sem_cell a)) (lo tmp) (hi tmp) (lo tmp - 1) (hi tmp - 1))"
    if "lo tmp > 0"
  proof (rule safe_casx [where g' = Holding])
    fix s G assume "sem_inv n s G" "G t = Queued"
      and "c_get (sem_val_nw (sw_sem_cell a)) s = \<lparr>lo = lo tmp, hi = hi tmp\<rparr>"
    with sem_dequeue [of n s G t] that
    show "sem_inv n (c_put (sem_val_nw (sw_sem_cell a)) \<lparr>lo = lo tmp - 1, hi = hi tmp - 1\<rparr> s)
        (G(t := Holding))" by simp
  qed simp_all
  show "safe A (sem_inv n) M t sem_left g (if lo tmp > 0
      then bind (atomic_casx_bool (sem_val_nw (sw_sem_cell a)) (lo tmp) (hi tmp) (lo tmp - 1) (hi tmp - 1))
        (\<lambda>ok. if ok then leave (Value OK) else again ())
      else block)"
    unfolding g using assms by (cases "lo tmp > 0") (auto intro!: safe_bind [OF c])
qed

lemma sem_waiting_safe:
  assumes "safe A (sem_inv n) M (t :: 't::finite) sem_left Queued block"
  shows "safe A (sem_inv n) M t (\<lambda>r g. g = (if r = Value OK then Holding else Idle)) Idle
    (bind (atomic_addx_hi (sem_val_nw (sw_sem_cell a)) 1) (\<lambda>_.
      with_cleanup (sem_cleanup (sw_sem_cell a)) (\<lambda>ret. ret \<noteq> OK)
        (loop (\<lambda>_. sem_round (sw_sem_cell a) block) ())))"
proof (rule safe_bind [OF sem_addx_safe])
  fix x g assume g: "g = Queued"
  have l: "safe A (sem_inv n) M t (\<lambda>r g. g = (if r = Value OK then Holding else Queued)) Queued
      (loop (\<lambda>_. sem_round (sw_sem_cell a) block) ())"
    by (rule safe_loop [where J = "\<lambda>_ g. g = Queued"], simp, simp,
        rule safe_mono [OF sem_round_safe [OF assms]])
      (auto split: sum.splits)
  show "safe A (sem_inv n) M t (\<lambda>r g. g = (if r = Value OK then Holding else Idle)) g
      (with_cleanup (sem_cleanup (sw_sem_cell a)) (\<lambda>ret. ret \<noteq> OK)
        (loop (\<lambda>_. sem_round (sw_sem_cell a) block) ()))"
    unfolding with_cleanup_def g
    by (rule safe_bind [OF l])
      (auto split: unwinding.splits intro!: safe_bind [OF sem_cleanup_safe])
qed

lemma sem_block_idle:
  "idle (sem_kernel a) (bind (load (sem_flags (sw_sem_cell a))) (\<lambda>fl. lll_wait c 0 fl))"
  "idle (sem_kernel a) (bind (load (sem_flags (sw_sem_cell a))) (\<lambda>fl. lll_abstimed_wait c 0 tsp fl clk))"
  by (auto simp: load_def lll_wait_def
      intro: idle_gsync_wait [OF gsync_effect_contract] idle_lll_abstimed_wait [OF gsync_effect_contract])

lemma sem_wait_safe:
  "safe A (sem_inv n) (sem_kernel a) (t :: 't::finite)
    (\<lambda>r g. g = (if r = Value OK then Holding else Idle)) Idle
    (sem_wait (sw_pt_cell addr t) (sw_sem_cell a))"
  unfolding sem_wait_def
  by (rule safe_bind [OF sem_trywait_int_safe])
    (auto intro!: sem_waiting_safe safe_bind [OF safe_cancelpoint [OF sem_block_idle(1)]]
      split: unwinding.splits)

lemma sem_timedwait_safe:
  "safe A (sem_inv n) (sem_kernel a) (t :: 't::finite)
    (\<lambda>r g. g = (if r = Value OK then Holding else Idle)) Idle
    (sem_timedwait (sw_pt_cell addr t) (sw_sem_cell a) tsp)"
  unfolding sem_timedwait_def
  by (rule safe_bind [OF sem_trywait_int_safe])
    (auto intro!: sem_waiting_safe safe_bind [OF safe_cancelpoint [OF sem_block_idle(2)]]
      split: unwinding.splits)

lemma sem_trywait_safe:
  "safe A (sem_inv n) M (t :: 't::finite) (\<lambda>r g. g = (if r = OK then Holding else Idle)) Idle
    (sem_trywait (sw_sem_cell a))"
  unfolding sem_trywait_def by (rule safe_bind [OF sem_trywait_int_safe]) auto

lemma sem_post_bump_safe:
  "safe A (sem_inv n) M (t :: 't::finite) (\<lambda>r g. r \<noteq> None \<and> g = Idle) Holding
    (sem_post_bump (sw_sem_cell a))"
  unfolding sem_post_bump_def
proof (rule safe_loop [where J = "\<lambda>_ g. g = Holding"], simp,
    rule safe_bind [where R = "\<lambda>x g. lo x \<noteq> SEM_VALUE_MAX \<and> g = Holding"], rule safe_loadx)
  fix x :: unit and g s and G :: "'t \<Rightarrow> sem_phase"
  assume "g = Holding" "sem_inv n s G" "G t = g"
  then show "lo (c_get (sem_val_nw (sw_sem_cell a)) s) \<noteq> SEM_VALUE_MAX \<and> g = Holding"
    using sem_give_back(2) [of n s G t] by simp
next
  fix x :: unit and g0 g tmp assume g: "lo tmp \<noteq> SEM_VALUE_MAX \<and> g = Holding"
  have c: "safe A (sem_inv n) M t (\<lambda>ok g. g = (if ok then Idle else Holding)) Holding
      (atomic_casx_bool (sem_val_nw (sw_sem_cell a)) (lo tmp) (hi tmp) (lo tmp + 1) (hi tmp))"
  proof (rule safe_casx [where g' = Idle])
    fix s and G :: "'t \<Rightarrow> sem_phase" assume "sem_inv n s G" "G t = Holding"
      and "c_get (sem_val_nw (sw_sem_cell a)) s = \<lparr>lo = lo tmp, hi = hi tmp\<rparr>"
    with sem_give_back(1) [of n s G t]
    show "sem_inv n (c_put (sem_val_nw (sw_sem_cell a)) \<lparr>lo = lo tmp + 1, hi = hi tmp\<rparr> s)
        (G(t := Idle))" by simp
  qed simp_all
  show "safe A (sem_inv n) M t (\<lambda>r g'. case r of Inl y \<Rightarrow> g' = Holding | Inr a \<Rightarrow> a \<noteq> None \<and> g' = Idle) g
      (if lo tmp = SEM_VALUE_MAX then leave None
       else bind (atomic_casx_bool (sem_val_nw (sw_sem_cell a)) (lo tmp) (hi tmp) (lo tmp + 1) (hi tmp))
         (\<lambda>ok. if ok then leave (Some tmp) else again ()))"
    using g by (auto intro!: safe_bind [OF c])
qed

lemma sem_post_safe:
  "safe A (sem_inv n) (sem_kernel a) (t :: 't::finite) (\<lambda>r g. r = OK \<and> g = Idle) Holding
    (sem_post (sw_sem_cell a))"
  unfolding sem_post_def
proof (rule safe_bind [OF sem_post_bump_safe])
  fix r :: "xint option" and g assume r: "r \<noteq> None \<and> g = Idle"
  have f: "safe A (sem_inv n) (sem_kernel a) t (\<lambda>fl g. fl AND GSYNC_MUTATE = 0 \<and> g = Idle) Idle
      (load (sem_flags (sw_sem_cell a)))"
    by (rule safe_load) (auto simp: sem_inv_def)
  have w: "safe A (sem_inv n) (sem_kernel a) t (\<lambda>_ g. g = Idle) Idle
      (lll_wake (lo_cell (sem_val_nw (sw_sem_cell a))) fl)" if "fl AND GSYNC_MUTATE = 0" for fl
    using that by (rule safe_lll_wake [OF gsync_effect_contract]) simp
  show "safe A (sem_inv n) (sem_kernel a) t (\<lambda>r g. r = OK \<and> g = Idle) g (case r of
      None \<Rightarrow> Ret (Err EOVERFLOW)
    | Some tmp \<Rightarrow>
        if hi tmp > 0 then
          bind (load (sem_flags (sw_sem_cell a))) (\<lambda>fl.
          bind (lll_wake (lo_cell (sem_val_nw (sw_sem_cell a))) fl) (\<lambda>_. Ret OK))
        else Ret OK)"
    using r by (auto intro!: safe_bind [OF f] safe_bind [OF w])
qed

subsection \<open>Users of a semaphore\<close>

fun sem_take :: "('s, pthread) cell \<Rightarrow> ('s, sem_t) cell \<Rightarrow> lock_call \<Rightarrow> ('s, ret unwinding) prog" where
  "sem_take self semp Lock = sem_wait self semp"
| "sem_take self semp Trylock = bind (sem_trywait semp) (\<lambda>r. Ret (Value r))"
| "sem_take self semp (Timedlock tsp clk) = sem_timedwait self semp tsp"

text \<open>A thread that makes \<open>k\<close> rounds of waiting, its critical section and posting, unless it is cancelled.\<close>

definition sem_user ::
  "('s, pthread) cell \<Rightarrow> ('s, sem_t) cell \<Rightarrow> nat \<Rightarrow> (nat \<Rightarrow> lock_call) \<Rightarrow> ('s, unit) prog" where
  "sem_user self semp k calls = loop (\<lambda>n.
     if n < k then
       bind (sem_take self semp (calls n)) (\<lambda>r.
       if r = Exits then leave ()
       else if r = Value OK then
         bind (sys (Callback 0 0)) (\<lambda>_. bind (sem_post semp) (\<lambda>_. again (Suc n)))
       else again (Suc n))
     else leave ()) 0"

lemma sem_take_safe:
  "safe A (sem_inv n) (sem_kernel a) (t :: 't::finite)
    (\<lambda>r g. g = (if r = Value OK then Holding else Idle)) Idle
    (sem_take (sw_pt_cell addr t) (sw_sem_cell a) call)"
proof (cases call)
  case Trylock
  show ?thesis by (simp add: Trylock, rule safe_bind [OF sem_trywait_safe]) auto
qed (simp_all only: sem_take.simps sem_wait_safe sem_timedwait_safe)

lemma sem_user_safe:
  "safe (\<lambda>_ g. g = Holding) (sem_inv n) (sem_kernel a) (t :: 't::finite) (\<lambda>_ g. g = Idle) Idle
    (sem_user (sw_pt_cell addr t) (sw_sem_cell a) k calls)"
  unfolding sem_user_def
proof (rule safe_loop [where J = "\<lambda>_ g. g = Idle"], simp)
  fix i g assume g: "g = Idle"
  have cs: "safe (\<lambda>_ g. g = Holding) (sem_inv n) (sem_kernel a) t (\<lambda>_ g. g = Holding) Holding
      (sys (Callback 0 0))"
    unfolding sys_def by (rule safe_Sys_skip) simp_all
  have body: "safe (\<lambda>_ g. g = Holding) (sem_inv n) (sem_kernel a) t
      (\<lambda>r g'. case r of Inl y \<Rightarrow> g' = Idle | Inr a \<Rightarrow> g' = Idle) Idle
      (bind (sem_take (sw_pt_cell addr t) (sw_sem_cell a) (calls i)) (\<lambda>r.
       if r = Exits then leave ()
       else if r = Value OK then
         bind (sys (Callback 0 0)) (\<lambda>_. bind (sem_post (sw_sem_cell a)) (\<lambda>_. again (Suc i)))
       else again (Suc i)))"
    by (rule safe_bind [OF sem_take_safe])
      (auto intro!: safe_bind [OF cs] safe_bind [OF sem_post_safe])
  then show "safe (\<lambda>_ g. g = Holding) (sem_inv n) (sem_kernel a) t
      (\<lambda>r g'. case r of Inl y \<Rightarrow> g' = Idle | Inr a \<Rightarrow> g' = Idle) g
      (if i < k then
       bind (sem_take (sw_pt_cell addr t) (sw_sem_cell a) (calls i)) (\<lambda>r.
       if r = Exits then leave ()
       else if r = Value OK then
         bind (sys (Callback 0 0)) (\<lambda>_. bind (sem_post (sw_sem_cell a)) (\<lambda>_. again (Suc i)))
       else again (Suc i))
     else leave ())"
    by (simp add: g)
qed

definition new_sem :: "u32 \<Rightarrow> bool \<Rightarrow> sem_t" where
  "new_sem val shared =
    snd (sem_init \<lparr>sm_val_nw = \<lparr>lo = 0, hi = 0\<rparr>, sm_flags = 0\<rparr> shared val)"

lemma sem_inv_new:
  fixes pts :: "'t::finite \<Rightarrow> pthread"
  assumes "val \<le> SEM_VALUE_MAX" and "card (UNIV :: 't set) < 2 ^ 32"
  shows "sem_inv (unat val) \<lparr>sw_sem = new_sem val shared, sw_pt = pts\<rparr> (\<lambda>_ :: 't. Idle)"
proof -
  have "\<not> SEM_VALUE_MAX < val" "unat val \<le> unat SEM_VALUE_MAX"
    using assms(1) by (simp_all add: not_less word_le_nat_alt)
  with assms(2) show ?thesis by (simp add: sem_inv_def new_sem_def sem_init_def)
qed

text \<open>Ghosts that fit a reachable state.\<close>

lemma sem_reach:
  fixes P :: "'t::finite \<Rightarrow> ('t sem_world, unit) prog"
  assumes "gsync_contract M (lo_cell (sem_val_nw (sw_sem_cell a)))"
    and "card (UNIV :: 't set) < 2 ^ 32" and "val \<le> SEM_VALUE_MAX"
    and "reach M \<lparr>sw_sem = new_sem val shared, sw_pt = pts\<rparr>
      (\<lambda>t. sem_user (sw_pt_cell addr t) (sw_sem_cell a) (rounds t) (calls t)) s P"
  obtains G :: "'t \<Rightarrow> sem_phase" where "sem_inv (unat val) s G"
    and "\<And>t. inside P t \<Longrightarrow> G t = Holding" and "\<And>t x. P t = Ret x \<Longrightarrow> G t = Idle"
proof -
  have "\<exists>G. sem_inv (unat val) s G \<and>
      (\<forall>t. safe (\<lambda>_ g. g = Holding) (sem_inv (unat val)) M t (\<lambda>_ g. g = Idle) (G t) (P t))"
    using assms(1,4) sem_inv_new [OF assms(3,2)] sem_user_safe
    by (intro safe_reach [where ?G0.0 = "\<lambda>_. Idle"]) (auto simp: gsync_contract_iff)
  then obtain G where G: "sem_inv (unat val) s G"
    "\<And>t. safe (\<lambda>_ g. g = Holding) (sem_inv (unat val)) M t (\<lambda>_ g. g = Idle) (G t) (P t)" by blast
  have "G t = Holding" if "inside P t" for t
    using that G(2) [of t] by (auto simp: inside_def safe_Sys_iff)
  moreover have "G t = Idle" if "P t = Ret x" for t x
    using G(2) [of t] by (simp add: that)
  ultimately show thesis using that G(1) by blast
qed

subsection \<open>Properties\<close>

text \<open>
  C5. A semaphore of initial value \<open>n\<close> lets at most \<open>n\<close> threads through at a time: for any number of
  threads that wait, try or wait with a timeout, run a critical section and post, interleaved
  arbitrarily and cancelled at any wait, the threads inside plus the value never exceed \<open>n\<close>.
\<close>

theorem semaphore_bound:
  fixes P :: "'t::finite \<Rightarrow> ('t sem_world, unit) prog"
  assumes "gsync_contract M (lo_cell (sem_val_nw (sw_sem_cell a)))"
    and "card (UNIV :: 't set) < 2 ^ 32" and "val \<le> SEM_VALUE_MAX"
    and "reach M \<lparr>sw_sem = new_sem val shared, sw_pt = pts\<rparr>
      (\<lambda>t. sem_user (sw_pt_cell addr t) (sw_sem_cell a) (rounds t) (calls t)) s P"
  shows "card {t. inside P t} + unat (lo (sm_val_nw (sw_sem s))) \<le> unat val"
proof -
  obtain G where G: "sem_inv (unat val) s G" "\<And>t. inside P t \<Longrightarrow> G t = Holding"
    by (rule sem_reach [OF assms]) blast
  have "card {t. inside P t} \<le> card {t. G t = Holding}" by (rule card_mono) (auto dest: G(2))
  with G(1) show ?thesis by (simp add: sem_inv_def)
qed

text \<open>
  C21. Nothing is lost: when all the threads have finished, however many of them were cancelled, timed
  out or interrupted while waiting, the value is the initial one and no waiter is registered, so
  that the semaphore can be destroyed.
\<close>

theorem semaphore_restored:
  fixes P :: "'t::finite \<Rightarrow> ('t sem_world, unit) prog"
  assumes "gsync_contract M (lo_cell (sem_val_nw (sw_sem_cell a)))"
    and "card (UNIV :: 't set) < 2 ^ 32" and "val \<le> SEM_VALUE_MAX"
    and "reach M \<lparr>sw_sem = new_sem val shared, sw_pt = pts\<rparr>
      (\<lambda>t. sem_user (sw_pt_cell addr t) (sw_sem_cell a) (rounds t) (calls t)) s P"
    and "\<And>t. \<exists>x. P t = Ret x"
  shows "sm_val_nw (sw_sem s) = \<lparr>lo = val, hi = 0\<rparr> \<and>
    exec M (sem_destroy (sw_sem_cell a)) rs s l = Some (OK, s, rs, l)"
proof -
  obtain G where G: "sem_inv (unat val) s G" "\<And>t x. P t = Ret x \<Longrightarrow> G t = Idle"
    by (rule sem_reach [OF assms(1-4)]) blast
  have "G t = Idle" for t using assms(5) [of t] G(2) by blast
  with G(1) have "unat (lo (sm_val_nw (sw_sem s))) = unat val" "hi (sm_val_nw (sw_sem s)) = 0"
    by (simp_all add: sem_inv_def unat_eq_0)
  then have "lo (sm_val_nw (sw_sem s)) = val" "hi (sm_val_nw (sw_sem s)) = 0"
    by (simp_all only: word_unat_eq_iff)
  then show ?thesis by (cases "sm_val_nw (sw_sem s)") (simp add: sem_destroy_def runs)
qed

text \<open>
  Posting: it fails with \<open>EOVERFLOW\<close> and changes nothing exactly at the maximal value; otherwise the
  value grows by one, the waiters are untouched, and one of them is woken if there are any.
\<close>

theorem sem_post_run:
  assumes "sm_flags s AND GSYNC_MUTATE = 0"
  shows "exec (gsync_effect w) (sem_post (whole a)) (r # rs) s l =
    (if lo (sm_val_nw s) = SEM_VALUE_MAX then Some (Err EOVERFLOW, s, r # rs, l)
     else (let s' = s\<lparr>sm_val_nw := (sm_val_nw s)\<lparr>lo := lo (sm_val_nw s) + 1\<rparr>\<rparr> in
       if hi (sm_val_nw s) = 0 then Some (OK, s', r # rs, l)
       else Some (OK, s', rs, l @ [wake_call a 0 (sm_flags s)])))"
proof -
  have "exec (gsync_effect w) (sem_post_bump (whole a)) (r # rs) s l =
    (if lo (sm_val_nw s) = SEM_VALUE_MAX then Some (None, s, r # rs, l)
     else Some (Some (sm_val_nw s), s\<lparr>sm_val_nw := (sm_val_nw s)\<lparr>lo := lo (sm_val_nw s) + 1\<rparr>\<rparr>, r # rs, l))"
    by (simp add: sem_post_bump_def exec_loop runs)
  with assms show ?thesis
    by (auto simp: sem_post_def exec_bind runs Let_def word_gt_0)
qed

lemma sem_post_run_witness:
  "exec (gsync_effect (lo_cell (sem_val_nw (whole 64)))) (sem_post (whole 64)) [reply0]
      \<lparr>sm_val_nw = \<lparr>lo = 0, hi = 2\<rparr>, sm_flags = 1\<rparr> [] =
    Some (OK, \<lparr>sm_val_nw = \<lparr>lo = 1, hi = 2\<rparr>, sm_flags = 1\<rparr>, [], [wake_call 64 0 1])"
  by (subst sem_post_run) simp_all

text \<open>Two runs: one thread gets through a semaphore of value 1; two threads are cancelled at one of value 0.\<close>

definition sem_demo ::
  "u32 \<Rightarrow> (bool \<times> nat) list \<Rightarrow> bool sem_world \<times> (bool \<Rightarrow> (bool sem_world, unit) prog)" where
  "sem_demo val ts = sched (sem_kernel 64) (reply0\<lparr>r_cancelled := True\<rparr>) ts
     \<lparr>sw_sem = new_sem val False, sw_pt = (\<lambda>_. undefined\<lparr>pt_flags := 0\<rparr>)\<rparr>
     (\<lambda>t. sem_user (sw_pt_cell (\<lambda>_. 4096) t) (sw_sem_cell 64) 1 (\<lambda>_. Lock))"

lemma sem_demo_reach:
  "reach (sem_kernel 64) \<lparr>sw_sem = new_sem val False, sw_pt = (\<lambda>_. undefined\<lparr>pt_flags := 0\<rparr>)\<rparr>
     (\<lambda>t. sem_user (sw_pt_cell (\<lambda>_. 4096) t) (sw_sem_cell 64) 1 (\<lambda>_. Lock))
     (fst (sem_demo val ts)) (snd (sem_demo val ts))"
  unfolding sem_demo_def by (rule reach_sched) (rule surjective_pairing)

lemmas sem_demo_eval = sem_demo_def sem_user_def new_sem_def sem_init_def code_defs atomic_defs
  pstep_loop bind_assoc

lemma semaphore_bound_witness:
  "card {t. inside (snd (sem_demo 1 [(True, 2)])) t} +
      unat (lo (sm_val_nw (sw_sem (fst (sem_demo 1 [(True, 2)]))))) \<le> 1 \<and>
    inside (snd (sem_demo 1 [(True, 2)])) True"
proof
  show "inside (snd (sem_demo 1 [(True, 2)])) True" by (simp add: sem_demo_eval inside_def)
  show "card {t. inside (snd (sem_demo 1 [(True, 2)])) t} +
      unat (lo (sm_val_nw (sw_sem (fst (sem_demo 1 [(True, 2)]))))) \<le> 1"
    using semaphore_bound [OF gsync_effect_contract _ _ sem_demo_reach, of 1 "[(True, 2)]"] by simp
qed

lemma semaphore_restored_witness:
  "sm_val_nw (sw_sem (fst (sem_demo 0 [(True, 16), (False, 16)]))) = \<lparr>lo = 0, hi = 0\<rparr>"
proof -
  have "snd (sem_demo 0 [(True, 16), (False, 16)]) t = Ret ()" for t
    by (cases t) (simp_all add: sem_demo_eval CANCELLED_ENABLED_ASYNC_P_def Let_def blocking_def)
  then show ?thesis
    using semaphore_restored [OF gsync_effect_contract _ _ sem_demo_reach, of 0 "[(True, 16), (False, 16)]"]
    by auto
qed

end
