(* ===== verification/NamedSem.thy ===== *)
theory NamedSem
  imports Semaphore Create
begin

text \<open>
  \<open>pthread/sem.c\<close>, the named semaphores: files below \<open>/dev/shm\<close> that are mapped into the task, and the task's list of
  these mappings, counted by the calls that opened them. The file system is the Hurd's: its calls
  are answered from outside, and are logged with the names and data they are given. \<open>errno\<close> is a variable; the
  numbers are those of the system.
\<close>

abbreviation (input) ERR_EPERM :: int where "ERR_EPERM \<equiv> 0x40000001"
abbreviation (input) ERR_ENOENT :: int where "ERR_ENOENT \<equiv> 0x40000002"
abbreviation (input) ERR_ENOMEM :: int where "ERR_ENOMEM \<equiv> 0x4000000C"
abbreviation (input) ERR_EACCES :: int where "ERR_EACCES \<equiv> 0x4000000D"
abbreviation (input) ERR_EEXIST :: int where "ERR_EEXIST \<equiv> 0x40000011"
abbreviation (input) ERR_EINVAL :: int where "ERR_EINVAL \<equiv> 0x40000016"

abbreviation (input) O_RDWR :: u32 where "O_RDWR \<equiv> 0x3"
abbreviation (input) O_ACCMODE :: u32 where "O_ACCMODE \<equiv> 0x3"
abbreviation (input) O_CREAT :: u32 where "O_CREAT \<equiv> 0x10"
abbreviation (input) O_EXCL :: u32 where "O_EXCL \<equiv> 0x20"
abbreviation (input) O_NOFOLLOW :: u32 where "O_NOFOLLOW \<equiv> 0x100000"

abbreviation (input) SEM_FAILED :: u32 where "SEM_FAILED \<equiv> 0"
abbreviation (input) sizeof_sem :: u32 where "sizeof_sem \<equiv> 16"
abbreviation (input) sizeof_shared_sem :: u32 where "sizeof_shared_sem \<equiv> 20"

text \<open>
  A mapping: its \<open>link\<close> is 8 bytes into the structure, and its name is the memory that follows it, byte by byte.
\<close>

record shared_sem =
  ss_semp :: u32
  ss_refcount :: int
  ss_name :: "nat \<Rightarrow> char"

record 's named_sems =
  ns_sem :: "u32 \<Rightarrow> ('s, shared_sem) cell"
  ns_links :: "('s, heap) cell"
  ns_mapped :: u32
  ns_lock :: "('s, u32) cell"
  ns_errno :: "('s, int) cell"

definition node_to_shsem :: "u32 \<Rightarrow> u32" where
  "node_to_shsem nodep = nodep - 8"

definition shsem_link :: "u32 \<Rightarrow> u32" where
  "shsem_link sp = sp + 8"

definition shs_semp :: "('s, shared_sem) cell \<Rightarrow> ('s, u32) cell" where
  [code_defs]: "shs_semp = field 0 ss_semp ss_semp_update"

definition shs_refcount :: "('s, shared_sem) cell \<Rightarrow> ('s, int) cell" where
  [code_defs]: "shs_refcount = field 4 ss_refcount ss_refcount_update"

definition shs_name :: "('s, shared_sem) cell \<Rightarrow> ('s, nat \<Rightarrow> char) cell" where
  [code_defs]: "shs_name = field 16 ss_name ss_name_update"

lemma shs_sel [simp]:
  "c_get (shs_semp c) s = ss_semp (c_get c s)" "c_put (shs_semp c) v s = c_put c ((c_get c s)\<lparr>ss_semp := v\<rparr>) s"
  "c_get (shs_refcount c) s = ss_refcount (c_get c s)"
  "c_put (shs_refcount c) n s = c_put c ((c_get c s)\<lparr>ss_refcount := n\<rparr>) s"
  "c_get (shs_name c) s = ss_name (c_get c s)" "c_put (shs_name c) m s = c_put c ((c_get c s)\<lparr>ss_name := m\<rparr>) s"
  by (simp_all add: shs_semp_def shs_refcount_def shs_name_def)

text \<open>Bytes as arguments of a call.\<close>

definition chars :: "string \<Rightarrow> msg_item list" where
  "chars = map (\<lambda>c. Word (of_char c))"

definition SHM_DIR :: string where "SHM_DIR = ''/dev/shm/''"
definition SEM_PREFIX :: string where "SEM_PREFIX = ''sem.''"

subsection \<open>The file of a semaphore\<close>

record file_data =
  fd_file :: mport
  fd_dir :: mport
  fd_memobj :: mport

definition file_data_init :: file_data where
  "file_data_init = \<lparr>fd_file = MACH_PORT_NULL, fd_dir = MACH_PORT_NULL, fd_memobj = MACH_PORT_NULL\<rparr>"

definition mach_port_deallocate :: "mport \<Rightarrow> ('s, unit) prog" where
  [code_defs]: "mach_port_deallocate port = bind (sys (PortDeallocate port)) (\<lambda>_. Ret ())"

definition maybe_dealloc :: "mport \<Rightarrow> ('s, unit) prog" where
  [code_defs]: "maybe_dealloc port = (if port \<noteq> MACH_PORT_NULL then mach_port_deallocate port else Ret ())"

definition file_data_fini :: "file_data \<Rightarrow> ('s, file_data) prog" where
  [code_defs]: "file_data_fini fp =
    bind (maybe_dealloc (fd_file fp)) (\<lambda>_.
    bind (maybe_dealloc (fd_dir fp)) (\<lambda>_.
    bind (maybe_dealloc (fd_memobj fp)) (\<lambda>_. Ret file_data_init)))"

text \<open>The C library's \<open>file_name_lookup\<close> sets \<open>errno\<close> when it answers a null port.\<close>

definition file_name_lookup :: "('s, int) cell \<Rightarrow> string \<Rightarrow> u32 \<Rightarrow> ('s, mport) prog" where
  [code_defs]: "file_name_lookup errno path flags =
    bind (sys (Lib ''file_name_lookup'' (Word flags # chars path))) (\<lambda>r.
    if r_port r = MACH_PORT_NULL then bind (store errno (r_code r)) (\<lambda>_. Ret MACH_PORT_NULL)
    else Ret (r_port r))"

text \<open>The answers are the updated file data, and whether it worked.\<close>

definition create_anon_file :: "('s, int) cell \<Rightarrow> file_data \<Rightarrow> u32 \<Rightarrow> ('s, file_data \<times> bool) prog" where
  [code_defs]: "create_anon_file errno fp flags =
    bind (file_name_lookup errno SHM_DIR 0) (\<lambda>dir.
    let fp = fp\<lparr>fd_dir := dir\<rparr> in
    if dir = MACH_PORT_NULL then Ret (fp, False)
    else
      bind (sys (Lib ''dir_mkfile'' [Port dir, Word O_RDWR, Word flags])) (\<lambda>r.
      if r_code r \<noteq> 0 then Ret (fp, False) else Ret (fp\<lparr>fd_file := r_port r\<rparr>, True)))"

text \<open>\<open>io_write\<close> answers how much it has written; \<open>done\<close> is how far \<open>datap\<close> has moved.\<close>

definition write_full :: "file_data \<Rightarrow> sem_t \<Rightarrow> u32 \<Rightarrow> ('s, bool) prog" where
  [code_defs]: "write_full fp tmp sz = loop (\<lambda>(written, sz).
    bind (sys (Lib ''io_write'' [Port (fd_file fp), Word (lo (sm_val_nw tmp)), Word (hi (sm_val_nw tmp)),
      Word (sm_flags tmp), Word written, Word sz])) (\<lambda>r.
    if r_code r \<noteq> 0 then leave False
    else if sz - r_val r = 0 then leave True
    else again (written + r_val r, sz - r_val r))) (0, sz)"

text \<open>\<open>name\<close> is what follows the slash; the call with the length of the whole copies its final null byte.\<close>

definition link_file :: "file_data \<Rightarrow> string \<Rightarrow> ('s, bool) prog" where
  [code_defs]: "link_file fp name =
    bind (sys (Lib ''file_getlinknode'' [Port (fd_file fp)])) (\<lambda>r.
    if r_code r \<noteq> 0 then Ret False
    else
      let node = r_port r in
      bind (sys (Lib ''dir_link'' (Port (fd_dir fp) # Port node # chars (SEM_PREFIX @ name)))) (\<lambda>r.
      bind (mach_port_deallocate node) (\<lambda>_. Ret (r_code r = 0))))"

text \<open>\<open>io_map\<close> answers two ports: \<open>r_port\<close> for reading, and the port \<open>r_val\<close> for writing.\<close>

definition map_file :: "file_data \<Rightarrow> ('s, file_data \<times> u32) prog" where
  [code_defs]: "map_file fp =
    bind (sys (Lib ''io_map'' [Port (fd_file fp)])) (\<lambda>r.
    if r_code r \<noteq> 0 then Ret (fp, 0)
    else
      let dummy = r_port r; fp = fp\<lparr>fd_memobj := MachPort (r_val r)\<rparr> in
      bind (if fd_memobj fp = dummy then mach_port_deallocate dummy else Ret ()) (\<lambda>_.
      bind (sys (Lib ''vm_map'' [Port MachTaskSelf, Word sizeof_sem, Port (fd_memobj fp)])) (\<lambda>r.
      Ret (fp, if r_code r \<noteq> 0 then 0 else r_val r))))"

subsection \<open>The mappings\<close>

text \<open>\<open>memcmp\<close> over as many bytes as the name looked for has, without its final null byte.\<close>

definition name_matches :: "(nat \<Rightarrow> char) \<Rightarrow> string \<Rightarrow> bool" where
  "name_matches m name \<longleftrightarrow> map m [0..<length name] = name"

definition name_copy :: "string \<Rightarrow> (nat \<Rightarrow> char) \<Rightarrow> nat \<Rightarrow> char" where
  "name_copy name m i =
    (if i < length name then name ! i else if i = length name then CHR 0x00 else m i)"

text \<open>\<open>hurd_list_each\<close> over the mappings, left at the first one with the \<open>test\<close>; 0 when there is none.\<close>

definition find_mapping :: "'s named_sems \<Rightarrow> (u32 \<Rightarrow> ('s, bool) prog) \<Rightarrow> ('s, u32) prog" where
  [code_defs]: "find_mapping m test =
    bind (load (ns_links m)) (\<lambda>h.
    loop (\<lambda>runp.
      if runp = ns_mapped m then leave 0
      else
        bind (test (node_to_shsem runp)) (\<lambda>found.
        if found then leave (node_to_shsem runp)
        else bind (load (ns_links m)) (\<lambda>h. again (l_next (h runp))))) (l_next (h (ns_mapped m))))"

text \<open>
  A new mapping, or the one that is there with one more reference. \<open>prevp\<close> is the mapping that the caller made, if
  any. The answer is also the file data, since the file may be mapped here.
\<close>

definition add_mapping ::
  "'s named_sems \<Rightarrow> string \<Rightarrow> file_data \<Rightarrow> u32 \<Rightarrow> ('s, file_data \<times> u32) prog" where
  [code_defs]: "add_mapping m name fp prevp =
    bind (lll_lock (ns_lock m) 0) (\<lambda>_.
    bind (find_mapping m (\<lambda>sp. bind (load (shs_name (ns_sem m sp))) (\<lambda>nm. Ret (name_matches nm name)))) (\<lambda>sp.
    bind (if sp \<noteq> 0 then
            bind (load (shs_semp (ns_sem m sp))) (\<lambda>ret.
            bind (load (shs_refcount (ns_sem m sp))) (\<lambda>n.
            bind (store (shs_refcount (ns_sem m sp)) (n + 1)) (\<lambda>_. Ret (fp, ret, prevp))))
          else
            bind (sys (Lib ''malloc'' [Word (sizeof_shared_sem + of_nat (length name) + 1)])) (\<lambda>r.
            let sp = r_val r in
            if sp = 0 then Ret (fp, SEM_FAILED, prevp)
            else
              bind (if prevp = SEM_FAILED then map_file fp else Ret (fp, prevp)) (\<lambda>(fp, prevp).
              if prevp = 0 then
                bind (sys (Lib ''free'' [Word sp])) (\<lambda>_.
                bind (store (ns_errno m) ERR_ENOMEM) (\<lambda>_. Ret (fp, SEM_FAILED, prevp)))
              else
                bind (store (shs_refcount (ns_sem m sp)) 1) (\<lambda>_.
                bind (store (shs_semp (ns_sem m sp)) prevp) (\<lambda>_.
                bind (load (shs_name (ns_sem m sp))) (\<lambda>nm.
                bind (store (shs_name (ns_sem m sp)) (name_copy name nm)) (\<lambda>_.
                bind (Act (\<lambda>s. c_put (ns_links m)
                    (hurd_list_add_tail (ns_mapped m) (shsem_link sp) (c_get (ns_links m) s)) s) (\<lambda>_. Ret ())) (\<lambda>_.
                Ret (fp, prevp, prevp))))))))) (\<lambda>(fp, ret, prevp).
    bind (lll_unlock (ns_lock m) 0) (\<lambda>_.
    bind (if ret \<noteq> prevp \<and> prevp \<noteq> SEM_FAILED then vm_deallocate prevp sizeof_sem else Ret ()) (\<lambda>_.
    Ret (fp, ret))))))"

subsection \<open>The functions\<close>

definition validate_name :: "string \<Rightarrow> bool" where
  "validate_name name = (case name of [] \<Rightarrow> False | c # cs \<Rightarrow> c = CHR ''/'' \<and> CHR ''/'' \<notin> set cs)"

definition shm_path :: "string \<Rightarrow> string" where
  "shm_path name = SHM_DIR @ SEM_PREFIX @ tl name"

text \<open>
  The two labels, \<open>try_open\<close> and \<open>try_create\<close>, are the states of a loop, with the file data and the variable \<open>tmp\<close>. A
  jump to \<open>try_create\<close> enters the scope of \<open>tmp\<close> behind its initialisation: what it contains then is the argument
  \<open>junk\<close>. \<open>mode\<close> and \<open>val\<close> are the variable arguments.
\<close>

definition sem_open ::
  "'s named_sems \<Rightarrow> sem_t \<Rightarrow> string \<Rightarrow> u32 \<Rightarrow> u32 \<Rightarrow> u32 \<Rightarrow> ('s, u32) prog" where
  [code_defs]: "sem_open m junk name oflag mode val =
    (if \<not> validate_name name then bind (store (ns_errno m) ERR_EINVAL) (\<lambda>_. Ret SEM_FAILED)
     else loop (\<lambda>(create, fd, tmp).
       if \<not> create then
         bind (file_name_lookup (ns_errno m) (shm_path name)
           (((oflag AND NOT (O_CREAT OR O_ACCMODE)) OR O_NOFOLLOW) OR O_RDWR)) (\<lambda>file.
         let fd = fd\<lparr>fd_file := file\<rparr> in
         if file = MACH_PORT_NULL then
           bind (load (ns_errno m)) (\<lambda>e.
           if oflag AND O_CREAT \<noteq> 0 \<and> e = ERR_ENOENT then again (True, fd, junk)
           else bind (file_data_fini fd) (\<lambda>_. leave SEM_FAILED))
         else
           bind (add_mapping m (tl name) fd SEM_FAILED) (\<lambda>(fd, ret).
           bind (file_data_fini fd) (\<lambda>_. leave ret)))
       else
         let tmp = tmp\<lparr>sm_val_nw := (sm_val_nw tmp)\<lparr>lo := val\<rparr>\<rparr> in
         if lo (sm_val_nw tmp) > SEM_VALUE_MAX then
           bind (store (ns_errno m) ERR_EINVAL) (\<lambda>_. leave SEM_FAILED)
         else
           bind (create_anon_file (ns_errno m) fd mode) (\<lambda>(fd, ok).
           if \<not> ok then leave SEM_FAILED
           else
             bind (write_full fd tmp sizeof_sem) (\<lambda>ok.
             bind (if ok then map_file fd else Ret (fd, SEM_FAILED)) (\<lambda>(fd, ret).
             if ret = SEM_FAILED then bind (file_data_fini fd) (\<lambda>_. leave SEM_FAILED)
             else
               bind (link_file fd (tl name)) (\<lambda>ok.
               if \<not> ok then
                 bind (vm_deallocate ret sizeof_sem) (\<lambda>_.
                 bind (load (ns_errno m)) (\<lambda>e.
                 if oflag AND O_EXCL = 0 \<and> e = ERR_EEXIST then
                   bind (file_data_fini fd) (\<lambda>fd. again (False, fd, tmp))
                 else bind (file_data_fini fd) (\<lambda>_. leave SEM_FAILED)))
               else
                 bind (add_mapping m (tl name) fd ret) (\<lambda>(fd, ret).
                 bind (file_data_fini fd) (\<lambda>_. leave ret)))))))
       (oflag AND (O_CREAT OR O_EXCL) = O_CREAT OR O_EXCL, file_data_init,
        \<lparr>sm_val_nw = \<lparr>lo = 0, hi = 0\<rparr>, sm_flags = GSYNC_SHARED\<rparr>))"

definition sem_close :: "'s named_sems \<Rightarrow> u32 \<Rightarrow> ('s, int) prog" where
  [code_defs]: "sem_close m semp =
    bind (lll_lock (ns_lock m) 0) (\<lambda>_.
    bind (find_mapping m (\<lambda>sp. bind (load (shs_semp (ns_sem m sp))) (\<lambda>p. Ret (p = semp)))) (\<lambda>sp.
    bind (if sp \<noteq> 0 then
            bind (load (shs_refcount (ns_sem m sp))) (\<lambda>n.
            bind (store (shs_refcount (ns_sem m sp)) (n - 1)) (\<lambda>_.
            bind (if n - 1 = 0 then
                    bind (Act (\<lambda>s. c_put (ns_links m) (hurd_list_del (shsem_link sp) (c_get (ns_links m) s)) s)
                      (\<lambda>_. Ret ())) (\<lambda>_.
                    bind (load (shs_semp (ns_sem m sp))) (\<lambda>p.
                    bind (vm_deallocate p sizeof_sem) (\<lambda>_.
                    bind (sys (Lib ''free'' [Word sp])) (\<lambda>_. Ret ()))))
                  else Ret ()) (\<lambda>_. Ret 0)))
          else Ret (- 1)) (\<lambda>ret.
    bind (lll_unlock (ns_lock m) 0) (\<lambda>_.
    bind (if ret \<noteq> 0 then store (ns_errno m) ERR_EINVAL else Ret ()) (\<lambda>_. Ret ret)))))"

text \<open>\<open>unlink\<close> answers -1 and sets \<open>errno\<close>; a name that is not valid is answered by the number itself.\<close>

definition sem_unlink :: "('s, int) cell \<Rightarrow> string \<Rightarrow> ('s, int) prog" where
  [code_defs]: "sem_unlink errno name =
    (if \<not> validate_name name then Ret ERR_ENOENT
     else
       bind (sys (Lib ''unlink'' (chars (shm_path name)))) (\<lambda>r.
       if r_code r \<noteq> 0 then
         bind (store errno (r_code r)) (\<lambda>_.
         bind (if r_code r = ERR_EPERM then store errno ERR_EACCES else Ret ()) (\<lambda>_. Ret (- 1)))
       else Ret 0))"

end
