(* ===== verification/NamedSemRuns.thy ===== *)
theory NamedSemRuns
  imports NamedSem
begin

text \<open>
  The list of mappings: looking up, opening, closing, on the abstract list that the heap represents.
\<close>

record ns_world =
  nw_sem :: "u32 \<Rightarrow> shared_sem"
  nw_links :: heap
  nw_lock :: u32
  nw_errno :: int

definition ns_tab :: "ns_world named_sems" where
  "ns_tab = \<lparr>ns_sem = (\<lambda>a. \<lparr>c_addr = a, c_get = (\<lambda>s. nw_sem s a), c_put = (\<lambda>v s. s\<lparr>nw_sem := (nw_sem s)(a := v)\<rparr>)\<rparr>),
    ns_links = \<lparr>c_addr = 0, c_get = nw_links, c_put = (\<lambda>h s. s\<lparr>nw_links := h\<rparr>)\<rparr>,
    ns_mapped = 4,
    ns_lock = \<lparr>c_addr = 12, c_get = nw_lock, c_put = (\<lambda>v s. s\<lparr>nw_lock := v\<rparr>)\<rparr>,
    ns_errno = \<lparr>c_addr = 16, c_get = nw_errno, c_put = (\<lambda>e s. s\<lparr>nw_errno := e\<rparr>)\<rparr>\<rparr>"

lemma ns_sel [simp]:
  "c_get (ns_sem ns_tab a) s = nw_sem s a" "c_put (ns_sem ns_tab a) x s = s\<lparr>nw_sem := (nw_sem s)(a := x)\<rparr>"
  "c_get (ns_links ns_tab) s = nw_links s" "c_put (ns_links ns_tab) h s = s\<lparr>nw_links := h\<rparr>"
  "ns_mapped ns_tab = 4"
  "c_get (ns_lock ns_tab) s = nw_lock s" "c_put (ns_lock ns_tab) v s = s\<lparr>nw_lock := v\<rparr>"
  "c_get (ns_errno ns_tab) s = nw_errno s" "c_put (ns_errno ns_tab) e s = s\<lparr>nw_errno := e\<rparr>"
  by (simp_all add: ns_tab_def)

abbreviation ns_kernel :: "ns_world keff" where
  "ns_kernel \<equiv> gsync_effect (ns_lock ns_tab)"

lemma node_shsem [simp]: "node_to_shsem (shsem_link sp) = sp"
  by (simp add: node_to_shsem_def shsem_link_def)

text \<open>The mappings in the order of the list.\<close>

definition mappings :: "ns_world \<Rightarrow> u32 list \<Rightarrow> bool" where
  "mappings s sps \<longleftrightarrow> is_list (nw_links s) 4 (map shsem_link sps) \<and> 0 \<notin> set sps \<and> nw_lock s = 0"

lemma mappings_upd [simp]:
  "mappings (s\<lparr>nw_sem := f\<rparr>) sps = mappings s sps" "mappings (s\<lparr>nw_errno := e\<rparr>) sps = mappings s sps"
  by (simp_all add: mappings_def)

definition find_sp :: "(u32 \<Rightarrow> bool) \<Rightarrow> u32 list \<Rightarrow> u32" where
  "find_sp P sps = (case find P sps of None \<Rightarrow> 0 | Some sp \<Rightarrow> sp)"

lemma find_sp_simps [simp]: "find_sp P [] = 0" "find_sp P (sp # sps) = (if P sp then sp else find_sp P sps)"
  by (simp_all add: find_sp_def)

lemma exec_find_mapping:
  assumes "is_list (nw_links s) 4 (map shsem_link sps)" and test: "\<And>sp. \<exists>u. test sp = Act id u \<and> u s = Ret (P sp)"
  shows "exec M (bind (find_mapping ns_tab test) f) rs s l = exec M (f (find_sp P sps)) rs s l"
proof -
  let ?L = "loop (\<lambda>runp.
      if runp = 4 then leave 0
      else
        bind (test (node_to_shsem runp)) (\<lambda>found.
        if found then leave (node_to_shsem runp)
        else bind (load (ns_links ns_tab)) (\<lambda>h. again (l_next (h runp)))))"
  have "exec M (?L (hd (map shsem_link qs @ [4]))) rs s l = Some (find_sp P qs, s, rs, l)"
    if "linked (nw_links s) (map shsem_link qs @ [4])" "4 \<notin> set (map shsem_link qs)" for qs
    using that
  proof (induction qs)
    case Nil
    then show ?case by (simp add: exec_loop)
  next
    case (Cons q qs)
    obtain u where u: "test q = Act id u" "u s = Ret (P q)" using test by blast
    have n: "l_next (nw_links s (shsem_link q)) = hd (map shsem_link qs @ [4])"
      using Cons.prems(1) by (cases qs) simp_all
    have l: "linked (nw_links s) (map shsem_link qs @ [4])" using Cons.prems(1) by (cases qs) simp_all
    show ?case
      using Cons.IH [OF l] Cons.prems(2) n u
      by (simp add: exec_loop [of _ _ "shsem_link q"] run_iter)
  qed
  note w = this
  have "l_next (nw_links s 4) = hd (map shsem_link sps @ [4])" "linked (nw_links s) (map shsem_link sps @ [4])"
    "4 \<notin> set (map shsem_link sps)"
    using assms(1) by (cases sps; simp add: is_list_def)+
  then show ?thesis
    using exec_bind [OF w [of sps], of f] by (simp add: find_mapping_def runs)
qed

definition named :: "ns_world \<Rightarrow> string \<Rightarrow> u32 \<Rightarrow> bool" where
  "named s name sp \<longleftrightarrow> name_matches (ss_name (nw_sem s sp)) name"

definition ref_add :: "int \<Rightarrow> u32 \<Rightarrow> ns_world \<Rightarrow> ns_world" where
  "ref_add n sp s = s\<lparr>nw_sem := (nw_sem s)(sp := (nw_sem s sp)\<lparr>ss_refcount := ss_refcount (nw_sem s sp) + n\<rparr>)\<rparr>"

definition new_mapping :: "string \<Rightarrow> u32 \<Rightarrow> u32 \<Rightarrow> ns_world \<Rightarrow> ns_world" where
  "new_mapping name semp sp s = s\<lparr>nw_sem := (nw_sem s)(sp :=
      \<lparr>ss_semp = semp, ss_refcount = 1, ss_name = name_copy name (ss_name (nw_sem s sp))\<rparr>),
    nw_links := hurd_list_add_tail 4 (shsem_link sp) (nw_links s)\<rparr>"

definition unmap_calls :: "u32 \<Rightarrow> kcall list" where
  "unmap_calls semp = [Lib ''vm_deallocate'' [Port MachTaskSelf, Word semp, Word sizeof_sem]]"

lemma mappings_lock:
  assumes "mappings s sps"
  shows "is_list (nw_links (s\<lparr>nw_lock := v\<rparr>)) 4 (map shsem_link sps)" and "nw_lock s = 0" and "s\<lparr>nw_lock := 0\<rparr> = s"
  using assms by (cases s; simp add: mappings_def)+

lemma exec_find_name:
  assumes "mappings s sps"
  shows "exec M (bind (find_mapping ns_tab (\<lambda>sp. bind (load (shs_name (ns_sem ns_tab sp))) (\<lambda>nm. Ret (name_matches nm name)))) f)
      rs (s\<lparr>nw_lock := 1\<rparr>) l =
    exec M (f (find_sp (named s name) sps)) rs (s\<lparr>nw_lock := 1\<rparr>) l"
  by (rule exec_find_mapping [OF mappings_lock(1) [OF assms]]) (simp add: load_def named_def)

lemma exec_find_semp:
  assumes "mappings s sps"
  shows "exec M (bind (find_mapping ns_tab (\<lambda>sp. bind (load (shs_semp (ns_sem ns_tab sp))) (\<lambda>p. Ret (p = semp)))) f)
      rs (s\<lparr>nw_lock := 1\<rparr>) l =
    exec M (f (find_sp (\<lambda>sp. ss_semp (nw_sem s sp) = semp) sps)) rs (s\<lparr>nw_lock := 1\<rparr>) l"
  by (rule exec_find_mapping [OF mappings_lock(1) [OF assms]]) (simp add: load_def)

lemma find_sp_in: "find_sp P sps = sp \<Longrightarrow> sp \<noteq> 0 \<Longrightarrow> sp \<in> set sps \<and> P sp"
  by (induction sps) (auto split: if_splits)

lemma unlocked_id:
  assumes "nw_lock (s :: ns_world) = 0"
  shows "s\<lparr>nw_lock := 0\<rparr> = s" "s\<lparr>nw_lock := 0, nw_errno := e\<rparr> = s\<lparr>nw_errno := e\<rparr>"
    "s\<lparr>nw_sem := x, nw_lock := 0\<rparr> = s\<lparr>nw_sem := x\<rparr>"
    "s\<lparr>nw_links := h, nw_sem := x, nw_lock := 0\<rparr> = s\<lparr>nw_sem := x, nw_links := h\<rparr>"
    "s\<lparr>nw_sem := x, nw_links := h, nw_lock := 0\<rparr> = s\<lparr>nw_sem := x, nw_links := h\<rparr>"
  using assms by (cases s; simp)+

text \<open>Opening a name that is mapped: one more reference, and the caller's mapping goes.\<close>

lemma exec_add_found:
  assumes m: "mappings s sps" and sp: "find_sp (named s name) sps = sp" "sp \<noteq> 0"
    and q: "prevp = 0 \<or> prevp = ss_semp (nw_sem s sp) \<longrightarrow> rs = rs'" "prevp \<noteq> 0 \<and> prevp \<noteq> ss_semp (nw_sem s sp) \<longrightarrow> rs = r # rs'"
  shows "exec ns_kernel (bind (add_mapping ns_tab name fp prevp) f) rs s l =
    exec ns_kernel (f (fp, ss_semp (nw_sem s sp))) rs' (ref_add 1 sp s)
      (l @ (if prevp = 0 \<or> prevp = ss_semp (nw_sem s sp) then [] else unmap_calls prevp))"
proof -
  have w: "nw_lock s = 0" using m by (simp add: mappings_def)
  show ?thesis
    using sp(2) q mappings_lock(2) [OF m]
    by (auto simp: add_mapping_def runs exec_find_name [OF m] sp(1) exec_lll_unlock_one ref_add_def unlocked_id [OF w] vm_deallocate_def sys_def unmap_calls_def)
qed

text \<open>Opening a name that is not, with the caller's mapping.\<close>

lemma exec_add_new:
  assumes m: "mappings s sps" and sp: "find_sp (named s name) sps = 0" and "sp \<noteq> 0" and "prevp \<noteq> 0"
  shows "exec ns_kernel (bind (add_mapping ns_tab name fp prevp) f) (reply0\<lparr>r_val := sp\<rparr> # rs) s l =
    exec ns_kernel (f (fp, prevp)) rs (new_mapping name prevp sp s)
      (l @ [Lib ''malloc'' [Word (sizeof_shared_sem + of_nat (length name) + 1)]])"
proof -
  have w: "(x :: shared_sem)\<lparr>ss_refcount := n, ss_semp := p, ss_name := nm\<rparr> = \<lparr>ss_semp = p, ss_refcount = n, ss_name = nm\<rparr>" for x n p nm
    by (cases x) simp
  have l: "nw_lock s = 0" using m by (simp add: mappings_def)
  then show ?thesis
    using assms(3,4)
    by (simp add: add_mapping_def runs exec_find_name [OF m] sp exec_lll_unlock_one new_mapping_def w sys_def unlocked_id [OF l])
qed

definition del_mapping :: "u32 \<Rightarrow> ns_world \<Rightarrow> ns_world" where
  "del_mapping sp s = s\<lparr>nw_links := hurd_list_del (shsem_link sp) (nw_links s)\<rparr>"

lemma exec_sem_close:
  assumes m: "mappings s sps" and sp: "find_sp (\<lambda>sp. ss_semp (nw_sem s sp) = semp) sps = sp"
  shows "sp = 0 \<Longrightarrow> exec ns_kernel (sem_close ns_tab semp) rs s l = Some (- 1, s\<lparr>nw_errno := ERR_EINVAL\<rparr>, rs, l)"
    and "sp \<noteq> 0 \<Longrightarrow> ss_refcount (nw_sem s sp) \<noteq> 1 \<Longrightarrow>
      exec ns_kernel (sem_close ns_tab semp) rs s l = Some (0, ref_add (- 1) sp s, rs, l)"
    and "sp \<noteq> 0 \<Longrightarrow> ss_refcount (nw_sem s sp) = 1 \<Longrightarrow>
      exec ns_kernel (sem_close ns_tab semp) (r1 # r2 # rs) s l =
        Some (0, del_mapping sp (ref_add (- 1) sp s), rs, l @ unmap_calls semp @ [Lib ''free'' [Word sp]])"
proof -
  note f = exec_find_semp [OF m, of _ semp, unfolded sp]
  have l: "nw_lock s = 0" using m by (simp add: mappings_def)
  show "exec ns_kernel (sem_close ns_tab semp) rs s l = Some (- 1, s\<lparr>nw_errno := ERR_EINVAL\<rparr>, rs, l)" if "sp = 0"
    using l that by (simp add: unlocked_id [OF l] sem_close_def runs f exec_lll_unlock_one)
  show "exec ns_kernel (sem_close ns_tab semp) rs s l = Some (0, ref_add (- 1) sp s, rs, l)"
    if "sp \<noteq> 0" "ss_refcount (nw_sem s sp) \<noteq> 1"
    using l that by (simp add: unlocked_id [OF l] sem_close_def runs f exec_lll_unlock_one ref_add_def)
  show "exec ns_kernel (sem_close ns_tab semp) (r1 # r2 # rs) s l =
        Some (0, del_mapping sp (ref_add (- 1) sp s), rs, l @ unmap_calls semp @ [Lib ''free'' [Word sp]])"
    if "sp \<noteq> 0" "ss_refcount (nw_sem s sp) = 1"
    using l that find_sp_in [OF sp]
    by (simp add: unlocked_id [OF l] sem_close_def runs f exec_lll_unlock_one ref_add_def del_mapping_def vm_deallocate_def sys_def unmap_calls_def)
qed

lemma mappings_new:
  assumes "mappings s sps" and "sp \<notin> set sps" and "sp \<noteq> 0" and "shsem_link sp \<noteq> 4"
  shows "mappings (new_mapping name p sp s) (sps @ [sp])"
proof -
  have "shsem_link sp \<notin> set (4 # map shsem_link sps)" using assms(2,4) by (auto simp: shsem_link_def)
  then show ?thesis
    using assms(1,3) is_list_add_tail [of "nw_links s" 4 "map shsem_link sps" "shsem_link sp"]
    by (simp add: mappings_def new_mapping_def)
qed

lemma mappings_del: "mappings s (xs @ sp # ys) \<Longrightarrow> mappings (del_mapping sp s) (xs @ ys)"
  using is_list_del [of "nw_links s" 4 "map shsem_link xs" "shsem_link sp" "map shsem_link ys"]
  by (simp add: mappings_def del_mapping_def)

lemma mappings_ref [simp]: "mappings (ref_add n sp s) sps = mappings s sps"
  by (simp add: ref_add_def)

lemma find_sp_unique:
  assumes "distinct (map g sps)" and "sp \<in> set sps" 
  shows "find_sp (\<lambda>x. g x = g sp) sps = sp"
  using assms by (induction sps) (auto simp: image_iff)

lemma find_sp_none: "(\<And>x. x \<in> set sps \<Longrightarrow> \<not> P x) \<Longrightarrow> find_sp P sps = 0"
  by (induction sps) auto

lemma find_sp_zero: "0 \<notin> set sps \<Longrightarrow> find_sp P sps = 0 \<longleftrightarrow> (\<forall>x\<in>set sps. \<not> P x)"
  by (induction sps) auto

lemma find_sp_last: "sp \<noteq> 0 \<Longrightarrow> find_sp P sps = 0 \<Longrightarrow> 0 \<notin> set sps \<Longrightarrow> P sp \<Longrightarrow> find_sp P (sps @ [sp]) = sp"
  by (induction sps) (auto split: if_splits)

subsection \<open>Properties\<close>


text \<open>An empty list of mappings.\<close>

definition ns_start :: "(u32 \<Rightarrow> shared_sem) \<Rightarrow> ns_world" where
  "ns_start mem = \<lparr>nw_sem = mem, nw_links = hurd_list_init 4 (\<lambda>_. \<lparr>l_prev = 0, l_next = 0\<rparr>), nw_lock = 0, nw_errno = 0\<rparr>"

lemma mappings_start [simp]: "mappings (ns_start mem) []"
  by (simp add: mappings_def ns_start_def is_list_init)


text \<open>
  A name that is mapped is opened as the mapping that is there, with one more reference, and the new mapping of the caller is
  given up. The comparison is over the length of the name looked for: a name that is a proper prefix of a mapped one is answered by the semaphore of
  the longer name.
\<close>

theorem named_sem_prefix:
  assumes "sp \<noteq> 0" and "shsem_link sp \<noteq> 4" and "p \<noteq> 0" and "q \<noteq> p"
  shows "\<exists>s. exec ns_kernel (bind (add_mapping ns_tab (name @ suffix) fp p) (\<lambda>_. add_mapping ns_tab name fp' q))
      [reply0\<lparr>r_val := sp\<rparr>, reply0] (ns_start mem) [] = Some ((fp', p), s, if q = 0 then [reply0] else [],
        Lib ''malloc'' [Word (sizeof_shared_sem + of_nat (length (name @ suffix)) + 1)] # (if q = 0 then [] else unmap_calls q)) \<and>
    mappings s [sp] \<and> ss_semp (nw_sem s sp) = p \<and> ss_refcount (nw_sem s sp) = 2"
proof -
  let ?s = "new_mapping (name @ suffix) p sp (ns_start mem)"
    and ?m = "Lib ''malloc'' [Word (sizeof_shared_sem + of_nat (length (name @ suffix)) + 1)]"
  have m: "mappings ?s ([] @ [sp])" by (rule mappings_new) (use assms in simp_all)
  have "name_matches (name_copy (name @ suffix) f) name" for f
    by (rule nth_equalityI [THEN name_matches_def [THEN iffD2]]) (auto simp: name_copy_def nth_append)
  then have f: "find_sp (named ?s name) ([] @ [sp]) = sp" by (simp add: named_def new_mapping_def)
  have p: "ss_semp (nw_sem ?s sp) = p" by (simp add: new_mapping_def)
  let ?rs' = "if q = 0 then [reply0] else []"
  have "exec ns_kernel (add_mapping ns_tab name fp' q) [reply0] ?s l =
      Some ((fp', p), ref_add 1 sp ?s, ?rs', l @ (if q = 0 then [] else unmap_calls q))" for l
    using exec_add_found [OF m f assms(1), of q "[reply0]" ?rs' reply0 fp' Ret l] assms(4)
    by (auto simp: p bind_Ret)
  moreover have "exec ns_kernel (bind (add_mapping ns_tab (name @ suffix) fp p) (\<lambda>_. add_mapping ns_tab name fp' q))
      [reply0\<lparr>r_val := sp\<rparr>, reply0] (ns_start mem) [] = exec ns_kernel (add_mapping ns_tab name fp' q) [reply0] ?s ([] @ [?m])"
    by (rule exec_add_new [OF mappings_start]) (use assms in simp_all)
  moreover have "ss_semp (nw_sem (ref_add 1 sp ?s) sp) = p" "ss_refcount (nw_sem (ref_add 1 sp ?s) sp) = 2"
    by (simp_all add: ref_add_def new_mapping_def)
  ultimately show ?thesis using m by (intro exI [of _ "ref_add 1 sp ?s"]) simp
qed

lemma named_sem_prefix_witness:
  "\<exists>s l. exec ns_kernel (bind (add_mapping ns_tab ''foobar'' file_data_init 4096) (\<lambda>_. add_mapping ns_tab ''foo'' file_data_init 8192))
      [reply0\<lparr>r_val := 64\<rparr>, reply0] (ns_start mem) [] = Some ((file_data_init, 4096), s, [], l)"
  using named_sem_prefix [of 64 4096 8192 "''foo''" "''bar''" file_data_init file_data_init mem]
  by (auto simp: shsem_link_def)

text \<open>
  Creating a semaphore that is looked for first writes a file whose number of waiters and flags are whatever the
  stack contained: only the value is set.
\<close>

theorem sem_open_uninitialised:
  assumes "validate_name name" and "val \<le> SEM_VALUE_MAX"
  shows "exec ns_kernel (sem_open ns_tab junk name O_CREAT mode val)
      [reply0\<lparr>r_port := MACH_PORT_NULL, r_code := ERR_ENOENT\<rparr>, reply0, reply0, reply0\<lparr>r_code := 5\<rparr>, reply0, reply0] s [] =
    Some (SEM_FAILED, s\<lparr>nw_errno := ERR_ENOENT\<rparr>, [],
      [Lib ''file_name_lookup'' (Word (O_NOFOLLOW OR O_RDWR) # chars (shm_path name)),
       Lib ''file_name_lookup'' (Word 0 # chars SHM_DIR), Lib ''dir_mkfile'' [Port (MachPort 1), Word O_RDWR, Word mode],
       Lib ''io_write'' [Port (MachPort 1), Word val, Word (hi (sm_val_nw junk)), Word (sm_flags junk), Word 0, Word sizeof_sem],
       PortDeallocate (MachPort 1), PortDeallocate (MachPort 1)])"
  using assms
  by (simp add: code_defs atomic_defs loop_def Let_def file_data_init_def not_less cong: lazy_cong)

lemma sem_open_uninitialised_witness:
  "exec ns_kernel (sem_open ns_tab \<lparr>sm_val_nw = \<lparr>lo = 1, hi = 2\<rparr>, sm_flags = 3\<rparr> ''/a'' O_CREAT 0 1)
      [reply0\<lparr>r_port := MACH_PORT_NULL, r_code := ERR_ENOENT\<rparr>, reply0, reply0, reply0\<lparr>r_code := 5\<rparr>, reply0, reply0] (ns_start mem) [] \<noteq> None"
  using sem_open_uninitialised [of "''/a''" 1 "\<lparr>sm_val_nw = \<lparr>lo = 1, hi = 2\<rparr>, sm_flags = 3\<rparr>" 0 "ns_start mem"]
  by (simp add: validate_name_def)

end
