(* ===== verification/RwLock.thy ===== *)
theory RwLock
  imports Thread
begin

text \<open>
  \<open>pthread/rwlock.c\<close>. A read-write lock is two 64-bit words: \<open>__shpid_qwr\<close>, with the process of the
  writer in its low and the number of waiting writers in its high limb, and \<open>__oid_nrd\<close>, with the
  owner in its low and the number of readers, waiting or reading, in its high limb. Readers wait on the
  owner; writers wait on the 64 bits that start at the number of writers and end with the owner.
\<close>

record pthread_rwlockattr =
  rwa_flags :: u32

record pthread_rwlock =
  rw_shpid_qwr :: xint
  rw_oid_nrd :: xint
  rw_flags :: u32

abbreviation (input) RWLOCK_UNOWNED :: u32 where "RWLOCK_UNOWNED \<equiv> 0"
abbreviation (input) RWLOCK_RO :: u32 where "RWLOCK_RO \<equiv> 0x80000000"

subsection \<open>Attributes\<close>

definition rwlock_dfl_attr :: pthread_rwlockattr where
  "rwlock_dfl_attr = \<lparr>rwa_flags = 0\<rparr>"

definition pthread_rwlockattr_init :: "pthread_rwlockattr \<Rightarrow> ret \<times> pthread_rwlockattr" where
  "pthread_rwlockattr_init attr = (OK, rwlock_dfl_attr)"

definition pthread_rwlockattr_setpshared ::
  "pthread_rwlockattr \<Rightarrow> int \<Rightarrow> ret \<times> pthread_rwlockattr" where
  "pthread_rwlockattr_setpshared attr pshared =
    (if pshared \<noteq> PTHREAD_PROCESS_SHARED \<and> pshared \<noteq> PTHREAD_PROCESS_PRIVATE then (Err EINVAL, attr)
     else (OK, attr\<lparr>rwa_flags := (rwa_flags attr AND NOT GSYNC_SHARED) OR
       (if pshared = PTHREAD_PROCESS_SHARED then GSYNC_SHARED else 0)\<rparr>))"

definition pthread_rwlockattr_getpshared :: "pthread_rwlockattr \<Rightarrow> ret \<times> int" where
  "pthread_rwlockattr_getpshared attr =
    (OK, if rwa_flags attr AND GSYNC_SHARED \<noteq> 0 then PTHREAD_PROCESS_SHARED
     else PTHREAD_PROCESS_PRIVATE)"

definition pthread_rwlockattr_destroy :: "pthread_rwlockattr \<Rightarrow> ret \<times> pthread_rwlockattr" where
  "pthread_rwlockattr_destroy attr = (OK, attr)"

subsection \<open>The fields\<close>

definition rwl_oid_nrd :: "('s, pthread_rwlock) cell \<Rightarrow> ('s, xint) cell" where
  "rwl_oid_nrd = field 8 rw_oid_nrd rw_oid_nrd_update"

definition rwl_oid :: "('s, pthread_rwlock) cell \<Rightarrow> ('s, u32) cell" where
  "rwl_oid rwp = lo_cell (rwl_oid_nrd rwp)"

definition rwl_nrd :: "('s, pthread_rwlock) cell \<Rightarrow> ('s, u32) cell" where
  "rwl_nrd rwp = hi_cell (rwl_oid_nrd rwp)"

definition rwl_spid :: "('s, pthread_rwlock) cell \<Rightarrow> ('s, u32) cell" where
  "rwl_spid rwp = lo_cell (field 0 rw_shpid_qwr rw_shpid_qwr_update rwp)"

definition rwl_qwr :: "('s, pthread_rwlock) cell \<Rightarrow> ('s, u32) cell" where
  "rwl_qwr rwp = hi_cell (field 0 rw_shpid_qwr rw_shpid_qwr_update rwp)"

definition rwl_flags :: "('s, pthread_rwlock) cell \<Rightarrow> ('s, u32) cell" where
  "rwl_flags = field 16 rw_flags rw_flags_update"

lemma rwl_sel [simp]:
  "c_addr (rwl_oid c) = c_addr c + 8" "c_addr (rwl_qwr c) = c_addr c + 4"
  "c_get (rwl_oid_nrd c) s = rw_oid_nrd (c_get c s)"
  "c_put (rwl_oid_nrd c) x s = c_put c ((c_get c s)\<lparr>rw_oid_nrd := x\<rparr>) s"
  "c_get (rwl_oid c) s = lo (rw_oid_nrd (c_get c s))"
  "c_put (rwl_oid c) v s = c_put c ((c_get c s)\<lparr>rw_oid_nrd := (rw_oid_nrd (c_get c s))\<lparr>lo := v\<rparr>\<rparr>) s"
  "c_get (rwl_nrd c) s = hi (rw_oid_nrd (c_get c s))"
  "c_put (rwl_nrd c) v s = c_put c ((c_get c s)\<lparr>rw_oid_nrd := (rw_oid_nrd (c_get c s))\<lparr>hi := v\<rparr>\<rparr>) s"
  "c_get (rwl_spid c) s = lo (rw_shpid_qwr (c_get c s))"
  "c_put (rwl_spid c) v s = c_put c ((c_get c s)\<lparr>rw_shpid_qwr := (rw_shpid_qwr (c_get c s))\<lparr>lo := v\<rparr>\<rparr>) s"
  "c_get (rwl_qwr c) s = hi (rw_shpid_qwr (c_get c s))"
  "c_put (rwl_qwr c) v s = c_put c ((c_get c s)\<lparr>rw_shpid_qwr := (rw_shpid_qwr (c_get c s))\<lparr>hi := v\<rparr>\<rparr>) s"
  "c_get (rwl_flags c) s = rw_flags (c_get c s)"
  by (simp_all add: rwl_oid_nrd_def rwl_oid_def rwl_nrd_def rwl_spid_def rwl_qwr_def rwl_flags_def)

definition pthread_rwlock_init ::
  "('s, pthread_rwlock) cell \<Rightarrow> pthread_rwlockattr option \<Rightarrow> ('s, ret) prog" where
  [code_defs]: "pthread_rwlock_init rwp attrp =
    (let attr = (case attrp of None \<Rightarrow> rwlock_dfl_attr | Some a \<Rightarrow> a) in
     bind (store (rwl_oid_nrd rwp) \<lparr>lo = 0, hi = 0\<rparr>) (\<lambda>_.
     bind (store (field 0 rw_shpid_qwr rw_shpid_qwr_update rwp) \<lparr>lo = 0, hi = 0\<rparr>) (\<lambda>_.
     bind (store (rwl_flags rwp) (rwa_flags attr)) (\<lambda>_. Ret OK))))"

text \<open>The macros take the flags as an expression that they may or may not evaluate: a program here.\<close>

definition rwl_owned_p ::
  "('s, pthread_rwlock) cell \<Rightarrow> thread \<Rightarrow> ('s, u32) prog \<Rightarrow> ('s, bool) prog" where
  [code_defs]: "rwl_owned_p rwp self flags =
    bind (load (rwl_oid rwp)) (\<lambda>oid.
    if oid \<noteq> th_id self then Ret False
    else bind flags (\<lambda>fl.
      if fl AND GSYNC_SHARED = 0 then Ret True
      else bind (load (rwl_spid rwp)) (\<lambda>spid. Ret (spid = th_pid self))))"

definition rwl_setown ::
  "('s, pthread_rwlock) cell \<Rightarrow> thread \<Rightarrow> ('s, u32) prog \<Rightarrow> ('s, unit) prog" where
  [code_defs]: "rwl_setown rwp self flags =
    bind flags (\<lambda>fl.
    if fl AND GSYNC_SHARED \<noteq> 0 then store (rwl_spid rwp) (th_pid self) else Ret ())"

text \<open>\<open>rwp->__flags & GSYNC_SHARED\<close>\<close>

definition rwl_shared :: "('s, pthread_rwlock) cell \<Rightarrow> ('s, u32) prog" where
  [code_defs]: "rwl_shared rwp = bind (load (rwl_flags rwp)) (\<lambda>fl. Ret (fl AND GSYNC_SHARED))"

subsection \<open>Locking for reading\<close>

text \<open>
  The attempt that the three calls share: one more reader of a lock without a writer, as read in
  \<open>tmp\<close>. The first reader of an unowned lock wakes those that wait for a writer to leave.
\<close>

definition rwl_grab_read ::
  "('s, pthread_rwlock) cell \<Rightarrow> ('s, u32) prog \<Rightarrow> xint \<Rightarrow> ('s, bool) prog" where
  [code_defs]: "rwl_grab_read rwp flags tmp =
    bind (atomic_casx_bool (rwl_oid_nrd rwp) (lo tmp) (hi tmp) RWLOCK_RO (hi tmp + 1)) (\<lambda>ok.
    if ok then
      bind (if lo tmp = RWLOCK_UNOWNED \<and> hi tmp > 0 then
              bind flags (\<lambda>fl. lll_wake (rwl_oid rwp) (fl OR GSYNC_BROADCAST))
            else Ret ()) (\<lambda>_. Ret True)
    else Ret False)"

definition pthread_rwlock_rdlock ::
  "thread \<Rightarrow> ('s, pthread_rwlock) cell \<Rightarrow> ('s, ret) prog" where
  [code_defs]: "pthread_rwlock_rdlock self rwp =
    bind (rwl_shared rwp) (\<lambda>flags.
    bind (rwl_owned_p rwp self (Ret flags)) (\<lambda>owned.
    if owned then Ret (Err EDEADLK)
    else loop (\<lambda>_.
      bind (atomic_loadx (rwl_oid_nrd rwp)) (\<lambda>tmp.
      if lo tmp AND PTHREAD_ID_MASK = 0 then
        bind (rwl_grab_read rwp (Ret flags) tmp) (\<lambda>ok. if ok then leave OK else again ())
      else
        bind (atomic_add (rwl_nrd rwp) 1) (\<lambda>_.
        bind (lll_wait (rwl_oid rwp) (lo tmp) flags) (\<lambda>_.
        bind (atomic_add (rwl_nrd rwp) (- 1)) (\<lambda>_. again ()))))) ()))"

definition pthread_rwlock_tryrdlock ::
  "thread \<Rightarrow> ('s, pthread_rwlock) cell \<Rightarrow> ('s, ret) prog" where
  [code_defs]: "pthread_rwlock_tryrdlock self rwp =
    bind (rwl_owned_p rwp self (load (rwl_flags rwp))) (\<lambda>owned.
    if owned then Ret (Err EDEADLK)
    else loop (\<lambda>_.
      bind (atomic_loadx (rwl_oid_nrd rwp)) (\<lambda>tmp.
      if lo tmp AND PTHREAD_ID_MASK \<noteq> 0 then leave (Err EBUSY)
      else bind (rwl_grab_read rwp (rwl_shared rwp) tmp) (\<lambda>ok.
        if ok then leave OK else again ()))) ())"

definition pthread_rwlock_timedrdlock ::
  "thread \<Rightarrow> ('s, pthread_rwlock) cell \<Rightarrow> timespec \<Rightarrow> ('s, ret) prog" where
  [code_defs]: "pthread_rwlock_timedrdlock self rwp abstime =
    bind (rwl_shared rwp) (\<lambda>flags.
    bind (rwl_owned_p rwp self (Ret flags)) (\<lambda>owned.
    if owned then Ret (Err EDEADLK)
    else loop (\<lambda>_.
      bind (atomic_loadx (rwl_oid_nrd rwp)) (\<lambda>tmp.
      if lo tmp AND PTHREAD_ID_MASK = 0 then
        bind (rwl_grab_read rwp (Ret flags) tmp) (\<lambda>ok. if ok then leave OK else again ())
      else if bad_nsec abstime then leave (Err EINVAL)
      else
        bind (atomic_add (rwl_nrd rwp) 1) (\<lambda>_.
        bind (lll_abstimed_wait (rwl_oid rwp) (lo tmp) abstime flags CLOCK_REALTIME) (\<lambda>ret.
        bind (atomic_add (rwl_nrd rwp) (- 1)) (\<lambda>_.
        if ret = KERN_TIMEDOUT then leave (Err ETIMEDOUT) else again ()))))) ()))"

subsection \<open>Locking for writing\<close>

definition pthread_rwlock_wrlock ::
  "thread \<Rightarrow> ('s, pthread_rwlock) cell \<Rightarrow> ('s, ret) prog" where
  [code_defs]: "pthread_rwlock_wrlock self rwp =
    bind (rwl_shared rwp) (\<lambda>flags.
    bind (rwl_owned_p rwp self (Ret flags)) (\<lambda>owned.
    if owned then Ret (Err EDEADLK)
    else loop (\<lambda>_.
      bind (atomic_load (rwl_oid rwp)) (\<lambda>owner.
      if owner = RWLOCK_UNOWNED then
        bind (atomic_cas_bool (rwl_oid rwp) owner (th_id self)) (\<lambda>ok.
        if ok then bind (rwl_setown rwp self (Ret flags)) (\<lambda>_. leave OK) else again ())
      else
        bind (atomic_add (rwl_qwr rwp) 1) (\<lambda>nw.
        bind (lll_xwait (rwl_qwr rwp) (nw + 1) owner flags) (\<lambda>_.
        bind (atomic_add (rwl_qwr rwp) (- 1)) (\<lambda>_. again ()))))) ()))"

definition pthread_rwlock_trywrlock ::
  "thread \<Rightarrow> ('s, pthread_rwlock) cell \<Rightarrow> ('s, ret) prog" where
  [code_defs]: "pthread_rwlock_trywrlock self rwp =
    bind (atomic_load (rwl_oid rwp)) (\<lambda>owner.
    bind (rwl_owned_p rwp self (load (rwl_flags rwp))) (\<lambda>owned.
    if owned then Ret (Err EDEADLK)
    else bind (if owner = RWLOCK_UNOWNED then atomic_cas_bool (rwl_oid rwp) owner (th_id self)
               else Ret False) (\<lambda>ok.
      if ok then bind (rwl_setown rwp self (load (rwl_flags rwp))) (\<lambda>_. Ret OK)
      else Ret (Err EBUSY))))"

definition pthread_rwlock_timedwrlock ::
  "thread \<Rightarrow> ('s, pthread_rwlock) cell \<Rightarrow> timespec \<Rightarrow> ('s, ret) prog" where
  [code_defs]: "pthread_rwlock_timedwrlock self rwp abstime =
    bind (rwl_shared rwp) (\<lambda>flags.
    bind (rwl_owned_p rwp self (Ret flags)) (\<lambda>owned.
    if owned then Ret (Err EDEADLK)
    else loop (\<lambda>_.
      bind (atomic_load (rwl_oid rwp)) (\<lambda>owner.
      if owner = RWLOCK_UNOWNED then
        bind (atomic_cas_bool (rwl_oid rwp) owner (th_id self)) (\<lambda>ok.
        if ok then bind (rwl_setown rwp self (Ret flags)) (\<lambda>_. leave OK) else again ())
      else if bad_nsec abstime then leave (Err EINVAL)
      else
        bind (atomic_add (rwl_qwr rwp) 1) (\<lambda>nw.
        bind (lll_abstimed_xwait (rwl_qwr rwp) (nw + 1) owner abstime flags CLOCK_REALTIME) (\<lambda>ret.
        bind (atomic_add (rwl_qwr rwp) (- 1)) (\<lambda>nw.
        if ret = KERN_TIMEDOUT then
          bind (atomic_loadx (rwl_oid_nrd rwp)) (\<lambda>tmp.
          bind (if nw = 1 \<and> hi tmp > 0 \<and> lo tmp = RWLOCK_UNOWNED
                then lll_wake (rwl_oid rwp) (flags OR GSYNC_BROADCAST) else Ret ()) (\<lambda>_.
          leave (Err ETIMEDOUT)))
        else again ()))))) ()))"

subsection \<open>Unlocking\<close>

text \<open>One reader less; the last one leaves the lock unowned. The answer is the word before.\<close>

definition rwl_drop_read :: "('s, pthread_rwlock) cell \<Rightarrow> ('s, xint) prog" where
  [code_defs]: "rwl_drop_read rwp = loop (\<lambda>_.
     bind (atomic_loadx (rwl_oid_nrd rwp)) (\<lambda>tmp.
     bind (atomic_casx_bool (rwl_oid_nrd rwp) (lo tmp) (hi tmp)
       (if hi tmp = 1 then RWLOCK_UNOWNED else lo tmp) (hi tmp - 1)) (\<lambda>ok.
     if ok then leave tmp else again ()))) ()"

definition pthread_rwlock_unlock ::
  "thread \<Rightarrow> ('s, pthread_rwlock) cell \<Rightarrow> ('s, ret) prog" where
  [code_defs]: "pthread_rwlock_unlock self rwp =
    bind (atomic_load (rwl_oid rwp)) (\<lambda>owner.
    bind (rwl_shared rwp) (\<lambda>flags.
    if owner AND PTHREAD_ID_MASK \<noteq> 0 then
      bind (rwl_owned_p rwp self (Ret flags)) (\<lambda>owned.
      if \<not> owned then Ret (Err EPERM)
      else bind (store (rwl_spid rwp) 0) (\<lambda>_.
        bind (atomic_store (rwl_oid rwp) RWLOCK_UNOWNED) (\<lambda>_.
        bind (load (rwl_qwr rwp)) (\<lambda>qwr.
        if qwr > 0 then bind (lll_wake (rwl_qwr rwp) flags) (\<lambda>_. Ret OK)
        else bind (load (rwl_nrd rwp)) (\<lambda>nrd.
          bind (if nrd > 0 then lll_wake (rwl_oid rwp) (flags OR GSYNC_BROADCAST) else Ret ())
            (\<lambda>_. Ret OK))))))
    else bind (load (rwl_nrd rwp)) (\<lambda>nrd.
      if nrd = 0 then Ret (Err EPERM)
      else bind (rwl_drop_read rwp) (\<lambda>tmp.
        bind (if hi tmp = 1 then load (rwl_qwr rwp) else Ret 0) (\<lambda>qwr.
        bind (if hi tmp = 1 \<and> qwr > 0 then lll_wake (rwl_qwr rwp) flags else Ret ())
          (\<lambda>_. Ret OK))))))"

definition pthread_rwlock_destroy :: "('s, pthread_rwlock) cell \<Rightarrow> ('s, ret) prog" where
  [code_defs]: "pthread_rwlock_destroy rwp = Ret OK"

subsection \<open>The invariant of a read-write lock\<close>

text \<open>
  Where a user stands: outside; registered as a waiting reader; reading; owner of the lock word;
  fully recorded as the writer.
\<close>

datatype rw_phase = RwOut | RwQueued | RwReading | RwGot | RwWriting

fun rw_writer :: "rw_phase \<Rightarrow> bool" where
  "rw_writer RwGot = True"
| "rw_writer RwWriting = True"
| "rw_writer _ = False"

fun rw_counted :: "rw_phase \<Rightarrow> bool" where
  "rw_counted RwQueued = True"
| "rw_counted RwReading = True"
| "rw_counted _ = False"

definition rw_ids :: "('t \<Rightarrow> thread) \<Rightarrow> bool" where
  "rw_ids thr \<longleftrightarrow> inj (\<lambda>t. th_id (thr t)) \<and> (\<forall>t. th_id (thr t) AND PTHREAD_ID_MASK \<noteq> 0)"

text \<open>The invariant over owner, readers and process of the writer.\<close>

definition rw_ok ::
  "('t::finite \<Rightarrow> thread) \<Rightarrow> u32 \<Rightarrow> u32 \<Rightarrow> u32 \<Rightarrow> u32 \<Rightarrow> ('t \<Rightarrow> rw_phase) \<Rightarrow> bool" where
  "rw_ok thr fl oid nrd spid G \<longleftrightarrow>
     card (UNIV :: 't set) < 2 ^ 32 \<and> rw_ids thr \<and>
     (\<forall>t. G t = RwReading \<longrightarrow> oid = RWLOCK_RO) \<and>
     (\<forall>t. rw_writer (G t) \<longrightarrow> oid = th_id (thr t)) \<and>
     (\<forall>t. G t = RwWriting \<longrightarrow> fl AND GSYNC_SHARED \<noteq> 0 \<longrightarrow> spid = th_pid (thr t)) \<and>
     (oid = RWLOCK_UNOWNED \<or> oid = RWLOCK_RO \<or> (\<exists>t. rw_writer (G t))) \<and>
     unat nrd = card {t. rw_counted (G t)}"

definition rw_inv ::
  "('t::finite \<Rightarrow> thread) \<Rightarrow> u32 \<Rightarrow> pthread_rwlock \<Rightarrow> ('t \<Rightarrow> rw_phase) \<Rightarrow> bool" where
  "rw_inv thr fl s G \<longleftrightarrow> rw_flags s = fl \<and>
     rw_ok thr fl (lo (rw_oid_nrd s)) (hi (rw_oid_nrd s)) (lo (rw_shpid_qwr s)) G"

lemma rw_id_cases:
  assumes "rw_ids thr"
  shows "th_id (thr t) \<noteq> 0" and "th_id (thr t) \<noteq> RWLOCK_RO"
    and "th_id (thr t) = th_id (thr u) \<longleftrightarrow> t = u" and "th_id (thr t) AND PTHREAD_ID_MASK \<noteq> 0"
proof -
  have m: "th_id (thr t) AND PTHREAD_ID_MASK \<noteq> 0" using assms by (simp add: rw_ids_def)
  then show "th_id (thr t) AND PTHREAD_ID_MASK \<noteq> 0" .
  show "th_id (thr t) \<noteq> 0" "th_id (thr t) \<noteq> RWLOCK_RO" using m by auto
  show "th_id (thr t) = th_id (thr u) \<longleftrightarrow> t = u" using assms by (auto simp: rw_ids_def inj_def)
qed

lemma rw_ok_ids: "rw_ok thr fl oid nrd spid G \<Longrightarrow> rw_ids thr"
  by (simp add: rw_ok_def)

lemma rw_ok_writer:
  assumes "rw_ok thr fl oid nrd spid G" and "rw_writer (G t)"
  shows "oid = th_id (thr t)" and "rw_writer (G u) \<Longrightarrow> u = t" and "G u \<noteq> RwReading"
proof -
  show o: "oid = th_id (thr t)" using assms by (simp add: rw_ok_def)
  note i = rw_id_cases [OF rw_ok_ids [OF assms(1)]]
  show "u = t" if "rw_writer (G u)" using that assms(1) i(3) o by (auto simp: rw_ok_def)
  show "G u \<noteq> RwReading" using assms(1) i(2) o by (auto simp: rw_ok_def)
qed

lemma rw_ok_owned:
  assumes "rw_ok thr fl oid nrd spid G" and "\<not> rw_writer (G t)"
  shows "oid \<noteq> th_id (thr t)"
proof -
  note i = rw_id_cases [OF rw_ok_ids [OF assms(1)], of t]
  consider "oid = RWLOCK_UNOWNED" | "oid = RWLOCK_RO" | u where "rw_writer (G u)"
    using assms(1) by (auto simp: rw_ok_def)
  then show ?thesis
  proof cases
    case 3
    then show ?thesis using rw_ok_writer(1) [OF assms(1), of u] i(3) assms(2) by metis
  qed (use i in metis)+
qed

lemma rw_ok_unowned:
  assumes "rw_ok thr fl oid nrd spid G" and "oid AND PTHREAD_ID_MASK = 0"
  shows "\<not> rw_writer (G t)"
  using rw_ok_writer(1) [OF assms(1), of t] rw_id_cases(4) [OF rw_ok_ids [OF assms(1)]] assms(2) by metis

text \<open>One thread moves from \<open>G t\<close> to \<open>g\<close> and changes the word; what it has to respect of the others.\<close>

lemma rw_ok_upd:
  assumes "rw_ok (thr :: 't::finite \<Rightarrow> thread) fl oid nrd spid G"
    and "g = RwReading \<Longrightarrow> oid' = RWLOCK_RO"
    and "rw_writer g \<Longrightarrow> oid' = th_id (thr t)"
    and "g = RwWriting \<Longrightarrow> fl AND GSYNC_SHARED \<noteq> 0 \<Longrightarrow> spid' = th_pid (thr t)"
    and "\<And>u. u \<noteq> t \<Longrightarrow> G u = RwReading \<Longrightarrow> oid' = RWLOCK_RO"
    and "\<And>u. u \<noteq> t \<Longrightarrow> rw_writer (G u) \<Longrightarrow> oid' = oid \<and> spid' = spid"
    and "oid' = RWLOCK_UNOWNED \<or> oid' = RWLOCK_RO \<or> rw_writer g \<or> (\<exists>u. u \<noteq> t \<and> rw_writer (G u))"
    and "unat nrd' = card {u. rw_counted ((G(t := g)) u)}"
  shows "rw_ok thr fl oid' nrd' spid' (G(t := g))"
  unfolding rw_ok_def
proof (intro conjI allI impI)
  show "CARD('t) < 2 ^ 32" "rw_ids thr" using assms(1) by (simp_all add: rw_ok_def)
  show "unat nrd' = card {u. rw_counted ((G(t := g)) u)}" by (rule assms(8))
  show "oid' = RWLOCK_UNOWNED \<or> oid' = RWLOCK_RO \<or> (\<exists>u. rw_writer ((G(t := g)) u))"
    using assms(7) by (metis fun_upd_apply)
  fix u
  show "oid' = RWLOCK_RO" if "(G(t := g)) u = RwReading"
    using that assms(2,5) by (cases "u = t") auto
  show "oid' = th_id (thr u)" if "rw_writer ((G(t := g)) u)"
    using that assms(3,6) rw_ok_writer(1) [OF assms(1), of u] by (cases "u = t") auto
  show "spid' = th_pid (thr u)" if "(G(t := g)) u = RwWriting" "fl AND GSYNC_SHARED \<noteq> 0"
    using that assms(1,4,6) by (cases "u = t") (auto simp: rw_ok_def)
qed

text \<open>The moves of a thread.\<close>

lemma rw_count_enter:
  assumes "rw_ok (thr :: 't::finite \<Rightarrow> thread) fl oid nrd spid G" and "\<not> rw_counted (G t)" and "rw_counted g"
  shows "unat (nrd + 1) = card {u. rw_counted ((G(t := g)) u)}"
proof -
  have "card {u. rw_counted ((G(t := g)) u)} = Suc (card {u. rw_counted (G u)})"
    by (rule count_class_enter) (simp_all add: assms)
  moreover have "card {u. rw_counted ((G(t := g)) u)} \<le> card (UNIV :: 't set)" by (rule count_bound)
  ultimately show ?thesis using assms(1) by (subst unat_Suc_bound) (auto simp: rw_ok_def)
qed

lemma rw_count_leave:
  assumes "rw_ok thr fl oid nrd spid G" and "rw_counted (G t)" and "\<not> rw_counted g"
  shows "nrd \<noteq> 0" and "unat (nrd - 1) = card {u. rw_counted ((G(t := g)) u)}"
proof -
  have c: "Suc (card {u. rw_counted ((G(t := g)) u)}) = unat nrd"
    using count_class_leave [of rw_counted G t g] assms by (simp add: rw_ok_def)
  then show n: "nrd \<noteq> 0" by auto
  show "unat (nrd - 1) = card {u. rw_counted ((G(t := g)) u)}" using c unat_pred_32 [OF n] by simp
qed

lemma rw_count_same:
  assumes "rw_ok thr fl oid nrd spid G" and "rw_counted (G t) = rw_counted g"
  shows "unat nrd = card {u. rw_counted ((G(t := g)) u)}"
  using assms by (subst count_class_same) (simp_all add: rw_ok_def)

lemma rw_ok_others:
  assumes "rw_ok thr fl oid nrd spid G"
  shows "G u = RwReading \<Longrightarrow> oid = RWLOCK_RO"
    and "\<not> rw_writer (G t) \<Longrightarrow>
      oid = RWLOCK_UNOWNED \<or> oid = RWLOCK_RO \<or> (\<exists>u. u \<noteq> t \<and> rw_writer (G u))"
  using assms unfolding rw_ok_def by metis+

lemma rw_queue:
  assumes "rw_ok (thr :: 't::finite \<Rightarrow> thread) fl oid nrd spid G" and "G t = RwOut"
  shows "rw_ok thr fl oid (nrd + 1) spid (G(t := RwQueued))"
  by (rule rw_ok_upd [OF assms(1)])
    (use assms(2) rw_ok_others [OF assms(1)] rw_count_enter [OF assms(1)] in auto)

lemma rw_unqueue:
  assumes "rw_ok (thr :: 't::finite \<Rightarrow> thread) fl oid nrd spid G" and "G t = RwQueued"
  shows "rw_ok thr fl oid (nrd - 1) spid (G(t := RwOut))"
  by (rule rw_ok_upd [OF assms(1)])
    (use assms(2) rw_ok_others [OF assms(1)] rw_count_leave [OF assms(1)] in auto)

lemma rw_read:
  assumes "rw_ok (thr :: 't::finite \<Rightarrow> thread) fl oid nrd spid G" and "G t = RwOut"
    and "oid AND PTHREAD_ID_MASK = 0"
  shows "rw_ok thr fl RWLOCK_RO (nrd + 1) spid (G(t := RwReading))"
  by (rule rw_ok_upd [OF assms(1)])
    (use assms(2) rw_ok_unowned [OF assms(1,3)] rw_count_enter [OF assms(1)] in auto)

lemma rw_unread:
  assumes "rw_ok (thr :: 't::finite \<Rightarrow> thread) fl oid nrd spid G" and "G t = RwReading"
  shows "oid = RWLOCK_RO" and "nrd \<noteq> 0"
    and "rw_ok thr fl (if nrd = 1 then RWLOCK_UNOWNED else oid) (nrd - 1) spid (G(t := RwOut))"
proof -
  show o: "oid = RWLOCK_RO" using rw_ok_others(1) [OF assms] .
  show "nrd \<noteq> 0" using rw_count_leave(1) [OF assms(1)] assms(2) by (metis rw_counted.simps(2,3))
  have w: "\<not> rw_writer (G u)" for u by (rule rw_ok_unowned [OF assms(1)]) (simp add: o)
  have c: "unat (nrd - 1) = card {u. rw_counted ((G(t := RwOut)) u)}"
    using rw_count_leave(2) [OF assms(1), of t RwOut] assms(2) by simp
  have "nrd \<noteq> 1" if "u \<noteq> t" "G u = RwReading" for u
  proof
    assume "nrd = 1"
    with c have "{u. rw_counted ((G(t := RwOut)) u)} = {}" by simp
    then have "\<not> rw_counted ((G(t := RwOut)) u)" by blast
    with that show False by simp
  qed
  then show "rw_ok thr fl (if nrd = 1 then RWLOCK_UNOWNED else oid) (nrd - 1) spid (G(t := RwOut))"
    by (intro rw_ok_upd [OF assms(1)]) (use w o c in auto)
qed

text \<open>Taking the word makes a writer; of a shared lock the process has still to be recorded.\<close>

definition rw_taken :: "u32 \<Rightarrow> rw_phase" where
  "rw_taken fl = (if fl AND GSYNC_SHARED = 0 then RwWriting else RwGot)"

lemma rw_write:
  assumes "rw_ok (thr :: 't::finite \<Rightarrow> thread) fl RWLOCK_UNOWNED nrd spid G" and "G t = RwOut"
  shows "rw_ok thr fl (th_id (thr t)) nrd spid (G(t := rw_taken fl))"
proof -
  have w: "\<not> rw_writer (G u)" for u by (rule rw_ok_unowned [OF assms(1)]) simp
  have c: "unat nrd = card {u. rw_counted ((G(t := rw_taken fl)) u)}"
    by (rule rw_count_same [OF assms(1)]) (simp add: assms(2) rw_taken_def)
  show ?thesis
    by (rule rw_ok_upd [OF assms(1) _ _ _ _ _ _ c])
      (use w rw_ok_others(1) [OF assms(1)] in \<open>auto simp: rw_taken_def split: if_splits\<close>)
qed

lemma rw_owner_moves:
  assumes "rw_ok (thr :: 't::finite \<Rightarrow> thread) fl oid nrd spid G" and "rw_writer (G t)"
  shows "(fl AND GSYNC_SHARED \<noteq> 0 \<Longrightarrow> spid' = th_pid (thr t)) \<Longrightarrow>
      rw_ok thr fl oid nrd spid' (G(t := RwWriting))"
    and "rw_ok thr fl oid nrd spid' (G(t := RwGot))"
    and "rw_ok thr fl RWLOCK_UNOWNED nrd spid (G(t := RwOut))"
proof -
  have c: "\<not> rw_counted (G t)" using assms(2) by (cases "G t") auto
  note o = rw_ok_writer [OF assms]
  have u: "\<not> rw_writer (G u)" if "u \<noteq> t" for u using o(2) that by blast
  have n: "unat nrd = card {u. rw_counted ((G(t := g)) u)}" if "\<not> rw_counted g" for g
    by (rule rw_count_same [OF assms(1)]) (simp add: c that)
  show "rw_ok thr fl oid nrd spid' (G(t := RwWriting))"
    if "fl AND GSYNC_SHARED \<noteq> 0 \<Longrightarrow> spid' = th_pid (thr t)"
    by (rule rw_ok_upd [OF assms(1) _ _ _ _ _ _ n]) (use that o(1,3) u in auto)
  show "rw_ok thr fl oid nrd spid' (G(t := RwGot))"
    by (rule rw_ok_upd [OF assms(1) _ _ _ _ _ _ n]) (use o(1,3) u in auto)
  show "rw_ok thr fl RWLOCK_UNOWNED nrd spid (G(t := RwOut))"
    by (rule rw_ok_upd [OF assms(1) _ _ _ _ _ _ n]) (use o(1,3) u in auto)
qed

subsection \<open>The operations keep the invariant\<close>

abbreviation rw_kernel :: "u32 \<Rightarrow> pthread_rwlock keff" where
  "rw_kernel a \<equiv> gsync_effect (rwl_oid (whole a))"

lemma rw_inv_ok:
  "rw_inv thr fl s G \<Longrightarrow> rw_ok thr fl (lo (rw_oid_nrd s)) (hi (rw_oid_nrd s)) (lo (rw_shpid_qwr s)) G"
  "rw_inv thr fl s G \<Longrightarrow> rw_flags s = fl"
  by (simp_all add: rw_inv_def)

lemma rw_broadcast [simp]: "((fl AND 1) OR 8) AND 16 = (0 :: u32)"
  by (subst and_disjoint_or) simp_all

lemma rw_nrd_safe:
  "safe A (rw_inv thr fl) M (t :: 't::finite) (\<lambda>_ g. g = RwQueued) RwOut
    (atomic_add (rwl_nrd (whole a)) 1)"
  "safe A (rw_inv thr fl) M t (\<lambda>_ g. g = RwOut) RwQueued (atomic_add (rwl_nrd (whole a)) (- 1))"
proof -
  show "safe A (rw_inv thr fl) M t (\<lambda>_ g. g = RwQueued) RwOut (atomic_add (rwl_nrd (whole a)) 1)"
    by (rule safe_add [where g' = RwQueued]) (auto simp: rw_inv_def rw_queue)
  show "safe A (rw_inv thr fl) M t (\<lambda>_ g. g = RwOut) RwQueued (atomic_add (rwl_nrd (whole a)) (- 1))"
    by (rule safe_add [where g' = RwOut]) (auto simp: rw_inv_def rw_unqueue)
qed

lemma rw_qwr_safe:
  "safe A (rw_inv thr fl) M (t :: 't::finite) (\<lambda>_ g'. g' = g) g (atomic_add (rwl_qwr (whole a)) v)"
  by (rule safe_add [where g' = g]) (auto simp: rw_inv_def)

text \<open>What a macro's flags expression has to be: the shared bit of the lock's flags, and maybe others.\<close>

definition rw_flag_expr ::
  "(kcall \<Rightarrow> rw_phase \<Rightarrow> bool) \<Rightarrow> ('t::finite \<Rightarrow> thread) \<Rightarrow> u32 \<Rightarrow> u32 \<Rightarrow> 't \<Rightarrow> (pthread_rwlock, u32) prog \<Rightarrow> bool" where
  "rw_flag_expr A thr fl a t F \<longleftrightarrow> (\<forall>g. safe A (rw_inv thr fl) (rw_kernel a) t
     (\<lambda>f g'. g' = g \<and> f AND GSYNC_SHARED = fl AND GSYNC_SHARED) g F)"

lemma rw_shared_safe:
  "safe A (rw_inv thr fl) M (t :: 't::finite) (\<lambda>f g'. g' = g \<and> f = fl AND GSYNC_SHARED) g (rwl_shared (whole a))"
  unfolding rwl_shared_def
  by (rule safe_bind [where R = "\<lambda>f g'. g' = g \<and> f = fl"], rule safe_load) (auto dest: rw_inv_ok)

lemma rw_flag_exprs:
  "rw_flag_expr A thr fl a (t :: 't::finite) (Ret (fl AND GSYNC_SHARED))"
  "rw_flag_expr A thr fl a t (load (rwl_flags (whole a)))"
proof -
  show "rw_flag_expr A thr fl a t (Ret (fl AND GSYNC_SHARED))" by (simp add: rw_flag_expr_def)
  show "rw_flag_expr A thr fl a t (load (rwl_flags (whole a)))"
    unfolding rw_flag_expr_def by (auto intro!: safe_load dest: rw_inv_ok)
qed

lemma rw_not_owned_safe:
  assumes "rw_flag_expr A thr fl a (t :: 't::finite) F"
  shows "safe A (rw_inv thr fl) (rw_kernel a) t (\<lambda>b g. \<not> b \<and> g = RwOut) RwOut
    (rwl_owned_p (whole a) (thr t) F)"
  unfolding rwl_owned_p_def
proof (rule safe_bind [where R = "\<lambda>oid g. oid \<noteq> th_id (thr t) \<and> g = RwOut"], rule safe_load)
  fix s and G :: "'t \<Rightarrow> rw_phase" assume "rw_inv thr fl s G" "G t = RwOut"
  then show "c_get (rwl_oid (whole a)) s \<noteq> th_id (thr t) \<and> RwOut = RwOut"
    using rw_ok_owned [OF rw_inv_ok(1), of thr fl s G t] by simp
qed auto

lemma rw_owned_safe:
  assumes "rw_flag_expr A thr fl a (t :: 't::finite) F"
  shows "safe A (rw_inv thr fl) (rw_kernel a) t (\<lambda>b g. b \<and> g = RwWriting) RwWriting
    (rwl_owned_p (whole a) (thr t) F)"
  unfolding rwl_owned_p_def
proof (rule safe_bind [where R = "\<lambda>oid g. oid = th_id (thr t) \<and> g = RwWriting"], rule safe_load)
  fix s and G :: "'t \<Rightarrow> rw_phase" assume "rw_inv thr fl s G" "G t = RwWriting"
  then show "c_get (rwl_oid (whole a)) s = th_id (thr t) \<and> RwWriting = RwWriting"
    using rw_ok_writer(1) [OF rw_inv_ok(1), of thr fl s G t] by simp
next
  fix oid g assume g: "oid = th_id (thr t) \<and> g = RwWriting"
  have f: "safe A (rw_inv thr fl) (rw_kernel a) t
      (\<lambda>f g'. g' = RwWriting \<and> f AND GSYNC_SHARED = fl AND GSYNC_SHARED) RwWriting F"
    using assms by (simp add: rw_flag_expr_def)
  have l: "safe A (rw_inv thr fl) (rw_kernel a) t (\<lambda>p g. p = th_pid (thr t) \<and> g = RwWriting) RwWriting
      (load (rwl_spid (whole a)))" if "fl AND GSYNC_SHARED \<noteq> 0"
    by (rule safe_load) (use that in \<open>auto simp: rw_inv_def rw_ok_def\<close>)
  show "safe A (rw_inv thr fl) (rw_kernel a) t (\<lambda>b g. b \<and> g = RwWriting) g
      (if oid \<noteq> th_id (thr t) then Ret False
       else bind F (\<lambda>fl. if fl AND GSYNC_SHARED = 0 then Ret True
         else bind (load (rwl_spid (whole a))) (\<lambda>spid. Ret (spid = th_pid (thr t)))))"
    using g by (auto intro!: safe_bind [OF f] safe_bind [OF l])
qed

lemma rw_setown_safe:
  assumes "rw_flag_expr A thr fl a (t :: 't::finite) F"
  shows "safe A (rw_inv thr fl) (rw_kernel a) t (\<lambda>_ g. g = RwWriting) (rw_taken fl)
    (rwl_setown (whole a) (thr t) F)"
proof -
  have f: "safe A (rw_inv thr fl) (rw_kernel a) t
      (\<lambda>f g'. g' = rw_taken fl \<and> f AND GSYNC_SHARED = fl AND GSYNC_SHARED) (rw_taken fl) F"
    using assms by (simp add: rw_flag_expr_def)
  have s: "safe A (rw_inv thr fl) (rw_kernel a) t (\<lambda>_ g. g = RwWriting) RwGot
      (store (rwl_spid (whole a)) (th_pid (thr t)))"
    by (rule safe_store [where g' = RwWriting]) (auto simp: rw_inv_def rw_owner_moves(1))
  show ?thesis
    unfolding rwl_setown_def by (rule safe_bind [OF f]) (auto simp: rw_taken_def intro: s)
qed

lemma rw_cas_safe:
  "safe A (rw_inv thr fl) M (t :: 't::finite) (\<lambda>ok g. g = (if ok then rw_taken fl else RwOut)) RwOut
    (atomic_cas_bool (rwl_oid (whole a)) 0 (th_id (thr t)))"
  by (rule safe_cas [where g' = "rw_taken fl"]) (auto simp: rw_inv_def rw_write)

lemma rw_wake_safe:
  assumes "f AND GSYNC_MUTATE = 0"
  shows "safe A I (rw_kernel a) t (\<lambda>_ g'. g' = g) g (lll_wake ptr f)"
  by (rule safe_lll_wake [OF gsync_effect_contract assms]) simp

lemma rw_grab_safe:
  assumes F: "safe A (rw_inv thr fl) (rw_kernel a) (t :: 't::finite)
      (\<lambda>f g. g = RwReading \<and> f = fl AND GSYNC_SHARED) RwReading F"
    and "lo tmp AND PTHREAD_ID_MASK = 0"
  shows "safe A (rw_inv thr fl) (rw_kernel a) t (\<lambda>ok g. g = (if ok then RwReading else RwOut)) RwOut
    (rwl_grab_read (whole a) F tmp)"
proof -
  have c: "safe A (rw_inv thr fl) (rw_kernel a) t (\<lambda>ok g. g = (if ok then RwReading else RwOut)) RwOut
      (atomic_casx_bool (rwl_oid_nrd (whole a)) (lo tmp) (hi tmp) RWLOCK_RO (hi tmp + 1))"
  proof (rule safe_casx [where g' = RwReading])
    fix s and G :: "'t \<Rightarrow> rw_phase" assume "rw_inv thr fl s G" "G t = RwOut"
      and "c_get (rwl_oid_nrd (whole a)) s = \<lparr>lo = lo tmp, hi = hi tmp\<rparr>"
    with assms(2) show "rw_inv thr fl (c_put (rwl_oid_nrd (whole a)) \<lparr>lo = RWLOCK_RO, hi = hi tmp + 1\<rparr> s)
        (G(t := RwReading))"
      by (auto simp: rw_inv_def intro: rw_read)
  qed simp_all
  have w: "safe A (rw_inv thr fl) (rw_kernel a) t (\<lambda>_ g. g = RwReading) RwReading
      (bind F (\<lambda>f. lll_wake (rwl_oid (whole a)) (f OR GSYNC_BROADCAST)))"
    by (rule safe_bind [OF F]) (auto intro: rw_wake_safe)
  show ?thesis
    unfolding rwl_grab_read_def
    by (rule safe_bind [OF c])
      (auto intro!: safe_bind [where R = "\<lambda>_ g. g = RwReading"] w)
qed

lemma rw_grab_flags:
  "safe A (rw_inv thr fl) (rw_kernel a) (t :: 't::finite)
    (\<lambda>f g. g = RwReading \<and> f = fl AND GSYNC_SHARED) RwReading (Ret (fl AND GSYNC_SHARED))"
  "safe A (rw_inv thr fl) (rw_kernel a) t
    (\<lambda>f g. g = RwReading \<and> f = fl AND GSYNC_SHARED) RwReading (rwl_shared (whole a))"
  using rw_shared_safe [of A thr fl "rw_kernel a" t RwReading a] by simp_all

abbreviation rw_took :: "rw_phase \<Rightarrow> ret \<Rightarrow> rw_phase \<Rightarrow> bool" where
  "rw_took p r g \<equiv> g = (if r = OK then p else RwOut)"

text \<open>The waiting loops: the body of a round starts from the outside and ends there or with the lock.\<close>

lemma rw_loop_safe:
  assumes "\<And>u. safe A (rw_inv thr fl) M (t :: 't::finite)
    (\<lambda>r g. case r of Inl _ \<Rightarrow> g = RwOut | Inr x \<Rightarrow> rw_took p x g) RwOut (body u)"
  shows "safe A (rw_inv thr fl) M t (rw_took p) RwOut (loop body u)"
  by (rule safe_loop [where J = "\<lambda>_ g. g = RwOut"]) (use assms in auto)

lemma idle_lll_abstimed_xwait:
  assumes "gsync_contract M c"
  shows "idle M (lll_abstimed_xwait ptr l h tsp flags clk)"
  using gsync_contract_None [OF assms] idle_gsync_wait [OF assms]
  by (simp add: lll_abstimed_xwait_def compute_reltime_def sys_def lll_timed_xwait_def)

lemma rw_waits_safe:
  "safe A I (rw_kernel a) t (\<lambda>_ g'. g' = g) g (lll_wait ptr v flags)"
  "safe A I (rw_kernel a) t (\<lambda>_ g'. g' = g) g (lll_xwait ptr v w flags)"
  "safe A I (rw_kernel a) t (\<lambda>_ g'. g' = g) g (lll_abstimed_wait ptr v tsp flags clk)"
  "safe A I (rw_kernel a) t (\<lambda>_ g'. g' = g) g (lll_abstimed_xwait ptr v w tsp flags clk)"
  using idle_gsync_wait [OF gsync_effect_contract] idle_lll_abstimed_wait [OF gsync_effect_contract]
    idle_lll_abstimed_xwait [OF gsync_effect_contract]
  by (auto intro!: safe_idle simp: lll_wait_def lll_xwait_def)

lemma rw_loadx_safe:
  "safe A (rw_inv thr fl) M (t :: 't::finite) (\<lambda>_ g'. g' = g) g (atomic_loadx (rwl_oid_nrd (whole a)))"
  "safe A (rw_inv thr fl) M t (\<lambda>_ g'. g' = g) g (atomic_load (rwl_oid (whole a)))"
  "safe A (rw_inv thr fl) M t (\<lambda>_ g'. g' = g) g (load (rwl_qwr (whole a)))"
  "safe A (rw_inv thr fl) M t (\<lambda>_ g'. g' = g) g (load (rwl_nrd (whole a)))"
  by (auto intro: safe_loadx safe_atomic_load safe_load)

lemma rdlock_safe:
  "safe A (rw_inv thr fl) (rw_kernel a) (t :: 't::finite) (rw_took RwReading) RwOut
    (pthread_rwlock_rdlock (thr t) (whole a))"
  unfolding pthread_rwlock_rdlock_def
  by (rule safe_bind [OF rw_shared_safe], elim conjE, hypsubst,
      rule safe_bind [OF rw_not_owned_safe [OF rw_flag_exprs(1)]])
    (auto intro!: rw_loop_safe safe_bind [OF rw_loadx_safe(1)] safe_bind [OF rw_grab_safe]
      safe_bind [OF rw_nrd_safe(1)] safe_bind [OF rw_nrd_safe(2)] safe_bind [OF rw_waits_safe(1)]
      rw_grab_flags)

lemma tryrdlock_safe:
  "safe A (rw_inv thr fl) (rw_kernel a) (t :: 't::finite) (rw_took RwReading) RwOut
    (pthread_rwlock_tryrdlock (thr t) (whole a))"
  unfolding pthread_rwlock_tryrdlock_def
  by (rule safe_bind [OF rw_not_owned_safe [OF rw_flag_exprs(2)]])
    (auto intro!: rw_loop_safe safe_bind [OF rw_loadx_safe(1)] safe_bind [OF rw_grab_safe]
      rw_grab_flags)

lemma timedrdlock_safe:
  "safe A (rw_inv thr fl) (rw_kernel a) (t :: 't::finite) (rw_took RwReading) RwOut
    (pthread_rwlock_timedrdlock (thr t) (whole a) tsp)"
  unfolding pthread_rwlock_timedrdlock_def
  by (rule safe_bind [OF rw_shared_safe], elim conjE, hypsubst,
      rule safe_bind [OF rw_not_owned_safe [OF rw_flag_exprs(1)]])
    (auto intro!: rw_loop_safe safe_bind [OF rw_loadx_safe(1)] safe_bind [OF rw_grab_safe]
      safe_bind [OF rw_nrd_safe(1)] safe_bind [OF rw_nrd_safe(2)] safe_bind [OF rw_waits_safe(3)]
      rw_grab_flags)

lemma wrlock_safe:
  "safe A (rw_inv thr fl) (rw_kernel a) (t :: 't::finite) (rw_took RwWriting) RwOut
    (pthread_rwlock_wrlock (thr t) (whole a))"
  unfolding pthread_rwlock_wrlock_def
  by (rule safe_bind [OF rw_shared_safe], elim conjE, hypsubst,
      rule safe_bind [OF rw_not_owned_safe [OF rw_flag_exprs(1)]])
    (auto intro!: rw_loop_safe safe_bind [OF rw_loadx_safe(2)] safe_bind [OF rw_cas_safe]
      safe_bind [OF rw_setown_safe [OF rw_flag_exprs(1)]] safe_bind [OF rw_qwr_safe]
      safe_bind [OF rw_waits_safe(2)])

lemma trywrlock_safe:
  "safe A (rw_inv thr fl) (rw_kernel a) (t :: 't::finite) (rw_took RwWriting) RwOut
    (pthread_rwlock_trywrlock (thr t) (whole a))"
  unfolding pthread_rwlock_trywrlock_def
  by (rule safe_bind [where R = "\<lambda>_ g. g = RwOut"], rule rw_loadx_safe(2), hypsubst,
      rule safe_bind [OF rw_not_owned_safe [OF rw_flag_exprs(2)]])
    (auto intro!: safe_bind [where R = "\<lambda>ok g. g = (if ok then rw_taken fl else RwOut)"]
      rw_cas_safe safe_bind [OF rw_setown_safe [OF rw_flag_exprs(2)]])

lemma timedwrlock_safe:
  "safe A (rw_inv thr fl) (rw_kernel a) (t :: 't::finite) (rw_took RwWriting) RwOut
    (pthread_rwlock_timedwrlock (thr t) (whole a) tsp)"
  unfolding pthread_rwlock_timedwrlock_def
  by (rule safe_bind [OF rw_shared_safe], elim conjE, hypsubst,
      rule safe_bind [OF rw_not_owned_safe [OF rw_flag_exprs(1)]])
    (auto intro!: rw_loop_safe safe_bind [OF rw_loadx_safe(2)] safe_bind [OF rw_cas_safe]
      safe_bind [OF rw_setown_safe [OF rw_flag_exprs(1)]] safe_bind [OF rw_qwr_safe]
      safe_bind [OF rw_waits_safe(4)] safe_bind [OF rw_loadx_safe(1)]
      safe_bind [where R = "\<lambda>_ g. g = RwOut"] rw_wake_safe)

lemma rw_drop_read_safe:
  "safe A (rw_inv thr fl) M (t :: 't::finite) (\<lambda>_ g. g = RwOut) RwReading (rwl_drop_read (whole a))"
proof -
  have c: "safe A (rw_inv thr fl) M t (\<lambda>ok g. g = (if ok then RwOut else RwReading)) RwReading
      (atomic_casx_bool (rwl_oid_nrd (whole a)) (lo tmp) (hi tmp)
        (if hi tmp = 1 then RWLOCK_UNOWNED else lo tmp) (hi tmp - 1))" for tmp
  proof (rule safe_casx [where g' = RwOut])
    fix s and G :: "'t \<Rightarrow> rw_phase" assume "rw_inv thr fl s G" "G t = RwReading"
      and "c_get (rwl_oid_nrd (whole a)) s = \<lparr>lo = lo tmp, hi = hi tmp\<rparr>"
    then show "rw_inv thr fl (c_put (rwl_oid_nrd (whole a))
        \<lparr>lo = if hi tmp = 1 then RWLOCK_UNOWNED else lo tmp, hi = hi tmp - 1\<rparr> s) (G(t := RwOut))"
      using rw_unread(3) [OF rw_inv_ok(1), of thr fl s G t] by (auto simp: rw_inv_def)
  qed simp_all
  show ?thesis
    unfolding rwl_drop_read_def
    by (rule safe_loop [where J = "\<lambda>_ g. g = RwReading"])
      (auto intro!: safe_bind [OF rw_loadx_safe(1)] safe_bind [OF c])
qed

lemma rw_unlock_reader_safe:
  "safe A (rw_inv thr fl) (rw_kernel a) (t :: 't::finite) (\<lambda>r g. r = OK \<and> g = RwOut) RwReading
    (pthread_rwlock_unlock (thr t) (whole a))"
proof -
  have o: "safe A (rw_inv thr fl) (rw_kernel a) t (\<lambda>oid g. oid = RWLOCK_RO \<and> g = RwReading) RwReading
      (atomic_load (rwl_oid (whole a)))"
    by (rule safe_atomic_load) (auto dest: rw_unread(1) [OF rw_inv_ok(1)])
  have n: "safe A (rw_inv thr fl) (rw_kernel a) t (\<lambda>nrd g. nrd \<noteq> 0 \<and> g = RwReading) RwReading
      (load (rwl_nrd (whole a)))"
    by (rule safe_load) (auto dest: rw_unread(2) [OF rw_inv_ok(1)])
  show ?thesis
    unfolding pthread_rwlock_unlock_def
    by (rule safe_bind [OF o], elim conjE, hypsubst, rule safe_bind [OF rw_shared_safe])
      (auto intro!: safe_bind [OF n] safe_bind [OF rw_drop_read_safe] rw_wake_safe
        safe_bind [where R = "\<lambda>_ g. g = RwOut"] rw_loadx_safe)
qed

lemma rw_unlock_writer_safe:
  "safe A (rw_inv thr fl) (rw_kernel a) (t :: 't::finite) (\<lambda>r g. r = OK \<and> g = RwOut) RwWriting
    (pthread_rwlock_unlock (thr t) (whole a))"
proof -
  have o: "safe A (rw_inv thr fl) (rw_kernel a) t
      (\<lambda>oid g. oid AND PTHREAD_ID_MASK \<noteq> 0 \<and> g = RwWriting) RwWriting
      (atomic_load (rwl_oid (whole a)))"
  proof (rule safe_atomic_load)
    fix s and G :: "'t \<Rightarrow> rw_phase" assume "rw_inv thr fl s G" "G t = RwWriting"
    then show "c_get (rwl_oid (whole a)) s AND PTHREAD_ID_MASK \<noteq> 0 \<and> RwWriting = RwWriting"
      using rw_ok_unowned [OF rw_inv_ok(1), of thr fl s G t] by auto
  qed
  have p: "safe A (rw_inv thr fl) (rw_kernel a) t (\<lambda>_ g. g = RwGot) RwWriting (store (rwl_spid (whole a)) 0)"
    by (rule safe_store [where g' = RwGot]) (auto simp: rw_inv_def rw_owner_moves(2))
  have z: "safe A (rw_inv thr fl) (rw_kernel a) t (\<lambda>_ g. g = RwOut) RwGot
      (atomic_store (rwl_oid (whole a)) 0)"
    by (rule safe_atomic_store [where g' = RwOut]) (auto simp: rw_inv_def rw_owner_moves(3))
  show ?thesis
    unfolding pthread_rwlock_unlock_def
    by (rule safe_bind [OF o], elim conjE, hypsubst, rule safe_bind [OF rw_shared_safe])
      (auto intro!: safe_bind [OF rw_owned_safe [OF rw_flag_exprs(1)]] safe_bind [OF p] safe_bind [OF z]
        rw_wake_safe safe_bind [where R = "\<lambda>_ g. g = RwOut"] rw_loadx_safe)
qed

subsection \<open>Users of a read-write lock\<close>

datatype rw_call = RdLock | RdTry | RdTimed timespec | WrLock | WrTry | WrTimed timespec

fun rw_acquire :: "thread \<Rightarrow> ('s, pthread_rwlock) cell \<Rightarrow> rw_call \<Rightarrow> ('s, ret) prog" where
  "rw_acquire self rwp RdLock = pthread_rwlock_rdlock self rwp"
| "rw_acquire self rwp RdTry = pthread_rwlock_tryrdlock self rwp"
| "rw_acquire self rwp (RdTimed tsp) = pthread_rwlock_timedrdlock self rwp tsp"
| "rw_acquire self rwp WrLock = pthread_rwlock_wrlock self rwp"
| "rw_acquire self rwp WrTry = pthread_rwlock_trywrlock self rwp"
| "rw_acquire self rwp (WrTimed tsp) = pthread_rwlock_timedwrlock self rwp tsp"

fun rw_mode :: "rw_call \<Rightarrow> rw_phase" where
  "rw_mode RdLock = RwReading"
| "rw_mode RdTry = RwReading"
| "rw_mode (RdTimed tsp) = RwReading"
| "rw_mode _ = RwWriting"

text \<open>The section of a user is \<open>Callback 0 0\<close> when it reads and \<open>Callback 1 0\<close> when it writes.\<close>

definition rw_section :: "rw_call \<Rightarrow> kcall" where
  "rw_section call = Callback (if rw_mode call = RwReading then 0 else 1) 0"

text \<open>A thread that makes \<open>k\<close> rounds.\<close>

definition rw_user ::
  "thread \<Rightarrow> ('s, pthread_rwlock) cell \<Rightarrow> nat \<Rightarrow> (nat \<Rightarrow> rw_call) \<Rightarrow> ('s, unit) prog" where
  "rw_user self rwp k calls = loop (\<lambda>n.
     if n < k then
       bind (rw_acquire self rwp (calls n)) (\<lambda>r.
       if r = OK then
         bind (sys (rw_section (calls n))) (\<lambda>_.
         bind (pthread_rwlock_unlock self rwp) (\<lambda>_. again (Suc n)))
       else again (Suc n))
     else leave ()) 0"

definition reads :: "('t \<Rightarrow> ('s, 'a) prog) \<Rightarrow> 't \<Rightarrow> bool" where
  "reads P t \<longleftrightarrow> (\<exists>k. P t = Sys (Callback 0 0) k)"

definition writes :: "('t \<Rightarrow> ('s, 'a) prog) \<Rightarrow> 't \<Rightarrow> bool" where
  "writes P t \<longleftrightarrow> (\<exists>k. P t = Sys (Callback 1 0) k)"

fun rw_at :: "kcall \<Rightarrow> rw_phase \<Rightarrow> bool" where
  "rw_at (Callback f x) g \<longleftrightarrow> g = (if f = 0 then RwReading else RwWriting)"
| "rw_at _ g \<longleftrightarrow> True"

lemma rw_acquire_safe:
  "safe A (rw_inv thr fl) (rw_kernel a) (t :: 't::finite) (rw_took (rw_mode call)) RwOut
    (rw_acquire (thr t) (whole a) call)"
  by (cases call)
    (simp_all only: rw_acquire.simps rw_mode.simps rdlock_safe tryrdlock_safe timedrdlock_safe
      wrlock_safe trywrlock_safe timedwrlock_safe)

lemma rw_unlock_safe:
  assumes "p = RwReading \<or> p = RwWriting"
  shows "safe A (rw_inv thr fl) (rw_kernel a) (t :: 't::finite) (\<lambda>_ g. g = RwOut) p
    (pthread_rwlock_unlock (thr t) (whole a))"
  using assms
  by (auto intro: safe_mono [OF rw_unlock_reader_safe] safe_mono [OF rw_unlock_writer_safe])

lemma rw_user_safe:
  "safe rw_at (rw_inv thr fl) (rw_kernel a) (t :: 't::finite) (\<lambda>_ g. g = RwOut) RwOut
    (rw_user (thr t) (whole a) k calls)"
  unfolding rw_user_def
proof (rule safe_loop [where J = "\<lambda>_ g. g = RwOut"], simp)
  fix n and g :: rw_phase assume g: "g = RwOut"
  have m: "rw_mode call = RwReading \<or> rw_mode call = RwWriting" for call by (cases call) simp_all
  have cs: "safe rw_at (rw_inv thr fl) (rw_kernel a) t (\<lambda>_ g. g = rw_mode call) (rw_mode call)
      (sys (rw_section call))" for call
    unfolding sys_def rw_section_def by (rule safe_Sys_skip) (use m [of call] in auto)
  show "safe rw_at (rw_inv thr fl) (rw_kernel a) t
      (\<lambda>r g'. case r of Inl y \<Rightarrow> g' = RwOut | Inr x \<Rightarrow> g' = RwOut) g
      (if n < k then
         bind (rw_acquire (thr t) (whole a) (calls n)) (\<lambda>r.
         if r = OK then
           bind (sys (rw_section (calls n))) (\<lambda>_.
           bind (pthread_rwlock_unlock (thr t) (whole a)) (\<lambda>_. again (Suc n)))
         else again (Suc n))
       else leave ())"
    unfolding g
    by (auto intro!: safe_bind [OF rw_acquire_safe] safe_bind [OF cs] safe_bind [OF rw_unlock_safe [OF m]])
qed

text \<open>A new lock, as \<open>pthread_rwlock_init\<close> leaves it.\<close>

definition new_rwlock :: "u32 \<Rightarrow> pthread_rwlock" where
  "new_rwlock fl = \<lparr>rw_shpid_qwr = \<lparr>lo = 0, hi = 0\<rparr>, rw_oid_nrd = \<lparr>lo = 0, hi = 0\<rparr>, rw_flags = fl\<rparr>"

lemma rw_inv_new:
  assumes "rw_ids (thr :: 't::finite \<Rightarrow> thread)" and "card (UNIV :: 't set) < 2 ^ 32"
  shows "rw_inv thr fl (new_rwlock fl) (\<lambda>_ :: 't. RwOut)"
  using assms by (simp add: rw_inv_def rw_ok_def new_rwlock_def)

lemma rw_reach:
  fixes P :: "'t::finite \<Rightarrow> (pthread_rwlock, unit) prog"
  assumes "gsync_contract M (rwl_oid (whole a))" and "rw_ids thr" and "card (UNIV :: 't set) < 2 ^ 32"
    and "reach M (new_rwlock fl) (\<lambda>t. rw_user (thr t) (whole a) (rounds t) (calls t)) s P"
  obtains G where "rw_inv thr fl s G" and "\<And>t. reads P t \<Longrightarrow> G t = RwReading"
    and "\<And>t. writes P t \<Longrightarrow> G t = RwWriting" and "\<And>t x. P t = Ret x \<Longrightarrow> G t = RwOut"
proof -
  have "\<exists>G. rw_inv thr fl s G \<and>
      (\<forall>t. safe rw_at (rw_inv thr fl) M t (\<lambda>_ g. g = RwOut) (G t) (P t))"
    using assms(1,4) rw_inv_new [OF assms(2,3)] rw_user_safe
    by (intro safe_reach [where ?G0.0 = "\<lambda>_. RwOut"]) (auto simp: gsync_contract_iff)
  then obtain G where G: "rw_inv thr fl s G"
    "\<And>t. safe rw_at (rw_inv thr fl) M t (\<lambda>_ g. g = RwOut) (G t) (P t)" by blast
  have "G t = RwReading" if "reads P t" for t
    using that G(2) [of t] by (auto simp: reads_def safe_Sys_iff)
  moreover have "G t = RwWriting" if "writes P t" for t
    using that G(2) [of t] by (auto simp: writes_def safe_Sys_iff)
  moreover have "G t = RwOut" if "P t = Ret x" for t x
    using G(2) [of t] by (simp add: that)
  ultimately show thesis using that G(1) by blast
qed

subsection \<open>Properties\<close>

text \<open>
  C4. Readers and writers: for any number of threads that take the lock for reading or writing, by
  blocking, trying or timed calls, and release it, interleaved arbitrarily, nobody else reads or writes
  while a thread writes.
\<close>

theorem rwlock_exclusion:
  fixes P :: "'t::finite \<Rightarrow> (pthread_rwlock, unit) prog"
  assumes "gsync_contract M (rwl_oid (whole a))" and "rw_ids thr" and "card (UNIV :: 't set) < 2 ^ 32"
    and "reach M (new_rwlock fl) (\<lambda>t. rw_user (thr t) (whole a) (rounds t) (calls t)) s P"
    and "writes P t" and "u \<noteq> t"
  shows "\<not> reads P u \<and> \<not> writes P u"
proof -
  obtain G where G: "rw_inv thr fl s G" "\<And>t. reads P t \<Longrightarrow> G t = RwReading"
      "\<And>t. writes P t \<Longrightarrow> G t = RwWriting"
    by (rule rw_reach [OF assms(1-4)]) blast
  have "rw_writer (G t)" using G(3) [OF assms(5)] by simp
  note w = rw_ok_writer [OF rw_inv_ok(1) [OF G(1)] this]
  have "\<not> rw_writer (G u)" using w(2) assms(6) by blast
  then show ?thesis using G(2,3) [of u] w(3) by auto
qed

text \<open>
  When all users of a read-write lock have finished, no reader is counted and no writer owns it.
\<close>

theorem rwlock_quiescent:
  fixes P :: "'t::finite \<Rightarrow> (pthread_rwlock, unit) prog"
  assumes "gsync_contract M (rwl_oid (whole a))" and "rw_ids thr" and "card (UNIV :: 't set) < 2 ^ 32"
    and "reach M (new_rwlock fl) (\<lambda>t. rw_user (thr t) (whole a) (rounds t) (calls t)) s P"
    and "\<And>t. \<exists>x. P t = Ret x"
  shows "hi (rw_oid_nrd s) = 0 \<and> (lo (rw_oid_nrd s) = RWLOCK_UNOWNED \<or> lo (rw_oid_nrd s) = RWLOCK_RO)"
proof -
  obtain G where G: "rw_inv thr fl s G" "\<And>t x. P t = Ret x \<Longrightarrow> G t = RwOut"
    by (rule rw_reach [OF assms(1-4)]) blast
  have "G t = RwOut" for t using assms(5) [of t] G(2) by blast
  with G(1) show ?thesis by (simp add: rw_inv_def rw_ok_def unat_eq_0)
qed

text \<open>Three users: one that writes, one that reads with a timeout, one that reads.\<close>

fun rw_demo_thr :: "bool option \<Rightarrow> thread" where
  "rw_demo_thr None = \<lparr>th_addr = 0, th_id = 1, th_pid = 9\<rparr>"
| "rw_demo_thr (Some False) = \<lparr>th_addr = 0, th_id = 2, th_pid = 9\<rparr>"
| "rw_demo_thr (Some True) = \<lparr>th_addr = 0, th_id = 3, th_pid = 9\<rparr>"

fun rw_demo_call :: "bool option \<Rightarrow> rw_call" where
  "rw_demo_call None = WrTry"
| "rw_demo_call (Some False) = RdTimed \<lparr>tv_sec = 0, tv_nsec = 0\<rparr>"
| "rw_demo_call (Some True) = RdLock"

definition rw_demo ::
  "(bool option \<times> nat) list \<Rightarrow> pthread_rwlock \<times> (bool option \<Rightarrow> (pthread_rwlock, unit) prog)" where
  "rw_demo ts = sched (rw_kernel 64) (reply0\<lparr>r_retcode := KERN_TIMEDOUT\<rparr>) ts (new_rwlock 0)
     (\<lambda>t. rw_user (rw_demo_thr t) (whole 64) 1 (\<lambda>_. rw_demo_call t))"

lemma rw_demo_reach:
  "reach (rw_kernel 64) (new_rwlock 0)
     (\<lambda>t. rw_user (rw_demo_thr t) (whole 64) 1 (\<lambda>_. rw_demo_call t)) (fst (rw_demo ts)) (snd (rw_demo ts))"
  unfolding rw_demo_def by (rule reach_sched) (rule surjective_pairing)

lemma rw_demo_ids: "rw_ids rw_demo_thr"
proof -
  have "th_id (rw_demo_thr t) AND PTHREAD_ID_MASK \<noteq> 0" for t
    by (cases t rule: rw_demo_thr.cases) simp_all
  moreover have "inj (\<lambda>t. th_id (rw_demo_thr t))"
  proof (rule injI)
    fix t u assume "th_id (rw_demo_thr t) = th_id (rw_demo_thr u)"
    then show "t = u" by (cases t rule: rw_demo_thr.cases; cases u rule: rw_demo_thr.cases) simp_all
  qed
  ultimately show ?thesis by (simp add: rw_ids_def)
qed

lemmas rw_demo_eval = rw_demo_def rw_user_def new_rwlock_def
  rw_section_def code_defs atomic_defs pstep_loop bind_assoc

lemma rw_demo_stranded_state:
  "fst (rw_demo [(None, 4), (Some False, 5), (None, 30), (Some True, 30), (Some False, 40)]) =
    \<lparr>rw_shpid_qwr = \<lparr>lo = 0, hi = 0\<rparr>, rw_oid_nrd = \<lparr>lo = RWLOCK_RO, hi = 0\<rparr>, rw_flags = 0\<rparr>"
  by (simp add: rw_demo_eval bad_nsec_def reltime_def)

lemma rw_demo_stranded_done:
  "snd (rw_demo [(None, 4), (Some False, 5), (None, 30), (Some True, 30), (Some False, 40)]) t = Ret ()"
  by (cases t rule: rw_demo_thr.cases) (simp_all add: rw_demo_eval bad_nsec_def reltime_def)

lemma rwlock_exclusion_witness:
  "writes (snd (rw_demo [(None, 4), (Some True, 9)])) None \<and>
    \<not> reads (snd (rw_demo [(None, 4), (Some True, 9)])) (Some True)"
proof
  show w: "writes (snd (rw_demo [(None, 4), (Some True, 9)])) None" by (simp add: rw_demo_eval writes_def)
  show "\<not> reads (snd (rw_demo [(None, 4), (Some True, 9)])) (Some True)"
    by (rule rwlock_exclusion [OF gsync_effect_contract rw_demo_ids _ rw_demo_reach w, THEN conjunct1])
      simp_all
qed

lemma rwlock_quiescent_witness:
  "hi (rw_oid_nrd (fst (rw_demo [(None, 20), (Some False, 20), (Some True, 20)]))) = 0"
proof -
  have "snd (rw_demo [(None, 20), (Some False, 20), (Some True, 20)]) t = Ret ()" for t
    by (cases t rule: rw_demo_thr.cases) (simp_all add: rw_demo_eval)
  then show ?thesis
    using rwlock_quiescent [OF gsync_effect_contract rw_demo_ids _ rw_demo_reach,
        of "[(None, 20), (Some False, 20), (Some True, 20)]"] by simp
qed


text \<open>
  Unlocking, on every branch: it is refused with \<open>EPERM\<close> when a writer other than the caller owns
  the lock or nobody holds it. A writer gives up its process and ownership and wakes a queued writer if
  there is one, or else all readers. A reader leaves the lock unowned if it is the last one,
  and then wakes a writer.
\<close>

theorem rwlock_unlock_run:
  "exec (gsync_effect w) (pthread_rwlock_unlock self (whole a)) (r # rs) s l =
    (let oid = lo (rw_oid_nrd s); nrd = hi (rw_oid_nrd s); qwr = hi (rw_shpid_qwr s);
         fl = rw_flags s AND GSYNC_SHARED
     in if oid AND PTHREAD_ID_MASK \<noteq> 0 then
          if \<not> (oid = th_id self \<and> (fl = 0 \<or> lo (rw_shpid_qwr s) = th_pid self))
          then Some (Err EPERM, s, r # rs, l)
          else let s' = s\<lparr>rw_shpid_qwr := \<lparr>lo = 0, hi = qwr\<rparr>, rw_oid_nrd := \<lparr>lo = 0, hi = nrd\<rparr>\<rparr>
            in if qwr > 0 then Some (OK, s', rs, l @ [wake_call (a + 4) 0 fl])
               else if nrd > 0 then Some (OK, s', rs, l @ [wake_call (a + 8) 0 (fl OR GSYNC_BROADCAST)])
               else Some (OK, s', r # rs, l)
        else if nrd = 0 then Some (Err EPERM, s, r # rs, l)
        else let s' = s\<lparr>rw_oid_nrd := \<lparr>lo = if nrd = 1 then RWLOCK_UNOWNED else oid, hi = nrd - 1\<rparr>\<rparr>
          in if nrd = 1 \<and> qwr > 0 then Some (OK, s', rs, l @ [wake_call (a + 4) 0 fl])
             else Some (OK, s', r # rs, l))"
proof -
  have d: "exec M (rwl_drop_read (whole a)) rs' s l' =
      Some (rw_oid_nrd s, s\<lparr>rw_oid_nrd := \<lparr>lo = if hi (rw_oid_nrd s) = 1 then RWLOCK_UNOWNED else lo (rw_oid_nrd s),
        hi = hi (rw_oid_nrd s) - 1\<rparr>\<rparr>, rs', l')" for M :: "pthread_rwlock keff" and rs' l'
    by (simp add: rwl_drop_read_def exec_loop runs)
  have p: "exec M (bind (rwl_owned_p (whole a) self (Ret fl)) f) rs' s l' =
      exec M (f (lo (rw_oid_nrd s) = th_id self \<and>
        (fl AND GSYNC_SHARED = 0 \<or> lo (rw_shpid_qwr s) = th_pid self))) rs' s l'"
    for M :: "pthread_rwlock keff" and rs' l' fl and f :: "bool \<Rightarrow> (pthread_rwlock, ret) prog"
    by (simp add: rwl_owned_p_def runs)
  show ?thesis
    by (simp add: pthread_rwlock_unlock_def rwl_shared_def runs p exec_bind [OF d] Let_def word_gt_0)
qed

end
