(* ===== verification/Once.thy ===== *)
theory Once
  imports Cancel
begin

text \<open>
  \<open>pthread/once.c\<close>. The control variable is 0 at first, 2 when the routine has been executed, and the
  process id shifted by two with bit 0 set while a thread of that process executes it.
\<close>

abbreviation (input) ONCE_INIT :: u32 where "ONCE_INIT \<equiv> 0"
abbreviation (input) ONCE_WIP :: u32 where "ONCE_WIP \<equiv> 1"
abbreviation (input) ONCE_DONE :: u32 where "ONCE_DONE \<equiv> 2"
abbreviation (input) ONCE_SHIFT :: nat where "ONCE_SHIFT \<equiv> 2"

definition once_cleanup :: "('s, u32) cell \<Rightarrow> ('s, unit) prog" where
  [code_defs]: "once_cleanup argp =
    bind (store argp ONCE_INIT) (\<lambda>_. lll_wake argp GSYNC_BROADCAST)"

text \<open>\<open>routine\<close> is the user's routine, which may also end the thread.\<close>

definition pthread_once ::
  "thread \<Rightarrow> ('s, u32) cell \<Rightarrow> ('s, unit unwinding) prog \<Rightarrow> ('s, ret unwinding) prog" where
  [code_defs]: "pthread_once self ctp routine =
    bind (atomic_load ctp) (\<lambda>val.
    if val = ONCE_DONE then Ret (Value OK)
    else let id = push_bit ONCE_SHIFT (th_pid self) in loop (\<lambda>_.
      let nv = id OR ONCE_WIP in
      bind (atomic_load ctp) (\<lambda>val.
      if val = ONCE_DONE then leave (Value OK)
      else if val = nv then bind (lll_wait ctp val 0) (\<lambda>_. again ())
      else bind (atomic_cas_bool ctp val nv) (\<lambda>ok.
        if ok then
          bind (with_cleanup (once_cleanup ctp) (\<lambda>_. False) routine) (\<lambda>r. case r of
            Exits \<Rightarrow> leave Exits
          | Value _ \<Rightarrow>
              bind (lll_set_wake ctp ONCE_DONE GSYNC_BROADCAST) (\<lambda>_. leave (Value OK)))
        else again ()))) ())"

subsection \<open>Once, under any interleaving\<close>

text \<open>
  The state counts how often the routine has been executed to its end. The routine of the clients runs
  user code; if it is not cancelled there, it counts.
\<close>

record once_world =
  ow_ctl :: u32
  ow_runs :: nat

definition ow_cell :: "u32 \<Rightarrow> (once_world, u32) cell" where
  "ow_cell a = \<lparr>c_addr = a, c_get = ow_ctl, c_put = (\<lambda>v s. s\<lparr>ow_ctl := v\<rparr>)\<rparr>"

lemma ow_cell_sel [simp]:
  "c_addr (ow_cell a) = a" "c_get (ow_cell a) s = ow_ctl s" "c_put (ow_cell a) v s = s\<lparr>ow_ctl := v\<rparr>"
  by (simp_all add: ow_cell_def)

interpretation once_ctl: mem_cell "ow_cell a" for a
  by unfold_locales simp_all

definition once_routine :: "(once_world, unit unwinding) prog" where
  "once_routine =
    bind (sys (Callback 0 0)) (\<lambda>r.
    if r_cancelled r then Ret Exits
    else Act (\<lambda>s. s\<lparr>ow_runs := Suc (ow_runs s)\<rparr>) (\<lambda>_. Ret (Value ())))"

datatype once_phase = OnceOut | OnceRunning | OnceRan | OnceDone

fun once_busy :: "once_phase \<Rightarrow> bool" where
  "once_busy OnceRunning = True"
| "once_busy OnceRan = True"
| "once_busy _ = False"

abbreviation once_token :: "u32 \<Rightarrow> u32" where
  "once_token pid \<equiv> push_bit ONCE_SHIFT pid OR ONCE_WIP"

lemma once_token_neq: "once_token pid \<noteq> 0" "once_token pid \<noteq> 2"
proof -
  have "bit (once_token pid) 0" by (simp add: bit_simps)
  moreover have "\<not> bit (0 :: u32) 0" "\<not> bit (2 :: u32) 0" by simp_all
  ultimately show "once_token pid \<noteq> 0" "once_token pid \<noteq> 2" by metis+
qed

definition once_inv :: "u32 \<Rightarrow> once_world \<Rightarrow> ('t \<Rightarrow> once_phase) \<Rightarrow> bool" where
  "once_inv pid s G \<longleftrightarrow>
     (ow_ctl s = ONCE_INIT \<and> ow_runs s = 0 \<and> (\<forall>t. G t = OnceOut)) \<or>
     (ow_ctl s = once_token pid \<and>
       (\<exists>t. once_busy (G t) \<and> (\<forall>u. u \<noteq> t \<longrightarrow> G u = OnceOut) \<and> ow_runs s = of_bool (G t = OnceRan))) \<or>
     (ow_ctl s = ONCE_DONE \<and> ow_runs s = 1 \<and> (\<forall>t. \<not> once_busy (G t)))"

lemma once_inv_busy:
  assumes "once_inv pid s G" and "G t = g" and "once_busy g"
  shows "ow_ctl s = once_token pid" and "u \<noteq> t \<Longrightarrow> G u = OnceOut"
    and "ow_runs s = of_bool (g = OnceRan)"
proof -
  have b: "once_busy (G t)" using assms(2,3) by simp
  have nd: "\<not> (\<forall>t. G t = OnceOut)" "\<not> (\<forall>t. \<not> once_busy (G t))"
    using b by (metis once_busy.simps(3), blast)
  then obtain v where v: "ow_ctl s = once_token pid" "\<And>u. u \<noteq> v \<Longrightarrow> G u = OnceOut"
      "ow_runs s = of_bool (G v = OnceRan)"
    using assms(1) unfolding once_inv_def by blast
  then have "v = t" using b by (metis once_busy.simps(3))
  with v assms(2) show "ow_ctl s = once_token pid" "u \<noteq> t \<Longrightarrow> G u = OnceOut"
    "ow_runs s = of_bool (g = OnceRan)" by auto
qed

lemma once_inv_start:
  assumes "once_inv pid s G" and "ow_ctl s \<noteq> ONCE_DONE" and "ow_ctl s \<noteq> once_token pid"
  shows "ow_ctl s = ONCE_INIT" and "once_inv pid (s\<lparr>ow_ctl := once_token pid\<rparr>) (G(t := OnceRunning))"
  using assms once_token_neq [of pid] by (auto simp: once_inv_def)

lemma once_inv_done:
  assumes "once_inv pid s G" and "ow_ctl s = ONCE_DONE" and "\<not> once_busy (G t)"
  shows "once_inv pid s (G(t := OnceDone))"
  using assms once_token_neq [of pid] by (auto simp: once_inv_def)

lemma once_inv_finished:
  assumes "once_inv pid s G" and "G t = OnceDone"
  shows "ow_runs s = 1" and "\<not> once_busy (G u)"
proof -
  have "\<not> (\<forall>v. G v = OnceOut)" using assms(2) by (metis once_phase.distinct(5))
  moreover have "\<not> (once_busy (G v) \<and> (\<forall>u. u \<noteq> v \<longrightarrow> G u = OnceOut))" for v
    using assms(2) by (metis once_busy.simps(4) once_phase.distinct(5))
  ultimately have "ow_runs s = 1 \<and> (\<forall>v. \<not> once_busy (G v))"
    using assms(1) unfolding once_inv_def by blast
  then show "ow_runs s = 1" "\<not> once_busy (G u)" by blast+
qed

lemma once_inv_moves:
  assumes "once_inv pid s G" and "G t = g" and "once_busy g"
  shows "g = OnceRunning \<Longrightarrow> once_inv pid (s\<lparr>ow_runs := Suc (ow_runs s)\<rparr>) (G(t := OnceRan))"
    and "g = OnceRunning \<Longrightarrow> once_inv pid (s\<lparr>ow_ctl := ONCE_INIT\<rparr>) (G(t := OnceOut))"
    and "g = OnceRan \<Longrightarrow> once_inv pid (s\<lparr>ow_ctl := ONCE_DONE\<rparr>) (G(t := OnceDone))"
  using once_inv_busy [OF assms] by (auto simp: once_inv_def)

abbreviation once_kernel :: "u32 \<Rightarrow> once_world keff" where
  "once_kernel a \<equiv> gsync_effect (ow_cell a)"

lemma once_load_safe:
  "safe A (once_inv pid) M (t :: 't)
    (\<lambda>val g. (val = ONCE_DONE \<and> g = OnceDone) \<or> (val = once_token pid \<or> val = ONCE_INIT) \<and> g = OnceOut)
    OnceOut (atomic_load (ow_cell a))"
  unfolding atomic_load_def
proof (rule safe_ActI [where h = "\<lambda>s. if ow_ctl s = ONCE_DONE then OnceDone else OnceOut"])
  fix s and G :: "'t \<Rightarrow> once_phase" assume i: "once_inv pid s G" "G t = OnceOut"
  then show "once_inv pid (id s) (G(t := if ow_ctl s = ONCE_DONE then OnceDone else OnceOut))"
    using once_inv_done [OF i(1), of t] by (auto simp: fun_upd_idem)
  show "safe A (once_inv pid) M t (\<lambda>val g. (val = ONCE_DONE \<and> g = OnceDone) \<or>
      (val = once_token pid \<or> val = ONCE_INIT) \<and> g = OnceOut)
      (if ow_ctl s = ONCE_DONE then OnceDone else OnceOut) (Ret (c_get (ow_cell a) s))"
    using i(1) by (auto simp: once_inv_def)
qed

lemma once_routine_safe:
  "safe (\<lambda>_ g. g = OnceRunning) (once_inv pid) (once_kernel a) (t :: 't)
    (\<lambda>r g. g = (if r = Exits then OnceRunning else OnceRan)) OnceRunning once_routine"
proof -
  have c: "safe (\<lambda>_ g. g = OnceRunning) (once_inv pid) (once_kernel a) t (\<lambda>_ g. g = OnceRunning)
      OnceRunning (sys (Callback 0 0))"
    unfolding sys_def by (rule safe_Sys_skip) simp_all
  show ?thesis
    unfolding once_routine_def
    by (rule safe_bind [OF c])
      (auto intro!: safe_ActI [where h = "\<lambda>_. OnceRan"] once_inv_moves(1))
qed

lemma once_cleanup_safe:
  "safe A (once_inv pid) (once_kernel a) (t :: 't) (\<lambda>_ g. g = OnceOut) OnceRunning
    (once_cleanup (ow_cell a))"
  unfolding once_cleanup_def
  by (rule safe_bind [where R = "\<lambda>_ g. g = OnceOut"], rule safe_store [where g' = OnceOut])
    (auto intro: once_inv_moves(2) safe_lll_wake [OF gsync_effect_contract])

lemma once_set_safe:
  "safe A (once_inv pid) (once_kernel a) (t :: 't) (\<lambda>_ g. g = OnceDone) OnceRan
    (lll_set_wake (ow_cell a) ONCE_DONE GSYNC_BROADCAST)"
  unfolding lll_set_wake_def gsync_wake_def sys_def bind_simps
  by (rule safe_SysI [where g' = OnceDone]) (auto simp: gsync_effect_def intro: once_inv_moves(3))

lemma once_safe:
  assumes "th_pid self = pid"
  shows "safe (\<lambda>_ g. g = OnceRunning) (once_inv pid) (once_kernel a) (t :: 't)
    (\<lambda>r g. g = (if r = Exits then OnceOut else OnceDone)) OnceOut
    (pthread_once self (ow_cell a) once_routine)"
proof -
  have cas: "safe (\<lambda>_ g. g = OnceRunning) (once_inv pid) (once_kernel a) t
      (\<lambda>ok g. g = (if ok then OnceRunning else OnceOut)) OnceOut
      (atomic_cas_bool (ow_cell a) ONCE_INIT (once_token pid))"
    by (rule safe_cas [where g' = OnceRunning])
      (use once_token_neq [of pid] in \<open>auto intro: once_inv_start(2)\<close>)
  have run: "safe (\<lambda>_ g. g = OnceRunning) (once_inv pid) (once_kernel a) t
      (\<lambda>r g. g = (if r = Exits then OnceOut else OnceRan)) OnceRunning
      (with_cleanup (once_cleanup (ow_cell a)) (\<lambda>_. False) once_routine)"
    unfolding with_cleanup_def
    by (rule safe_bind [OF once_routine_safe])
      (auto split: unwinding.splits intro!: safe_bind [OF once_cleanup_safe])
  have wait: "safe (\<lambda>_ g. g = OnceRunning) (once_inv pid) (once_kernel a) t (\<lambda>_ g. g = OnceOut) OnceOut
      (lll_wait (ow_cell a) v 0)" for v
    by (rule safe_lll_wait [OF gsync_effect_contract]) simp
  show ?thesis
    unfolding pthread_once_def
    by (rule safe_bind [OF once_load_safe])
      (auto simp: assms Let_def once_token_neq split: unwinding.splits
        intro!: safe_loop [where J = "\<lambda>_ g. g = OnceOut"] safe_bind [OF once_load_safe]
          safe_bind [OF wait] safe_bind [OF cas] safe_bind [OF run] safe_bind [OF once_set_safe])
qed

subsection \<open>Properties\<close>

abbreviation once_new :: once_world where
  "once_new \<equiv> \<lparr>ow_ctl = ONCE_INIT, ow_runs = 0\<rparr>"

lemma once_inv_new: "once_inv pid once_new (\<lambda>_. OnceOut)"
  by (simp add: once_inv_def)

text \<open>
  C6. Once means once: when any number of threads of a process call \<open>pthread_once\<close> on the same control
  variable, interleaved arbitrarily and some of them cancelled inside the routine, at most one is in the
  routine at a time, it is executed to its end at most once, and whoever has returned finds it
  executed and nobody in it.
\<close>

theorem once_exactly_once:
  assumes "gsync_contract M (ow_cell a)" and "\<And>t. th_pid (thr t) = pid"
    and "reach M once_new (\<lambda>t. pthread_once (thr t) (ow_cell a) once_routine) s P"
  shows "ow_runs s \<le> 1 \<and> (inside P t \<longrightarrow> inside P u \<longrightarrow> t = u) \<and>
    (P t = Ret (Value x) \<longrightarrow> ow_runs s = 1 \<and> \<not> inside P u)"
proof -
  have "\<exists>G. once_inv pid s G \<and> (\<forall>t. safe (\<lambda>_ g. g = OnceRunning) (once_inv pid) M t
      (\<lambda>r g. g = (if r = Exits then OnceOut else OnceDone)) (G t) (P t))"
    using assms(1,3) once_safe [OF assms(2)] once_inv_new
    by (intro safe_reach [where ?G0.0 = "\<lambda>_. OnceOut"]) (simp_all add: gsync_contract_iff)
  then obtain G where G: "once_inv pid s G"
    "\<And>t. safe (\<lambda>_ g. g = OnceRunning) (once_inv pid) M t
      (\<lambda>r g. g = (if r = Exits then OnceOut else OnceDone)) (G t) (P t)" by blast
  have i: "G v = OnceRunning" if "inside P v" for v
    using that G(2) [of v] by (auto simp: inside_def safe_Sys_iff)
  have d: "G t = OnceDone" if "P t = Ret (Value x)" using that G(2) [of t] by simp
  have "ow_runs s \<le> 1" using G(1) by (auto simp: once_inv_def)
  moreover have "t = u" if "inside P t" "inside P u"
    using once_inv_busy(2) [OF G(1) i, of t u] i that by fastforce
  moreover have "ow_runs s = 1 \<and> \<not> inside P u" if "P t = Ret (Value x)"
    using once_inv_finished(1) [OF G(1) d [OF that]] once_inv_finished(2) [OF G(1) d [OF that], of u]
      i [of u] by auto
  ultimately show ?thesis by blast
qed

definition once_demo :: "(nat \<times> nat) list \<Rightarrow> once_world \<times> (nat \<Rightarrow> (once_world, ret unwinding) prog)" where
  "once_demo ts = sched (once_kernel 64) reply0 ts once_new
     (\<lambda>t. pthread_once \<lparr>th_addr = 4096, th_id = of_nat t, th_pid = 7\<rparr> (ow_cell 64) once_routine)"

lemma once_exactly_once_witness:
  "snd (once_demo [(0, 9), (1, 9)]) 1 = Ret (Value OK) \<and> ow_runs (fst (once_demo [(0, 9), (1, 9)])) = 1"
proof
  have r: "reach (once_kernel 64) once_new
      (\<lambda>t. pthread_once \<lparr>th_addr = 4096, th_id = of_nat t, th_pid = 7\<rparr> (ow_cell 64) once_routine)
      (fst (once_demo [(0, 9), (1, 9)])) (snd (once_demo [(0, 9), (1, 9)]))"
    unfolding once_demo_def by (rule reach_sched) (rule surjective_pairing)
  show p: "snd (once_demo [(0, 9), (1, 9)]) 1 = Ret (Value OK)"
    by (simp add: once_demo_def once_routine_def code_defs atomic_defs pstep_loop Let_def gsync_effect_def)
  then show "ow_runs (fst (once_demo [(0, 9), (1, 9)])) = 1"
    using once_exactly_once [OF gsync_effect_contract _ r, where pid = 7 and t = 1 and x = OK] by simp
qed

text \<open>
  A lone caller, from every state but that of a routine in progress in its own process: it returns at
  once if the routine is done. Otherwise, also when another process was executing it (the caller is
  then in a child that was forked meanwhile), it executes the routine and marks it done; if it is
  cancelled there, it resets the control variable. In both cases it wakes the waiters.
\<close>

theorem pthread_once_run:
  assumes "ow_ctl s \<noteq> once_token (th_pid self)"
  shows "exec (once_kernel a) (pthread_once self (ow_cell a) once_routine) (r # w # rs) s [] =
    (if ow_ctl s = ONCE_DONE then Some (Value OK, s, r # w # rs, [])
     else if r_cancelled r then
       Some (Exits, s\<lparr>ow_ctl := ONCE_INIT\<rparr>, rs, [Callback 0 0, wake_call a 0 GSYNC_BROADCAST])
     else Some (Value OK, s\<lparr>ow_ctl := ONCE_DONE, ow_runs := Suc (ow_runs s)\<rparr>, rs,
       [Callback 0 0, wake_call a ONCE_DONE (GSYNC_BROADCAST OR GSYNC_MUTATE)]))"
  using assms
  by (simp add: pthread_once_def once_routine_def once_cleanup_def with_cleanup_def exec_loop runs Let_def
      sys_def lll_wake_def gsync_wake_def lll_set_wake_def gsync_effect_def)

lemma pthread_once_run_witness:
  "exec (once_kernel 64) (pthread_once \<lparr>th_addr = 4096, th_id = 1, th_pid = 7\<rparr> (ow_cell 64) once_routine)
      [reply0, reply0] \<lparr>ow_ctl = once_token 5, ow_runs = 0\<rparr> [] =
    Some (Value OK, \<lparr>ow_ctl = ONCE_DONE, ow_runs = 1\<rparr>, [],
      [Callback 0 0, wake_call 64 ONCE_DONE (GSYNC_BROADCAST OR GSYNC_MUTATE)])"
  by (subst pthread_once_run) simp_all

end
