(* ===== verification/Barrier.thy ===== *)
theory Barrier
  imports Thread
begin

text \<open>
  \<open>pthread/barrier.c\<close>. The 64-bit word of a barrier has the sequence number of the round in its low
  and the number of threads that have arrived in its high limb.
\<close>

record pthread_barrierattr =
  bara_flags :: u32

record pthread_barrier =
  bar_seq_cnt :: xint
  bar_nrefs :: u32
  bar_total :: u32
  bar_flags :: u32

abbreviation (input) PTHREAD_BARRIER_SERIAL_THREAD :: int where "PTHREAD_BARRIER_SERIAL_THREAD \<equiv> 1"

subsection \<open>Attributes and initialisation\<close>

definition barrier_dfl_attr :: pthread_barrierattr where
  "barrier_dfl_attr = \<lparr>bara_flags = 0\<rparr>"

definition pthread_barrierattr_init :: "pthread_barrierattr \<Rightarrow> ret \<times> pthread_barrierattr" where
  "pthread_barrierattr_init attr = (OK, barrier_dfl_attr)"

definition pthread_barrierattr_setpshared ::
  "pthread_barrierattr \<Rightarrow> int \<Rightarrow> ret \<times> pthread_barrierattr" where
  "pthread_barrierattr_setpshared attr pshared =
    (if pshared \<noteq> PTHREAD_PROCESS_SHARED \<and> pshared \<noteq> PTHREAD_PROCESS_PRIVATE then (Err EINVAL, attr)
     else (OK, attr\<lparr>bara_flags := (bara_flags attr AND NOT GSYNC_SHARED) OR
       (if pshared = PTHREAD_PROCESS_SHARED then GSYNC_SHARED else 0)\<rparr>))"

definition pthread_barrierattr_getpshared :: "pthread_barrierattr \<Rightarrow> ret \<times> int" where
  "pthread_barrierattr_getpshared attr =
    (OK, if bara_flags attr AND GSYNC_SHARED \<noteq> 0 then PTHREAD_PROCESS_SHARED
     else PTHREAD_PROCESS_PRIVATE)"

definition pthread_barrierattr_destroy :: "pthread_barrierattr \<Rightarrow> ret \<times> pthread_barrierattr" where
  "pthread_barrierattr_destroy attr = (OK, attr)"

definition pthread_barrier_init ::
  "pthread_barrier \<Rightarrow> pthread_barrierattr option \<Rightarrow> u32 \<Rightarrow> ret \<times> pthread_barrier" where
  "pthread_barrier_init bar attrp cnt =
    (if cnt = 0 then (Err EINVAL, bar)
     else let attr = (case attrp of None \<Rightarrow> barrier_dfl_attr | Some a \<Rightarrow> a)
       in (OK, bar\<lparr>bar_seq_cnt := \<lparr>lo = 0, hi = 0\<rparr>, bar_nrefs := 1, bar_total := cnt - 1,
         bar_flags := bara_flags attr\<rparr>))"

definition bar_seq_cnt_c :: "('s, pthread_barrier) cell \<Rightarrow> ('s, xint) cell" where
  "bar_seq_cnt_c = field 0 bar_seq_cnt bar_seq_cnt_update"

definition bar_seq :: "('s, pthread_barrier) cell \<Rightarrow> ('s, u32) cell" where
  "bar_seq barp = lo_cell (bar_seq_cnt_c barp)"

definition bar_cnt :: "('s, pthread_barrier) cell \<Rightarrow> ('s, u32) cell" where
  "bar_cnt barp = hi_cell (bar_seq_cnt_c barp)"

definition bar_nrefs_c :: "('s, pthread_barrier) cell \<Rightarrow> ('s, u32) cell" where
  "bar_nrefs_c = field 8 bar_nrefs bar_nrefs_update"

definition bar_total_c :: "('s, pthread_barrier) cell \<Rightarrow> ('s, u32) cell" where
  "bar_total_c = field 12 bar_total bar_total_update"

definition bar_flags_c :: "('s, pthread_barrier) cell \<Rightarrow> ('s, u32) cell" where
  "bar_flags_c = field 16 bar_flags bar_flags_update"

lemma bar_sel [simp]:
  "c_get (bar_seq_cnt_c c) s = bar_seq_cnt (c_get c s)"
  "c_put (bar_seq_cnt_c c) x s = c_put c ((c_get c s)\<lparr>bar_seq_cnt := x\<rparr>) s"
  "c_addr (bar_seq c) = c_addr c"
  "c_get (bar_seq c) s = lo (bar_seq_cnt (c_get c s))"
  "c_put (bar_seq c) v s = c_put c ((c_get c s)\<lparr>bar_seq_cnt := (bar_seq_cnt (c_get c s))\<lparr>lo := v\<rparr>\<rparr>) s"
  "c_get (bar_cnt c) s = hi (bar_seq_cnt (c_get c s))"
  "c_put (bar_cnt c) v s = c_put c ((c_get c s)\<lparr>bar_seq_cnt := (bar_seq_cnt (c_get c s))\<lparr>hi := v\<rparr>\<rparr>) s"
  "c_addr (bar_nrefs_c c) = c_addr c + 8"
  "c_get (bar_nrefs_c c) s = bar_nrefs (c_get c s)"
  "c_put (bar_nrefs_c c) v s = c_put c ((c_get c s)\<lparr>bar_nrefs := v\<rparr>) s"
  "c_get (bar_total_c c) s = bar_total (c_get c s)"
  "c_get (bar_flags_c c) s = bar_flags (c_get c s)"
  by (simp_all add: bar_seq_cnt_c_def bar_seq_def bar_cnt_def bar_nrefs_c_def bar_total_c_def bar_flags_c_def)

subsection \<open>Waiting at the barrier\<close>

text \<open>The inner loop: sleep as long as the sequence number is that of the round.\<close>

definition barrier_sleep :: "('s, pthread_barrier) cell \<Rightarrow> u32 \<Rightarrow> u32 \<Rightarrow> ('s, unit) prog" where
  [code_defs]: "barrier_sleep barp seq pshared = loop (\<lambda>_.
     bind (load (bar_seq barp)) (\<lambda>v.
     if v = seq then bind (lll_wait (bar_seq barp) seq pshared) (\<lambda>_. again ())
     else leave ())) ()"

text \<open>
  The body of the \<open>do { } while (0)\<close>, whose \<open>continue\<close> jumps to the condition and so ends the loop.
\<close>

definition barrier_pass :: "('s, pthread_barrier) cell \<Rightarrow> u32 \<Rightarrow> ('s, int) prog" where
  [code_defs]: "barrier_pass barp pshared =
    bind (atomic_load (bar_seq barp)) (\<lambda>seq.
    bind (atomic_add (bar_cnt barp) 1) (\<lambda>cnt.
    bind (load (bar_total_c barp)) (\<lambda>total.
    if cnt < total then bind (barrier_sleep barp seq pshared) (\<lambda>_. Ret 0)
    else bind (load (bar_total_c barp)) (\<lambda>total.
      if cnt = total then
        bind (load (bar_seq barp)) (\<lambda>v.
        bind (atomic_storex (bar_seq_cnt_c barp) (ucast (v + 1))) (\<lambda>_.
        bind (lll_wake (bar_seq barp) (pshared OR GSYNC_BROADCAST)) (\<lambda>_.
        Ret PTHREAD_BARRIER_SERIAL_THREAD)))
      else bind (lll_wait (bar_seq barp) seq pshared) (\<lambda>_. Ret 0)))))"

definition pthread_barrier_wait :: "('s, pthread_barrier) cell \<Rightarrow> ('s, int) prog" where
  [code_defs]: "pthread_barrier_wait barp =
    bind (load (bar_flags_c barp)) (\<lambda>fl.
    let pshared = fl AND GSYNC_SHARED in
    bind (atomic_add (bar_nrefs_c barp) 1) (\<lambda>_.
    bind (barrier_pass barp pshared) (\<lambda>ret.
    bind (atomic_add (bar_nrefs_c barp) (- 1)) (\<lambda>n.
    bind (if n = 1 then lll_wake (bar_nrefs_c barp) pshared else Ret ()) (\<lambda>_.
    Ret ret)))))"

definition pthread_barrier_destroy :: "('s, pthread_barrier) cell \<Rightarrow> ('s, ret) prog" where
  [code_defs]: "pthread_barrier_destroy barp =
    bind (load (bar_flags_c barp)) (\<lambda>fl.
    let pshared = fl AND GSYNC_SHARED in
    bind (atomic_add (bar_nrefs_c barp) (- 1)) (\<lambda>n.
    loop (\<lambda>refc.
      if refc \<noteq> 0 then
        bind (lll_wait (bar_nrefs_c barp) refc pshared) (\<lambda>_.
        bind (atomic_load (bar_nrefs_c barp)) (\<lambda>refc. again refc))
      else leave OK) (n - 1)))"

subsection \<open>The barrier under any interleaving\<close>

text \<open>
  Where a thread stands, with the number of rounds it has completed: outside; it has read the
  sequence number; it is counted and waits; it was the last to be counted.
\<close>

datatype bar_phase = BarAt nat | BarRead nat | BarWait nat | BarLast nat

fun bar_arrived :: "nat \<Rightarrow> bar_phase \<Rightarrow> bool" where
  "bar_arrived r (BarWait n) = (n = r)"
| "bar_arrived r (BarLast n) = (n = r)"
| "bar_arrived r _ = False"

text \<open>The phases possible in round \<open>r\<close>; a waiting thread may not have noticed that its round is over.\<close>

fun bar_possible :: "nat \<Rightarrow> bar_phase \<Rightarrow> bool" where
  "bar_possible r (BarAt n) = (n = r)"
| "bar_possible r (BarRead n) = (n = r)"
| "bar_possible r (BarWait n) = (n = r \<or> Suc n = r)"
| "bar_possible r (BarLast n) = (n = r)"

definition bar_ok :: "nat \<Rightarrow> pthread_barrier \<Rightarrow> ('t::finite \<Rightarrow> bar_phase) \<Rightarrow> bool" where
  "bar_ok r s G \<longleftrightarrow> card (UNIV :: 't set) < 2 ^ 32 \<and> Suc (unat (bar_total s)) = card (UNIV :: 't set) \<and>
     lo (bar_seq_cnt s) = of_nat r \<and> unat (hi (bar_seq_cnt s)) = card {t. bar_arrived r (G t)} \<and>
     (\<forall>t. bar_possible r (G t)) \<and>
     (\<forall>t. G t = BarLast r \<longrightarrow> (\<forall>u. bar_arrived r (G u)) \<and> (\<forall>u. G u = BarLast r \<longrightarrow> u = t))"

definition bar_inv :: "u32 \<Rightarrow> pthread_barrier \<Rightarrow> ('t::finite \<Rightarrow> bar_phase) \<Rightarrow> bool" where
  "bar_inv tot s G \<longleftrightarrow> bar_total s = tot \<and> (\<exists>r. bar_ok r s G)"

lemma bar_inv_nrefs [simp]: "bar_inv tot (s\<lparr>bar_nrefs := v\<rparr>) G = bar_inv tot s G"
  by (simp add: bar_inv_def bar_ok_def)

lemma bar_ok_possible: "bar_ok r s G \<Longrightarrow> bar_possible r (G t)"
  by (simp add: bar_ok_def)

lemma of_nat_Suc_32: "of_nat (Suc n) \<noteq> (of_nat n :: u32)"
  by simp

text \<open>The moves.\<close>

lemma bar_ok_silent:
  assumes "bar_ok r s G" and "\<not> bar_arrived r (G t)" and "\<not> bar_arrived r g" and "bar_possible r g"
  shows "bar_ok r s (G(t := g))"
proof -
  have "{u. bar_arrived r ((G(t := g)) u)} = {u. bar_arrived r (G u)}"
    by (rule count_class_same) (simp add: assms)
  moreover have "G u \<noteq> BarLast r" for u using assms(1,2) by (auto simp: bar_ok_def)
  moreover have "g \<noteq> BarLast r" using assms(3) by auto
  ultimately show ?thesis using assms(1,4) by (simp add: bar_ok_def)
qed

lemma bar_arrive_count:
  assumes "bar_ok r (s :: pthread_barrier) (G :: 't::finite \<Rightarrow> _)" and "G t = BarRead n"
  shows "n = r" and "unat (hi (bar_seq_cnt s)) \<le> unat (bar_total s)"
    and "hi (bar_seq_cnt s) = bar_total s \<Longrightarrow> bar_arrived r g \<Longrightarrow> bar_arrived r ((G(t := g)) u)"
    and "bar_arrived r g \<Longrightarrow> unat (hi (bar_seq_cnt s) + 1) = card {u. bar_arrived r ((G(t := g)) u)}"
proof -
  show "n = r" using bar_ok_possible [OF assms(1), of t] assms(2) by simp
  have c: "card {u. bar_arrived r ((G(t := g)) u)} = Suc (unat (hi (bar_seq_cnt s)))"
    if "bar_arrived r g" for g
    using count_class_enter [of "bar_arrived r" G t g] assms that by (simp add: bar_ok_def)
  have b: "card {u. bar_arrived r ((G(t := g)) u)} \<le> Suc (unat (bar_total s))" for g
    using count_bound [of "\<lambda>u. bar_arrived r ((G(t := g)) u)"] assms(1) by (simp add: bar_ok_def)
  show "unat (hi (bar_seq_cnt s)) \<le> unat (bar_total s)"
    using c [of "BarWait r"] b [of "BarWait r"] by simp
  show "bar_arrived r ((G(t := g)) u)" if e: "hi (bar_seq_cnt s) = bar_total s" "bar_arrived r g"
  proof -
    have "card {u. bar_arrived r ((G(t := g)) u)} = card (UNIV :: 't set)"
      using c [OF e(2)] e(1) assms(1) by (simp add: bar_ok_def)
    then have "{u. bar_arrived r ((G(t := g)) u)} = UNIV" by (rule card_subset_eq [rotated 2]) simp_all
    then show ?thesis by blast
  qed
  show "unat (hi (bar_seq_cnt s) + 1) = card {u. bar_arrived r ((G(t := g)) u)}" if "bar_arrived r g"
  proof -
    have "Suc (unat (hi (bar_seq_cnt s))) < 2 ^ 32"
      using c [OF that] b [of g] assms(1) by (simp add: bar_ok_def)
    then show ?thesis using c [OF that] by (simp add: unat_Suc_bound)
  qed
qed

lemma bar_arrive:
  assumes "bar_ok r (s :: pthread_barrier) (G :: 't::finite \<Rightarrow> _)" and "G t = BarRead n"
  shows "bar_ok r (s\<lparr>bar_seq_cnt := (bar_seq_cnt s)\<lparr>hi := hi (bar_seq_cnt s) + 1\<rparr>\<rparr>)
    (G(t := if hi (bar_seq_cnt s) = bar_total s then BarLast n else BarWait n))"
    (is "bar_ok r ?s (G(t := ?g))")
proof -
  note c = bar_arrive_count [OF assms]
  have g: "bar_arrived r ?g" "bar_possible r ?g" using c(1) by auto
  have nl: "G u \<noteq> BarLast r" for u
  proof
    assume "G u = BarLast r"
    then have "bar_arrived r (G t)" using assms(1) unfolding bar_ok_def by blast
    with assms(2) show False by simp
  qed
  have "unat (hi (bar_seq_cnt s) + 1) = card {u. bar_arrived r ((G(t := ?g)) u)}" by (rule c(4) [OF g(1)])
  moreover have "bar_arrived r ((G(t := ?g)) v)" "v = u" if "(G(t := ?g)) u = BarLast r"
      "(G(t := ?g)) v = BarLast r" for u v
    using that nl by (auto split: if_splits)
  moreover have "bar_arrived r ((G(t := ?g)) v)" if "(G(t := ?g)) u = BarLast r" for u v
    using that nl [of u] c(3) [OF _ g(1), of v] by (cases "hi (bar_seq_cnt s) = bar_total s") (auto split: if_splits)
  moreover have "bar_possible r ((G(t := ?g)) u)" for u
    using g(2) bar_ok_possible [OF assms(1)] by simp
  ultimately show ?thesis using assms(1) by (simp add: bar_ok_def del: fun_upd_apply)
qed

lemma bar_release:
  assumes "bar_ok r (s :: pthread_barrier) (G :: 't::finite \<Rightarrow> _)" and "G t = BarLast n"
  shows "n = r" and "bar_ok (Suc r) (s\<lparr>bar_seq_cnt := \<lparr>lo = of_nat n + 1, hi = 0\<rparr>\<rparr>) (G(t := BarAt (Suc n)))"
proof -
  show n: "n = r" using bar_ok_possible [OF assms(1), of t] assms(2) by simp
  have w: "G u = BarWait r" if "u \<noteq> t" for u
  proof -
    have "bar_arrived r (G u)" "G u \<noteq> BarLast r" using assms that n by (auto simp: bar_ok_def)
    then show ?thesis by (cases "G u") auto
  qed
  have "bar_possible (Suc r) ((G(t := BarAt (Suc n))) u) \<and> \<not> bar_arrived (Suc r) ((G(t := BarAt (Suc n))) u)
      \<and> (G(t := BarAt (Suc n))) u \<noteq> BarLast (Suc r)" for u
    using w n by auto
  then show "bar_ok (Suc r) (s\<lparr>bar_seq_cnt := \<lparr>lo = of_nat n + 1, hi = 0\<rparr>\<rparr>) (G(t := BarAt (Suc n)))"
    using assms(1) n by (simp add: bar_ok_def add.commute del: fun_upd_apply)
qed


abbreviation bar_kernel :: "u32 \<Rightarrow> pthread_barrier keff" where
  "bar_kernel a \<equiv> gsync_effect (bar_seq (whole a))"

lemma bar_seq_cases:
  assumes "bar_inv tot s G" and "G t = g" and "g = BarAt n \<or> g = BarRead n \<or> g = BarLast n"
  shows "bar_ok n s G" and "lo (bar_seq_cnt s) = of_nat n"
proof -
  obtain r where r: "bar_ok r s G" using assms(1) by (auto simp: bar_inv_def)
  have "n = r" using bar_ok_possible [OF r, of t] assms(2,3) by auto
  with r show "bar_ok n s G" "lo (bar_seq_cnt s) = of_nat n" by (simp_all add: bar_ok_def)
qed

lemma bar_read_safe:
  "safe A (bar_inv tot) M (t :: 't::finite) (\<lambda>v g. v = of_nat n \<and> g = BarRead n) (BarAt n)
    (atomic_load (bar_seq (whole a)))"
  unfolding atomic_load_def
proof (rule safe_ActI [where h = "\<lambda>_. BarRead n"])
  fix s and G :: "'t \<Rightarrow> bar_phase" assume i: "bar_inv tot s G" "G t = BarAt n"
  note o = bar_seq_cases [OF i, of n, simplified]
  show "bar_inv tot (id s) (G(t := BarRead n))"
    using i bar_ok_silent [OF o(1), of t "BarRead n"] by (auto simp: bar_inv_def)
  show "safe A (bar_inv tot) M t (\<lambda>v g. v = of_nat n \<and> g = BarRead n) (BarRead n)
      (Ret (c_get (bar_seq (whole a)) s))"
    using o(2) by simp
qed

lemma bar_count_safe:
  "safe A (bar_inv tot) M (t :: 't::finite)
    (\<lambda>c g. c \<le> tot \<and> g = (if c = tot then BarLast n else BarWait n)) (BarRead n)
    (atomic_add (bar_cnt (whole a)) 1)"
  unfolding atomic_add_def
proof (rule safe_ActI [where h = "\<lambda>s. if hi (bar_seq_cnt s) = tot then BarLast n else BarWait n"])
  fix s and G :: "'t \<Rightarrow> bar_phase" assume i: "bar_inv tot s G" "G t = BarRead n"
  note o = bar_seq_cases(1) [OF i, of n, simplified] and b = i(1) [unfolded bar_inv_def]
  show "bar_inv tot (c_put (bar_cnt (whole a)) (c_get (bar_cnt (whole a)) s + 1) s)
      (G(t := if hi (bar_seq_cnt s) = tot then BarLast n else BarWait n))"
    using bar_arrive [OF o i(2)] b by (auto simp: bar_inv_def)
  show "safe A (bar_inv tot) M t (\<lambda>c g. c \<le> tot \<and> g = (if c = tot then BarLast n else BarWait n))
      (if hi (bar_seq_cnt s) = tot then BarLast n else BarWait n) (Ret (c_get (bar_cnt (whole a)) s))"
    using bar_arrive_count(2) [OF o i(2)] b by (simp add: word_le_nat_alt)
qed

lemma bar_total_safe:
  "safe A (bar_inv tot) M (t :: 't::finite) (\<lambda>v g'. v = tot \<and> g' = g) g (load (bar_total_c (whole a)))"
  by (rule safe_load) (simp add: bar_inv_def)

lemma bar_nrefs_safe:
  "safe A (bar_inv tot) M (t :: 't::finite) (\<lambda>_ g'. g' = g) g (atomic_add (bar_nrefs_c (whole a)) v)"
  by (rule safe_add [where g' = g]) (auto simp: fun_upd_idem)

text \<open>A waiting thread leaves when the sequence number has moved, and it can have moved by one only.\<close>

lemma bar_look_safe:
  "safe A (bar_inv tot) M (t :: 't::finite)
    (\<lambda>v g. g = (if v = of_nat n then BarWait n else BarAt (Suc n))) (BarWait n) (load (bar_seq (whole a)))"
  unfolding load_def
proof (rule safe_ActI [where h = "\<lambda>s. if lo (bar_seq_cnt s) = of_nat n then BarWait n else BarAt (Suc n)"])
  fix s and G :: "'t \<Rightarrow> bar_phase" assume i: "bar_inv tot s G" "G t = BarWait n"
  then obtain r where r: "bar_ok r s G" by (auto simp: bar_inv_def)
  have p: "n = r \<or> Suc n = r" and l: "lo (bar_seq_cnt s) = of_nat r"
    using bar_ok_possible [OF r, of t] i(2) r by (simp_all add: bar_ok_def)
  show "bar_inv tot (id s) (G(t := if lo (bar_seq_cnt s) = of_nat n then BarWait n else BarAt (Suc n)))"
  proof (cases "n = r")
    case True
    then show ?thesis using i l by (simp add: fun_upd_idem)
  next
    case False
    then have "Suc n = r" using p by simp
    then show ?thesis
      using i r l bar_ok_silent [OF r, of t "BarAt (Suc n)"] by (auto simp: bar_inv_def fun_upd_idem)
  qed
qed simp

lemma bar_wait_safe:
  "safe A (bar_inv tot) (bar_kernel a) (t :: 't::finite) (\<lambda>_ g'. g' = g) g (lll_wait ptr v fl)"
  by (rule safe_lll_wait [OF gsync_effect_contract]) simp

lemma bar_sleep_safe:
  "safe A (bar_inv tot) (bar_kernel a) (t :: 't::finite) (\<lambda>_ g. g = BarAt (Suc n)) (BarWait n)
    (barrier_sleep (whole a) (of_nat n) fl)"
  unfolding barrier_sleep_def
  by (rule safe_loop [where J = "\<lambda>_ g. g = BarWait n"], simp, hypsubst, rule safe_bind [OF bar_look_safe])
    (auto intro!: safe_bind [OF bar_wait_safe])

lemma bar_store_safe:
  "safe A (bar_inv tot) M (t :: 't::finite) (\<lambda>_ g. g = BarAt (Suc n)) (BarLast n)
    (atomic_storex (bar_seq_cnt_c (whole a)) (ucast (of_nat n + 1 :: u32)))"
  unfolding atomic_storex_def
proof (rule safe_ActI [where h = "\<lambda>_. BarAt (Suc n)"])
  fix s and G :: "'t \<Rightarrow> bar_phase" assume i: "bar_inv tot s G" "G t = BarLast n"
  note o = bar_seq_cases(1) [OF i, of n, simplified]
  show "bar_inv tot (c_put (bar_seq_cnt_c (whole a)) (xint_of (ucast (of_nat n + 1 :: u32))) s)
      (G(t := BarAt (Suc n)))"
    unfolding xint_of_ucast using bar_release(2) [OF o i(2)] i(1) by (auto simp: bar_inv_def)
qed simp

lemma bar_pass_safe:
  "safe A (bar_inv tot) (bar_kernel a) (t :: 't::finite) (\<lambda>_ g. g = BarAt (Suc n)) (BarAt n)
    (barrier_pass (whole a) (fl AND GSYNC_SHARED))"
proof -
  have l: "safe A (bar_inv tot) (bar_kernel a) t (\<lambda>v g. v = of_nat n \<and> g = BarLast n) (BarLast n)
      (load (bar_seq (whole a)))"
    by (rule safe_load) (auto dest: bar_seq_cases(2))
  have w: "safe A (bar_inv tot) (bar_kernel a) t (\<lambda>_ g'. g' = g) g
      (lll_wake (bar_seq (whole a)) ((fl AND GSYNC_SHARED) OR GSYNC_BROADCAST))" for g
    by (rule safe_lll_wake [OF gsync_effect_contract]) (simp_all add: and_disjoint_or)
  show ?thesis
    unfolding barrier_pass_def
    by (rule safe_bind [OF bar_read_safe], elim conjE, hypsubst, rule safe_bind [OF bar_count_safe])
      (auto intro!: safe_bind [OF bar_total_safe] safe_bind [OF bar_sleep_safe] safe_bind [OF l]
        safe_bind [OF bar_store_safe] safe_bind [OF w] safe_bind [OF bar_wait_safe] simp: not_less)
qed

lemma barrier_wait_safe:
  "safe A (bar_inv tot) (bar_kernel a) (t :: 't::finite) (\<lambda>_ g. g = BarAt (Suc n)) (BarAt n)
    (pthread_barrier_wait (whole a))"
proof -
  have f: "safe A (bar_inv tot) (bar_kernel a) t (\<lambda>_ g'. g' = g) g (load (bar_flags_c (whole a)))" for g
    by (rule safe_load) simp
  have w: "safe A (bar_inv tot) (bar_kernel a) t (\<lambda>_ g'. g' = g) g
      (lll_wake (bar_nrefs_c (whole a)) (fl AND GSYNC_SHARED))" for g fl
    by (rule safe_lll_wake [OF gsync_effect_contract]) simp_all
  show ?thesis
    unfolding pthread_barrier_wait_def Let_def
    by (rule safe_bind [OF f], hypsubst, rule safe_bind [OF bar_nrefs_safe], hypsubst,
        rule safe_bind [OF bar_pass_safe], hypsubst, rule safe_bind [OF bar_nrefs_safe])
      (auto intro!: safe_bind [where R = "\<lambda>_ g. g = BarAt (Suc n)"] w)
qed


subsection \<open>Threads in phases\<close>

text \<open>A thread that works in phases, \<open>Callback n 0\<close> being the work of phase \<open>n\<close>, and waits after each.\<close>

definition bar_user :: "('s, pthread_barrier) cell \<Rightarrow> nat \<Rightarrow> ('s, unit) prog" where
  "bar_user barp k = loop (\<lambda>n.
     if n < k then
       bind (sys (Callback (of_nat n) 0)) (\<lambda>_. bind (pthread_barrier_wait barp) (\<lambda>_. again (Suc n)))
     else leave ()) 0"

definition bar_at :: "kcall \<Rightarrow> bar_phase \<Rightarrow> bool" where
  "bar_at c g \<longleftrightarrow> (\<exists>n. c = Callback (of_nat n) 0 \<and> g = BarAt n)"

definition new_barrier :: "u32 \<Rightarrow> u32 \<Rightarrow> pthread_barrier" where
  "new_barrier cnt fl = snd (pthread_barrier_init
     \<lparr>bar_seq_cnt = \<lparr>lo = 0, hi = 0\<rparr>, bar_nrefs = 0, bar_total = 0, bar_flags = 0\<rparr> (Some \<lparr>bara_flags = fl\<rparr>) cnt)"

lemma bar_user_safe:
  "safe bar_at (bar_inv tot) (bar_kernel a) (t :: 't::finite) (\<lambda>_ _. True) (BarAt 0) (bar_user (whole a) k)"
  unfolding bar_user_def
proof (rule safe_loop [where J = "\<lambda>n g. g = BarAt n"], simp)
  fix n g assume g: "g = BarAt n"
  have c: "safe bar_at (bar_inv tot) (bar_kernel a) t (\<lambda>_ g. g = BarAt n) (BarAt n)
      (sys (Callback (of_nat n) 0))"
    unfolding sys_def by (rule safe_Sys_skip) (auto simp: bar_at_def)
  show "safe bar_at (bar_inv tot) (bar_kernel a) t
      (\<lambda>r g'. case r of Inl y \<Rightarrow> g' = BarAt y | Inr x \<Rightarrow> True) g
      (if n < k then
         bind (sys (Callback (of_nat n) 0)) (\<lambda>_. bind (pthread_barrier_wait (whole a)) (\<lambda>_. again (Suc n)))
       else leave ())"
    unfolding g by (auto intro!: safe_bind [OF c] safe_bind [OF barrier_wait_safe])
qed

lemma bar_inv_new:
  assumes "unat cnt = card (UNIV :: 't::finite set)"
  shows "bar_inv (cnt - 1) (new_barrier cnt fl) (\<lambda>_ :: 't. BarAt 0)"
proof -
  have "0 < card (UNIV :: 't set)" by (simp add: finite_UNIV_card_ge_0)
  then have n: "cnt \<noteq> 0" using assms by auto
  have "card (UNIV :: 't set) < 2 ^ 32" using unsigned_less [of cnt] by (simp flip: assms)
  moreover have "Suc (unat (cnt - 1)) = card (UNIV :: 't set)"
    using unat_pred_32 [OF n] assms \<open>0 < card _\<close> by simp
  ultimately show ?thesis
    using n by (auto simp: bar_inv_def bar_ok_def new_barrier_def pthread_barrier_init_def intro!: exI [of _ 0])
qed

subsection \<open>Properties\<close>

text \<open>
  C7. A barrier for all the threads that use it keeps them in step: however they are interleaved, no two
  threads are ever in different phases of their work.
\<close>

theorem barrier_phases:
  fixes P :: "'t::finite \<Rightarrow> (pthread_barrier, unit) prog"
  assumes "gsync_contract M (bar_seq (whole a))" and "unat cnt = card (UNIV :: 't set)"
    and "reach M (new_barrier cnt fl) (\<lambda>t. bar_user (whole a) (rounds t)) s P"
    and "P t = Sys (Callback n x) k" and "P u = Sys (Callback m y) k'"
  shows "n = m"
proof -
  have "\<exists>G. bar_inv (cnt - 1) s G \<and> (\<forall>t. safe bar_at (bar_inv (cnt - 1)) M t (\<lambda>_ _. True) (G t) (P t))"
    using assms(1,3) bar_inv_new [OF assms(2)] bar_user_safe
    by (intro safe_reach [where ?G0.0 = "\<lambda>_. BarAt 0"]) (simp_all add: gsync_contract_iff)
  then obtain G where G: "bar_inv (cnt - 1) s G"
    "\<And>t. safe bar_at (bar_inv (cnt - 1)) M t (\<lambda>_ _. True) (G t) (P t)" by blast
  obtain i j where g: "n = of_nat i" "G t = BarAt i" "m = of_nat j" "G u = BarAt j"
    using G(2) [of t] G(2) [of u] assms(4,5) by (auto simp: safe_Sys_iff bar_at_def)
  show ?thesis
    using bar_seq_cases(2) [OF G(1) g(2)] bar_seq_cases(2) [OF G(1) g(4)] g(1,3) by simp
qed

definition bar_demo :: "u32 \<Rightarrow> nat \<Rightarrow> ('t \<times> nat) list \<Rightarrow> pthread_barrier \<times> ('t \<Rightarrow> (pthread_barrier, unit) prog)" where
  "bar_demo cnt k ts = sched (bar_kernel 64) reply0 ts (new_barrier cnt 0) (\<lambda>t. bar_user (whole 64) k)"

lemma bar_demo_reach:
  "reach (bar_kernel 64) (new_barrier cnt 0) (\<lambda>t. bar_user (whole 64) k) (fst (bar_demo cnt k ts)) (snd (bar_demo cnt k ts))"
  unfolding bar_demo_def by (rule reach_sched) (rule surjective_pairing)

lemmas bar_demo_eval = bar_demo_def bar_user_def new_barrier_def pthread_barrier_init_def Let_def
  code_defs atomic_defs pstep_loop bind_assoc

lemma bar_user_head:
  "loop (\<lambda>n. if n < k then bind (sys (Callback (of_nat n) 0)) (h n) else leave ()) m =
    (if m < k then Sys (Callback (of_nat m) 0)
       (\<lambda>r. iter (\<lambda>n. if n < k then bind (sys (Callback (of_nat n) 0)) (h n) else leave ()) (h m r))
     else Ret ())"
  by (simp add: loop_def sys_def)

lemma bar_demo_together:
  "\<exists>k. snd (bar_demo 2 2 [(True, 8), (False, 12), (True, 6)]) t = Sys (Callback 1 0) k"
  by (cases t) (simp_all add: bar_demo_eval xint_of_ucast bar_user_head)

lemma barrier_phases_witness:
  "\<exists>n k k'. snd (bar_demo 2 2 [(True, 8), (False, 12), (True, 6)]) True = Sys (Callback n 0) k \<and>
    snd (bar_demo 2 2 [(True, 8), (False, 12), (True, 6)]) False = Sys (Callback n 0) k'"
proof -
  obtain k where k: "snd (bar_demo 2 2 [(True, 8), (False, 12), (True, 6)]) True = Sys (Callback 1 0) k"
    using bar_demo_together by blast
  obtain n k' where k': "snd (bar_demo 2 2 [(True, 8), (False, 12), (True, 6)]) False = Sys (Callback n 0) k'"
    using bar_demo_together by blast
  have "1 = n" by (rule barrier_phases [OF gsync_effect_contract _ bar_demo_reach k k']) simp
  with k k' show ?thesis by blast
qed

text \<open>
  C31. The code for a thread that finds the barrier already full is wrong: it sleeps at most once and
  then leaves, because \<open>continue\<close> does not repeat a \<open>do { } while (0)\<close>. Three threads that wait once
  each at a barrier for two can so all get through, although the third had no partner.
\<close>

theorem barrier_late_thread_leaves:
  "\<exists>s P. reach (bar_kernel 64) (new_barrier 2 0) (\<lambda>t :: bool option. bar_user (whole 64) 1) s P \<and>
    (\<forall>t. P t = Ret ())"
proof -
  let ?ts = "[(None, 8), (Some True, 6), (Some False, 40), (Some True, 40), (None, 40)]"
  have "snd (bar_demo 2 1 ?ts) t = Ret ()" for t
  proof (cases t)
    case (Some b)
    then show ?thesis by (cases b) (simp_all add: bar_demo_eval xint_of_ucast)
  qed (simp add: bar_demo_eval xint_of_ucast)
  then show ?thesis using bar_demo_reach [of 2 1 ?ts] by blast
qed

text \<open>
  A lone thread at a barrier: the only one, or the last one that is missing, resets the count, starts
  the next round, wakes everybody and is told so by the result; and destroying a barrier that nobody
  refers to returns at once.
\<close>

theorem barrier_last_thread_run:
  "exec (bar_kernel a) (pthread_barrier_wait (whole a)) (r # r' # rs)
      (s\<lparr>bar_seq_cnt := \<lparr>lo = q, hi = bar_total s\<rparr>, bar_nrefs := 1\<rparr>) l =
    Some (PTHREAD_BARRIER_SERIAL_THREAD, s\<lparr>bar_seq_cnt := \<lparr>lo = q + 1, hi = 0\<rparr>, bar_nrefs := 1\<rparr>, r' # rs,
      l @ [wake_call a 0 ((bar_flags s AND GSYNC_SHARED) OR GSYNC_BROADCAST)]) \<and>
    exec M (pthread_barrier_destroy (whole a)) rs (s\<lparr>bar_nrefs := 1\<rparr>) l =
      Some (OK, s\<lparr>bar_nrefs := 0\<rparr>, rs, l)"
  by (simp add: pthread_barrier_wait_def barrier_pass_def pthread_barrier_destroy_def exec_loop runs Let_def
      xint_of_ucast and_disjoint_or)

end
