(* ===== verification/Join.thy ===== *)
theory Join
  imports Create
begin

text \<open>
  \<open>pthread/join.c\<close> and \<open>pthread/detach.c\<close>: who collects the result of a thread and releases its stack. The
  member \<open>joinpt\<close> decides: it is the one joiner, or the thread itself when it is detached. The kernel tells
  the end of a joinable thread by clearing its id.
\<close>

definition join_cleanup :: "('s, pthread) cell \<Rightarrow> ('s, pthread) cell \<Rightarrow> ('s, unit) prog" where
  [code_defs]: "join_cleanup self pt =
    bind (atomic_cas_bool (pth_joinpt pt) (c_addr self) 0) (\<lambda>_. Ret ())"

definition join_await :: "('s, pthread) cell \<Rightarrow> ('s, unit) prog" where
  [code_defs]: "join_await pt = loop (\<lambda>_.
     bind (load (pth_id pt)) (\<lambda>id.
     if id = 0 then leave () else bind (lll_wait (pth_id pt) id 0) (\<lambda>_. again ()))) ()"

text \<open>The two tests before waiting: a deadlock, and another joiner; \<open>p\<close> runs when both are passed.\<close>

definition join_enter ::
  "('s, pthread) cell \<Rightarrow> ('s, pthread) cell \<Rightarrow> ('s, ret unwinding) prog \<Rightarrow> ('s, ret unwinding) prog" where
  [code_defs]: "join_enter self pt p =
    bind (if c_addr pt = c_addr self then Ret True
          else bind (load (pth_joinpt self)) (\<lambda>j. Ret (j = c_addr pt))) (\<lambda>deadlk.
    if deadlk then Ret (Value (Err EDEADLK))
    else
      bind (load (pth_joinpt pt)) (\<lambda>j.
      bind (if j \<noteq> 0 then Ret False else atomic_cas_bool (pth_joinpt pt) 0 (c_addr self)) (\<lambda>ok.
      if \<not> ok then Ret (Value (Err EINVAL)) else p)))"

text \<open>The value and the release at the end; the result carries what is stored through \<open>retpp\<close>.\<close>

definition join_collect :: "('s, pthread) cell \<Rightarrow> ('s, (ret \<times> u32) unwinding) prog" where
  [code_defs]: "join_collect pt =
    bind (load (pth_retval pt)) (\<lambda>retval.
    bind (pthread_deallocate pt) (\<lambda>_. Ret (Value (OK, retval))))"

definition pthread_join ::
  "('s, pthread) cell \<Rightarrow> ('s, pthread) cell \<Rightarrow> ('s, (ret \<times> u32) unwinding) prog" where
  [code_defs]: "pthread_join self pt =
    (if c_addr pt = 0 then Ret (Value (Err ESRCH, 0))
     else
       bind (load (pth_joinpt pt)) (\<lambda>j.
       if j = c_addr pt then Ret (Value (Err EINVAL, 0))
       else
         bind (with_cleanup (join_cleanup self pt) (\<lambda>_. False)
           (join_enter self pt
             (bind (cancelpoint self (join_await pt)) (\<lambda>r. case r of
                Exits \<Rightarrow> Ret Exits
              | Value _ \<Rightarrow> Ret (Value OK))))) (\<lambda>r. case r of
           Exits \<Rightarrow> Ret Exits
         | Value ret \<Rightarrow> if ret = OK then join_collect pt else Ret (Value (ret, 0)))))"

text \<open>The timed wait leaves its loop on every answer but an interruption.\<close>

definition join_abstimed_await :: "('s, pthread) cell \<Rightarrow> timespec \<Rightarrow> ('s, int) prog" where
  [code_defs]: "join_abstimed_await pt tsp = loop (\<lambda>ret.
     bind (load (pth_id pt)) (\<lambda>id.
     if id = 0 then leave ret
     else
       bind (lll_abstimed_wait (pth_id pt) id tsp 0 CLOCK_REALTIME) (\<lambda>ret.
       if ret \<noteq> KERN_INTERRUPTED then leave ret else again ret))) 0"

definition pthread_timedjoin_np ::
  "('s, pthread) cell \<Rightarrow> ('s, pthread) cell \<Rightarrow> timespec \<Rightarrow> ('s, (ret \<times> u32) unwinding) prog" where
  [code_defs]: "pthread_timedjoin_np self pt tsp =
    (if c_addr pt = 0 then Ret (Value (Err ESRCH, 0))
     else
       bind (load (pth_joinpt pt)) (\<lambda>j.
       if j = c_addr pt then Ret (Value (Err EINVAL, 0))
       else
         bind (with_cleanup (join_cleanup self pt) (\<lambda>ret. ret = Err ETIMEDOUT)
           (join_enter self pt
             (bind (cancelpoint self (join_abstimed_await pt tsp)) (\<lambda>r. case r of
                Exits \<Rightarrow> Ret Exits
              | Value ret \<Rightarrow> Ret (Value (if ret = KERN_TIMEDOUT then Err ETIMEDOUT else OK)))))) (\<lambda>r. case r of
           Exits \<Rightarrow> Ret Exits
         | Value ret \<Rightarrow> if ret = OK then join_collect pt else Ret (Value (ret, 0)))))"

definition pthread_tryjoin_np ::
  "('s, pthread) cell \<Rightarrow> ('s, pthread) cell \<Rightarrow> ('s, (ret \<times> u32) unwinding) prog" where
  [code_defs]: "pthread_tryjoin_np self pt =
    (if c_addr pt = 0 then Ret (Value (Err ESRCH, 0))
     else
       bind (load (pth_joinpt pt)) (\<lambda>j.
       if j = c_addr pt then Ret (Value (Err EINVAL, 0))
       else
         bind (if c_addr pt = c_addr self then Ret True
               else bind (load (pth_joinpt self)) (\<lambda>j. Ret (j = c_addr pt))) (\<lambda>deadlk.
         if deadlk then Ret (Value (Err EDEADLK, 0))
         else
           bind (load (pth_id pt)) (\<lambda>id.
           if id \<noteq> 0 then Ret (Value (Err EBUSY, 0))
           else
             bind (load (pth_joinpt pt)) (\<lambda>j.
             bind (if j \<noteq> 0 then Ret False else atomic_cas_bool (pth_joinpt pt) 0 (c_addr self)) (\<lambda>ok.
             if \<not> ok then Ret (Value (Err EINVAL, 0)) else join_collect pt))))))"

definition pthread_detach :: "('s, pthread) cell \<Rightarrow> ('s, ret) prog" where
  [code_defs]: "pthread_detach pt =
    bind (INVALID_P pt) (\<lambda>invalid.
    if invalid then Ret (Err ESRCH)
    else
      bind (load (pth_joinpt pt)) (\<lambda>j.
      if j = c_addr pt then Ret (Err EINVAL)
      else
        bind (atomic_cas_bool (pth_joinpt pt) 0 (c_addr pt)) (\<lambda>ok.
        if \<not> ok then Ret OK
        else
          bind (load (pth_flags pt)) (\<lambda>flags.
          if flags AND PT_FLG_EXITING \<noteq> 0 then
            bind (join_await pt) (\<lambda>_. bind (pthread_deallocate pt) (\<lambda>_. Ret OK))
          else Ret OK))))"

end
