(* ===== verification/Lifecycle.thy ===== *)
theory Lifecycle
  imports Join Frame
begin

text \<open>
  The end of a thread and its collection, together: one thread runs \<open>thread_entry\<close> while any number of
  others join it, try to, or detach it. The state adds what the kernel does: the ranges of
  memory it has released, and whether the thread has ended.
\<close>

record life_world =
  lw_desc :: "u32 \<Rightarrow> pthread"
  lw_released :: "(u32 \<times> u32) list"
  lw_ended :: bool
  lw_counter :: u32
  lw_lock :: u32
  lw_total :: u32
  lw_mtflag :: u32
  lw_tls_list :: u32
  lw_tcb_next :: "u32 \<Rightarrow> u32"
  lw_links :: heap
  lw_dfl :: pthread_attr
  lw_keys :: "nat \<Rightarrow> pthread_key_data"
  lw_entry :: "u32 \<Rightarrow> pthread_key_data"
  lw_specific :: "u32 \<Rightarrow> nat \<Rightarrow> u32"

definition lw_tsd :: "u32 \<Rightarrow> life_world tsd" where
  "lw_tsd pt = \<lparr>
    td_keys = (\<lambda>i. \<lparr>c_addr = 8 * of_nat i, c_get = (\<lambda>s. lw_keys s i),
      c_put = (\<lambda>v s. s\<lparr>lw_keys := (lw_keys s)(i := v)\<rparr>)\<rparr>),
    td_entry = (\<lambda>a. \<lparr>c_addr = a, c_get = (\<lambda>s. lw_entry s a),
      c_put = (\<lambda>v s. s\<lparr>lw_entry := (lw_entry s)(a := v)\<rparr>)\<rparr>),
    td_blk1 = pt + 24,
    td_specific = (\<lambda>i. \<lparr>c_addr = pt + 152 + 4 * of_nat i, c_get = (\<lambda>s. lw_specific s pt i),
      c_put = (\<lambda>v s. s\<lparr>lw_specific := (lw_specific s)(pt := (lw_specific s pt)(i := v))\<rparr>)\<rparr>),
    td_used = \<lparr>c_addr = pt + 280, c_get = (\<lambda>s. pt_specific_used (lw_desc s pt)),
      c_put = (\<lambda>v s. s\<lparr>lw_desc := (lw_desc s)(pt := (lw_desc s pt)\<lparr>pt_specific_used := v\<rparr>)\<rparr>)\<rparr>\<rparr>"

definition lw_rtl :: "life_world rtl" where
  "lw_rtl = \<lparr>
    g_desc = (\<lambda>pt. \<lparr>c_addr = pt, c_get = (\<lambda>s. lw_desc s pt),
      c_put = (\<lambda>v s. s\<lparr>lw_desc := (lw_desc s)(pt := v)\<rparr>)\<rparr>),
    g_tsd = lw_tsd,
    g_links = \<lparr>c_addr = 0, c_get = lw_links, c_put = (\<lambda>v s. s\<lparr>lw_links := v\<rparr>)\<rparr>,
    g_running = 128,
    g_running_lock = \<lparr>c_addr = 136, c_get = lw_lock, c_put = (\<lambda>v s. s\<lparr>lw_lock := v\<rparr>)\<rparr>,
    g_id_counter = \<lparr>c_addr = 140, c_get = lw_counter, c_put = (\<lambda>v s. s\<lparr>lw_counter := v\<rparr>)\<rparr>,
    g_total = \<lparr>c_addr = 144, c_get = lw_total, c_put = (\<lambda>v s. s\<lparr>lw_total := v\<rparr>)\<rparr>,
    g_mtflag = \<lparr>c_addr = 148, c_get = lw_mtflag, c_put = (\<lambda>v s. s\<lparr>lw_mtflag := v\<rparr>)\<rparr>,
    g_tls_list = \<lparr>c_addr = 152, c_get = lw_tls_list, c_put = (\<lambda>v s. s\<lparr>lw_tls_list := v\<rparr>)\<rparr>,
    g_tcb_next = (\<lambda>a. \<lparr>c_addr = a, c_get = (\<lambda>s. lw_tcb_next s a),
      c_put = (\<lambda>v s. s\<lparr>lw_tcb_next := (lw_tcb_next s)(a := v)\<rparr>)\<rparr>),
    g_dfl_attr = \<lparr>c_addr = 156, c_get = lw_dfl, c_put = (\<lambda>v s. s\<lparr>lw_dfl := v\<rparr>)\<rparr>\<rparr>"

abbreviation desc :: "u32 \<Rightarrow> (life_world, pthread) cell" where
  "desc \<equiv> g_desc lw_rtl"

lemma lw_rtl_sel [simp]:
  "c_addr (desc pt) = pt" "c_get (desc pt) s = lw_desc s pt"
  "c_put (desc pt) d s = s\<lparr>lw_desc := (lw_desc s)(pt := d)\<rparr>"
  "g_tsd lw_rtl = lw_tsd" "g_running lw_rtl = 128"
  "c_get (g_links lw_rtl) s = lw_links s" "c_put (g_links lw_rtl) h s = s\<lparr>lw_links := h\<rparr>"
  "c_get (g_running_lock lw_rtl) s = lw_lock s" "c_put (g_running_lock lw_rtl) x s = s\<lparr>lw_lock := x\<rparr>"
  "c_get (g_id_counter lw_rtl) s = lw_counter s" "c_put (g_id_counter lw_rtl) x s = s\<lparr>lw_counter := x\<rparr>"
  "c_get (g_total lw_rtl) s = lw_total s" "c_put (g_total lw_rtl) x s = s\<lparr>lw_total := x\<rparr>"
  "c_get (g_mtflag lw_rtl) s = lw_mtflag s" "c_put (g_mtflag lw_rtl) x s = s\<lparr>lw_mtflag := x\<rparr>"
  "c_get (g_tls_list lw_rtl) s = lw_tls_list s" "c_put (g_tls_list lw_rtl) x s = s\<lparr>lw_tls_list := x\<rparr>"
  "c_get (g_tcb_next lw_rtl a) s = lw_tcb_next s a"
  "c_put (g_tcb_next lw_rtl a) x s = s\<lparr>lw_tcb_next := (lw_tcb_next s)(a := x)\<rparr>"
  "c_get (g_dfl_attr lw_rtl) s = lw_dfl s"
  "c_put (g_dfl_attr lw_rtl) at s = s\<lparr>lw_dfl := at\<rparr>"
  by (simp_all add: lw_rtl_def)

lemma lw_tsd_sel [simp]:
  "c_get (td_keys (lw_tsd pt) i) s = lw_keys s i"
  "c_put (td_keys (lw_tsd pt) i) v s = s\<lparr>lw_keys := (lw_keys s)(i := v)\<rparr>"
  "c_get (td_entry (lw_tsd pt) a) s = lw_entry s a"
  "c_put (td_entry (lw_tsd pt) a) v s = s\<lparr>lw_entry := (lw_entry s)(a := v)\<rparr>"
  "td_blk1 (lw_tsd pt) = pt + 24"
  "c_get (td_specific (lw_tsd pt) i) s = lw_specific s pt i"
  "c_put (td_specific (lw_tsd pt) i) w s = s\<lparr>lw_specific := (lw_specific s)(pt := (lw_specific s pt)(i := w))\<rparr>"
  "c_get (td_used (lw_tsd pt)) s = pt_specific_used (lw_desc s pt)"
  "c_put (td_used (lw_tsd pt)) w s = s\<lparr>lw_desc := (lw_desc s)(pt := (lw_desc s pt)\<lparr>pt_specific_used := w\<rparr>)\<rparr>"
  by (simp_all add: lw_tsd_def)

interpretation life_desc: mem_cell "desc pt" for pt
  by unfold_locales simp_all

interpretation life_lock: mem_cell "g_running_lock lw_rtl"
  by unfold_locales simp_all

text \<open>
  The kernel: \<open>vm_deallocate\<close> releases a range; \<open>thread_terminate_release2\<close> ends the thread, releases the range it is
  given, if any, and clears the word it is given, if any.
\<close>

definition end_thread :: "u32 \<Rightarrow> u32 \<Rightarrow> u32 \<Rightarrow> life_world \<Rightarrow> life_world" where
  "end_thread addr sz ev s =
    (let s = s\<lparr>lw_ended := True, lw_released := (if sz \<noteq> 0 then lw_released s @ [(addr, sz)] else lw_released s)\<rparr>
     in if ev = 0 then s else s\<lparr>lw_desc := (lw_desc s)(ev - 16 := (lw_desc s (ev - 16))\<lparr>pt_id := 0\<rparr>)\<rparr>)"

definition life_kernel :: "life_world keff" where
  "life_kernel c s = (case c of
     SendMsg m _ \<Rightarrow> (case map snd (msg_body m) of
         [_, _, _, Word addr, Word sz, Word ev] \<Rightarrow> if msgh_id m = 4207 then end_thread addr sz ev s else s
       | _ \<Rightarrow> s)
   | Lib f xs \<Rightarrow> (case xs of
         [_, Word addr, Word sz] \<Rightarrow> if f = ''vm_deallocate'' then s\<lparr>lw_released := lw_released s @ [(addr, sz)]\<rparr> else s
       | _ \<Rightarrow> s)
   | _ \<Rightarrow> s)"

lemma life_kernel_wait: "wait_call c \<Longrightarrow> life_kernel c s = s"
  by (auto simp: wait_call_def life_kernel_def split: kcall.splits list.splits msg_item.splits)

lemma life_kernel_simps [simp]:
  "life_kernel MigGetReplyPort s = s"
  "life_kernel (Callback f v) s = s"
  "life_kernel (Lib fn []) s = s"
  "life_kernel (Lib fn [x]) s = s"
  "life_kernel (Lib fn [x, y]) s = s"
  "life_kernel (Lib ''vm_deallocate'' [x, Word addr, Word sz]) s =
    s\<lparr>lw_released := lw_released s @ [(addr, sz)]\<rparr>"
  "life_kernel (SendMsg (ttr2_request th task nm rp addr sz ev) n) s = end_thread addr sz ev s"
  by (simp_all add: life_kernel_def ttr2_request_def split: msg_item.splits)

subsection \<open>What the protocol is about\<close>

text \<open>The members of the ended thread's descriptor that matter, and the kernel's record.\<close>

record life_view =
  v_joinpt :: u32
  v_flags :: u32
  v_id :: u32
  v_retval :: u32
  v_stack :: "u32 \<times> u32 \<times> u32"
  v_released :: "(u32 \<times> u32) list"
  v_ended :: bool
  v_counter :: u32

definition range_of :: "u32 \<times> u32 \<times> u32 \<Rightarrow> u32 \<times> u32" where
  "range_of stk = (case stk of (stack, sz, gsz) \<Rightarrow> (stack - gsz, sz + gsz))"

definition stack_of :: "pthread \<Rightarrow> u32 \<times> u32 \<times> u32" where
  "stack_of d = (pt_stack d, pt_stacksize d, pt_guardsize d)"

definition life_view :: "u32 \<Rightarrow> life_world \<Rightarrow> life_view" where
  "life_view pt s = \<lparr>v_joinpt = pt_joinpt (lw_desc s pt), v_flags = pt_flags (lw_desc s pt),
    v_id = pt_id (lw_desc s pt), v_retval = pt_retval (lw_desc s pt),
    v_stack = stack_of (lw_desc s pt),
    v_released = lw_released s, v_ended = lw_ended s, v_counter = lw_counter s\<rparr>"

lemma framed_zero_block:
  "life_view pt' (zero_block (lw_tsd pt) a s) = life_view pt' s"
proof -
  have "life_view pt' (fold (\<lambda>i. c_put (td_entry (lw_tsd pt) (l2_entry a i)) \<lparr>kd_seq = 0, kd_ptr = 0\<rparr>) is s) = life_view pt' s"
    for "is"
    by (induction "is" arbitrary: s) (simp_all add: life_view_def)
  then show ?thesis by (simp add: zero_block_def)
qed

lemma framed_dealloc_tsd: "framed (life_view pt') life_kernel (dealloc_tsd (lw_tsd pt))"
  unfolding dealloc_tsd_def dealloc_pass_def dealloc_block_def dealloc_entry_def free_blocks_def
  by (auto intro!: framed_bind framed_loop framing simp: framed_zero_block, auto simp: life_view_def stack_of_def)

lemma framed_dealloc_tls: "framed (life_view pt') life_kernel (dealloc_tls lw_rtl pt)"
  unfolding dealloc_tls_def
  by (auto intro!: framed_bind framed_loop framing, auto simp: life_view_def stack_of_def)


subsection \<open>The invariant\<close>

text \<open>
  Where the thread is in its life: before and after it took its number, running, with \<open>LRet b\<close> after it has
  looked whether it is detached, and \<open>LEnd b\<close> when the kernel has ended it. Where another
  thread is: \<open>LHold\<close> when it is the joiner, \<open>LSeen\<close> when it has seen the end, \<open>LVal x\<close> with the value, \<open>LTerm x\<close> when
  it has marked the descriptor, \<open>LGot x\<close> when it has released the stack; and so for one that has detached it.
\<close>

datatype life_ghost =
    LNew | LCounted | LRun | LRet bool | LEnd bool
  | LOut | LOutSeen | LHold | LSeen | LVal u32 | LTerm u32 | LGot u32
  | LDet | LDetSeen | LDetTerm | LDetGot

fun living :: "life_ghost \<Rightarrow> bool" where
  "living LNew = True" | "living LCounted = True" | "living LRun = True"
| "living (LRet b) = True" | "living (LEnd b) = True" | "living _ = False"

fun joins :: "life_ghost \<Rightarrow> bool" where
  "joins LHold = True" | "joins LSeen = True" | "joins (LVal x) = True" | "joins (LTerm x) = True"
| "joins (LGot x) = True" | "joins _ = False"

fun detaches :: "life_ghost \<Rightarrow> bool" where
  "detaches LDet = True" | "detaches LDetSeen = True" | "detaches LDetTerm = True"
| "detaches LDetGot = True" | "detaches _ = False"

fun saw_end :: "life_ghost \<Rightarrow> bool" where
  "saw_end LOutSeen = True" | "saw_end LSeen = True" | "saw_end (LVal x) = True" | "saw_end (LTerm x) = True"
| "saw_end (LGot x) = True" | "saw_end LDetSeen = True" | "saw_end LDetTerm = True"
| "saw_end LDetGot = True" | "saw_end _ = False"

fun marked :: "life_ghost \<Rightarrow> bool" where
  "marked (LTerm x) = True" | "marked (LGot x) = True" | "marked LDetTerm = True"
| "marked LDetGot = True" | "marked _ = False"

fun releaser :: "life_ghost \<Rightarrow> bool" where
  "releaser (LGot x) = True" | "releaser LDetGot = True" | "releaser _ = False"

fun value_seen :: "life_ghost \<Rightarrow> u32 option" where
  "value_seen (LVal x) = Some x" | "value_seen (LTerm x) = Some x" | "value_seen (LGot x) = Some x"
| "value_seen _ = None"

definition self_ok :: "u32 \<Rightarrow> u32 \<Rightarrow> u32 \<times> u32 \<times> u32 \<Rightarrow> life_view \<Rightarrow> life_ghost \<Rightarrow> bool" where
  "self_ok pt c0 stk v g \<longleftrightarrow> living g \<and> (v_id v = 0 \<longleftrightarrow> g = LEnd False) \<and> (v_ended v \<longleftrightarrow> (\<exists>b. g = LEnd b)) \<and>
     (g = LRet True \<or> g = LEnd True \<longrightarrow> v_joinpt v = pt) \<and> v_flags v AND 1 = 0 \<and> v_stack v = stk \<and>
     (g = LNew \<longrightarrow> v_counter v = c0)"

definition peer_ok :: "u32 \<Rightarrow> u32 \<Rightarrow> life_view \<Rightarrow> life_ghost \<Rightarrow> bool" where
  "peer_ok pt a v g \<longleftrightarrow> \<not> living g \<and> (joins g \<longrightarrow> v_joinpt v = a) \<and> (detaches g \<longrightarrow> v_joinpt v = pt) \<and>
     (saw_end g \<longrightarrow> v_id v = 0) \<and> (\<forall>x. value_seen g = Some x \<longrightarrow> v_retval v = x)"

definition released_ok :: "u32 \<times> u32 \<Rightarrow> life_view \<Rightarrow> bool \<Rightarrow> bool \<Rightarrow> bool" where
  "released_ok rng v m r \<longleftrightarrow> (v_flags v AND 16 \<noteq> 0 \<longrightarrow> m) \<and> v_released v = (if r then [rng] else [])"

definition life_ok ::
  "u32 \<Rightarrow> ('u \<Rightarrow> u32) \<Rightarrow> u32 \<Rightarrow> u32 \<times> u32 \<times> u32 \<Rightarrow> life_view \<Rightarrow> ('u option \<Rightarrow> life_ghost) \<Rightarrow> bool" where
  "life_ok pt addr c0 stk v G \<longleftrightarrow> self_ok pt c0 stk v (G None) \<and> (\<forall>u. peer_ok pt (addr u) v (G (Some u))) \<and>
     (\<forall>u u'. detaches (G (Some u)) \<longrightarrow> detaches (G (Some u')) \<longrightarrow> u = u') \<and>
     released_ok (range_of stk) v (\<exists>u. marked (G (Some u))) (G None = LEnd True \<or> (\<exists>u. releaser (G (Some u))))"

definition life_setup :: "u32 \<Rightarrow> ('u \<Rightarrow> u32) \<Rightarrow> u32 \<Rightarrow> u32 \<times> u32 \<times> u32 \<Rightarrow> bool" where
  "life_setup pt addr c0 stk \<longleftrightarrow> pt \<noteq> 0 \<and> pt + 16 \<noteq> 0 \<and> (\<forall>u. addr u \<noteq> pt \<and> addr u \<noteq> 0) \<and> inj addr \<and>
     (c0 + 1) AND PTHREAD_ID_MASK \<noteq> 0 \<and> snd (range_of stk) \<noteq> 0"

lemma life_setupD:
  assumes "life_setup pt addr c0 stk"
  shows "pt \<noteq> 0" "pt + 16 \<noteq> 0" "addr u \<noteq> pt" "addr u \<noteq> 0" "addr u = addr u' \<longleftrightarrow> u = u'"
    "(c0 + 1) AND PTHREAD_ID_MASK \<noteq> 0" "snd (range_of stk) \<noteq> 0"
  using assms by (auto simp: life_setup_def inj_eq)

lemma ghost_classes:
  "marked g \<Longrightarrow> joins g \<or> detaches g" "releaser g \<Longrightarrow> marked g" "marked g \<Longrightarrow> saw_end g"
  by (cases g; simp)+

lemma value_seen_None: "\<not> saw_end g \<Longrightarrow> value_seen g = None"
  by (cases g) simp_all

text \<open>One of the other threads moves; then the thread itself.\<close>

lemma ok_peer:
  assumes "life_ok pt addr c0 stk v G" and "self_ok pt c0 stk v' (G None)" and "peer_ok pt (addr u) v' g"
    and "\<And>u'. u' \<noteq> u \<Longrightarrow> peer_ok pt (addr u') v (G (Some u')) \<Longrightarrow> peer_ok pt (addr u') v' (G (Some u'))"
    and "\<And>u'. u' \<noteq> u \<Longrightarrow> detaches g \<Longrightarrow> \<not> detaches (G (Some u'))"
    and "released_ok (range_of stk) v' (marked g \<or> (\<exists>u'. u' \<noteq> u \<and> marked (G (Some u'))))
      (G None = LEnd True \<or> releaser g \<or> (\<exists>u'. u' \<noteq> u \<and> releaser (G (Some u'))))"
  shows "life_ok pt addr c0 stk v' (G(Some u := g))"
proof -
  have e: "(\<exists>w. P ((G(Some u := g)) (Some w))) \<longleftrightarrow> P g \<or> (\<exists>u'. u' \<noteq> u \<and> P (G (Some u')))" for P by auto
  show ?thesis using assms unfolding life_ok_def e by auto
qed

lemma ok_self:
  assumes "life_ok pt addr c0 stk v G" and "self_ok pt c0 stk v' g"
    and "\<And>u. peer_ok pt (addr u) v (G (Some u)) \<Longrightarrow> peer_ok pt (addr u) v' (G (Some u))"
    and "released_ok (range_of stk) v' (\<exists>u. marked (G (Some u))) (g = LEnd True \<or> (\<exists>u. releaser (G (Some u))))"
  shows "life_ok pt addr c0 stk v' (G(None := g))"
  using assms unfolding life_ok_def by simp

text \<open>Only one thread is the joiner, or else only one has detached the thread.\<close>

lemma owner_unique:
  assumes "life_setup pt addr c0 stk" and "life_ok pt addr c0 stk v G" and "joins (G (Some u)) \<or> detaches (G (Some u))"
    and "joins (G (Some u')) \<or> detaches (G (Some u'))"
  shows "u = u'"
  using assms(2-) life_setupD(3,5) [OF assms(1)] unfolding life_ok_def peer_ok_def by metis

lemma owner_others:
  assumes "life_setup pt addr c0 stk" and "life_ok pt addr c0 stk v G" and "joins (G (Some u)) \<or> detaches (G (Some u))"
    and "u' \<noteq> u"
  shows "\<not> joins (G (Some u'))" "\<not> detaches (G (Some u'))" "\<not> marked (G (Some u'))" "\<not> releaser (G (Some u'))"
  using owner_unique [OF assms(1-3)] assms(4) ghost_classes(1,2) by blast+

lemma unmarked:
  assumes "life_setup pt addr c0 stk" and "life_ok pt addr c0 stk v G"
    and "joins (G (Some u)) \<or> detaches (G (Some u))" and "\<not> marked (G (Some u))"
  shows "v_flags v AND 16 = 0"
proof -
  have "\<not> marked (G (Some u'))" for u'
    using owner_others(3) [OF assms(1-3), of u'] assms(4) by (cases "u' = u") auto
  then show ?thesis using assms(2) unfolding life_ok_def released_ok_def by blast
qed

lemma no_owner:
  assumes "life_setup pt addr c0 stk" and "life_ok pt addr c0 stk v G" and "v_joinpt v = 0"
  shows "\<not> joins (G (Some u))" "\<not> detaches (G (Some u))" "\<not> marked (G (Some u))" "\<not> releaser (G (Some u))"
    "G None \<noteq> LRet True" "G None \<noteq> LEnd True"
proof -
  show *: "\<not> joins (G (Some u))" "\<not> detaches (G (Some u))" "G None \<noteq> LRet True" "G None \<noteq> LEnd True"
    using assms(2,3) life_setupD(1,4) [OF assms(1)] unfolding life_ok_def peer_ok_def self_ok_def by metis+
  then show "\<not> marked (G (Some u))" "\<not> releaser (G (Some u))" using ghost_classes(1,2) by blast+
qed

lemma ok_parts:
  assumes "life_ok pt addr c0 stk v G"
  shows "self_ok pt c0 stk v (G None)" "peer_ok pt (addr u) v (G (Some u))"
    "released_ok (range_of stk) v (\<exists>u. marked (G (Some u))) (G None = LEnd True \<or> (\<exists>u. releaser (G (Some u))))"
  using assms by (simp_all add: life_ok_def)

lemma ok_enter:
  assumes "life_setup pt addr c0 stk" and "life_ok pt addr c0 stk v G" and "v_joinpt v = 0"
  shows "G (Some u) = LOut \<Longrightarrow> life_ok pt addr c0 stk (v\<lparr>v_joinpt := addr u\<rparr>) (G(Some u := LHold))"
    and "G (Some u) = LOutSeen \<Longrightarrow> life_ok pt addr c0 stk (v\<lparr>v_joinpt := addr u\<rparr>) (G(Some u := LSeen))"
    and "G (Some u) = LOut \<Longrightarrow> life_ok pt addr c0 stk (v\<lparr>v_joinpt := pt\<rparr>) (G(Some u := LDet))"
proof -
  note n = no_owner [OF assms]
  have *: "life_ok pt addr c0 stk (v\<lparr>v_joinpt := j\<rparr>) (G(Some u := g))"
    if "peer_ok pt (addr u) (v\<lparr>v_joinpt := j\<rparr>) g" "\<not> marked g" "\<not> releaser g" for j g
    by (rule ok_peer [OF assms(2)])
      (use that ok_parts [OF assms(2)] n in \<open>simp_all add: self_ok_def peer_ok_def released_ok_def\<close>)
  show "G (Some u) = LOut \<Longrightarrow> life_ok pt addr c0 stk (v\<lparr>v_joinpt := addr u\<rparr>) (G(Some u := LHold))"
    "G (Some u) = LOutSeen \<Longrightarrow> life_ok pt addr c0 stk (v\<lparr>v_joinpt := addr u\<rparr>) (G(Some u := LSeen))"
    "G (Some u) = LOut \<Longrightarrow> life_ok pt addr c0 stk (v\<lparr>v_joinpt := pt\<rparr>) (G(Some u := LDet))"
    using ok_parts(2) [OF assms(2), of u] by (simp_all add: * peer_ok_def)
qed

lemma ok_see:
  assumes "life_ok pt addr c0 stk v G" and "v_id v = 0"
  shows "G (Some u) = LOut \<Longrightarrow> life_ok pt addr c0 stk v (G(Some u := LOutSeen))"
    and "G (Some u) = LHold \<Longrightarrow> life_ok pt addr c0 stk v (G(Some u := LSeen))"
    and "G (Some u) = LDet \<Longrightarrow> life_ok pt addr c0 stk v (G(Some u := LDetSeen))"
    and "G (Some u) = LSeen \<Longrightarrow> life_ok pt addr c0 stk v (G(Some u := LVal (v_retval v)))"
proof -
  have e: "P g = P (G (Some u)) \<Longrightarrow> (P g \<or> (\<exists>u'. u' \<noteq> u \<and> P (G (Some u')))) = (\<exists>u. P (G (Some u)))" for P g by auto
  have d: "detaches g \<Longrightarrow> detaches (G (Some u)) \<Longrightarrow> u' \<noteq> u \<Longrightarrow> \<not> detaches (G (Some u'))" for g u'
    using assms(1) unfolding life_ok_def by blast
  have *: "life_ok pt addr c0 stk v (G(Some u := g))"
    if "peer_ok pt (addr u) v g" "marked g = marked (G (Some u))" "releaser g = releaser (G (Some u))"
      "detaches g \<longrightarrow> detaches (G (Some u))" for g
    using assms(1) ok_parts(1,3) [OF assms(1)] d that
    by (intro ok_peer [OF assms(1)]) (simp_all add: e [of marked] e [of releaser])
  show "G (Some u) = LOut \<Longrightarrow> life_ok pt addr c0 stk v (G(Some u := LOutSeen))"
    "G (Some u) = LHold \<Longrightarrow> life_ok pt addr c0 stk v (G(Some u := LSeen))"
    "G (Some u) = LDet \<Longrightarrow> life_ok pt addr c0 stk v (G(Some u := LDetSeen))"
    "G (Some u) = LSeen \<Longrightarrow> life_ok pt addr c0 stk v (G(Some u := LVal (v_retval v)))"
    using ok_parts(2) [OF assms(1), of u] assms(2) by (simp_all add: * peer_ok_def)
qed

text \<open>The owner moves on: nobody else has released anything, and nothing ties the others to the view but the id and the value.\<close>

lemma ok_owner:
  assumes "life_setup pt addr c0 stk" and "life_ok pt addr c0 stk v G"
    and o: "joins (G (Some u)) \<or> detaches (G (Some u))" "\<not> releaser (G (Some u))" "G None \<noteq> LEnd True"
    and "self_ok pt c0 stk v' (G None)" and "peer_ok pt (addr u) v' g"
    and v: "v_id v' = v_id v" "v_retval v' = v_retval v"
    and "v_flags v' AND 16 \<noteq> 0 \<longrightarrow> marked g"
    and "v_released v = [] \<Longrightarrow> v_released v' = (if releaser g then [range_of stk] else [])"
  shows "life_ok pt addr c0 stk v' (G(Some u := g))" and "v_released v = []"
proof -
  note n = owner_others [OF assms(1,2) o(1)]
  have "\<not> releaser (G (Some u'))" for u' using n(4) o(2) by (cases "u' = u") auto
  with o(3) ok_parts(3) [OF assms(2)] show r: "v_released v = []" by (simp add: released_ok_def)
  show "life_ok pt addr c0 stk v' (G(Some u := g))"
  proof (rule ok_peer [OF assms(2,6,7)])
    fix u' assume "u' \<noteq> u"
    then show "peer_ok pt (addr u') v (G (Some u')) \<Longrightarrow> peer_ok pt (addr u') v' (G (Some u'))"
      "\<not> detaches (G (Some u'))"
      using n v by (simp_all add: peer_ok_def)
  next
    have "(\<exists>u'. u' \<noteq> u \<and> releaser (G (Some u'))) = False" using n(4) by blast
    with assms(10,11) r o(3) show "released_ok (range_of stk) v' (marked g \<or> (\<exists>u'. u' \<noteq> u \<and> marked (G (Some u'))))
      (G None = LEnd True \<or> releaser g \<or> (\<exists>u'. u' \<noteq> u \<and> releaser (G (Some u'))))"
      by (simp add: released_ok_def)
  qed
qed

lemma owner_not_released:
  assumes "life_setup pt addr c0 stk" and "life_ok pt addr c0 stk v G"
    and "joins (G (Some u)) \<or> saw_end (G (Some u))"
  shows "G None \<noteq> LEnd True"
  using assms(3) ok_parts(1) [OF assms(2)] ok_parts(2) [OF assms(2), of u] life_setupD(3) [OF assms(1), of u]
  by (auto simp: self_ok_def peer_ok_def)

lemma ok_give_up:
  assumes "life_setup pt addr c0 stk" and "life_ok pt addr c0 stk v G"
    and "G (Some u) = LHold \<or> G (Some u) = LSeen"
  shows "v_joinpt v = addr u" and "life_ok pt addr c0 stk (v\<lparr>v_joinpt := 0\<rparr>) (G(Some u := LOut))"
proof -
  have o: "joins (G (Some u)) \<or> detaches (G (Some u))" "\<not> marked (G (Some u))" "\<not> releaser (G (Some u))"
    "joins (G (Some u)) \<or> saw_end (G (Some u))" using assms(3) by auto
  note m = unmarked [OF assms(1,2) o(1,2)] and e = owner_not_released [OF assms(1,2) o(4)]
  show j: "v_joinpt v = addr u" using ok_parts(2) [OF assms(2), of u] assms(3) by (auto simp: peer_ok_def)
  then have "self_ok pt c0 stk (v\<lparr>v_joinpt := 0\<rparr>) (G None)"
    using ok_parts(1) [OF assms(2)] life_setupD(3) [OF assms(1), of u] by (auto simp: self_ok_def)
  then show "life_ok pt addr c0 stk (v\<lparr>v_joinpt := 0\<rparr>) (G(Some u := LOut))"
    using m e o by (intro ok_owner [OF assms(1,2)]) (simp_all add: peer_ok_def)
qed

lemma ok_mark:
  assumes "life_setup pt addr c0 stk" and "life_ok pt addr c0 stk v G"
    and "G (Some u) = LVal x \<and> g = LTerm x \<or> G (Some u) = LDetSeen \<and> g = LDetTerm"
  shows "v_flags v AND 16 = 0" and "life_ok pt addr c0 stk (v\<lparr>v_flags := v_flags v OR 16\<rparr>) (G(Some u := g))"
proof -
  have o: "joins (G (Some u)) \<or> detaches (G (Some u))" "\<not> marked (G (Some u))" "\<not> releaser (G (Some u))"
    "joins (G (Some u)) \<or> saw_end (G (Some u))" "marked g" "\<not> releaser g" using assms(3) by auto
  note e = owner_not_released [OF assms(1,2) o(4)]
  show "v_flags v AND 16 = 0" by (rule unmarked [OF assms(1,2) o(1,2)])
  have f: "(v_flags v OR 16) AND 1 = v_flags v AND 1" by (rule and_disjoint_or) simp
  have "self_ok pt c0 stk (v\<lparr>v_flags := v_flags v OR 16\<rparr>) (G None)"
    using ok_parts(1) [OF assms(2)] by (simp add: self_ok_def f)
  moreover have "peer_ok pt (addr u) (v\<lparr>v_flags := v_flags v OR 16\<rparr>) g"
    using ok_parts(2) [OF assms(2), of u] assms(3) by (auto simp: peer_ok_def)
  ultimately show "life_ok pt addr c0 stk (v\<lparr>v_flags := v_flags v OR 16\<rparr>) (G(Some u := g))"
    using e o by (intro ok_owner [OF assms(1,2)]) simp_all
qed

lemma ok_release:
  assumes "life_setup pt addr c0 stk" and "life_ok pt addr c0 stk v G"
    and "G (Some u) = LTerm x \<and> g = LGot x \<or> G (Some u) = LDetTerm \<and> g = LDetGot"
  shows "v_released v = []" and "life_ok pt addr c0 stk (v\<lparr>v_released := [range_of stk]\<rparr>) (G(Some u := g))"
proof -
  have o: "joins (G (Some u)) \<or> detaches (G (Some u))" "\<not> releaser (G (Some u))"
    "joins (G (Some u)) \<or> saw_end (G (Some u))" "marked g" "releaser g" using assms(3) by auto
  note e = owner_not_released [OF assms(1,2) o(3)]
  have s: "self_ok pt c0 stk (v\<lparr>v_released := [range_of stk]\<rparr>) (G None)"
    using ok_parts(1) [OF assms(2)] by (simp add: self_ok_def)
  have p: "peer_ok pt (addr u) (v\<lparr>v_released := [range_of stk]\<rparr>) g"
    using ok_parts(2) [OF assms(2), of u] assms(3) by (auto simp: peer_ok_def)
  show "life_ok pt addr c0 stk (v\<lparr>v_released := [range_of stk]\<rparr>) (G(Some u := g))"
    using e o s p by (intro ok_owner [OF assms(1,2)]) simp_all
  show "v_released v = []" using ok_owner(2) [OF assms(1,2) o(1,2) e s p] o by simp
qed

lemma ok_start:
  assumes "life_setup pt addr c0 stk" and "life_ok pt addr c0 stk v G"
  shows "G None = LNew \<Longrightarrow> life_ok pt addr c0 stk (v\<lparr>v_counter := c\<rparr>) (G(None := LCounted))"
    and "G None = LCounted \<Longrightarrow> i \<noteq> 0 \<Longrightarrow> life_ok pt addr c0 stk (v\<lparr>v_id := i\<rparr>) (G(None := LRun))"
    and "G None = LRun \<Longrightarrow> life_ok pt addr c0 stk (v\<lparr>v_retval := x\<rparr>) (G(None := LRun))"
    and "G None = LRun \<Longrightarrow> life_ok pt addr c0 stk v (G(None := LRet (v_joinpt v = pt)))"
proof -
  have *: "life_ok pt addr c0 stk v' (G(None := g))"
    if "self_ok pt c0 stk v' g" "g \<noteq> LEnd True" "G None \<noteq> LEnd True" "v_joinpt v' = v_joinpt v"
      "v_flags v' = v_flags v" "v_released v' = v_released v"
      "v_id v' = v_id v \<and> v_retval v' = v_retval v \<or> G None \<noteq> LEnd False" for v' g
  proof (rule ok_self [OF assms(2)])
    fix u assume p: "peer_ok pt (addr u) v (G (Some u))"
    show "peer_ok pt (addr u) v' (G (Some u))"
    proof (cases "G None = LEnd False")
      case True
      with that p show ?thesis by (simp add: peer_ok_def)
    next
      case False
      then have "v_id v \<noteq> 0" using ok_parts(1) [OF assms(2)] by (simp add: self_ok_def)
      with p have "\<not> saw_end (G (Some u))" by (simp add: peer_ok_def)
      moreover from this have "value_seen (G (Some u)) = None" by (rule value_seen_None)
      ultimately show ?thesis using that(4) p by (simp add: peer_ok_def)
    qed
  qed (use that ok_parts(3) [OF assms(2)] in \<open>simp_all add: released_ok_def\<close>)
  show "G None = LNew \<Longrightarrow> life_ok pt addr c0 stk (v\<lparr>v_counter := c\<rparr>) (G(None := LCounted))"
    "G None = LCounted \<Longrightarrow> i \<noteq> 0 \<Longrightarrow> life_ok pt addr c0 stk (v\<lparr>v_id := i\<rparr>) (G(None := LRun))"
    "G None = LRun \<Longrightarrow> life_ok pt addr c0 stk (v\<lparr>v_retval := x\<rparr>) (G(None := LRun))"
    "G None = LRun \<Longrightarrow> life_ok pt addr c0 stk v (G(None := LRet (v_joinpt v = pt)))"
    using ok_parts(1) [OF assms(2)] by (simp_all add: * self_ok_def)
qed

lemma ok_exiting:
  assumes "life_ok pt addr c0 stk v G"
  shows "life_ok pt addr c0 stk (v\<lparr>v_flags := v_flags v OR 2\<rparr>) G"
proof -
  have f: "(v_flags v OR 2) AND 1 = v_flags v AND 1" "(v_flags v OR 2) AND 16 = v_flags v AND 16"
    by (rule and_disjoint_or, simp)+
  show ?thesis
    using assms by (simp add: life_ok_def self_ok_def peer_ok_def released_ok_def f)
qed


lemma ok_end:
  assumes "life_setup pt addr c0 stk" and "life_ok pt addr c0 stk v G" and "G None = LRet b"
  shows "life_ok pt addr c0 stk (if b then v\<lparr>v_ended := True, v_released := [range_of stk]\<rparr>
      else v\<lparr>v_ended := True, v_id := 0\<rparr>) (G(None := LEnd b))"
    and "v_released v = []"
proof -
  have i: "v_id v \<noteq> 0" using ok_parts(1) [OF assms(2)] assms(3) by (simp add: self_ok_def)
  have n: "\<not> saw_end (G (Some u))" for u using ok_parts(2) [OF assms(2), of u] i by (auto simp: peer_ok_def)
  have n': "\<not> releaser (G (Some u))" "value_seen (G (Some u)) = None" for u
    using n [of u] ghost_classes(2,3) value_seen_None by blast+
  show r: "v_released v = []" using ok_parts(3) [OF assms(2)] assms(3) n' by (simp add: released_ok_def)
  show "life_ok pt addr c0 stk (if b then v\<lparr>v_ended := True, v_released := [range_of stk]\<rparr>
      else v\<lparr>v_ended := True, v_id := 0\<rparr>) (G(None := LEnd b))"
  proof (rule ok_self [OF assms(2)])
    show "self_ok pt c0 stk (if b then v\<lparr>v_ended := True, v_released := [range_of stk]\<rparr>
        else v\<lparr>v_ended := True, v_id := 0\<rparr>) (LEnd b)"
      using ok_parts(1) [OF assms(2)] assms(3) by (simp add: self_ok_def)
  next
    fix u assume "peer_ok pt (addr u) v (G (Some u))"
    then show "peer_ok pt (addr u) (if b then v\<lparr>v_ended := True, v_released := [range_of stk]\<rparr>
        else v\<lparr>v_ended := True, v_id := 0\<rparr>) (G (Some u))"
      using n n' by (simp add: peer_ok_def)
  next
    show "released_ok (range_of stk) (if b then v\<lparr>v_ended := True, v_released := [range_of stk]\<rparr>
        else v\<lparr>v_ended := True, v_id := 0\<rparr>) (\<exists>u. marked (G (Some u)))
      (LEnd b = LEnd True \<or> (\<exists>u. releaser (G (Some u))))"
      using ok_parts(3) [OF assms(2)] n' r by (simp add: released_ok_def)
  qed
qed


subsection \<open>The thread itself\<close>

lemma view_put [simp]:
  "life_view pt (s\<lparr>lw_desc := (lw_desc s)(pt := (lw_desc s pt)\<lparr>pt_id := x\<rparr>)\<rparr>) = (life_view pt s)\<lparr>v_id := x\<rparr>"
  "life_view pt (s\<lparr>lw_desc := (lw_desc s)(pt := (lw_desc s pt)\<lparr>pt_flags := x\<rparr>)\<rparr>) = (life_view pt s)\<lparr>v_flags := x\<rparr>"
  "life_view pt (s\<lparr>lw_desc := (lw_desc s)(pt := (lw_desc s pt)\<lparr>pt_joinpt := x\<rparr>)\<rparr>) = (life_view pt s)\<lparr>v_joinpt := x\<rparr>"
  "life_view pt (s\<lparr>lw_desc := (lw_desc s)(pt := (lw_desc s pt)\<lparr>pt_retval := x\<rparr>)\<rparr>) = (life_view pt s)\<lparr>v_retval := x\<rparr>"
  "life_view pt (s\<lparr>lw_desc := (lw_desc s)(pt := (lw_desc s pt)\<lparr>pt_sigstate := x\<rparr>)\<rparr>) = life_view pt s"
  "life_view pt (s\<lparr>lw_counter := x\<rparr>) = (life_view pt s)\<lparr>v_counter := x\<rparr>"
  "life_view pt (s\<lparr>lw_links := h\<rparr>) = life_view pt s"
  "life_view pt (s\<lparr>lw_lock := x\<rparr>) = life_view pt s"
  "life_view pt (s\<lparr>lw_total := x\<rparr>) = life_view pt s"
  "life_view pt (s\<lparr>lw_released := r\<rparr>) = (life_view pt s)\<lparr>v_released := r\<rparr>"
  "pt' \<noteq> pt \<Longrightarrow> life_view pt (s\<lparr>lw_desc := (lw_desc s)(pt' := d)\<rparr>) = life_view pt s"
  by (simp_all add: life_view_def stack_of_def)

lemma view_sel [simp]:
  "v_joinpt (life_view pt s) = pt_joinpt (lw_desc s pt)" "v_flags (life_view pt s) = pt_flags (lw_desc s pt)"
  "v_id (life_view pt s) = pt_id (lw_desc s pt)" "v_retval (life_view pt s) = pt_retval (lw_desc s pt)"
  "v_stack (life_view pt s) = stack_of (lw_desc s pt)" "v_released (life_view pt s) = lw_released s"
  "v_ended (life_view pt s) = lw_ended s" "v_counter (life_view pt s) = lw_counter s"
  by (simp_all add: life_view_def)

abbreviation life_inv ::
  "u32 \<Rightarrow> ('u \<Rightarrow> u32) \<Rightarrow> u32 \<Rightarrow> u32 \<times> u32 \<times> u32 \<Rightarrow> life_world \<Rightarrow> ('u option \<Rightarrow> life_ghost) \<Rightarrow> bool" where
  "life_inv pt addr c0 stk \<equiv> \<lambda>s. life_ok pt addr c0 stk (life_view pt s)"

abbreviation life_safe ::
  "u32 \<Rightarrow> ('u \<Rightarrow> u32) \<Rightarrow> u32 \<Rightarrow> u32 \<times> u32 \<times> u32 \<Rightarrow> 'u option \<Rightarrow> ('a \<Rightarrow> life_ghost \<Rightarrow> bool) \<Rightarrow> life_ghost \<Rightarrow>
    (life_world, 'a) prog \<Rightarrow> bool" where
  "life_safe pt addr c0 stk \<equiv> safe (\<lambda>_ _. True) (life_inv pt addr c0 stk) life_kernel"

lemma life_framed:
  assumes "framed (life_view pt) life_kernel p" and "\<And>a. Q a g"
  shows "life_safe pt addr c0 stk t Q g p"
  by (rule safe_framed [where v = "life_view pt"]) (use assms in simp_all)

lemma framed_lists:
  "framed (life_view pt) life_kernel (lll_lock (g_running_lock lw_rtl) 0)"
  "framed (life_view pt) life_kernel (lll_unlock (g_running_lock lw_rtl) 0)"
  by (auto intro!: framing simp: life_kernel_wait)

lemma released_stack_safe:
  assumes "life_setup pt addr c0 stk"
  shows "life_safe pt addr c0 stk None
    (\<lambda>x g. g = LRet b \<and> x = (if b then (fst (range_of stk), snd (range_of stk), 0) else (0, 0, pt + 16))) (LRet b)
    (released_stack (desc pt) b)"
proof -
  let ?S = "life_safe pt addr c0 stk None"
  have f: "?S (\<lambda>x g. g = g0 \<and> x AND 1 = 0) g0 (load (pth_flags (desc pt)))" for g0
    by (rule safe_load) (auto simp: life_ok_def self_ok_def)
  obtain st sz gs where stk: "stk = (st, sz, gs)" by (metis prod_cases3)
  have l: "?S (\<lambda>x g. g = g0 \<and> x = sz) g0 (load (pth_stacksize (desc pt)))"
    "?S (\<lambda>x g. g = g0 \<and> x = gs) g0 (load (pth_guardsize (desc pt)))"
    "?S (\<lambda>x g. g = g0 \<and> x = st) g0 (load (pth_stack (desc pt)))" for g0
    by (rule safe_load, auto simp: life_ok_def self_ok_def stack_of_def stk)+
  have r: "range_of stk = (st - gs, sz + gs)" by (simp add: range_of_def stk)
  show ?thesis
    by (cases b) (auto simp: released_stack_def r
      intro!: safe_bind [OF f] safe_bind [OF l(1)] safe_bind [OF l(2)] safe_bind [OF l(3)])
qed

lemma view_end_thread:
  assumes "life_setup pt addr c0 stk"
  shows "life_view pt (end_thread (fst (range_of stk)) (snd (range_of stk)) 0 s) =
      (life_view pt s)\<lparr>v_ended := True, v_released := lw_released s @ [range_of stk]\<rparr>"
    and "life_view pt (end_thread 0 0 (pt + 16) s) = (life_view pt s)\<lparr>v_ended := True, v_id := 0\<rparr>"
  using life_setupD(2,7) [OF assms] by (simp_all add: end_thread_def life_view_def Let_def stack_of_def)

lemma ttr2_safe:
  assumes "life_setup pt addr c0 stk"
    and "(stack, sz, ev) = (if b then (fst (range_of stk), snd (range_of stk), 0) else (0, 0, pt + 16))"
  shows "life_safe pt addr c0 stk None (\<lambda>_ _. True) (LRet b)
    (thread_terminate_release2 th task nm rp stack sz ev)"
  unfolding thread_terminate_release2_def sys_def bind_simps
proof (rule safe_SysI [where g' = "LEnd b"])
  fix s and G :: "'a option \<Rightarrow> life_ghost" assume i: "life_inv pt addr c0 stk s G" "G None = LRet b"
  have "lw_released s = []" using ok_end(2) [OF assms(1) i] by simp
  then show "life_inv pt addr c0 stk (life_kernel (SendMsg (ttr2_request th task nm rp stack sz ev) 72) s)
      (G(None := LEnd b))"
    using ok_end(1) [OF assms(1) i] assms(2) view_end_thread [OF assms(1), of s] by (cases b) simp_all
qed simp_all

lemma terminate_self_safe:
  assumes "life_setup pt addr c0 stk"
  shows "life_safe pt addr c0 stk None (\<lambda>_ _. True) (LRet b) (terminate_self lw_rtl pt b)"
proof -
  note fr = life_framed [where pt = pt, OF _ refl]
  have c: "life_safe pt addr c0 stk None (\<lambda>_ g. g = LRet b) (LRet b) (sys c)" if "\<And>s. life_kernel c s = s" for c
    by (rule fr) (auto intro!: framing simp: that)
  have k: "life_safe pt addr c0 stk None (\<lambda>_ g. g = LRet b) (LRet b) (load (pth_kport (desc pt)))"
    by (rule fr) (rule framing)
  have st: "life_safe pt addr c0 stk None (\<lambda>_ g. g = LRet b) (LRet b) (store (pth_sigstate (desc pt)) 0)"
    by (rule fr) (auto intro!: framing)
  have d: "life_safe pt addr c0 stk None (\<lambda>_ g. g = LRet b) (LRet b) (dealloc_tls lw_rtl pt)"
    by (rule fr) (rule framed_dealloc_tls)
  show ?thesis
    unfolding terminate_self_def Let_def
    by (auto intro!: safe_bind [OF k] safe_bind [OF c] safe_bind [OF st] safe_bind [OF d]
      safe_bind [OF released_stack_safe [OF assms]] safe_bind [OF ttr2_safe [OF assms]] split: prod.splits)
qed


lemma life_cleanup_safe:
  assumes "life_setup pt addr c0 stk"
  shows "life_safe pt addr c0 stk None (\<lambda>_ _. True) LRun (pthread_cleanup lw_rtl pt)"
proof -
  note fr = life_framed [where pt = pt, OF _ refl]
  have j: "life_safe pt addr c0 stk None (\<lambda>x g. g = LRet (x = pt)) LRun (load (pth_joinpt (desc pt)))"
    unfolding load_def
    by (rule safe_ActI [where h = "\<lambda>s. LRet (pt_joinpt (lw_desc s pt) = pt)"])
      (use ok_start(4) [OF assms] in \<open>fastforce+\<close>)
  have f: "life_safe pt addr c0 stk None (\<lambda>_ g. g = LRet b) (LRet b) (atomic_or (pth_flags (desc pt)) 2)" for b
    unfolding atomic_or_def
    by (rule safe_ActI [where h = "\<lambda>_. LRet b"]) (auto simp: fun_upd_idem dest: ok_exiting)
  have l: "life_safe pt addr c0 stk None (\<lambda>_ g. g = LRet b) (LRet b) (lll_lock (g_running_lock lw_rtl) 0)"
    "life_safe pt addr c0 stk None (\<lambda>_ g. g = LRet b) (LRet b) (lll_unlock (g_running_lock lw_rtl) 0)" for b
    by (rule fr, rule framed_lists)+
  have c: "life_safe pt addr c0 stk None (\<lambda>_ g. g = LRet b) (LRet b) (sys c)" if "\<And>s. life_kernel c s = s" for c b
    by (rule fr) (auto intro!: framing simp: that)
  have h: "life_safe pt addr c0 stk None Q (LRet b) (Act (\<lambda>s. s\<lparr>lw_links := f s\<rparr>) k)"
    if "\<And>s. life_safe pt addr c0 stk None Q (LRet b) (k s)"
    for b f Q and k :: "life_world \<Rightarrow> (life_world, unit) prog"
    by (rule safe_ActI [where h = "\<lambda>_. LRet b"]) (auto simp: fun_upd_idem that)
  have d: "life_safe pt addr c0 stk None (\<lambda>_ g. g = LRet b) (LRet b) (dealloc_tsd (lw_tsd pt))" for b
    by (rule fr) (rule framed_dealloc_tsd)
  have a: "life_safe pt addr c0 stk None (\<lambda>_ g. g = LRet b) (LRet b) (atomic_add (g_total lw_rtl) (- 1))" for b
    by (rule fr) (auto intro!: framing)
  show ?thesis
    unfolding pthread_cleanup_def Let_def
    by (rule safe_bind [OF j])
      (auto intro!: safe_bind [OF f] safe_bind [OF l(1)] safe_bind [OF l(2)] safe_bind [OF c] h
        safe_bind [OF d] safe_bind [OF a] terminate_self_safe [OF assms])
qed

lemma life_entry_safe:
  assumes "life_setup pt addr c0 stk"
  shows "life_safe pt addr c0 stk None (\<lambda>_ _. True) LNew (thread_entry lw_rtl pt)"
proof -
  note fr = life_framed [where pt = pt, OF _ refl]
  have l: "life_safe pt addr c0 stk None (\<lambda>_ g. g = g0) g0 (lll_lock (g_running_lock lw_rtl) 0)"
    "life_safe pt addr c0 stk None (\<lambda>_ g. g = g0) g0 (lll_unlock (g_running_lock lw_rtl) 0)" for g0
    by (rule fr, rule framed_lists)+
  have h: "life_safe pt addr c0 stk None Q LNew (Act (\<lambda>s. s\<lparr>lw_links := f s\<rparr>) k)"
    if "\<And>s. life_safe pt addr c0 stk None Q LNew (k s)"
    for f Q and k :: "life_world \<Rightarrow> (life_world, unit) prog"
    by (rule safe_ActI [where h = "\<lambda>_. LNew"]) (auto simp: fun_upd_idem that)
  have c: "life_safe pt addr c0 stk None (\<lambda>x g. g = LNew \<and> x = c0) LNew (load (g_id_counter lw_rtl))"
    by (rule safe_load) (auto simp: life_ok_def self_ok_def)
  have s: "life_safe pt addr c0 stk None (\<lambda>_ g. g = LCounted) LNew (store (g_id_counter lw_rtl) x)" for x
    by (rule safe_store [where g' = LCounted]) (auto dest: ok_start(1) [OF assms])
  have i: "life_safe pt addr c0 stk None (\<lambda>_ g. g = LRun) LCounted (store (pth_id (desc pt)) ((c0 + 1) AND PTHREAD_ID_MASK))"
    by (rule safe_store [where g' = LRun]) (use life_setupD(6) [OF assms] in \<open>auto dest: ok_start(2) [OF assms]\<close>)
  have y: "life_safe pt addr c0 stk None (\<lambda>_ g. g = LRun) LRun (sys c)" if "\<And>s. life_kernel c s = s" for c
    by (rule fr) (auto intro!: framing simp: that)
  have ld: "life_safe pt addr c0 stk None (\<lambda>_ g. g = LRun) LRun (load x)" for x :: "(life_world, u32) cell"
    by (rule fr) (rule framing)
  have r: "life_safe pt addr c0 stk None (\<lambda>_ g. g = LRun) LRun (store (pth_retval (desc pt)) x)" for x
    by (rule safe_store [where g' = LRun]) (auto dest: ok_start(3) [OF assms])
  have f: "life_safe pt addr c0 stk None (\<lambda>_ g. g = LRun) LRun (atomic_or (pth_flags (desc pt)) 2)"
    unfolding atomic_or_def
    by (rule safe_ActI [where h = "\<lambda>_. LRun"]) (auto simp: fun_upd_idem dest: ok_exiting)
  show ?thesis
    unfolding thread_entry_def Let_def pthread_exit_def
    by (auto simp: bind_assoc intro!: safe_bind [OF l(1)] safe_bind [OF l(2)] h safe_bind [OF c] safe_bind [OF s]
      safe_bind [OF i] safe_bind [OF y] safe_bind [OF ld] safe_bind [OF r] safe_bind [OF f]
      safe_bind [OF life_cleanup_safe [OF assms]] life_cleanup_safe [OF assms])
qed


subsection \<open>The other threads\<close>

lemma life_self_put:
  assumes "life_setup pt addr c0 stk" and "life_inv pt addr c0 stk s G"
  shows "life_inv pt addr c0 stk (c_put (desc (addr u)) d s) G"
  using assms(2) life_setupD(3) [OF assms(1), of u] by simp

lemma join_await_safe:
  fixes I :: "life_world \<Rightarrow> ('u option \<Rightarrow> life_ghost) \<Rightarrow> bool"
  assumes see: "\<And>s G. I s G \<Longrightarrow> pt_id (lw_desc s pt) = 0 \<Longrightarrow> G (Some u) = g0 \<Longrightarrow> I s (G(Some u := g1))"
    and view: "\<And>s s' G. life_view pt s' = life_view pt s \<Longrightarrow> I s G \<Longrightarrow> I s' G"
  shows "safe (\<lambda>_ _. True) I life_kernel (Some u) (\<lambda>_ g. g = g1) g0 (join_await (desc pt))"
proof -
  have i: "safe (\<lambda>_ _. True) I life_kernel (Some u) (\<lambda>x g. g = (if x = 0 then g1 else g0)) g0 (load (pth_id (desc pt)))"
    unfolding load_def
  proof (rule safe_ActI [where h = "\<lambda>s. if pt_id (lw_desc s pt) = 0 then g1 else g0"])
    fix s and G :: "'u option \<Rightarrow> life_ghost" assume "I s G" "G (Some u) = g0"
    then show "I (id s) (G(Some u := if pt_id (lw_desc s pt) = 0 then g1 else g0))"
      using see [of s G] by (cases "pt_id (lw_desc s pt) = 0") (simp_all add: fun_upd_idem)
  qed simp
  have w: "safe (\<lambda>_ _. True) I life_kernel (Some u) (\<lambda>_ g. g = g0) g0 (lll_wait (pth_id (desc pt)) x 0)" for x
  proof (rule safe_framed [where v = "life_view pt"])
    show "framed (life_view pt) life_kernel (lll_wait (pth_id (desc pt)) x 0)"
      by (rule framing) (simp add: life_kernel_wait)
  qed (simp_all add: view)
  show ?thesis
    unfolding join_await_def
    by (rule safe_loop [where J = "\<lambda>_ g. g = g0"]) (auto intro!: safe_bind [OF i] safe_bind [OF w])
qed

lemma free_stack_safe:
  assumes "life_setup pt addr c0 stk" and g: "(g0, g1) \<in> {(LTerm x, LGot x), (LDetTerm, LDetGot)}"
  shows "life_safe pt addr c0 stk (Some u) (\<lambda>_ g. g = g1) g0 (free_stack (desc pt))"
proof -
  let ?S = "life_safe pt addr c0 stk (Some u)"
  have f: "?S (\<lambda>x g. g = g0 \<and> x AND 1 = 0) g0 (load (pth_flags (desc pt)))"
    by (rule safe_load) (auto simp: life_ok_def self_ok_def)
  obtain st sz gs where stk: "stk = (st, sz, gs)" by (metis prod_cases3)
  then have r: "range_of stk = (st - gs, sz + gs)" by (simp add: range_of_def)
  have l: "?S (\<lambda>x g. g = g0 \<and> x = sz) g0 (load (pth_stacksize (desc pt)))"
    "?S (\<lambda>x g. g = g0 \<and> x = gs) g0 (load (pth_guardsize (desc pt)))"
    "?S (\<lambda>x g. g = g0 \<and> x = st) g0 (load (pth_stack (desc pt)))"
    by (rule safe_load, auto simp: life_ok_def self_ok_def stack_of_def stk)+
  have v: "?S (\<lambda>_ g. g = g1) g0 (vm_deallocate (st - gs) (sz + gs))"
    unfolding vm_deallocate_def sys_def bind_simps
  proof (rule safe_SysI [where g' = g1])
    fix s and G :: "'a option \<Rightarrow> life_ghost" assume i: "life_inv pt addr c0 stk s G" "G (Some u) = g0"
    then have m: "G (Some u) = LTerm x \<and> g1 = LGot x \<or> G (Some u) = LDetTerm \<and> g1 = LDetGot" using g by auto
    then show "life_inv pt addr c0 stk (life_kernel (Lib ''vm_deallocate'' [Port MachTaskSelf, Word (st - gs), Word (sz + gs)]) s)
        (G(Some u := g1))"
      using ok_release [OF assms(1) i(1) m] by (simp add: r)
  qed simp_all
  show ?thesis
    unfolding free_stack_def
    by (auto intro!: safe_bind [OF f] safe_bind [OF l(1)] safe_bind [OF l(2)] safe_bind [OF l(3)] v)
qed

lemma deallocate_safe:
  assumes "life_setup pt addr c0 stk"
    and g: "(g0, g1) \<in> {(LVal x, LGot x), (LDetSeen, LDetGot)}"
  shows "life_safe pt addr c0 stk (Some u) (\<lambda>_ g. g = g1) g0 (pthread_deallocate (desc pt))"
proof -
  let ?gt = "if g0 = LDetSeen then LDetTerm else LTerm x"
  have m: "G (Some u) = LVal x \<and> ?gt = LTerm x \<or> G (Some u) = LDetSeen \<and> ?gt = LDetTerm"
    if "G (Some u) = g0" for G :: "'a option \<Rightarrow> life_ghost" using g that by auto
  have o: "life_safe pt addr c0 stk (Some u) (\<lambda>f g. g = ?gt \<and> f AND 16 = 0) g0 (atomic_or (pth_flags (desc pt)) 16)"
    unfolding atomic_or_def
  proof (rule safe_ActI [where h = "\<lambda>_. ?gt"])
    fix s and G :: "'a option \<Rightarrow> life_ghost" assume i: "life_inv pt addr c0 stk s G" "G (Some u) = g0"
    from ok_mark [OF assms(1) i(1) m [of G, OF i(2)]]
    show "life_inv pt addr c0 stk (c_put (pth_flags (desc pt)) (c_get (pth_flags (desc pt)) s OR 16) s) (G(Some u := ?gt))"
      "life_safe pt addr c0 stk (Some u) (\<lambda>f g. g = ?gt \<and> f AND 16 = 0) ?gt (Ret (c_get (pth_flags (desc pt)) s))"
      by simp_all
  qed
  have f: "life_safe pt addr c0 stk (Some u) (\<lambda>_ g. g = g1) ?gt (free_stack (desc pt))"
    by (rule free_stack_safe [OF assms(1), where x = x]) (use g in auto)
  show ?thesis
    unfolding pthread_deallocate_def
  proof (rule safe_bind [OF o], elim conjE)
    fix a g' assume "g' = ?gt" "a AND 16 = (0 :: u32)"
    then show "life_safe pt addr c0 stk (Some u) (\<lambda>_ g. g = g1) g'
        (if a AND 16 = 0 then free_stack (desc pt) else Ret ())" using f by simp
  qed
qed

lemma join_collect_safe:
  assumes "life_setup pt addr c0 stk"
  shows "life_safe pt addr c0 stk (Some u) (\<lambda>r g. \<forall>x. r = Value (OK, x) \<longrightarrow> g = LGot x) LSeen (join_collect (desc pt))"
proof -
  have v: "life_safe pt addr c0 stk (Some u) (\<lambda>x g. g = LVal x) LSeen (load (pth_retval (desc pt)))"
    unfolding load_def
  proof (rule safe_ActI [where h = "\<lambda>s. LVal (pt_retval (lw_desc s pt))"])
    fix s and G :: "'a option \<Rightarrow> life_ghost" assume i: "life_inv pt addr c0 stk s G" "G (Some u) = LSeen"
    then have "v_id (life_view pt s) = 0" by (auto simp: life_ok_def peer_ok_def dest: spec [of _ u])
    then show "life_inv pt addr c0 stk (id s) (G(Some u := LVal (pt_retval (lw_desc s pt))))"
      using ok_see(4) [OF i(1) _ i(2)] by simp
  qed simp
  have d: "life_safe pt addr c0 stk (Some u) (\<lambda>_ g. g = LGot x) (LVal x) (pthread_deallocate (desc pt))" for x
    by (rule deallocate_safe [OF assms]) simp
  show ?thesis
    unfolding join_collect_def
    by (rule safe_bind [OF v]) (auto intro!: safe_bind [OF d])
qed


lemma life_done:
  assumes "life_setup pt addr c0 stk" and "life_ok pt addr c0 stk v G" and "G (Some u) = LGot x"
  shows "v_ended v" "v_retval v = x" "v_released v = [range_of stk]" "G (Some u') = LGot y \<Longrightarrow> u' = u"
proof -
  have "peer_ok pt (addr u) v (LGot x)" using ok_parts(2) [OF assms(2), of u] assms(3) by simp
  then have "v_id v = 0" "v_retval v = x" by (simp_all add: peer_ok_def)
  then show "v_ended v" "v_retval v = x" using ok_parts(1) [OF assms(2)] by (auto simp: self_ok_def)
  have "releaser (G (Some u))" using assms(3) by simp
  then have "\<exists>u. releaser (G (Some u))" by blast
  then show "v_released v = [range_of stk]" using ok_parts(3) [OF assms(2)] by (simp add: released_ok_def)
  show "G (Some u') = LGot y \<Longrightarrow> u' = u" using owner_unique [OF assms(1,2)] assms(3) by fastforce
qed

lemma life_released:
  assumes "life_ok pt addr c0 stk v G"
  shows "v_released v = [] \<or> v_released v = [range_of stk] \<and> v_ended v"
proof (cases "G None = LEnd True \<or> (\<exists>u. releaser (G (Some u)))")
  case True
  then have "v_ended v"
  proof
    assume "\<exists>u. releaser (G (Some u))"
    then obtain u where "saw_end (G (Some u))" using ghost_classes(2,3) by blast
    then have "v_id v = 0" using ok_parts(2) [OF assms, of u] by (simp add: peer_ok_def)
    then show ?thesis using ok_parts(1) [OF assms] by (auto simp: self_ok_def)
  qed (use ok_parts(1) [OF assms] in \<open>auto simp: self_ok_def\<close>)
  with True ok_parts(3) [OF assms] show ?thesis by (simp add: released_ok_def)
next
  case False
  with ok_parts(3) [OF assms] show ?thesis by (simp add: released_ok_def)
qed

definition held :: "life_ghost \<Rightarrow> bool" where
  "held g \<longleftrightarrow> g = LHold \<or> g = LSeen"

lemma join_cleanup_safe:
  assumes "life_setup pt addr c0 stk" and "held g"
  shows "life_safe pt addr c0 stk (Some u) (\<lambda>_ g. g = LOut) g (join_cleanup (desc (addr u)) (desc pt))"
proof -
  have c: "life_safe pt addr c0 stk (Some u) (\<lambda>_ g. g = LOut) g (atomic_cas_bool (pth_joinpt (desc pt)) (addr u) 0)"
    unfolding atomic_cas_bool_def
  proof (rule safe_ActI [where h = "\<lambda>_. LOut"])
    fix s and G :: "'a option \<Rightarrow> life_ghost" assume i: "life_inv pt addr c0 stk s G" "G (Some u) = g"
    with assms(2) have "G (Some u) = LHold \<or> G (Some u) = LSeen" by (simp add: held_def)
    from ok_give_up [OF assms(1) i(1) this]
    show "life_inv pt addr c0 stk (if c_get (pth_joinpt (desc pt)) s = addr u then c_put (pth_joinpt (desc pt)) 0 s else s)
        (G(Some u := LOut))" by simp
  qed simp
  show ?thesis unfolding join_cleanup_def lw_rtl_sel by (rule safe_bind [OF c]) simp
qed

lemma join_enter_safe:
  assumes "life_setup pt addr c0 stk"
    and p: "life_safe pt addr c0 stk (Some u) Q LHold p"
    and Q: "Q (Value (Err EDEADLK)) LOut" "Q (Value (Err EINVAL)) LOut"
  shows "life_safe pt addr c0 stk (Some u) Q LOut (join_enter (desc (addr u)) (desc pt) p)"
proof -
  have l: "life_safe pt addr c0 stk (Some u) (\<lambda>_ g. g = LOut) LOut (load (c :: (life_world, u32) cell))" for c
    by (rule safe_load) simp
  have cas: "life_safe pt addr c0 stk (Some u) (\<lambda>ok g. g = (if ok then LHold else LOut)) LOut
      (atomic_cas_bool (pth_joinpt (desc pt)) 0 (addr u))"
    by (rule safe_cas [where g' = LHold]) (auto dest: ok_enter(1) [OF assms(1)])
  show ?thesis
    unfolding join_enter_def using life_setupD(3) [OF assms(1), of u]
    by (auto simp: bind_assoc Q intro!: safe_bind [OF l] safe_bind [OF cas] p)
qed


lemma pthread_join_safe:
  assumes "life_setup pt addr c0 stk"
  shows "life_safe pt addr c0 stk (Some u) (\<lambda>r g. \<forall>x. r = Value (OK, x) \<longrightarrow> g = LGot x) LOut
    (pthread_join (desc (addr u)) (desc pt))"
proof -
  let ?I = "life_inv pt addr c0 stk"
  have l: "life_safe pt addr c0 stk (Some u) (\<lambda>_ g. g = LOut) LOut (load (c :: (life_world, u32) cell))" for c
    by (rule safe_load) simp
  have await: "safe (\<lambda>_ _. True) (\<lambda>s G. ?I s G \<and> held (G (Some u))) life_kernel (Some u) (\<lambda>_ g. g = LSeen) LHold
      (join_await (desc pt))"
    by (rule join_await_safe) (auto simp: held_def intro: ok_see(2))
  have cp: "life_safe pt addr c0 stk (Some u) (\<lambda>r g. held g \<and> (\<forall>a. r = Value a \<longrightarrow> g = LSeen)) LHold
      (cancelpoint (desc (addr u)) (join_await (desc pt)))"
    by (rule safe_cancelpoint_within [OF await]) (auto simp: held_def life_self_put [OF assms] simp del: lw_rtl_sel)
  have enter: "life_safe pt addr c0 stk (Some u)
      (\<lambda>r g. case r of Exits \<Rightarrow> held g | Value ret \<Rightarrow> g = (if ret = OK then LSeen else LOut)) LOut
      (join_enter (desc (addr u)) (desc pt)
        (bind (cancelpoint (desc (addr u)) (join_await (desc pt))) (\<lambda>r. case r of
           Exits \<Rightarrow> Ret Exits | Value _ \<Rightarrow> Ret (Value OK))))"
    by (rule join_enter_safe [OF assms]) (auto intro!: safe_bind [OF cp] split: unwinding.splits)
  have wc: "life_safe pt addr c0 stk (Some u)
      (\<lambda>r g. \<forall>ret. r = Value ret \<longrightarrow> g = (if ret = OK then LSeen else LOut)) LOut
      (with_cleanup (join_cleanup (desc (addr u)) (desc pt)) (\<lambda>_. False)
       (join_enter (desc (addr u)) (desc pt)
        (bind (cancelpoint (desc (addr u)) (join_await (desc pt))) (\<lambda>r. case r of
           Exits \<Rightarrow> Ret Exits | Value _ \<Rightarrow> Ret (Value OK)))))"
    unfolding with_cleanup_def
    by (rule safe_bind [OF enter])
      (auto split: unwinding.splits if_splits intro!: safe_bind [OF join_cleanup_safe [OF assms]])
  show ?thesis
    unfolding pthread_join_def
    by (auto intro!: safe_bind [OF l] safe_bind [OF wc] join_collect_safe [OF assms] split: unwinding.splits)
qed

lemma pthread_tryjoin_safe:
  assumes "life_setup pt addr c0 stk"
  shows "life_safe pt addr c0 stk (Some u) (\<lambda>r g. \<forall>x. r = Value (OK, x) \<longrightarrow> g = LGot x) LOut
    (pthread_tryjoin_np (desc (addr u)) (desc pt))"
proof -
  have l: "life_safe pt addr c0 stk (Some u) (\<lambda>_ g. g = g0) g0 (load (pth_joinpt (desc a)))" for a g0
    by (rule safe_load) simp
  have i: "life_safe pt addr c0 stk (Some u) (\<lambda>x g. x = 0 \<longrightarrow> g = LOutSeen) LOut (load (pth_id (desc pt)))"
    unfolding load_def
  proof (rule safe_ActI [where h = "\<lambda>s. if pt_id (lw_desc s pt) = 0 then LOutSeen else LOut"])
    fix s and G :: "'a option \<Rightarrow> life_ghost" assume "life_inv pt addr c0 stk s G" "G (Some u) = LOut"
    then show "life_inv pt addr c0 stk (id s) (G(Some u := if pt_id (lw_desc s pt) = 0 then LOutSeen else LOut))"
      using ok_see(1) [of pt addr c0 stk "life_view pt s" G u]
      by (cases "pt_id (lw_desc s pt) = 0") (simp_all add: fun_upd_idem)
  qed simp
  have cas: "life_safe pt addr c0 stk (Some u) (\<lambda>ok g. ok \<longrightarrow> g = LSeen) LOutSeen
      (atomic_cas_bool (pth_joinpt (desc pt)) 0 (addr u))"
    by (rule safe_cas [where g' = LSeen]) (auto dest: ok_enter(2) [OF assms])
  show ?thesis
    unfolding pthread_tryjoin_np_def using life_setupD(3) [OF assms, of u]
    by (auto simp: bind_assoc intro!: safe_bind [OF i] safe_bind [OF l] safe_bind [OF cas] join_collect_safe [OF assms])
qed

lemma pthread_detach_safe:
  assumes "life_setup pt addr c0 stk"
  shows "life_safe pt addr c0 stk (Some u) (\<lambda>_ _. True) LOut (pthread_detach (desc pt))"
proof -
  have l: "life_safe pt addr c0 stk (Some u) (\<lambda>_ g. g = g0) g0 (load (c :: (life_world, u32) cell))" for c g0
    by (rule safe_load) simp
  have cas: "life_safe pt addr c0 stk (Some u) (\<lambda>ok g. ok \<longrightarrow> g = LDet) LOut
      (atomic_cas_bool (pth_joinpt (desc pt)) 0 pt)"
    by (rule safe_cas [where g' = LDet]) (auto dest: ok_enter(3) [OF assms])
  have w: "life_safe pt addr c0 stk (Some u) (\<lambda>_ g. g = LDetSeen) LDet (join_await (desc pt))"
    by (rule join_await_safe) (auto intro: ok_see(3))
  have d: "life_safe pt addr c0 stk (Some u) (\<lambda>_ g. g = LDetGot) LDetSeen (pthread_deallocate (desc pt))"
    by (rule deallocate_safe [OF assms, where x = 0]) simp
  show ?thesis
    unfolding pthread_detach_def INVALID_P_def
    by (auto simp: bind_assoc intro!: safe_bind [OF l] safe_bind [OF cas] safe_bind [OF w] safe_bind [OF d])
qed


subsection \<open>Properties\<close>

datatype collect_call = Join | TryJoin | Detach

fun collect :: "u32 \<Rightarrow> u32 \<Rightarrow> collect_call \<Rightarrow> (life_world, (ret \<times> u32) unwinding) prog" where
  "collect self pt Join = pthread_join (desc self) (desc pt)"
| "collect self pt TryJoin = pthread_tryjoin_np (desc self) (desc pt)"
| "collect self pt Detach = bind (pthread_detach (desc pt)) (\<lambda>r. Ret (Value (r, 0)))"

text \<open>One thread runs, the others collect it.\<close>

definition life_threads ::
  "u32 \<Rightarrow> ('u \<Rightarrow> u32) \<Rightarrow> ('u \<Rightarrow> collect_call) \<Rightarrow> 'u option \<Rightarrow> (life_world, (ret \<times> u32) unwinding) prog" where
  "life_threads pt addr call t = (case t of
     None \<Rightarrow> bind (thread_entry lw_rtl pt) (\<lambda>_. Ret Exits)
   | Some u \<Rightarrow> collect (addr u) pt (call u))"

text \<open>A descriptor as \<open>pthread_create\<close> leaves it, joinable or detached; the stack is the library's.\<close>

definition newborn :: "u32 \<Rightarrow> life_world \<Rightarrow> bool" where
  "newborn pt s \<longleftrightarrow> pt_id (lw_desc s pt) = PTHREAD_INVALID_ID \<and> pt_flags (lw_desc s pt) = 0 \<and>
     (pt_joinpt (lw_desc s pt) = 0 \<or> pt_joinpt (lw_desc s pt) = pt) \<and> lw_released s = [] \<and> \<not> lw_ended s"

lemma newborn_ok:
  assumes "newborn pt s"
  shows "life_inv pt addr (lw_counter s) (stack_of (lw_desc s pt)) s (case_option LNew (\<lambda>_. LOut))"
  using assms by (auto simp: newborn_def life_ok_def self_ok_def peer_ok_def released_ok_def)

lemma life_threads_safe:
  assumes "life_setup pt addr c0 stk"
  shows "life_safe pt addr c0 stk t
    (\<lambda>r g. \<forall>u x. t = Some u \<longrightarrow> call u \<noteq> Detach \<longrightarrow> r = Value (OK, x) \<longrightarrow> g = LGot x)
    (case_option LNew (\<lambda>_. LOut) t) (life_threads pt addr call t)"
proof (cases t)
  case None
  then show ?thesis
    by (auto simp: life_threads_def intro!: safe_bind [OF life_entry_safe [OF assms]])
next
  case (Some u)
  then show ?thesis
    using pthread_join_safe [OF assms, of u] pthread_tryjoin_safe [OF assms, of u]
    by (cases "call u") (auto simp: life_threads_def intro!: safe_bind [OF pthread_detach_safe [OF assms]])
qed

text \<open>
  C3. The stack of a thread is released at most once, exactly as a whole, and never before the thread has ended,
  whatever mix of threads joins it, tries to, or detaches it, some of them cancelled meanwhile, and
  however they interleave with its own end. Who joins it successfully gets the value it ended with, after
  the end; there is only one, and the stack is released by then.
\<close>

theorem join_protocol:
  assumes "life_setup pt addr (lw_counter s0) (stack_of (lw_desc s0 pt))" and "newborn pt s0"
    and "reach life_kernel s0 (life_threads pt addr call) s P"
  shows "(lw_released s = [] \<or> lw_released s = [range_of (stack_of (lw_desc s0 pt))] \<and> lw_ended s) \<and>
    (P (Some u) = Ret (Value (OK, x)) \<longrightarrow> call u \<noteq> Detach \<longrightarrow>
      lw_ended s \<and> pt_retval (lw_desc s pt) = x \<and> lw_released s = [range_of (stack_of (lw_desc s0 pt))] \<and>
      (P (Some u') = Ret (Value (OK, y)) \<longrightarrow> call u' \<noteq> Detach \<longrightarrow> u' = u))"
proof -
  let ?I = "life_inv pt addr (lw_counter s0) (stack_of (lw_desc s0 pt))"
  let ?Q = "\<lambda>t r g. \<forall>u x. t = Some u \<longrightarrow> call u \<noteq> Detach \<longrightarrow> r = Value (OK, x) \<longrightarrow> g = LGot x"
  have "\<exists>G. ?I s G \<and> (\<forall>t. safe (\<lambda>_ _. True) ?I life_kernel t (?Q t) (G t) (P t))"
    by (rule safe_reach [OF assms(3), where ?G0.0 = "case_option LNew (\<lambda>_. LOut)"])
      (rule newborn_ok [OF assms(2)], rule life_threads_safe [OF assms(1)])
  then obtain G where G: "?I s G" "\<And>t. safe (\<lambda>_ _. True) ?I life_kernel t (?Q t) (G t) (P t)" by blast
  have g: "G (Some w) = LGot z" if "P (Some w) = Ret (Value (OK, z))" "call w \<noteq> Detach" for w z
    using G(2) [of "Some w"] that by simp
  show ?thesis
  proof (intro conjI impI)
    show "lw_released s = [] \<or> lw_released s = [range_of (stack_of (lw_desc s0 pt))] \<and> lw_ended s"
      using life_released [OF G(1)] by simp
    assume "P (Some u) = Ret (Value (OK, x))" "call u \<noteq> Detach"
    note d = life_done [OF assms(1) G(1) g [OF this]]
    show "lw_ended s" "pt_retval (lw_desc s pt) = x" "lw_released s = [range_of (stack_of (lw_desc s0 pt))]"
      using d(1-3) by simp_all
    assume "P (Some u') = Ret (Value (OK, y))" "call u' \<noteq> Detach"
    then show "u' = u" by (rule d(4) [OF g])
  qed
qed


subsection \<open>Particular schedules\<close>

definition life0 :: life_world where
  "life0 = \<lparr>
    lw_desc = (\<lambda>a. if a = 4096 then pthread0\<lparr>pt_id := PTHREAD_INVALID_ID, pt_stack := 65536, pt_stacksize := 16384, pt_guardsize := 4096\<rparr>
      else pthread0\<lparr>pt_id := 7\<rparr>),
    lw_released = [], lw_ended = False, lw_counter = 7, lw_lock = 0, lw_total = 3, lw_mtflag = 1, lw_tls_list = 0,
    lw_tcb_next = (\<lambda>_. 0), lw_links = (\<lambda>_. \<lparr>l_prev = 0, l_next = 0\<rparr>), lw_dfl = pthread_dfl_attr None,
    lw_keys = (\<lambda>_. \<lparr>kd_seq = 0, kd_ptr = 0\<rparr>), lw_entry = (\<lambda>_. \<lparr>kd_seq = 0, kd_ptr = 0\<rparr>),
    lw_specific = (\<lambda>_ _. 0)\<rparr>"

abbreviation life_reply :: reply where
  "life_reply \<equiv> reply0\<lparr>r_val := 5, r_retcode := 4\<rparr>"

abbreviation stack0 :: "u32 \<times> u32" where
  "stack0 \<equiv> (61440, 20480)"

lemma life_setup0: "life_setup 4096 (\<lambda>_ :: unit. 8192) (lw_counter life0) (stack_of (lw_desc life0 4096))"
  by (simp add: life_setup_def life0_def stack_of_def range_of_def inj_def)

lemma newborn0: "newborn 4096 life0"
  by (simp add: newborn_def life0_def)

lemma life0_range: "range_of (stack_of (lw_desc life0 4096)) = stack0"
  by (simp add: life0_def stack_of_def range_of_def)

lemmas life_eval = life_threads_def thread_entry_def pthread_cleanup_def terminate_self_def released_stack_def
  dealloc_tls_def dealloc_tsd_def pthread_join_def join_enter_def join_await_def join_collect_def
  pthread_deallocate_def free_stack_def vm_deallocate_def with_cleanup_def cancelpoint_def cancelpoint_begin_def
  cancelpoint_end_def pthread_exit_def CANCELLED_ENABLED_ASYNC_P_def lll_lock_def lll_unlock_def thread_terminate_release2_def sys_def

definition life_demo :: "collect_call \<Rightarrow> (unit option \<times> nat) list \<Rightarrow>
    life_world \<times> (unit option \<Rightarrow> (life_world, (ret \<times> u32) unwinding) prog)" where
  "life_demo c ts = sched life_kernel life_reply ts life0 (life_threads 4096 (\<lambda>_. 8192) (\<lambda>_. c))"

end
