(* ===== verification/Races.thy ===== *)
theory Races
  imports Lifecycle
begin

text \<open>
  What can go wrong around the end of a thread, as particular interleavings of the code: a timed join of a thread
  that is just starting, a detach that meets the thread's own cleanup, and the free list of control
  blocks. And a run in which all goes well.
\<close>

lemma pstep_divert:
  "pstep M r s (bind (divert h (bind (loop b x) f)) g) = pstep M r s (bind (divert h (bind (iter b (b x)) f)) g)"
  by (simp add: loop_def)

lemma join_protocol_witness:
  "snd (life_demo Join [(None, 60), (Some (), 40)]) (Some ()) = Ret (Value (OK, 5)) \<and>
   lw_released (fst (life_demo Join [(None, 60), (Some (), 40)])) = [stack0]"
proof -
  let ?d = "life_demo Join [(None, 60), (Some (), 40)]"
  have r: "reach life_kernel life0 (life_threads 4096 (\<lambda>_. 8192) (\<lambda>_. Join)) (fst ?d) (snd ?d)"
    unfolding life_demo_def by (rule reach_sched) (rule surjective_pairing)
  have p: "snd ?d (Some ()) = Ret (Value (OK, 5))"
    by (simp add: life_demo_def life_eval atomic_defs pstep_loop pstep_divert life0_def bind_assoc Let_def end_thread_def)
  then show ?thesis
    using join_protocol [OF life_setup0 newborn0 r, of "()" 5] by (simp add: life0_range)
qed

subsection \<open>Timed joining\<close>

definition timedjoin_threads :: "unit option \<Rightarrow> (life_world, (ret \<times> u32) unwinding) prog" where
  "timedjoin_threads t = (case t of
     None \<Rightarrow> bind (thread_entry lw_rtl 4096) (\<lambda>_. Ret Exits)
   | Some _ \<Rightarrow> pthread_timedjoin_np (desc 8192) (desc 4096) \<lparr>tv_sec = 100, tv_nsec = 0\<rparr>)"

text \<open>
  \<open>pthread_timedjoin_np\<close> takes every answer of the wait that is neither a timeout nor an interruption
  for the end of the thread. A thread that takes its number between the joiner's load and its wait
  makes the kernel refuse the wait, as the id has changed: the joiner then reports success and releases the
  stack on which the thread is running its start routine.
\<close>

theorem timedjoin_releases_live_stack:
  "\<exists>s P x. reach life_kernel life0 timedjoin_threads s P \<and> P (Some ()) = Ret (Value (OK, x)) \<and>
     lw_released s = [stack0] \<and> \<not> lw_ended s \<and> inside P None"
proof -
  let ?d = "sched life_kernel life_reply [(Some (), 11), (None, 13), (Some (), 40)] life0 timedjoin_threads"
  have "reach life_kernel life0 timedjoin_threads (fst ?d) (snd ?d)"
    by (rule reach_sched) (rule surjective_pairing)
  moreover have "snd ?d (Some ()) = Ret (Value (OK, 0)) \<and> lw_released (fst ?d) = [stack0] \<and> \<not> lw_ended (fst ?d) \<and>
      inside (snd ?d) None"
    by (simp add: timedjoin_threads_def pthread_timedjoin_np_def join_abstimed_await_def lll_abstimed_wait_def
        lll_timed_wait_def compute_reltime_def reltime_def gsync_wait_def life_kernel_wait
        life_eval atomic_defs pstep_loop pstep_divert life0_def bind_assoc Let_def inside_def)
  ultimately show ?thesis by blast
qed

subsection \<open>Detaching\<close>

text \<open>
  C32. \<open>pthread_detach\<close> and the end of the thread itself both look at the other's mark, but not in one step. When the
  thread has seen that it is joinable and has not yet marked itself as exiting, a detach succeeds and
  nobody will ever release the stack. When the thread sees the detach, and the detaching thread sees
  it exiting, the kernel releases the stack and the detaching thread waits on an id within it.
\<close>

theorem detach_races:
  "(\<exists>s P. reach life_kernel life0 (life_threads 4096 (\<lambda>_ :: unit. 8192) (\<lambda>_. Detach)) s P \<and>
     (\<forall>t. \<exists>r. P t = Ret r) \<and> lw_ended s \<and> lw_released s = [] \<and> pt_joinpt (lw_desc s 4096) = 4096) \<and>
   (\<exists>s P f. reach life_kernel life0 (life_threads 4096 (\<lambda>_ :: unit. 8192) (\<lambda>_. Detach)) s P \<and>
     lw_released s = [stack0] \<and> pt_id (lw_desc s 4096) \<noteq> 0 \<and> P (Some ()) = bind (join_await (desc 4096)) f)"
proof
  let ?d = "life_demo Detach [(None, 16), (Some (), 4), (None, 40)]"
  have "reach life_kernel life0 (life_threads 4096 (\<lambda>_. 8192) (\<lambda>_. Detach)) (fst ?d) (snd ?d)"
    unfolding life_demo_def by (rule reach_sched) (rule surjective_pairing)
  moreover have "snd ?d None = Ret Exits \<and> snd ?d (Some ()) = Ret (Value (OK, 0)) \<and> lw_ended (fst ?d) \<and>
      lw_released (fst ?d) = [] \<and> pt_joinpt (lw_desc (fst ?d) 4096) = 4096"
    by (simp add: life_demo_def life_eval atomic_defs pstep_loop pstep_divert life0_def bind_assoc Let_def end_thread_def
        pthread_detach_def INVALID_P_def)
  moreover from this have "\<exists>r. snd ?d t = Ret r" for t by (cases t) auto
  ultimately show "\<exists>s P. reach life_kernel life0 (life_threads 4096 (\<lambda>_ :: unit. 8192) (\<lambda>_. Detach)) s P \<and>
     (\<forall>t. \<exists>r. P t = Ret r) \<and> lw_ended s \<and> lw_released s = [] \<and> pt_joinpt (lw_desc s 4096) = 4096" by blast
next
  let ?d = "life_demo Detach [(Some (), 3), (None, 60), (Some (), 1)]"
  have "reach life_kernel life0 (life_threads 4096 (\<lambda>_. 8192) (\<lambda>_. Detach)) (fst ?d) (snd ?d)"
    unfolding life_demo_def by (rule reach_sched) (rule surjective_pairing)
  moreover have "lw_released (fst ?d) = [stack0] \<and> pt_id (lw_desc (fst ?d) 4096) \<noteq> 0 \<and>
      (\<exists>f. snd ?d (Some ()) = bind (join_await (desc 4096)) f)"
    by (simp add: life_demo_def life_eval(1-7) life_eval(11-) atomic_defs pstep_loop pstep_divert life0_def bind_assoc Let_def
        end_thread_def pthread_detach_def INVALID_P_def, blast)
  ultimately show "\<exists>s P f. reach life_kernel life0 (life_threads 4096 (\<lambda>_ :: unit. 8192) (\<lambda>_. Detach)) s P \<and>
     lw_released s = [stack0] \<and> pt_id (lw_desc s 4096) \<noteq> 0 \<and> P (Some ()) = bind (join_await (desc 4096)) f" by blast
qed


subsection \<open>The free list of control blocks\<close>

text \<open>A schedule with an answer for each of its parts.\<close>

fun sched_with :: "'s keff \<Rightarrow> (reply \<times> 't \<times> nat) list \<Rightarrow> 's \<Rightarrow> ('t \<Rightarrow> ('s, 'a) prog) \<Rightarrow> 's \<times> ('t \<Rightarrow> ('s, 'a) prog)" where
  "sched_with M [] s P = (s, P)"
| "sched_with M ((r, tn) # ts) s P = (case sched M r [tn] s P of (s', P') \<Rightarrow> sched_with M ts s' P')"

lemma reach_sched_with:
  assumes "reach M s0 P0 s P" and "sched_with M ts s P = (s', P')"
  shows "reach M s0 P0 s' P'"
  using assms
proof (induction ts arbitrary: s P)
  case (Cons a ts)
  obtain r tn where a: "a = (r, tn)" by (cases a) blast
  obtain s1 P1 where *: "sched M r [tn] s P = (s1, P1)" by fastforce
  have "sched_with M ts s1 P1 = (s', P')" using Cons.prems(2) by (simp only: a * sched_with.simps prod.case)
  from Cons.IH [OF reach_sched_from [OF Cons.prems(1) *] this] show ?case .
qed simp

abbreviation answer :: "u32 \<Rightarrow> reply" where
  "answer x \<equiv> reply0\<lparr>r_val := x\<rparr>"

text \<open>The thread \<open>False\<close> allocates for two descriptors; the thread \<open>True\<close> for two, and gives the first back.\<close>

definition tls_threads :: "bool \<Rightarrow> (life_world, bool) prog" where
  "tls_threads t =
    (if t then
       bind (alloc_tls lw_rtl 4096) (\<lambda>_. bind (alloc_tls lw_rtl 8192) (\<lambda>_.
       bind (dealloc_tls lw_rtl 4096) (\<lambda>_. Ret True)))
     else bind (alloc_tls lw_rtl 12288) (\<lambda>_. alloc_tls lw_rtl 16384))"

text \<open>
  The free list is popped by a load of the head and of its successor and a compare-and-swap of the head. If between
  them another thread takes two blocks and gives the first one back, the head is as it was and its successor
  is in use: the next two threads share one thread control block. (\<open>_dl_allocate_tls\<close>
  answers the block it is given.)
\<close>

theorem tls_list_aba:
  "\<exists>s P. reach life_kernel (life0\<lparr>lw_tls_list := 1000, lw_tcb_next := (\<lambda>_. 0)(1000 := 2000)\<rparr>) tls_threads s P \<and>
     P True = Ret True \<and> P False = Ret True \<and>
     pt_tcb (lw_desc s 8192) = 2000 \<and> pt_tcb (lw_desc s 16384) = 2000"
proof -
  let ?s = "life0\<lparr>lw_tls_list := 1000, lw_tcb_next := (\<lambda>_. 0)(1000 := 2000)\<rparr>"
  let ?d = "sched_with life_kernel [(answer 0, False, 3), (answer 1000, True, 7), (answer 2000, True, 30),
     (answer 1000, False, 4), (answer 2000, False, 20)] ?s tls_threads"
  have "reach life_kernel ?s tls_threads (fst ?d) (snd ?d)"
    by (rule reach_sched_with [OF reach_start]) (rule surjective_pairing)
  moreover have "snd ?d True = Ret True \<and> snd ?d False = Ret True \<and>
      pt_tcb (lw_desc (fst ?d) 8192) = 2000 \<and> pt_tcb (lw_desc (fst ?d) 16384) = 2000"
    by (simp add: tls_threads_def alloc_tls_def dealloc_tls_def sys_def atomic_defs pstep_loop bind_assoc life0_def)
  ultimately show ?thesis by blast
qed

end
