(* ===== verification/Unwind.thy ===== *)
theory Unwind
  imports Create Compose
begin

text \<open>
  The cleanup handlers: the macros of \<open>pthread/pthread.h\<close> that push and pop them, and \<open>unwind_cleanup\<close> of
  \<open>pthread/exit.c\<close>, which libgcc calls for every frame while it unwinds the stack of an exiting thread. The
  handlers are buffers on that stack, linked from the innermost to the outermost.
\<close>

record cleanup_buf =
  cb_fct :: u32
  cb_argp :: u32
  cb_next :: u32

definition buf_fct :: "('s, cleanup_buf) cell \<Rightarrow> ('s, u32) cell" where
  [code_defs]: "buf_fct = field 0 cb_fct cb_fct_update"

definition buf_argp :: "('s, cleanup_buf) cell \<Rightarrow> ('s, u32) cell" where
  [code_defs]: "buf_argp = field 4 cb_argp cb_argp_update"

definition buf_next :: "('s, cleanup_buf) cell \<Rightarrow> ('s, u32) cell" where
  [code_defs]: "buf_next = field 8 cb_next cb_next_update"

lemma buf_sel [simp]:
  "c_get (buf_fct c) s = cb_fct (c_get c s)" "c_get (buf_argp c) s = cb_argp (c_get c s)"
  "c_get (buf_next c) s = cb_next (c_get c s)"
  by (simp_all add: buf_fct_def buf_argp_def buf_next_def)

text \<open>\<open>bufs b\<close> is the buffer at the address \<open>b\<close>.\<close>

type_synonym 's cleanup_bufs = "u32 \<Rightarrow> ('s, cleanup_buf) cell"

definition pthread_cleanup_push ::
  "'s cleanup_bufs \<Rightarrow> ('s, pthread) cell \<Rightarrow> u32 \<Rightarrow> u32 \<Rightarrow> u32 \<Rightarrow> ('s, unit) prog" where
  [code_defs]: "pthread_cleanup_push bufs self b fp argp =
    bind (load (pth_cleanup self)) (\<lambda>next.
    bind (store (bufs b) \<lparr>cb_fct = fp, cb_argp = argp, cb_next = next\<rparr>) (\<lambda>_.
    store (pth_cleanup self) b))"

definition call_cleanup :: "('s, cleanup_buf) cell \<Rightarrow> ('s, unit) prog" where
  [code_defs]: "call_cleanup buf =
    bind (load (buf_fct buf)) (\<lambda>fp.
    bind (load (buf_argp buf)) (\<lambda>argp.
    bind (sys (Callback fp argp)) (\<lambda>_. Ret ())))"

definition pthread_cleanup_pop :: "'s cleanup_bufs \<Rightarrow> ('s, pthread) cell \<Rightarrow> u32 \<Rightarrow> bool \<Rightarrow> ('s, unit) prog" where
  [code_defs]: "pthread_cleanup_pop bufs self b execute =
    bind (load (buf_next (bufs b))) (\<lambda>next.
    bind (store (pth_cleanup self) next) (\<lambda>_.
    if execute then call_cleanup (bufs b) else Ret ()))"

subsection \<open>Unwinding\<close>

abbreviation (input) END_OF_STACK :: u32 where "END_OF_STACK \<equiv> 0x10"

text \<open>The stack grows down: the frame of the address \<open>cfa\<close> is outside the buffer.\<close>

definition FRAME_LEFT :: "u32 \<Rightarrow> u32 \<Rightarrow> bool" where
  "FRAME_LEFT cfa buf \<longleftrightarrow> buf \<le> cfa"

definition run_cleanups :: "'s cleanup_bufs \<Rightarrow> ('s, pthread) cell \<Rightarrow> u32 \<Rightarrow> bool \<Rightarrow> ('s, unit) prog" where
  [code_defs]: "run_cleanups bufs self cfa last_frame = loop (\<lambda>_.
    bind (load (pth_cleanup self)) (\<lambda>b.
    if b \<noteq> 0 \<and> (FRAME_LEFT cfa b \<or> last_frame) then
      bind (call_cleanup (bufs b)) (\<lambda>_.
      bind (load (pth_cleanup self)) (\<lambda>b.
      bind (load (buf_next (bufs b))) (\<lambda>next.
      bind (store (pth_cleanup self) next) (\<lambda>_. again ()))))
    else leave ())) ()"

text \<open>\<open>obj\<close> is the address of the exception, which is part of the descriptor at the end of the stack.\<close>

definition unwind_cleanup ::
  "'s rtl \<Rightarrow> 's cleanup_bufs \<Rightarrow> u32 \<Rightarrow> u32 \<Rightarrow> u32 \<Rightarrow> u32 \<Rightarrow> ('s, int) prog" where
  [code_defs]: "unwind_cleanup g bufs pt actions obj cfa =
    (let last_frame = (actions AND END_OF_STACK \<noteq> 0 \<or> \<not> FRAME_LEFT obj cfa) in
     bind (run_cleanups bufs (g_desc g pt) cfa last_frame) (\<lambda>_.
     bind (if last_frame then pthread_cleanup g pt else Ret ()) (\<lambda>_. Ret 0)))"

text \<open>
  \<open>_Unwind_ForcedUnwind\<close>: libgcc calls the function for every frame in turn; the frames, each with its actions and its address, are
  given.
\<close>

primrec forced_unwind :: "'s rtl \<Rightarrow> 's cleanup_bufs \<Rightarrow> u32 \<Rightarrow> u32 \<Rightarrow> (u32 \<times> u32) list \<Rightarrow> ('s, unit) prog" where
  "forced_unwind g bufs pt obj [] = Ret ()"
| "forced_unwind g bufs pt obj (fr # frs) =
    bind (unwind_cleanup g bufs pt (fst fr) obj (snd fr)) (\<lambda>_. forced_unwind g bufs pt obj frs)"

subsection \<open>The handlers, in order\<close>

record unwind_world =
  uw_buf :: "u32 \<Rightarrow> cleanup_buf"
  uw_desc :: "u32 \<Rightarrow> pthread"

definition uw_bufs :: "unwind_world cleanup_bufs" where
  "uw_bufs b = \<lparr>c_addr = b, c_get = (\<lambda>s. uw_buf s b), c_put = (\<lambda>v s. s\<lparr>uw_buf := (uw_buf s)(b := v)\<rparr>)\<rparr>"

definition uw_pt :: "u32 \<Rightarrow> (unwind_world, pthread) cell" where
  "uw_pt a = \<lparr>c_addr = a, c_get = (\<lambda>s. uw_desc s a), c_put = (\<lambda>v s. s\<lparr>uw_desc := (uw_desc s)(a := v)\<rparr>)\<rparr>"

lemma uw_sel [simp]:
  "c_get (uw_bufs b) s = uw_buf s b" "c_put (uw_bufs b) v s = s\<lparr>uw_buf := (uw_buf s)(b := v)\<rparr>"
  "c_get (uw_pt a) s = uw_desc s a" "c_put (uw_pt a) d s = s\<lparr>uw_desc := (uw_desc s)(a := d)\<rparr>"
  by (simp_all add: uw_bufs_def uw_pt_def)

text \<open>The buffers that are pushed, from the innermost on.\<close>

fun buf_chain :: "(u32 \<Rightarrow> cleanup_buf) \<Rightarrow> u32 \<Rightarrow> u32 list \<Rightarrow> bool" where
  "buf_chain h b [] \<longleftrightarrow> b = 0"
| "buf_chain h b (c # bs) \<longleftrightarrow> b = c \<and> c \<noteq> 0 \<and> buf_chain h (cb_next (h c)) bs"

definition pushed :: "u32 \<Rightarrow> unwind_world \<Rightarrow> u32 list \<Rightarrow> bool" where
  "pushed pt s bs \<longleftrightarrow> buf_chain (uw_buf s) (pt_cleanup (uw_desc s pt)) bs"

definition set_cleanup :: "u32 \<Rightarrow> u32 \<Rightarrow> unwind_world \<Rightarrow> unwind_world" where
  "set_cleanup pt b s = s\<lparr>uw_desc := (uw_desc s)(pt := (uw_desc s pt)\<lparr>pt_cleanup := b\<rparr>)\<rparr>"

definition cleanup_calls :: "unwind_world \<Rightarrow> u32 list \<Rightarrow> kcall list" where
  "cleanup_calls s bs = map (\<lambda>b. Callback (cb_fct (uw_buf s b)) (cb_argp (uw_buf s b))) bs"

lemma set_cleanup_simps [simp]:
  "uw_buf (set_cleanup pt b s) = uw_buf s" "pt_cleanup (uw_desc (set_cleanup pt b s) pt) = b"
  "set_cleanup pt b (set_cleanup pt c s) = set_cleanup pt b s"
  "cleanup_calls (set_cleanup pt b s) bs = cleanup_calls s bs"
  by (simp_all add: set_cleanup_def cleanup_calls_def)

lemma set_cleanup_same: "set_cleanup pt (pt_cleanup (uw_desc s pt)) s = s"
  by (cases s) (simp add: set_cleanup_def)

lemma exec_run_cleanups:
  assumes M: "\<And>fp a s. M (Callback fp a) s = s" and "pushed pt s bs"
    and "takeWhile (\<lambda>b. FRAME_LEFT cfa b \<or> last_frame) bs = xs" and "length xs \<le> length rs"
  shows "exec M (run_cleanups uw_bufs (uw_pt pt) cfa last_frame) rs s l = Some ((), 
      set_cleanup pt (hd (drop (length xs) bs @ [0])) s, drop (length xs) rs, l @ cleanup_calls s xs)"
  using assms(2-4)
proof (induction bs arbitrary: s xs rs l)
  case Nil
  then have "pt_cleanup (uw_desc s pt) = 0" by (simp add: pushed_def)
  with Nil set_cleanup_same [of pt s] show ?case
    by (simp add: run_cleanups_def exec_loop runs cleanup_calls_def)
next
  case (Cons b bs)
  then have b: "pt_cleanup (uw_desc s pt) = b" "b \<noteq> 0" by (simp_all add: pushed_def)
  show ?case
  proof (cases "FRAME_LEFT cfa b \<or> last_frame")
    case True
    then obtain ys where x: "xs = b # ys" "takeWhile (\<lambda>b. FRAME_LEFT cfa b \<or> last_frame) bs = ys" using Cons.prems(2) by auto
    obtain r rs' where r: "rs = r # rs'" "length ys \<le> length rs'" using Cons.prems(3) x by (cases rs) auto
    let ?s = "set_cleanup pt (cb_next (uw_buf s b)) s"
    have "pushed pt ?s bs" using Cons.prems(1) by (simp add: pushed_def)
    note IH = Cons.IH [OF this x(2) r(2), of "l @ [Callback (cb_fct (uw_buf s b)) (cb_argp (uw_buf s b))]"]
    have "exec M (run_cleanups uw_bufs (uw_pt pt) cfa last_frame) rs s l =
        exec M (run_cleanups uw_bufs (uw_pt pt) cfa last_frame) rs' ?s (l @ [Callback (cb_fct (uw_buf s b)) (cb_argp (uw_buf s b))])"
      using True b r(1) M
      by (subst run_cleanups_def, subst exec_loop)
        (simp add: call_cleanup_def bind_assoc run_iter sys_def set_cleanup_def run_cleanups_def [symmetric])
    with IH show ?thesis using x(1) r(1) by (simp add: cleanup_calls_def)
  next
    case False
    with Cons.prems(2) b set_cleanup_same [of pt s] show ?thesis
      by (auto simp: run_cleanups_def exec_loop runs cleanup_calls_def)
  qed
qed

lemma pushed_after:
  assumes "pushed pt s (xs @ ys)"
  shows "pushed pt (set_cleanup pt (hd (ys @ [0])) s) ys"
proof -
  have "buf_chain h b (xs @ ys) \<Longrightarrow> buf_chain h (hd (ys @ [0])) ys" for h b
  proof (induction xs arbitrary: b)
    case Nil
    then show ?case by (cases ys) auto
  qed auto
  with assms show ?thesis by (simp add: pushed_def)
qed

subsection \<open>Properties\<close>


text \<open>A state with two handlers pushed.\<close>

definition unwind_demo :: unwind_world where
  "unwind_demo = \<lparr>uw_buf = (\<lambda>b. if b = 100 then \<lparr>cb_fct = 1, cb_argp = 2, cb_next = 200\<rparr> else \<lparr>cb_fct = 3, cb_argp = 4, cb_next = 0\<rparr>),
    uw_desc = (\<lambda>_. pthread0\<lparr>pt_cleanup := 100\<rparr>)\<rparr>"


end
