(* ===== verification/Startup.thy ===== *)
theory Startup
  imports Lifecycle Compose
begin

text \<open>
  The start of the library: \<open>__pthread_initialize\<close> of \<open>pthread/init.c\<close>, and the thread control blocks of
  \<open>sysdeps/i386.h\<close>, through which a thread finds its descriptor. The segment register \<open>gs\<close> holds the address of the
  running thread's block.
\<close>

subsection \<open>Thread control blocks\<close>

record tcbhead =
  tb_tcb :: u32
  tb_self :: mport
  tb_thrdesc :: u32
  tb_reply_port :: mport

definition tcb_tcb :: "('s, tcbhead) cell \<Rightarrow> ('s, u32) cell" where
  [code_defs]: "tcb_tcb = field 0 tb_tcb tb_tcb_update"

definition tcb_self :: "('s, tcbhead) cell \<Rightarrow> ('s, mport) cell" where
  [code_defs]: "tcb_self = field 8 tb_self tb_self_update"

definition tcb_thrdesc :: "('s, tcbhead) cell \<Rightarrow> ('s, u32) cell" where
  [code_defs]: "tcb_thrdesc = field 32 tb_thrdesc tb_thrdesc_update"

definition tcb_reply_port :: "('s, tcbhead) cell \<Rightarrow> ('s, mport) cell" where
  [code_defs]: "tcb_reply_port = field 56 tb_reply_port tb_reply_port_update"

lemma tcb_sel [simp]:
  "c_get (tcb_tcb c) s = tb_tcb (c_get c s)" "c_put (tcb_tcb c) v s = c_put c ((c_get c s)\<lparr>tb_tcb := v\<rparr>) s"
  "c_put (tcb_self c) p s = c_put c ((c_get c s)\<lparr>tb_self := p\<rparr>) s"
  "c_get (tcb_thrdesc c) s = tb_thrdesc (c_get c s)"
  "c_put (tcb_thrdesc c) v s = c_put c ((c_get c s)\<lparr>tb_thrdesc := v\<rparr>) s"
  "c_put (tcb_reply_port c) p s = c_put c ((c_get c s)\<lparr>tb_reply_port := p\<rparr>) s"
  by (simp_all add: tcb_tcb_def tcb_self_def tcb_thrdesc_def tcb_reply_port_def)

type_synonym 's tcbs = "u32 \<Rightarrow> ('s, tcbhead) cell"

definition GET_TCB :: "'s tcbs \<Rightarrow> u32 \<Rightarrow> ('s, u32) prog" where
  [code_defs]: "GET_TCB tcbs gs = load (tcb_tcb (tcbs gs))"

definition PTHREAD_SELF :: "'s tcbs \<Rightarrow> u32 \<Rightarrow> ('s, u32) prog" where
  [code_defs]: "PTHREAD_SELF tcbs gs = load (tcb_thrdesc (tcbs gs))"

definition SETUP_TCB :: "'s tcbs \<Rightarrow> u32 \<Rightarrow> u32 \<Rightarrow> mport \<Rightarrow> ('s, unit) prog" where
  [code_defs]: "SETUP_TCB tcbs tcbp pt ktid =
    bind (store (tcb_tcb (tcbs tcbp)) tcbp) (\<lambda>_.
    bind (store (tcb_self (tcbs tcbp)) ktid) (\<lambda>_.
    store (tcb_thrdesc (tcbs tcbp)) pt))"

definition CLEAR_TCB :: "'s tcbs \<Rightarrow> u32 \<Rightarrow> ('s, unit) prog" where
  [code_defs]: "CLEAR_TCB tcbs tcbp = store (tcb_reply_port (tcbs tcbp)) MACH_PORT_NULL"

subsection \<open>Initialisation\<close>

text \<open>
  \<open>pt\<close> is the descriptor of the main thread, in zeroed memory, \<open>stack_end\<close> is \<open>__libc_stack_end\<close>, and \<open>infinity\<close> the value
  of \<open>RLIM_INFINITY\<close>; \<open>getrlimit\<close> answers the limit in \<open>r_val\<close>.
\<close>

definition pthread_initialize :: "'s rtl \<Rightarrow> 's tcbs \<Rightarrow> u32 \<Rightarrow> u32 \<Rightarrow> u32 \<Rightarrow> u32 \<Rightarrow> ('s, unit) prog" where
  [code_defs]: "pthread_initialize g tcbs gs infinity stack_end pt =
    (let d = g_desc g pt in
     bind (Act (\<lambda>s. c_put (g_links g) (hurd_list_init (g_running g) (c_get (g_links g) s)) s) (\<lambda>_. Ret ())) (\<lambda>_.
     bind (Act (\<lambda>s. c_put (g_links g) (hurd_list_add_head (g_running g) (pt_link pt) (c_get (g_links g) s)) s)
       (\<lambda>_. Ret ())) (\<lambda>_.
     bind (store (g_id_counter g) 1) (\<lambda>_.
     bind (store (pth_id d) 1) (\<lambda>_.
     bind (store (g_total g) 1) (\<lambda>_.
     bind (sys (Lib ''mach_thread_self'' [])) (\<lambda>r.
     let self = r_port r in
     bind (GET_TCB tcbs gs) (\<lambda>tcb.
     bind (store (pth_tcb d) tcb) (\<lambda>_.
     bind (load (pth_tcb d)) (\<lambda>tcb.
     bind (SETUP_TCB tcbs tcb pt self) (\<lambda>_.
     bind (store (pth_kport d) self) (\<lambda>_.
     bind (load (pth_flags d)) (\<lambda>flags.
     bind (store (pth_flags d) (flags OR (PT_FLG_USR_STACK OR PT_FLG_MAIN_THREAD))) (\<lambda>_.
     bind (sys (Lib ''getrlimit'' [])) (\<lambda>r.
     let lim = dfl_stacksize (if r_code r < 0 \<or> r_val r = infinity then None else Some (r_val r)) in
     bind (load (g_dfl_attr g)) (\<lambda>a.
     bind (store (g_dfl_attr g) (a\<lparr>at_stacksize := lim, at_guardsize := 0,
       at_flags := PTHREAD_CREATE_JOINABLE OR PTHREAD_INHERIT_SCHED, at_sched := (at_sched a)\<lparr>sa_policy := SCHED_OTHER\<rparr>\<rparr>)) (\<lambda>_.
     bind (store (pth_stacksize d) lim) (\<lambda>_.
     bind (store (pth_stack d) (stack_end - lim)) (\<lambda>_.
     bind (sys (Lib ''mig_init'' [Word 1])) (\<lambda>_. Ret ()))))))))))))))))))))"

subsection \<open>The state after it\<close>

text \<open>The state of the library together with the control blocks.\<close>

definition start_rtl :: "(life_world \<times> (u32 \<Rightarrow> tcbhead)) rtl" where
  "start_rtl = \<lparr>g_desc = (\<lambda>pt. through fst_cell (g_desc lw_rtl pt)),
    g_tsd = (\<lambda>pt. let m = g_tsd lw_rtl pt in
      \<lparr>td_keys = (\<lambda>i. through fst_cell (td_keys m i)), td_entry = (\<lambda>a. through fst_cell (td_entry m a)),
       td_blk1 = td_blk1 m, td_specific = (\<lambda>i. through fst_cell (td_specific m i)), td_used = through fst_cell (td_used m)\<rparr>),
    g_links = through fst_cell (g_links lw_rtl), g_running = g_running lw_rtl,
    g_running_lock = through fst_cell (g_running_lock lw_rtl), g_id_counter = through fst_cell (g_id_counter lw_rtl),
    g_total = through fst_cell (g_total lw_rtl), g_mtflag = through fst_cell (g_mtflag lw_rtl),
    g_tls_list = through fst_cell (g_tls_list lw_rtl), g_tcb_next = (\<lambda>a. through fst_cell (g_tcb_next lw_rtl a)),
    g_dfl_attr = through fst_cell (g_dfl_attr lw_rtl)\<rparr>"

definition start_tcbs :: "(life_world \<times> (u32 \<Rightarrow> tcbhead)) tcbs" where
  "start_tcbs a = \<lparr>c_addr = a, c_get = (\<lambda>s. snd s a), c_put = (\<lambda>v s. (fst s, (snd s)(a := v)))\<rparr>"

lemma start_sel [simp]:
  "c_get (start_tcbs a) s = snd s a" "c_put (start_tcbs a) v s = (fst s, (snd s)(a := v))"
  "g_desc start_rtl = (\<lambda>pt. through fst_cell (g_desc lw_rtl pt))"
  "g_links start_rtl = through fst_cell (g_links lw_rtl)" "g_running start_rtl = g_running lw_rtl"
  "g_id_counter start_rtl = through fst_cell (g_id_counter lw_rtl)"
  "g_total start_rtl = through fst_cell (g_total lw_rtl)"
  "g_dfl_attr start_rtl = through fst_cell (g_dfl_attr lw_rtl)"
  by (simp_all add: start_tcbs_def start_rtl_def)

text \<open>
  C39. After the initialisation in zeroed memory the main thread is the one that runs: it is alone in the list and counted, its id is 1, a thread
  asks for itself and gets it; its stack is never freed and reaches down from the end of the stack by
  the limit; and the default attributes are those of \<open>pthread_attr_init\<close> for this limit.
\<close>

theorem initialize_state:
  assumes "tb_tcb (tcbs gs) = gs" and "lw_desc s pt = pthread0" and "pt_link pt \<noteq> g_running lw_rtl"
    and "lw_dfl s = \<lparr>at_stack = 0, at_stacksize = 0, at_guardsize = 0, at_flags = 0, at_sched = \<lparr>sa_policy = 0, sa_data = 0\<rparr>\<rparr>"
  shows "\<exists>s' tcbs' l. exec (\<lambda>_ s. s) (bind (pthread_initialize start_rtl start_tcbs gs infinity stack_end pt)
        (\<lambda>_. PTHREAD_SELF start_tcbs gs)) [reply0\<lparr>r_port := self\<rparr>, reply0\<lparr>r_val := lim\<rparr>, reply0] (s, tcbs) [] =
      Some (pt, (s', tcbs'), [], l) \<and>
    is_list (lw_links s') (g_running lw_rtl) [pt_link pt] \<and> lw_counter s' = 1 \<and> lw_total s' = 1 \<and>
    lw_dfl s' = pthread_dfl_attr (if lim = infinity then None else Some lim) \<and>
    (let d = lw_desc s' pt; sz = at_stacksize (lw_dfl s') in pt_id d = 1 \<and> pt_tcb d = gs \<and> ss_thread (pt_sig d) = self \<and>
      pt_flags d = PT_FLG_USR_STACK OR PT_FLG_MAIN_THREAD \<and> pt_stacksize d = sz \<and> pt_stack d = stack_end - sz)"
proof -
  have "is_list (hurd_list_add_head (g_running lw_rtl) (pt_link pt) (hurd_list_init (g_running lw_rtl) h)) (g_running lw_rtl) [pt_link pt]" for h
    by (rule is_list_add_head [OF is_list_init]) (use assms(3) in simp)
  then show ?thesis
    using assms
    by (simp add: code_defs atomic_defs loop_def Let_def pthread_dfl_attr_def cong: lazy_cong)
qed

lemma initialize_state_witness:
  "\<exists>s' tcbs' l. exec (\<lambda>_ s. s) (bind (pthread_initialize start_rtl start_tcbs 64 0xFFFFFFFF 0xC0000000 4096)
      (\<lambda>_. PTHREAD_SELF start_tcbs 64)) [reply0\<lparr>r_port := MachPort 7\<rparr>, reply0\<lparr>r_val := 0xFFFFFFFF\<rparr>, reply0]
      (undefined\<lparr>lw_desc := \<lambda>_. pthread0, lw_dfl := \<lparr>at_stack = 0, at_stacksize = 0, at_guardsize = 0, at_flags = 0,
        at_sched = \<lparr>sa_policy = 0, sa_data = 0\<rparr>\<rparr>\<rparr>, \<lambda>_. undefined\<lparr>tb_tcb := 64\<rparr>) [] = Some (4096, (s', tcbs'), [], l) \<and>
    at_stacksize (lw_dfl s') = 2 * 1024 * 1024"
proof -
  let ?t = "\<lambda>_ :: u32. undefined\<lparr>tb_tcb := 64\<rparr> :: tcbhead" and ?s = "undefined\<lparr>lw_desc := \<lambda>_. pthread0, lw_dfl := \<lparr>at_stack = 0, at_stacksize = 0, at_guardsize = 0, at_flags = 0,
        at_sched = \<lparr>sa_policy = 0, sa_data = 0\<rparr>\<rparr>\<rparr> :: life_world"
  have "tb_tcb (?t 64) = 64" "lw_desc ?s 4096 = pthread0"
    "pt_link 4096 \<noteq> g_running lw_rtl" "lw_dfl ?s = \<lparr>at_stack = 0, at_stacksize = 0, at_guardsize = 0, at_flags = 0,
        at_sched = \<lparr>sa_policy = 0, sa_data = 0\<rparr>\<rparr>" by (simp_all add: pt_link_def)
  from initialize_state [of ?t 64 ?s 4096 "0xFFFFFFFF" "0xC0000000" "MachPort 7" "0xFFFFFFFF", OF this]
  show ?thesis by (auto simp: pthread_dfl_attr_def dfl_stacksize_def)
qed

end
