(* ===== verification/Misc.thy ===== *)
theory Misc
  imports Startup
begin

text \<open>
  \<open>pthread/misc.c\<close>, the extensions of \<open>pthread/np.c\<close>, and \<open>pthread/signal.c\<close>. The functions that ask for the calling
  thread are given the thread control blocks or its descriptor.
\<close>

subsection \<open>Small functions\<close>

definition pthread_self :: "'s tcbs \<Rightarrow> u32 \<Rightarrow> ('s, u32) prog" where
  [code_defs]: "pthread_self tcbs gs = PTHREAD_SELF tcbs gs"

definition pthread_equal :: "u32 \<Rightarrow> u32 \<Rightarrow> bool" where
  "pthread_equal t1 t2 \<longleftrightarrow> t1 = t2"

text \<open>The address of the head of the cleanup handlers.\<close>

definition pthread_cleanup_list :: "'s rtl \<Rightarrow> 's tcbs \<Rightarrow> u32 \<Rightarrow> ('s, u32) prog" where
  [code_defs]: "pthread_cleanup_list g tcbs gs =
    bind (PTHREAD_SELF tcbs gs) (\<lambda>pt. Ret (c_addr (pth_cleanup (g_desc g pt))))"

definition pthread_setconcurrency :: "('s, int) cell \<Rightarrow> int \<Rightarrow> ('s, ret) prog" where
  [code_defs]: "pthread_setconcurrency concurrency lvl =
    (if lvl < 0 then Ret (Err EINVAL) else bind (store concurrency lvl) (\<lambda>_. Ret OK))"

definition pthread_getconcurrency :: "('s, int) cell \<Rightarrow> ('s, int) prog" where
  [code_defs]: "pthread_getconcurrency concurrency = load concurrency"

definition pthread_setschedparam :: "u32 \<Rightarrow> u32 \<Rightarrow> ret" where
  "pthread_setschedparam th parmp = Err ENOSYS"

definition pthread_getschedparam :: "u32 \<Rightarrow> u32 \<Rightarrow> ret" where
  "pthread_getschedparam th parmp = Err ENOSYS"

definition pthread_setschedprio :: "u32 \<Rightarrow> int \<Rightarrow> ret" where
  "pthread_setschedprio th prio = Err ENOSYS"

definition pthread_yield :: "('s, unit) prog" where
  [code_defs]: "pthread_yield = bind (sys (Lib ''sched_yield'' [])) (\<lambda>_. Ret ())"

subsection \<open>Extensions\<close>

definition pthread_kport_np :: "('s, pthread) cell \<Rightarrow> ('s, mport) prog" where
  [code_defs]: "pthread_kport_np pt =
    bind (INVALID_P pt) (\<lambda>invalid. if invalid then Ret MACH_PORT_NULL else load (pth_kport pt))"

definition pthread_sigstate_np :: "('s, pthread) cell \<Rightarrow> ('s, u32) prog" where
  [code_defs]: "pthread_sigstate_np pt =
    bind (INVALID_P pt) (\<lambda>invalid. if invalid then Ret 0 else load (pth_sigstate pt))"

definition pthread_gettid_np :: "('s, pthread) cell \<Rightarrow> ('s, ret \<times> u32) prog" where
  [code_defs]: "pthread_gettid_np pt =
    bind (INVALID_P pt) (\<lambda>invalid.
    if invalid then Ret (Err ESRCH, 0) else bind (load (pth_id pt)) (\<lambda>id. Ret (OK, id)))"

definition pthread_suspend_np :: "('s, pthread) cell \<Rightarrow> ('s, pthread) cell \<Rightarrow> ('s, ret) prog" where
  [code_defs]: "pthread_suspend_np self pt =
    bind (pthread_kport_np pt) (\<lambda>kport.
    if kport = MACH_PORT_NULL then Ret (Err ESRCH)
    else
      bind (load (pth_kport self)) (\<lambda>own.
      if kport = own then Ret (Err EINVAL)
      else
        bind (sys (Lib ''thread_suspend'' [Port kport])) (\<lambda>r.
        if r_code r \<noteq> 0 then Ret (Err EINVAL)
        else
          bind (sys (Lib ''thread_abort'' [Port kport])) (\<lambda>r.
          if r_code r \<noteq> 0 then bind (sys (Lib ''thread_resume'' [Port kport])) (\<lambda>_. Ret (Err EINVAL))
          else Ret OK))))"

definition pthread_resume_np :: "('s, pthread) cell \<Rightarrow> ('s, ret) prog" where
  [code_defs]: "pthread_resume_np pt =
    bind (pthread_kport_np pt) (\<lambda>kport.
    if kport = MACH_PORT_NULL then Ret (Err ESRCH)
    else bind (sys (Lib ''thread_resume'' [Port kport])) (\<lambda>r. Ret (if r_code r \<noteq> 0 then Err ESRCH else OK)))"

text \<open>
  The function is user code and is called with every running thread, and with an argument that is the same for all calls and is left out
  here. It answers in \<open>r_code\<close>, or ends the calling thread (\<open>r_cancelled\<close>). The lock is released in a cleanup handler.
\<close>

definition visit_loop :: "'s rtl \<Rightarrow> u32 \<Rightarrow> u32 \<times> int \<Rightarrow> ('s, int unwinding) prog" where
  [code_defs]: "visit_loop g fp = loop (\<lambda>(runp, ret).
     if runp = g_running g then leave (Value ret)
     else
       bind (sys (Callback fp (runp - 4))) (\<lambda>r.
       if r_cancelled r then leave Exits
       else if r_code r < 0 then leave (Value (r_code r))
       else bind (load (g_links g)) (\<lambda>h. again (l_next (h runp), r_code r))))"

definition pthread_foreach_np :: "'s rtl \<Rightarrow> ('s, pthread) cell \<Rightarrow> u32 \<Rightarrow> ('s, int unwinding) prog" where
  [code_defs]: "pthread_foreach_np g self fp =
    bind (lll_lock (g_running_lock g) 0) (\<lambda>_.
    with_cleanup (lll_unlock (g_running_lock g) 0) (\<lambda>_. True)
      (bind (cancelpoint_begin self) (\<lambda>b. case b of
         Exits \<Rightarrow> Ret Exits
       | Value prev \<Rightarrow>
           bind (load (g_links g)) (\<lambda>h.
           bind (visit_loop g fp (l_next (h (g_running g)), 0)) (\<lambda>r.
           case r of
             Exits \<Rightarrow> Ret Exits
           | Value ret \<Rightarrow> bind (cancelpoint_end self prev) (\<lambda>_. Ret (Value ret)))))))"

subsection \<open>Signals\<close>

abbreviation (input) SIG_BLOCK :: int where "SIG_BLOCK \<equiv> 1"
abbreviation (input) SIG_UNBLOCK :: int where "SIG_UNBLOCK \<equiv> 2"
abbreviation (input) SIG_SETMASK :: int where "SIG_SETMASK \<equiv> 3"

text \<open>\<open>SIGKILL\<close> and \<open>SIGSTOP\<close>, as bits of a signal set.\<close>

abbreviation (input) SIG_CANT_MASK :: u32 where "SIG_CANT_MASK \<equiv> 0x10100"

definition pthread_kill :: "('s, pthread) cell \<Rightarrow> u32 \<Rightarrow> ('s, ret) prog" where
  [code_defs]: "pthread_kill pt sig =
    bind (INVALID_P pt) (\<lambda>invalid.
    if invalid then Ret (Err ESRCH)
    else
      bind (load (pth_sigstate pt)) (\<lambda>stp.
      bind (sys (Lib ''__spin_lock'' [Word stp])) (\<lambda>_.
      bind (load (pth_sigstate pt)) (\<lambda>stp.
      bind (sys (Lib ''_hurd_raise_signal'' [Word stp, Word sig, Word 0, Word sig, Word 0])) (\<lambda>_. Ret OK)))))"

text \<open>
  The result and what is stored through \<open>prevp\<close>. \<open>blocked stp\<close> is the set of blocked signals in the signal state at
  \<open>stp\<close>, and \<open>cant_mask\<close> the signals that cannot be masked. \<open>sigemptyset\<close> empties the set of pending signals that the code means to
  test, and answers 0.
\<close>

definition sigemptyset :: "u32 \<Rightarrow> int \<times> u32" where
  "sigemptyset _ = (0, 0)"

definition pthread_sigmask :: "(u32 \<Rightarrow> ('s, u32) cell) \<Rightarrow> u32 \<Rightarrow> int \<Rightarrow> u32 option \<Rightarrow> ('s, ret \<times> u32) prog" where
  [code_defs]: "pthread_sigmask blocked cant_mask how setp =
    bind (sys (Lib ''_hurd_self_sigstate'' [])) (\<lambda>r.
    let stp = r_val r;
        unlock = bind (sys (Lib ''_hurd_sigstate_unlock'' [Word stp])) (\<lambda>_. Ret ()) in
    bind (sys (Lib ''_hurd_sigstate_lock'' [Word stp])) (\<lambda>_.
    bind (load (blocked stp)) (\<lambda>prev.
    case setp of
      None \<Rightarrow> bind unlock (\<lambda>_. Ret (OK, prev))
    | Some sg \<Rightarrow>
        bind (if how = SIG_BLOCK then
                bind (load (blocked stp)) (\<lambda>b. bind (store (blocked stp) (b OR sg)) (\<lambda>_. Ret True))
              else if how = SIG_SETMASK then bind (store (blocked stp) sg) (\<lambda>_. Ret True)
              else if how = SIG_UNBLOCK then
                bind (load (blocked stp)) (\<lambda>b. bind (store (blocked stp) (b AND NOT sg)) (\<lambda>_. Ret True))
              else Ret False) (\<lambda>ok.
        if \<not> ok then bind unlock (\<lambda>_. Ret (Err EINVAL, prev))
        else
          bind (load (blocked stp)) (\<lambda>b.
          bind (store (blocked stp) (b AND NOT cant_mask)) (\<lambda>_.
          bind (sys (Lib ''_hurd_sigstate_pending'' [Word stp])) (\<lambda>r.
          bind (load (blocked stp)) (\<lambda>b.
          let pending = r_val r AND NOT b in
          bind unlock (\<lambda>_.
          if how \<noteq> SIG_BLOCK \<and> fst (sigemptyset pending) = 0 then
            bind (sys (Lib ''__msg_sig_post'' [Word 0, Word 0, Port MachTaskSelf])) (\<lambda>_. Ret (OK, prev))
          else Ret (OK, prev))))))))))"

subsection \<open>Properties\<close>

text \<open>The set that the manual of \<open>sigprocmask\<close> asks for.\<close>

definition new_mask :: "int \<Rightarrow> u32 \<Rightarrow> u32 \<Rightarrow> u32 option" where
  "new_mask how b sg =
    (if how = SIG_BLOCK then Some (b OR sg) else if how = SIG_UNBLOCK then Some (b AND NOT sg)
     else if how = SIG_SETMASK then Some sg else None)"

text \<open>
  \<open>pthread_sigmask\<close> changes the set as asked, but for the signals that cannot be masked, hands out the old one, and holds
  the lock of the signal state only within; it leaves everything as it is if there is no new set or \<open>how\<close> is invalid.
  However, it posts to the signal thread whenever a new set may have unblocked a signal, even if none is pending.
\<close>

theorem sigmask_run:
  "\<exists>rs l. exec (\<lambda>_ s. s) (pthread_sigmask (\<lambda>_. whole 0) cant how setp)
      [reply0\<lparr>r_val := stp\<rparr>, reply0, reply0\<lparr>r_val := pending\<rparr>, reply0, reply0] b [] =
    Some ((if \<exists>sg. setp = Some sg \<and> new_mask how b sg = None then Err EINVAL else OK, b),
      (case Option.bind setp (new_mask how b) of None \<Rightarrow> b | Some m \<Rightarrow> m AND NOT cant), rs,
      Lib ''_hurd_self_sigstate'' [] # Lib ''_hurd_sigstate_lock'' [Word stp] # l) \<and>
    set l = {Lib ''_hurd_sigstate_unlock'' [Word stp]} \<union>
      (if Option.bind setp (new_mask how b) = None then {} else {Lib ''_hurd_sigstate_pending'' [Word stp]}) \<union>
      (if setp \<noteq> None \<and> how \<in> {SIG_UNBLOCK, SIG_SETMASK} then {Lib ''__msg_sig_post'' [Word 0, Word 0, Port MachTaskSelf]} else {})"
  by (cases setp) (auto simp: pthread_sigmask_def new_mask_def sigemptyset_def Let_def runs sys_def)

text \<open>The results up to the first negative one.\<close>

fun upto_negative :: "int list \<Rightarrow> int list" where
  "upto_negative [] = []"
| "upto_negative (n # ns) = (if n < 0 then [n] else n # upto_negative ns)"

lemma exec_visit:
  "exec M (visit_loop lw_rtl fp (128, ret)) rs s l = Some (Value ret, s, rs, l)"
  "n \<noteq> 128 \<Longrightarrow> exec (\<lambda>_ s. s) (visit_loop lw_rtl fp (n, ret)) (reply0\<lparr>r_code := m\<rparr> # rs) s l =
    (if m < 0 then Some (Value m, s, rs, l @ [Callback fp (n - 4)])
     else exec (\<lambda>_ s. s) (visit_loop lw_rtl fp (l_next (lw_links s n), m)) rs s (l @ [Callback fp (n - 4)]))"
  unfolding visit_loop_def
  by (auto simp: runs sys_def intro!: exec_loop_leave exec_loop_again)

lemma exec_visit_loop:
  assumes "linked (lw_links s) (xs @ [128])" and "128 \<notin> set xs" and "length ns = length xs" and "n = hd (xs @ [128])"
  shows "exec (\<lambda>_ s. s) (visit_loop lw_rtl fp (n, ret)) (map (\<lambda>n. reply0\<lparr>r_code := n\<rparr>) ns) s l =
    Some (Value (last (ret # upto_negative ns)), s, map (\<lambda>n. reply0\<lparr>r_code := n\<rparr>) (drop (length (upto_negative ns)) ns),
      l @ map (\<lambda>n. Callback fp (n - 4)) (take (length (upto_negative ns)) xs))"
  using assms
proof (induction xs arbitrary: ns n ret l)
  case Nil
  then show ?case by (simp add: exec_visit)
next
  case (Cons x xs)
  obtain m ms where ns: "ns = m # ms" "length ms = length xs" using Cons.prems(3) by (cases ns) auto
  have h: "linked (lw_links s) (xs @ [128])" "l_next (lw_links s x) = hd (xs @ [128])"
    using Cons.prems(1) by (cases xs; simp)+
  have x: "x \<noteq> 128" "128 \<notin> set xs" using Cons.prems(2) by auto
  note IH = Cons.IH [OF h(1) x(2) ns(2) refl, of m "l @ [Callback fp (x - 4)]"]
  show ?case
    using IH Cons.prems(4) x(1) ns(1) h(2)
    by (auto simp: exec_visit(2))
qed

definition protected :: "u32 \<Rightarrow> life_world \<Rightarrow> life_world" where
  "protected self s = s\<lparr>lw_desc := (lw_desc s)(self := (lw_desc s self)
    \<lparr>pt_sig := (pt_sig (lw_desc s self))\<lparr>ss_intr_port := MACH_PORT_DEAD\<rparr>,
     pt_flags := PT_FLG_CANCEL_ASYNC OR PT_FLG_CANCEL_TRANS\<rparr>)\<rparr>"

lemma protected_simps [simp]:
  "lw_links (protected self s) = lw_links s" "lw_lock (protected self s) = lw_lock s"
  "pt_flags (lw_desc (protected self s) self) = PT_FLG_CANCEL_ASYNC OR PT_FLG_CANCEL_TRANS"
  by (simp_all add: protected_def)

lemma exec_cancelpoint_begin:
  "pt_flags (lw_desc s self) = 0 \<Longrightarrow>
    exec M (bind (cancelpoint_begin (desc self)) f) rs s l = exec M (f (Value True)) rs (protected self s) l"
  by (simp add: cancelpoint_begin_def code_defs atomic_defs loop_def Let_def protected_def CANCELLED_ENABLED_ASYNC_P_def cong: lazy_cong)

text \<open>
  \<open>pthread_foreach_np\<close> calls the function with the descriptors of the running threads in the order of the list, each once, until
  one call answers a negative number, and returns what the last call answered, or 0. It leaves the list as it is, and gives the lock back.
\<close>

theorem foreach_order:
  assumes "is_list (lw_links s) (g_running lw_rtl) xs" and "lw_lock s = 0" and "pt_flags (lw_desc s self) = 0"
    and "length ns = length xs"
  shows "\<exists>s' rs. exec (\<lambda>_ s. s) (pthread_foreach_np lw_rtl (desc self) fp) (map (\<lambda>n. reply0\<lparr>r_code := n\<rparr>) ns) s [] =
      Some (Value (last (0 # upto_negative ns)), s', rs,
        map (\<lambda>n. Callback fp (n - 4)) (take (length (upto_negative ns)) xs)) \<and>
    lw_links s' = lw_links s \<and> lw_lock s' = 0 \<and> pt_flags (lw_desc s' self) = 0"
proof -
  have l: "linked (lw_links s) (xs @ [128])" "128 \<notin> set xs" "l_next (lw_links s 128) = hd (xs @ [128])"
    using assms(1) by (cases xs; simp add: is_list_def)+
  then have v: "lw_links s' = lw_links s \<Longrightarrow> exec (\<lambda>_ s. s) (bind (visit_loop lw_rtl fp (hd (xs @ [128]), 0)) f)
      (map (\<lambda>n. reply0\<lparr>r_code := n\<rparr>) ns) s' [] =
    exec (\<lambda>_ s. s) (f (Value (last (0 # upto_negative ns)))) (map (\<lambda>n. reply0\<lparr>r_code := n\<rparr>) (drop (length (upto_negative ns)) ns)) s'
      (map (\<lambda>n. Callback fp (n - 4)) (take (length (upto_negative ns)) xs))" for s' and f :: "_ \<Rightarrow> (life_world, int unwinding) prog"
    using exec_bind [OF exec_visit_loop [of s' xs ns "hd (xs @ [128])" fp 0 "[]"], of f] assms(4) by simp
  show ?thesis
    using l(3) assms(2-3)
    by (simp add: pthread_foreach_np_def with_cleanup_def cancelpoint_end_def atomic_defs bind_assoc runs Let_def v
      exec_cancelpoint_begin exec_lll_unlock_one)
qed

text \<open>Two threads run; the function answers 5 for the first and -1 for the second.\<close>

lemma foreach_order_witness:
  "\<exists>s' rs. exec (\<lambda>_ s. s) (pthread_foreach_np lw_rtl (desc 4096) 32) [reply0\<lparr>r_code := 5\<rparr>, reply0\<lparr>r_code := -1\<rparr>]
      (life0\<lparr>lw_links := hurd_list_add_head 128 2004 (hurd_list_add_head 128 1004 (hurd_list_init 128 (lw_links life0))),
        lw_lock := 0, lw_desc := \<lambda>_. pthread0\<rparr>) [] =
    Some (Value (-1), s', rs, [Callback 32 2000, Callback 32 1000])"
proof -
  let ?h = "hurd_list_add_head 128 2004 (hurd_list_add_head 128 1004 (hurd_list_init 128 (lw_links life0)))"
  let ?s = "life0\<lparr>lw_links := ?h, lw_lock := 0, lw_desc := \<lambda>_. pthread0\<rparr>"
  have "is_list (lw_links ?s) (g_running lw_rtl) [2004, 1004]"
    using is_list_add_head [OF is_list_add_head [OF is_list_init]] by simp
  from foreach_order [OF this, of 4096 "[5, -1]" 32] show ?thesis by (auto simp: pthread0_def)
qed

end
