(* ===== verification/Served.thy ===== *)
theory Served
  imports Atomic
begin

text \<open>
  Calls that are served by programs. The semantics of interleavings lets the kernel answer every call at once and
  with anything. To ask who sleeps, the calls of a program are replaced by what the kernel does for them.
\<close>

lemma iter_bind: "iter b (bind p f) = bind p (\<lambda>a. iter b (f a))"
proof (coinduction arbitrary: p rule: prog.coinduct_strong)
  case Eq_prog
  show ?case by (cases p) (auto simp: rel_fun_def)
qed

definition serve_step :: "(kcall \<Rightarrow> ('s, reply) prog) \<Rightarrow> ('s, 'a) prog \<Rightarrow> ('s, ('s, 'a) prog + 'a) prog" where
  "serve_step H p = (case p of
     Ret a \<Rightarrow> leave a
   | Tau q \<Rightarrow> again q
   | Act u k \<Rightarrow> Act u (\<lambda>s. again (k s))
   | Sys c k \<Rightarrow> bind (H c) (\<lambda>r. again (k r)))"

definition served :: "(kcall \<Rightarrow> ('s, reply) prog) \<Rightarrow> ('s, 'a) prog \<Rightarrow> ('s, 'a) prog" where
  "served H p = loop (serve_step H) p"

lemma served_simps [simp]:
  "served H (Ret a) = Ret a"
  "served H (Tau p) = Tau (served H p)"
  "served H (Act u k) = Act u (\<lambda>s. Tau (served H (k s)))"
  "served H (Sys c h) = bind (H c) (\<lambda>r. Tau (served H (h r)))"
  by (simp_all add: served_def loop_def serve_step_def iter_bind)

lemma served_if [simp]: "served H (if b then p else q) = (if b then served H p else served H q)"
  by simp

lemma served_sys [simp]: "served H (sys c) = bind (H c) (\<lambda>r. Tau (Ret r))"
  by (simp add: sys_def)

text \<open>Two families of programs are equal when they have a common beginning, after which they are at two members again.\<close>

lemma prog_eq_upto:
  fixes F G :: "'p \<Rightarrow> ('s, 'a) prog"
  assumes step: "\<And>p. F p = G p \<or> (\<exists>m. (\<forall>a. m \<noteq> Ret a) \<and> F p = bind m F \<and> G p = bind m G)"
  shows "F p = G p"
proof -
  have "bind m F = bind m G" for m
  proof (coinduction arbitrary: m rule: prog.coinduct_strong)
    case Eq_prog
    show ?case
    proof (cases m)
      case (Ret p)
      consider "F p = G p" | m' where "\<forall>a. m' \<noteq> Ret a" "F p = bind m' F" "G p = bind m' G" using step by blast
      then show ?thesis
      proof cases
        case 1
        with Ret show ?thesis by (cases "G p") (auto simp: rel_fun_def)
      next
        case 2
        with Ret show ?thesis by (cases m') (auto simp: rel_fun_def)
      qed
    qed (auto simp: rel_fun_def)
  qed
  from this [of "Ret p"] show ?thesis by simp
qed

lemma served_bind: "served H (bind p f) = bind (served H p) (\<lambda>a. served H (f a))"
proof (rule prog_eq_upto [where p = p])
  fix p
  show "served H (bind p f) = bind (served H p) (\<lambda>a. served H (f a)) \<or>
    (\<exists>m. (\<forall>a. m \<noteq> Ret a) \<and> served H (bind p f) = bind m (\<lambda>p. served H (bind p f)) \<and>
      bind (served H p) (\<lambda>a. served H (f a)) = bind m (\<lambda>p. bind (served H p) (\<lambda>a. served H (f a))))"
  proof (cases p)
    case (Tau q)
    then show ?thesis by (intro disjI2 exI [of _ "Tau (Ret q)"]) simp
  next
    case (Act u k)
    then show ?thesis by (intro disjI2 exI [of _ "Act u (\<lambda>s. Tau (Ret (k s)))"]) simp
  next
    case (Sys c k)
    have "bind (H c) (\<lambda>r. Tau (Ret (k r))) \<noteq> Ret a" for a by (cases "H c") auto
    with Sys show ?thesis by (intro disjI2 exI [of _ "bind (H c) (\<lambda>r. Tau (Ret (k r)))"]) (simp add: bind_assoc)
  qed simp
qed

lemma served_loop: "served H (loop b x) = loop (\<lambda>x. served H (b x)) x"
proof -
  have "served H (iter b p) = iter (\<lambda>x. served H (b x)) (served H p)" for p
  proof (rule prog_eq_upto [where p = p])
    fix p
    show "served H (iter b p) = iter (\<lambda>x. served H (b x)) (served H p) \<or>
      (\<exists>m. (\<forall>a. m \<noteq> Ret a) \<and> served H (iter b p) = bind m (\<lambda>p. served H (iter b p)) \<and>
        iter (\<lambda>x. served H (b x)) (served H p) = bind m (\<lambda>p. iter (\<lambda>x. served H (b x)) (served H p)))"
    proof (cases p)
      case (Ret r)
      show ?thesis
      proof (cases r)
        case (Inl y)
        with Ret show ?thesis by (intro disjI2 exI [of _ "Tau (Ret (b y))"]) (simp add: loop_def)
      qed (use Ret in simp)
    next
      case (Tau q)
      then show ?thesis by (intro disjI2 exI [of _ "Tau (Ret q)"]) simp
    next
      case (Act u k)
      then show ?thesis by (intro disjI2 exI [of _ "Act u (\<lambda>s. Tau (Ret (k s)))"]) simp
    next
      case (Sys c k)
      have "bind (H c) (\<lambda>r. Tau (Ret (k r))) \<noteq> Ret a" for a by (cases "H c") auto
      with Sys show ?thesis by (intro disjI2 exI [of _ "bind (H c) (\<lambda>r. Tau (Ret (k r)))"]) (simp add: bind_assoc iter_bind)
    qed
  qed
  then show ?thesis by (simp add: loop_def)
qed

subsection \<open>Programs without calls\<close>

coinductive callfree :: "('s, 'a) prog \<Rightarrow> bool" where
  callfree_Ret: "callfree (Ret a)"
| callfree_Tau: "callfree p \<Longrightarrow> callfree (Tau p)"
| callfree_Act: "(\<And>s. callfree (k s)) \<Longrightarrow> callfree (Act u k)"

inductive_simps callfree_simps [simp]:
  "callfree (Ret a)"
  "callfree (Tau p)"
  "callfree (Act u k)"
  "callfree (Sys c h)"

lemma callfree_bind:
  assumes "callfree p" and f: "\<And>a. callfree (f a)"
  shows "callfree (bind p f)"
proof (rule callfree.coinduct [where X = "\<lambda>q. (\<exists>p. q = bind p f \<and> callfree p) \<or> callfree q"])
  fix q assume "(\<exists>p. q = bind p f \<and> callfree p) \<or> callfree q"
  then show "(\<exists>a. q = Ret a) \<or> (\<exists>p. q = Tau p \<and> (((\<exists>p'. p = bind p' f \<and> callfree p') \<or> callfree p) \<or> callfree p)) \<or>
    (\<exists>k u. q = Act u k \<and> (\<forall>s. ((\<exists>p. k s = bind p f \<and> callfree p) \<or> callfree (k s)) \<or> callfree (k s)))"
  proof (elim disjE exE conjE)
    fix p assume q: "q = bind p f" "callfree p"
    show ?thesis
    proof (cases p)
      case (Ret a)
      with q f [of a] show ?thesis by (cases "f a") auto
    qed (use q in auto)
  next
    assume "callfree q"
    then show ?thesis by (cases q) auto
  qed
qed (use assms in blast)

lemma callfree_loop:
  assumes "\<And>x. callfree (b x)"
  shows "callfree (loop b x)"
proof -
  have "callfree (iter b p)" if "callfree p" for p
  proof (rule callfree.coinduct [where X = "\<lambda>q. \<exists>p. q = iter b p \<and> callfree p"])
    fix q assume "\<exists>p. q = iter b p \<and> callfree p"
    then obtain p where q: "q = iter b p" "callfree p" by blast
    show "(\<exists>a. q = Ret a) \<or> (\<exists>p. q = Tau p \<and> ((\<exists>p'. p = iter b p' \<and> callfree p') \<or> callfree p)) \<or>
      (\<exists>k u. q = Act u k \<and> (\<forall>s. (\<exists>p. k s = iter b p \<and> callfree p) \<or> callfree (k s)))"
    proof (cases p)
      case (Ret r)
      with q assms show ?thesis by (cases r) (auto simp: loop_def)
    qed (use q in auto)
  qed (use that in blast)
  then show ?thesis by (simp add: loop_def assms)
qed

named_theorems callfree \<open>programs without calls\<close>

lemma callfree_access [callfree]:
  "callfree (load c)" "callfree (store c v)" "callfree (atomic_load c)" "callfree (atomic_swap c v)"
  "callfree (atomic_cas_bool d e v)" "callfree (atomic_add w n)" "callfree (atomic_storex x q)"
  by (simp_all add: atomic_defs)

text \<open>Such a program is served as it is, but for silent steps.\<close>

lemma safe_served:
  assumes "safe A I M t Q g p" and "callfree p"
  shows "safe A I M t Q g (served H p)"
proof (rule safe_coinduct_step [where X = "\<lambda>g q. \<exists>p. (q = served H p \<or> q = Tau (served H p)) \<and> safe A I M t Q g p \<and> callfree p"])
  fix g q assume "\<exists>p. (q = served H p \<or> q = Tau (served H p)) \<and> safe A I M t Q g p \<and> callfree p"
  then obtain p where q: "q = served H p \<or> q = Tau (served H p)" and p: "safe A I M t Q g p" "callfree p" by blast
  let ?X = "\<lambda>g q. (\<exists>p. (q = served H p \<or> q = Tau (served H p)) \<and> safe A I M t Q g p \<and> callfree p) \<or> safe A I M t Q g q"
  show "safe_step A I M t Q ?X g q"
  proof (cases "q = Tau (served H p)")
    case True
    with p show ?thesis by auto
  next
    case False
    with q have q: "q = served H p" by simp
    show ?thesis
    proof (cases p)
      case (Act u k)
      with p have k: "callfree (k s)" for s by simp
      have "\<exists>g'. I (u s) (G(t := g')) \<and> ?X g' (Tau (served H (k s)))" if "I s G" "G t = g" for s G
        using p(1) that k [of s] unfolding Act safe_Act_iff by blast
      then show ?thesis by (simp add: q Act)
    next
      case (Tau p')
      with p show ?thesis by (auto simp: q)
    qed (use p in \<open>auto simp: q\<close>)
  qed
qed (use assms in blast)

text \<open>For evaluation: only the access that is next is served.\<close>

lemma lazy_served_cong: "p = p' \<Longrightarrow> served H p = served H p'"
  by simp

end
