(* ===== verification/Sleepers.thy ===== *)
theory Sleepers
  imports Served LowLevelLock Compose
begin

text \<open>
  Who sleeps, and who is woken. The kernel of the exclusion theorems may answer everything; here it does what the description of
  \<open>gsync\<close> says: a wait puts the thread to sleep if the word has the value given, in one step with the comparison, and answers success only to a
  thread that was woken; a wake takes one sleeper, or all of them. A wait may end early with another answer, such as a timeout, at any time.
\<close>

subsection \<open>Sleeping and waking\<close>

definition success :: "reply \<Rightarrow> bool" where
  "success r \<longleftrightarrow> r_code r = 0 \<and> r_head_id r = 4304 \<and> r_retcode r = 0"

text \<open>
  The state has the set of the threads that sleep in a queue, at \<open>q\<close>, beside the memory. The thread \<open>t\<close> goes to sleep in it if \<open>test\<close> holds.
\<close>

definition sleep :: "('w \<Rightarrow> bool) \<Rightarrow> ('w, 't set) cell \<Rightarrow> 't \<Rightarrow> kcall \<Rightarrow> ('w, reply) prog" where
  "sleep test q t call =
    bind (Act (\<lambda>w. if test w then c_put q (insert t (c_get q w)) w else w) (\<lambda>w. Ret (test w))) (\<lambda>asleep.
    if \<not> asleep then bind (sys call) (\<lambda>r. Ret (if success r then r\<lparr>r_retcode := 4\<rparr> else r))
    else loop (\<lambda>_.
      bind (sys call) (\<lambda>r.
      bind (Act (\<lambda>w. if success r \<or> t \<notin> c_get q w then w else c_put q (c_get q w - {t}) w) (\<lambda>w. Ret (t \<in> c_get q w))) (\<lambda>asleep.
      if \<not> asleep then leave (r\<lparr>r_code := 0, r_head_id := 4304, r_retcode := 0\<rparr>)
      else if \<not> success r then leave r
      else again ()))) ())"

text \<open>\<open>pick r Z\<close> is the sleeper that is woken, of any number of them; \<open>eff\<close> is the change of the memory that the call asks for.\<close>

definition rouse ::
  "('w \<Rightarrow> 'w) \<Rightarrow> ('w, 't set) cell \<Rightarrow> (reply \<Rightarrow> 't set \<Rightarrow> 't) \<Rightarrow> u32 \<Rightarrow> kcall \<Rightarrow> ('w, reply) prog" where
  "rouse eff q pick flags call =
    bind (sys call) (\<lambda>r.
    Act (\<lambda>w. c_put q (if flags AND GSYNC_BROADCAST \<noteq> 0 then {} else c_get q w - {pick r (c_get q w)}) (eff w)) (\<lambda>_. Ret r))"

text \<open>A kernel that lets the other calls pass.\<close>

definition passes :: "(kcall \<Rightarrow> ('w, reply) prog) \<Rightarrow> bool" where
  "passes K \<longleftrightarrow> (\<forall>p clk f x. K MigGetReplyPort = sys MigGetReplyPort \<and> K (MigDeallocReplyPort p) = sys (MigDeallocReplyPort p) \<and>
    K (MigPutReplyPort p) = sys (MigPutReplyPort p) \<and> K (ClockGettime clk) = sys (ClockGettime clk) \<and>
    K (Callback f x) = sys (Callback f x))"

lemma passes_simps:
  assumes "passes K"
  shows "K MigGetReplyPort = sys MigGetReplyPort" "K (MigDeallocReplyPort p) = sys (MigDeallocReplyPort p)"
    "K (MigPutReplyPort p) = sys (MigPutReplyPort p)" "K (ClockGettime clk) = sys (ClockGettime clk)"
    "K (Callback f x) = sys (Callback f x)"
  using assms by (simp_all add: passes_def)

subsection \<open>What the threads of a queue owe each other\<close>

text \<open>
  The contract between a protocol, with its invariant over the memory and the sets of sleepers, and the kernel: the ghost of a thread says
  that it is about to wait (\<open>away\<close>), in a wait (\<open>down\<close>), or back from one (\<open>up\<close>).
\<close>

locale queue_waiters =
  fixes I :: "'w \<Rightarrow> ('t \<Rightarrow> 'g) \<Rightarrow> bool" and test :: "'w \<Rightarrow> bool" and q :: "('w, 't set) cell"
    and away down up :: 'g
  assumes fall_asleep: "I w G \<Longrightarrow> G t = away \<Longrightarrow> test w \<Longrightarrow> I (c_put q (insert t (c_get q w)) w) (G(t := down))"
    and get_up: "I w G \<Longrightarrow> G t = down \<Longrightarrow> t \<notin> c_get q w \<Longrightarrow> I w (G(t := up))"
    and give_up: "I w G \<Longrightarrow> G t = down \<Longrightarrow> t \<in> c_get q w \<Longrightarrow> I (c_put q (c_get q w - {t}) w) (G(t := away))"
begin

abbreviation safely :: "'t \<Rightarrow> ('a \<Rightarrow> 'g \<Rightarrow> bool) \<Rightarrow> 'g \<Rightarrow> ('w, 'a) prog \<Rightarrow> bool" where
  "safely t Q g p \<equiv> safe (\<lambda>_ _. True) I (\<lambda>_ s. s) t Q g p"

lemma safely_sys: "(\<And>r. safely t Q g (f r)) \<Longrightarrow> safely t Q g (bind (sys call) f)"
  unfolding sys_def by (simp, rule safe_Sys_skip) auto

lemma same: "I s G \<Longrightarrow> G t = g \<Longrightarrow> I s (G(t := g))"
  by (simp add: fun_upd_idem)

lemma safely_sleep: "safely t (\<lambda>r g. g = (if success r then up else away)) away (sleep test q t call)"
  (is "safely t ?Q away _")
  unfolding sleep_def
proof (rule safe_bind [where R = "\<lambda>b g. g = (if b then down else away)"], goal_cases)
  case 1
  show ?case
    by (rule safe_ActI [where h = "\<lambda>w. if test w then down else away"]) (auto simp: fall_asleep same)
next
  case (2 asleep g)
  show ?case
  proof (cases asleep)
    case False
    with 2 show ?thesis by (auto intro!: safely_sys simp: success_def)
  next
    case True
    let ?look = "\<lambda>r. bind (Act (\<lambda>w. if success r \<or> t \<notin> c_get q w then w else c_put q (c_get q w - {t}) w) (\<lambda>w. Ret (t \<in> c_get q w))) (\<lambda>asleep.
        if \<not> asleep then leave (r\<lparr>r_code := 0, r_head_id := 4304, r_retcode := 0\<rparr>)
        else if \<not> success r then leave r
        else again ())"
    have "safely t (\<lambda>r g. case r of Inl _ \<Rightarrow> g = down | Inr r \<Rightarrow> ?Q r g) down (bind (sys call) ?look)"
    proof (rule safely_sys)
      fix r
      show "safely t (\<lambda>r g. case r of Inl _ \<Rightarrow> g = down | Inr r \<Rightarrow> ?Q r g) down (?look r)"
        by (rule safe_bind [where R = "\<lambda>b g. g = (if \<not> b then up else if success r then down else away)"],
            rule safe_ActI [where h = "\<lambda>w. if t \<notin> c_get q w then up else if success r then down else away"])
          (auto simp: success_def get_up give_up same)
    qed
    then have "safely t ?Q down (loop (\<lambda>_ :: unit. bind (sys call) ?look) ())"
      by (intro safe_loop [where J = "\<lambda>_ g. g = down"]) (simp_all only:)
    with True 2 show ?thesis by simp
  qed
qed

text \<open>The waits of the library, in any kernel that sends them to this queue.\<close>

lemma safely_gsync_wait:
  assumes "passes K"
    and "\<And>port. K (IntrRpc (gsync_wait_request MachTaskSelf port a v1 v2 msec flags) 64 32) =
      sleep test q t (IntrRpc (gsync_wait_request MachTaskSelf port a v1 v2 msec flags) 64 32)"
  shows "safely t (\<lambda>r g. g = away \<or> g = up \<and> r = 0) away (served K (gsync_wait MachTaskSelf a v1 v2 msec flags))"
  unfolding gsync_wait_def served_bind served_sys passes_simps [OF assms(1)] assms(2) bind_assoc
  by (auto intro!: safely_sys safe_bind [OF safely_sleep] simp: passes_simps [OF assms(1)] served_bind bind_assoc success_def)

lemma safely_rouse_all:
  assumes "flags AND GSYNC_BROADCAST \<noteq> 0"
    and "\<And>w G. I w G \<Longrightarrow> G t = g \<Longrightarrow> I (c_put q {} (eff w)) (G(t := g'))"
  shows "safely t (\<lambda>_ x. x = g') g (rouse eff q pick flags call)"
  unfolding rouse_def
  by (rule safely_sys, rule safe_ActI [where h = "\<lambda>_. g'"]) (auto simp: assms)

end

text \<open>A thread is about to wake somebody (\<open>wakes\<close>), whom the kernel picks, and then \<open>gone\<close>.\<close>

locale queue_sleepers = queue_waiters I test q away down up
  for I :: "'w \<Rightarrow> ('t \<Rightarrow> 'g) \<Rightarrow> bool" and test :: "'w \<Rightarrow> bool" and q :: "('w, 't set) cell" and away down up :: 'g +
  fixes wakes gone :: 'g
  assumes wake_one: "I w G \<Longrightarrow> G t = wakes \<Longrightarrow> c_get q w \<noteq> {} \<longrightarrow> u \<in> c_get q w \<Longrightarrow>
      I (c_put q (c_get q w - {u}) w) (G(t := gone))"
begin

lemma safely_rouse:
  assumes "eff = (\<lambda>w. w)" and "\<And>r Z. Z \<noteq> {} \<Longrightarrow> pick r Z \<in> Z"
    and "flags AND GSYNC_BROADCAST = 0 \<or> (\<forall>w G. I w G \<longrightarrow> G t = wakes \<longrightarrow> I (c_put q {} w) (G(t := gone)))"
  shows "safely t (\<lambda>_ g. g = gone) wakes (rouse eff q pick flags call)"
  unfolding rouse_def
  by (rule safely_sys, rule safe_ActI [where h = "\<lambda>_. gone"]) (use assms wake_one in auto)

end

subsection \<open>A kernel that watches one word\<close>

text \<open>The second part of a pair; the sleepers of the word are there.\<close>

definition snd_cell :: "('a \<times> 'b, 'b) cell" where
  "snd_cell = \<lparr>c_addr = 0, c_get = snd, c_put = (\<lambda>v s. (fst s, v))\<rparr>"

lemma snd_cell_sel [simp]: "c_get snd_cell s = snd s" "c_put snd_cell v s = (fst s, v)"
  by (simp_all add: snd_cell_def)

definition sleepy_kernel ::
  "('s, u32) cell \<Rightarrow> (reply \<Rightarrow> 't set \<Rightarrow> 't) \<Rightarrow> 't \<Rightarrow> kcall \<Rightarrow> ('s \<times> 't set, reply) prog" where
  "sleepy_kernel c pick t call = (case call of
     IntrRpc m _ _ \<Rightarrow> (case map snd (msg_body m) of
         [Word addr, Word val, _, _, Word flags] \<Rightarrow>
           if msgh_id m = 4204 \<and> addr = c_addr c \<and> flags AND GSYNC_QUAD = 0
           then sleep (\<lambda>w. c_get c (fst w) = val) snd_cell t call else sys call
       | _ \<Rightarrow> sys call)
   | SendMsg m _ \<Rightarrow> (case map snd (msg_body m) of
         [Word addr, Word _, Word flags] \<Rightarrow>
           if msgh_id m = 4205 \<and> addr = c_addr c
           then rouse (\<lambda>w. (gsync_effect c call (fst w), snd w)) snd_cell pick flags call else sys call
       | _ \<Rightarrow> sys call)
   | _ \<Rightarrow> sys call)"

definition blocking_contract :: "('t \<Rightarrow> kcall \<Rightarrow> ('s \<times> 't set, reply) prog) \<Rightarrow> ('s, u32) cell \<Rightarrow> bool" where
  "blocking_contract K c \<longleftrightarrow> (\<exists>pick. (\<forall>r Z. Z \<noteq> {} \<longrightarrow> pick r Z \<in> Z) \<and> K = sleepy_kernel c pick)"

lemma sleepy_other [simp]:
  "sleepy_kernel c pick t MigGetReplyPort = sys MigGetReplyPort"
  "sleepy_kernel c pick t (MigDeallocReplyPort p) = sys (MigDeallocReplyPort p)"
  "sleepy_kernel c pick t (MigPutReplyPort p) = sys (MigPutReplyPort p)"
  "sleepy_kernel c pick t (ClockGettime clk) = sys (ClockGettime clk)"
  "sleepy_kernel c pick t (Callback f x) = sys (Callback f x)"
  by (simp_all add: sleepy_kernel_def)

lemma sleepy_passes: "passes (sleepy_kernel c pick t)"
  by (simp add: passes_def)

lemma sleepy_wait [simp]:
  "c_addr c = a \<Longrightarrow> flags AND GSYNC_QUAD = 0 \<Longrightarrow>
    sleepy_kernel c pick t (IntrRpc (gsync_wait_request MachTaskSelf port a val x msec flags) m n) =
      sleep (\<lambda>w. c_get c (fst w) = val) snd_cell t (IntrRpc (gsync_wait_request MachTaskSelf port a val x msec flags) m n)"
  by (simp add: sleepy_kernel_def gsync_wait_request_def)

lemma sleepy_wake [simp]:
  "c_addr c = a \<Longrightarrow> sleepy_kernel c pick t (SendMsg (gsync_wake_request MachTaskSelf a val flags) n) =
    rouse (\<lambda>w. (gsync_effect c (SendMsg (gsync_wake_request MachTaskSelf a val flags) n) (fst w), snd w)) snd_cell pick flags
      (SendMsg (gsync_wake_request MachTaskSelf a val flags) n)"
  by (simp add: sleepy_kernel_def gsync_wake_request_def)

lemma timed_not_quad: "(flags OR GSYNC_TIMED) AND GSYNC_QUAD = flags AND (GSYNC_QUAD :: u32)"
  by (rule bit_word_eqI) (auto simp: bit_simps)

text \<open>The contract of a protocol with this kernel, for one value of the word, and what the library's functions do to its invariant.\<close>

locale waiters = queue_waiters I "\<lambda>w. c_get c (fst w) = val" snd_cell away down up
  for I :: "'s \<times> 't set \<Rightarrow> ('t \<Rightarrow> 'g) \<Rightarrow> bool" and c :: "('s, u32) cell" and val :: u32 and away down up :: 'g
begin

lemma safely_lll_wait:
  "c_addr d = c_addr c \<Longrightarrow> flags AND GSYNC_QUAD = 0 \<Longrightarrow> safely t (\<lambda>r g. g = away \<or> g = up \<and> r = 0) away
    (served (sleepy_kernel c pick t) (lll_wait d val flags))"
  unfolding lll_wait_def by (rule safely_gsync_wait [OF sleepy_passes]) simp

lemma safely_lll_timed_wait:
  assumes "c_addr d = c_addr c" and "flags AND GSYNC_QUAD = 0"
  shows "safely t (\<lambda>r g. g = away \<or> g = up \<and> r = 0) away
    (served (sleepy_kernel c pick t) (lll_timed_wait d val msec flags))"
proof -
  have "(flags OR GSYNC_TIMED) AND GSYNC_QUAD = 0"
    using assms(2) timed_not_quad [of flags] by simp
  with assms(1) show ?thesis unfolding lll_timed_wait_def by (intro safely_gsync_wait [OF sleepy_passes]) simp
qed

lemma safely_wake_elsewhere:
  "c_addr d \<noteq> c_addr c \<Longrightarrow> safely t (\<lambda>_ x. x = g) g (served (sleepy_kernel c pick t) (lll_wake d flags))"
  by (auto simp: lll_wake_def gsync_wake_def served_bind bind_assoc sleepy_kernel_def gsync_wake_request_def intro!: safely_sys)

text \<open>A wake for all, with the memory changed in the same step if the call says so.\<close>

lemma safely_lll_wake_all:
  assumes "c_addr d = c_addr c" and "flags AND GSYNC_MUTATE = 0" and "flags AND GSYNC_BROADCAST \<noteq> 0"
    and "\<And>s Z G. I (s, Z) G \<Longrightarrow> G t = g \<Longrightarrow> I (s, {}) (G(t := g'))"
  shows "safely t (\<lambda>_ x. x = g') g (served (sleepy_kernel c pick t) (lll_wake d flags))"
  by (auto simp: lll_wake_def gsync_wake_def served_bind bind_assoc assms(1,2) split_paired_all
      intro!: safe_bind [OF safely_rouse_all [OF assms(3)]] assms(4))

lemma safely_lll_set_wake_all:
  assumes "c_addr d = c_addr c" and "flags AND GSYNC_BROADCAST \<noteq> 0"
    and "\<And>s Z G. I (s, Z) G \<Longrightarrow> G t = g \<Longrightarrow> I (c_put c v s, {}) (G(t := g'))"
  shows "safely t (\<lambda>_ x. x = g') g (served (sleepy_kernel c pick t) (lll_set_wake d v flags))"
proof -
  have "(flags OR GSYNC_MUTATE) AND GSYNC_BROADCAST = flags AND (GSYNC_BROADCAST :: u32)"
    by (simp add: and_disjoint_or)
  then show ?thesis
    by (auto simp: lll_set_wake_def gsync_wake_def served_bind bind_assoc assms(1,2) gsync_effect_def split_paired_all
        intro!: safe_bind [OF safely_rouse_all] assms(3))
qed

end

locale sleepers = waiters I c val away down up +
    queue_sleepers I "\<lambda>w. c_get c (fst w) = val" snd_cell away down up wakes gone
  for I :: "'s \<times> 't set \<Rightarrow> ('t \<Rightarrow> 'g) \<Rightarrow> bool" and c :: "('s, u32) cell" and val :: u32 and away down up wakes gone :: 'g +
  assumes wake_all: "I (s, Z) G \<Longrightarrow> G t = wakes \<Longrightarrow> I (s, {}) (G(t := gone))"
begin

lemma safely_lll_wake:
  assumes "c_addr d = c_addr c" and "flags AND GSYNC_MUTATE = 0" and "\<And>r Z. Z \<noteq> {} \<Longrightarrow> pick r Z \<in> Z"
  shows "safely t (\<lambda>_ g. g = gone) wakes (served (sleepy_kernel c pick t) (lll_wake d flags))"
  by (auto simp: lll_wake_def gsync_wake_def served_bind bind_assoc assms(1,2) fun_eq_iff split_paired_all
      intro!: safe_bind [OF safely_rouse] wake_all assms(3))

end

text \<open>A ghost value with a phase that another invariant knows.\<close>

lemma phases_upd: "fst \<circ> G(t := g) = (fst \<circ> G)(t := fst g)"
  by auto

end
