(* ===== verification/Wakeups.thy ===== *)
theory Wakeups
  imports Sleepers Exclusion Compose
begin

text \<open>
  The plain lock wakes everybody who sleeps: it does not lose a wakeup, whoever takes it in which way.
\<close>

subsection \<open>The invariant of a lock\<close>

text \<open>
  Where a thread is: away from the lock, or on the way from a sleep to its next attempt (\<open>Up\<close>), in a wait (\<open>Down\<close>), holding the lock, or about
  to wake somebody.
\<close>

datatype place = Away | Up | Down | Holds | Wakes

definition holds :: "('t \<Rightarrow> place) \<Rightarrow> 't \<Rightarrow> bool" where
  "holds G t \<longleftrightarrow> G t = Holds"

text \<open>Somebody will see to it that a sleeper gets up, or takes the lock so that its release does.\<close>

definition coming :: "('t \<Rightarrow> place) \<Rightarrow> 't set \<Rightarrow> bool" where
  "coming G Z \<longleftrightarrow> (\<exists>t. G t = Wakes \<or> G t = Up \<or> G t = Down \<and> t \<notin> Z)"

definition sleep_inv :: "u32 \<times> 't set \<Rightarrow> ('t \<Rightarrow> place) \<Rightarrow> bool" where
  "sleep_inv s G \<longleftrightarrow> word_lock_inv (fst s) (holds G) \<and> (\<forall>t\<in>snd s. G t = Down) \<and>
    (snd s = {} \<or> fst s = 2 \<or> coming G (snd s))"

abbreviation lock_word :: "u32 \<Rightarrow> (u32 \<times> 't set, u32) cell" where
  "lock_word a \<equiv> through fst_cell (whole a)"

lemma holds_upd: "holds (G(t := p)) = (holds G)(t := (p = Holds))"
  by (auto simp: holds_def fun_eq_iff)

lemma holds_same: "G t \<noteq> Holds \<Longrightarrow> (holds G)(t := False) = holds G"
  by (auto simp: holds_def fun_eq_iff)

lemma coming_upd:
  "coming G Z \<Longrightarrow> G t = Away \<or> G t = Holds \<or> G t = Down \<and> t \<in> Z \<Longrightarrow> coming (G(t := p)) Z"
  unfolding coming_def by (metis fun_upd_other place.distinct)

lemma coming_by: "G t = Wakes \<or> G t = Up \<or> G t = Down \<and> t \<notin> Z \<Longrightarrow> coming G Z"
  by (auto simp: coming_def)

lemma coming_less: "coming G Z \<Longrightarrow> coming G (Z - {u})"
  by (auto simp: coming_def)

lemma down_upd: "\<forall>u\<in>Z. G u = Down \<Longrightarrow> t \<notin> Z \<or> p = Down \<Longrightarrow> \<forall>u\<in>Z. (G(t := p)) u = Down"
  by auto

lemma sleep_inv_take:
  assumes "sleep_inv (w, Z) G" and "G t = Away \<or> G t = Up" and "v = 2 \<or> v = 1 \<and> w = 0 \<and> G t = Away"
  shows "sleep_inv (v, Z) (G(t := if w = 0 then Holds else Away))"
proof -
  have h: "word_lock_inv v (holds (G(t := if w = 0 then Holds else Away)))"
    using word_lock_take [of w "holds G" t v] assms by (auto simp: sleep_inv_def holds_def holds_upd)
  have "t \<notin> Z" using assms(1,2) by (auto simp: sleep_inv_def)
  then have d: "\<forall>u\<in>Z. (G(t := if w = 0 then Holds else Away)) u = Down"
    using assms(1) down_upd by (auto simp: sleep_inv_def)
  have "Z = {} \<or> v = 2 \<or> coming (G(t := if w = 0 then Holds else Away)) Z"
    using assms by (auto simp: sleep_inv_def intro: coming_upd)
  with h d show ?thesis by (simp add: sleep_inv_def)
qed

lemma sleep_inv_drop:
  assumes "sleep_inv (w, Z) G" and "G t = Holds"
  shows "sleep_inv (0, Z) (G(t := if w = 1 then Away else Wakes))"
proof -
  have h: "word_lock_inv 0 (holds (G(t := if w = 1 then Away else Wakes)))"
    using word_lock_drop [of w "holds G" t] assms by (auto simp: sleep_inv_def holds_def holds_upd)
  have "t \<notin> Z" using assms by (auto simp: sleep_inv_def)
  then have d: "\<forall>u\<in>Z. (G(t := if w = 1 then Away else Wakes)) u = Down"
    using assms(1) by (auto simp: sleep_inv_def)
  have "Z = {} \<or> coming (G(t := if w = 1 then Away else Wakes)) Z"
    using assms by (auto simp: sleep_inv_def intro: coming_upd coming_by [of _ t])
  with h d show ?thesis by (simp add: sleep_inv_def)
qed

lemma sleep_inv_others:
  assumes "sleep_inv (w, Z) G" and "G t \<noteq> Holds" and "p \<noteq> Holds"
  shows "word_lock_inv w (holds (G(t := p)))"
  using assms holds_same [of G t] by (simp add: sleep_inv_def holds_upd)

lemma sleep_inv_sleep:
  assumes "sleep_inv (2, Z) G" and "G t = Away"
  shows "sleep_inv (2, insert t Z) (G(t := Down))"
  using assms sleep_inv_others [OF assms(1), of t Down] by (auto simp: sleep_inv_def)

lemma sleep_inv_same: "sleep_inv s G \<Longrightarrow> G t = p \<Longrightarrow> sleep_inv s (G(t := p))"
  by (simp add: fun_upd_idem)

lemma sleep_inv_up:
  assumes "sleep_inv (w, Z) G" and "G t = Down" and "t \<notin> Z"
  shows "sleep_inv (w, Z) (G(t := Up))"
  using assms sleep_inv_others [OF assms(1), of t Up] coming_by [of "G(t := Up)" t Z] by (auto simp: sleep_inv_def)

lemma sleep_inv_leave:
  assumes "sleep_inv (w, Z) G" and "G t = Down" and "t \<in> Z"
  shows "sleep_inv (w, Z - {t}) (G(t := Away))"
proof -
  have "Z - {t} = {} \<or> w = 2 \<or> coming (G(t := Away)) (Z - {t})"
    using assms by (auto simp: sleep_inv_def intro: coming_less coming_upd)
  then show ?thesis
    using assms sleep_inv_others [OF assms(1), of t Away] by (auto simp: sleep_inv_def)
qed

lemma sleep_inv_rouse:
  assumes "sleep_inv (w, Z) G" and "G t = Wakes" and "Z \<noteq> {} \<longrightarrow> u \<in> Z"
  shows "sleep_inv (w, Z - {u}) (G(t := Away))"
proof -
  have t: "t \<notin> Z" using assms(1,2) by (auto simp: sleep_inv_def)
  have "coming (G(t := Away)) (Z - {u})" if "Z \<noteq> {}"
    by (rule coming_by [of _ u]) (use that assms t in \<open>auto simp: sleep_inv_def\<close>)
  then show ?thesis
    using assms t sleep_inv_others [OF assms(1), of t Away] by (auto simp: sleep_inv_def)
qed

lemma sleep_inv_rouse_all:
  assumes "sleep_inv (w, Z) G" and "G t = Wakes"
  shows "sleep_inv (w, {}) (G(t := Away))"
  using assms sleep_inv_others [OF assms(1), of t Away] by (auto simp: sleep_inv_def)

lemmas sleep_inv_steps = sleep_inv_take sleep_inv_drop sleep_inv_same sleep_inv_sleep sleep_inv_up sleep_inv_leave
  sleep_inv_rouse sleep_inv_rouse_all

subsection \<open>What the operations do\<close>

text \<open>A lock word among other data: \<open>held\<close> is the ghost of a thread that has just taken it, or is about to release it.\<close>

locale sleepy_lock = sleepers I c 2 away down up wakes away
  for I :: "'s \<times> 't set \<Rightarrow> ('t \<Rightarrow> 'g) \<Rightarrow> bool" and c :: "('s, u32) cell" and away down up wakes :: 'g +
  fixes held :: 'g
  assumes take: "I (s, Z) G \<Longrightarrow> G t = away \<or> G t = up \<Longrightarrow> v = 2 \<or> v = 1 \<and> c_get c s = 0 \<and> G t = away \<Longrightarrow>
      I (c_put c v s, Z) (G(t := if c_get c s = 0 then held else away))"
    and drop: "I (s, Z) G \<Longrightarrow> G t = held \<Longrightarrow> I (c_put c 0 s, Z) (G(t := if c_get c s = 1 then away else wakes))"
begin

abbreviation word :: "('s \<times> 't set, u32) cell" where
  "word \<equiv> through fst_cell c"

lemma safely_load: "safely t (\<lambda>_ g'. g' = g) g (served H (load d))"
  by (rule safe_served [OF _ callfree_access(1)], rule safe_load) simp

lemma safely_swap_2:
  assumes "g = away \<or> g = up"
  shows "safely t (\<lambda>old g. g = (if old = 0 then held else away)) g (served H (atomic_swap word 2))"
  by (rule safe_served [OF _ callfree_access(4)], rule safe_swap [where h = "\<lambda>old. if old = 0 then held else away"])
    (use assms in \<open>auto simp: take split_paired_all\<close>)

lemma safely_fast:
  "safely t (\<lambda>ok g. g = (if ok then held else away)) away
    (served H (if v = 0 then atomic_cas_bool word 0 1 else Ret False))"
proof (cases "v = 0")
  case True
  have t: "c_get c s = 0 \<Longrightarrow> I (s, Z) G \<Longrightarrow> G t = away \<Longrightarrow> I (c_put c 1 s, Z) (G(t := held))" for s Z G
    using take [of s Z G t 1] by simp
  have "safely t (\<lambda>ok g. g = (if ok then held else away)) away (served H (atomic_cas_bool word 0 1))"
    by (rule safe_served [OF _ callfree_access(5)], rule safe_cas [where g' = held])
      (auto simp: t split_paired_all)
  with True show ?thesis by simp
qed simp

text \<open>The fast path of the three functions, and the loop of the two that wait.\<close>

lemma safely_enter:
  assumes "safely t Q held (served H (f True))" and "safely t Q away (served H (f False))"
  shows "safely t Q away (served H (bind (load word) (\<lambda>v.
    bind (if v = 0 then atomic_cas_bool word 0 1 else Ret False) f)))"
proof -
  have "safely t Q away (bind (served H (if v = 0 then atomic_cas_bool word 0 1 else Ret False)) (\<lambda>ok. served H (f ok)))" for v
    by (rule safe_bind [OF safely_fast]) (use assms in \<open>auto split: if_splits\<close>)
  then show ?thesis
    unfolding served_bind by (intro safe_bind [OF safely_load]) (simp only:)
qed

lemma safely_slow:
  assumes "\<And>u. safely t (\<lambda>r g. case r of Inl _ \<Rightarrow> g = away \<or> g = up | Inr a \<Rightarrow> Q a g) away (served H (slow u))"
    and "Q OK held"
  shows "safely t Q away (served H (loop (\<lambda>u :: unit. bind (atomic_swap word 2) (\<lambda>old. if old = 0 then leave OK else slow u)) ()))"
  unfolding served_loop served_bind
proof (rule safe_loop [where J = "\<lambda>_ g. g = away \<or> g = up"], simp)
  fix x and g assume "g = away \<or> g = up"
  then show "safely t (\<lambda>r g. case r of Inl _ \<Rightarrow> g = away \<or> g = up | Inr a \<Rightarrow> Q a g) g
      (bind (served H (atomic_swap word 2)) (\<lambda>old. served H (if old = 0 then leave OK else slow x)))"
    by (intro safe_bind [OF safely_swap_2]) (use assms in \<open>auto split: if_splits\<close>)
qed

abbreviation acquired :: "ret \<Rightarrow> 'g \<Rightarrow> bool" where
  "acquired r g \<equiv> g = (if r = OK then held else away)"

lemma safely_lll_lock:
  assumes "flags AND GSYNC_QUAD = 0"
  shows "safely t (\<lambda>r g. r = OK \<and> g = held) away (served (sleepy_kernel c pick t) (lll_lock word flags))"
  unfolding lll_lock_def
  by (rule safely_enter, simp, simp only: if_False simp_thms, rule safely_slow)
    (auto simp: served_bind assms intro!: safe_bind [OF safely_lll_wait])

lemma safely_lll_trylock:
  "safely t acquired away (served (sleepy_kernel c pick t) (lll_trylock word))"
  unfolding lll_trylock_def by (rule safely_enter) simp_all

lemma safely_lll_abstimed_lock:
  assumes "flags AND GSYNC_QUAD = 0"
  shows "safely t acquired away (served (sleepy_kernel c pick t) (lll_abstimed_lock word tsp flags clk))"
  unfolding lll_abstimed_lock_def
  by (rule safely_enter, simp, simp only: if_False simp_thms, rule safely_slow)
    (auto simp: compute_reltime_def served_bind bind_assoc assms
      intro!: safely_sys safe_bind [OF safely_lll_timed_wait])

lemma safely_acquire:
  "flags AND GSYNC_QUAD = 0 \<Longrightarrow>
    safely t acquired away (served (sleepy_kernel c pick t) (lll_acquire word flags call))"
  by (cases call) (simp_all add: safely_lll_trylock safely_lll_abstimed_lock safe_mono [OF safely_lll_lock])

lemma safely_release:
  assumes "flags AND GSYNC_MUTATE = 0" and "\<And>r Z. Z \<noteq> {} \<Longrightarrow> pick r Z \<in> Z"
  shows "safely t (\<lambda>_ g. g = away) held (served (sleepy_kernel c pick t) (lll_unlock word flags))"
proof -
  have "safely t (\<lambda>old g. g = (if old = 1 then away else wakes)) held
      (served (sleepy_kernel c pick t) (atomic_swap word 0))"
    by (rule safe_served [OF _ callfree_access(4)], rule safe_swap [where h = "\<lambda>old. if old = 1 then away else wakes"])
      (auto simp: drop split_paired_all)
  then show ?thesis
    unfolding lll_unlock_def served_bind
    by (rule safe_bind) (auto intro!: safely_lll_wake assms)
qed

end

lemma shared_flags: "((flags :: u32) AND 1) AND GSYNC_QUAD = 0"
  by (rule bit_word_eqI) (auto simp: bit_simps)

interpretation lock_sleep: sleepy_lock sleep_inv "whole a" Away Down Up Wakes Holds for a
  by unfold_locales (auto simp: sleep_inv_steps split_paired_all split: if_splits)

abbreviation safely :: "'t \<Rightarrow> ('a \<Rightarrow> place \<Rightarrow> bool) \<Rightarrow> place \<Rightarrow> (u32 \<times> 't set, 'a) prog \<Rightarrow> bool" where
  "safely t Q g p \<equiv> safe (\<lambda>_ _. True) sleep_inv (\<lambda>_ s. s) t Q g p"

subsection \<open>Nobody sleeps for ever\<close>

text \<open>A thread that goes through \<open>k\<close> rounds, with user code while it has the lock.\<close>

definition lock_rounds :: "(nat \<Rightarrow> ('s, ret) prog) \<Rightarrow> ('s, 'r) prog \<Rightarrow> nat \<Rightarrow> ('s, unit) prog" where
  "lock_rounds acquire release k = loop (\<lambda>n.
     if n < k then
       bind (acquire n) (\<lambda>r.
       if r = OK then bind (sys (Callback 0 0)) (\<lambda>_. bind release (\<lambda>_. again (Suc n)))
       else again (Suc n))
     else leave ()) 0"

definition lock_user :: "u32 \<Rightarrow> u32 \<Rightarrow> (nat \<Rightarrow> lock_call) \<Rightarrow> nat \<Rightarrow> (u32 \<times> 't set, unit) prog" where
  "lock_user a flags calls k =
    lock_rounds (\<lambda>n. lll_acquire (lock_word a) (flags AND 1) (calls n)) (lll_unlock (lock_word a) (flags AND 1)) k"

lemma safely_user:
  fixes a :: u32 and pick :: "reply \<Rightarrow> 't set \<Rightarrow> 't"
  assumes "\<And>r Z. Z \<noteq> {} \<Longrightarrow> pick r Z \<in> Z"
  shows "safely t (\<lambda>_ g. g = Away) Away (served (sleepy_kernel (whole a) pick t) (lock_user a flags calls k))"
  unfolding lock_user_def lock_rounds_def served_loop
proof (rule safe_loop [where J = "\<lambda>_ g. g = Away"], simp)
  fix n g assume g: "g = Away"
  show "safely t (\<lambda>r g. case r of Inl _ \<Rightarrow> g = Away | Inr _ \<Rightarrow> g = Away) g
      (served (sleepy_kernel (whole a) pick t) (if n < k then
         bind (lll_acquire (lock_word a) (flags AND 1) (calls n)) (\<lambda>r.
         if r = OK then bind (sys (Callback 0 0)) (\<lambda>_. bind (lll_unlock (lock_word a) (flags AND 1)) (\<lambda>_. again (Suc n)))
         else again (Suc n))
       else leave ()))"
    unfolding g
    by (auto simp: served_bind bind_assoc intro!: safe_bind [OF lock_sleep.safely_acquire [OF shared_flags]] lock_sleep.safely_sys
        safe_bind [OF lock_sleep.safely_release [OF _ assms]])
qed

text \<open>
  C10. No wakeup is lost: in a kernel that puts a thread to sleep as long as nobody wakes it, the plain lock, taken in any mix of the three ways by any
  threads, never reaches a state in which every thread has ended or sleeps, but some sleep. So if no thread can go on, all have returned, and
  the lock is free.
\<close>

theorem lll_no_lost_wakeup:
  assumes "blocking_contract K (whole a)"
    and "reach (\<lambda>_ s. s) (0, {}) (\<lambda>t. served (K t) (lock_user a flags (calls t) (k t))) s P"
    and "\<And>t. (\<exists>x. P t = Ret x) \<or> t \<in> snd s"
  shows "(\<exists>x. P t = Ret x) \<and> s = (0, {})"
proof -
  obtain pick where pick: "\<And>r Z. Z \<noteq> {} \<Longrightarrow> pick r Z \<in> Z" and K: "K = sleepy_kernel (whole a) pick"
    using assms(1) by (auto simp: blocking_contract_def)
  have "sleep_inv (0, {}) (\<lambda>_. Away)" by (simp add: sleep_inv_def word_lock_inv_def holds_def)
  moreover have "safely t (\<lambda>_ g. g = Away) Away (served (sleepy_kernel (whole a) pick t) (lock_user a flags (calls t) (k t)))" for t
    by (rule safely_user) (rule pick)
  ultimately obtain G where G: "sleep_inv s G" "\<And>t. safely t (\<lambda>_ g. g = Away) (G t) (P t)"
    using safe_reach [where I = sleep_inv and ?G0.0 = "\<lambda>_. Away" and A = "\<lambda>_ _ _. True" and Q = "\<lambda>_ _ g. g = Away",
        OF assms(2) [unfolded K]] by blast
  have away: "G u = Away" if "u \<notin> snd s" for u
    using assms(3) [of u] G(2) [of u] that by auto
  then have out: "G u = Away \<or> G u = Down \<and> u \<in> snd s" for u using G(1) by (auto simp: sleep_inv_def)
  then have "\<not> holds G u" "\<not> coming G (snd s)" for u by (auto simp: holds_def coming_def) (metis place.distinct)+
  then have "fst s = 0" "snd s = {}" using G(1) by (auto simp: sleep_inv_def word_lock_inv_def)
  with assms(3) show ?thesis by (auto simp: prod_eq_iff)
qed

text \<open>Two threads: the second sleeps until the first, which has the lock, wakes it.\<close>

definition wake_demo :: "(bool \<times> nat) list \<Rightarrow> (u32 \<times> bool set) \<times> (bool \<Rightarrow> (u32 \<times> bool set, unit) prog)" where
  "wake_demo ts = sched (\<lambda>_ s. s) reply0 ts (0, {})
    (\<lambda>t. served (sleepy_kernel (whole 64) (\<lambda>_ Z. True \<in> Z) t) (lock_user 64 0 (\<lambda>_. Lock) 1))"

lemmas wake_demo_eval = wake_demo_def lock_user_def lock_rounds_def code_defs atomic_defs loop_def Let_def sleep_def rouse_def
  success_def

lemma demo_eval: "fst (wake_demo [(False, 6), (True, 20)]) = (2, {True})"
  by (simp add: wake_demo_eval cong: lazy_cong lazy_served_cong)

lemma demo_ends: "\<exists>x. snd (wake_demo [(False, 6), (True, 20), (False, 20), (True, 40)]) t = Ret x"
  by (cases t) (simp_all add: wake_demo_eval cong: lazy_cong lazy_served_cong)

lemma sleepy_contract: "blocking_contract (sleepy_kernel c (\<lambda>_ Z. True \<in> Z)) c"
  unfolding blocking_contract_def
proof (intro exI [of _ "\<lambda>_ Z. True \<in> Z"] conjI allI impI refl)
  fix Z :: "bool set" assume "Z \<noteq> {}"
  then show "(True \<in> Z) \<in> Z" by (cases "True \<in> Z") (auto, metis (full_types))
qed

lemma lll_no_lost_wakeup_witness:
  "fst (wake_demo [(False, 6), (True, 20)]) = (2, {True}) \<and>
   fst (wake_demo [(False, 6), (True, 20), (False, 20), (True, 40)]) = (0, {})"
proof -
  let ?S = "wake_demo [(False, 6), (True, 20), (False, 20), (True, 40)]"
  have "reach (\<lambda>_ s. s) (0, {}) (\<lambda>t. served (sleepy_kernel (whole 64) (\<lambda>_ Z. True \<in> Z) t) (lock_user 64 0 (\<lambda>_. Lock) 1))
      (fst ?S) (snd ?S)"
    by (rule reach_sched [where ts = "[(False, 6), (True, 20), (False, 20), (True, 40)]" and r = reply0])
      (simp add: wake_demo_def)
  with lll_no_lost_wakeup [OF sleepy_contract this disjI1 [OF demo_ends]] demo_eval show ?thesis by simp
qed

end
