(* ===== verification/SemWakeups.thy ===== *)
theory SemWakeups
  imports Wakeups Semaphore
begin

text \<open>
  Wakeups of semaphores. As long as no thread is cancelled, a post always gets a sleeper up if the value lets it through; a cancelled
  thread however takes the wakeup that it got with it.
\<close>

subsection \<open>The invariant\<close>

text \<open>Threads that will take the value into account, or get another thread up that will.\<close>

definition agent :: "'t set \<Rightarrow> 't \<Rightarrow> sem_phase \<times> place \<Rightarrow> bool" where
  "agent Z t g \<longleftrightarrow> snd g = Wakes \<or> snd g = Up \<or> snd g = Down \<and> t \<notin> Z"

definition agents :: "'t set \<Rightarrow> ('t \<Rightarrow> sem_phase \<times> place) \<Rightarrow> 't set" where
  "agents Z G = {t. agent Z t (G t)}"

definition sem_sleep_inv ::
  "nat \<Rightarrow> ('t::finite) sem_world \<times> 't set \<Rightarrow> ('t \<Rightarrow> sem_phase \<times> place) \<Rightarrow> bool" where
  "sem_sleep_inv n s G \<longleftrightarrow> sem_inv n (fst s) (fst \<circ> G) \<and> sm_flags (sw_sem (fst s)) AND GSYNC_QUAD = 0 \<and>
    (\<forall>t\<in>snd s. G t = (Queued, Down)) \<and>
    (snd s = {} \<or> unat (lo (sm_val_nw (sw_sem (fst s)))) \<le> card (agents (snd s) G))"

lemma agents_upd:
  "agents Z (G(t := g)) = (if agent Z t g then insert t (agents Z G) else agents Z G - {t})"
  by (auto simp: agents_def)

lemma agents_mem: "t \<in> agents Z G \<longleftrightarrow> agent Z t (G t)"
  by (simp add: agents_def)

text \<open>A thread that is awake changes the memory and goes elsewhere: what it takes from the agents it takes from the value.\<close>

lemma sem_sleep_move:
  fixes G :: "'t::finite \<Rightarrow> sem_phase \<times> place"
  assumes "sem_sleep_inv n (w, Z) G" and "t \<notin> Z" and "sem_inv n w' ((fst \<circ> G)(t := fst g))"
    and "sm_flags (sw_sem w') = sm_flags (sw_sem w)"
    and "Z = {} \<or> lo (sm_val_nw (sw_sem w')) = 0 \<or>
      unat (lo (sm_val_nw (sw_sem w'))) + of_bool (agent Z t (G t)) \<le> unat (lo (sm_val_nw (sw_sem w))) + of_bool (agent Z t g)"
  shows "sem_sleep_inv n (w', Z) (G(t := g))"
proof -
  have "card (agents Z (G(t := g))) + of_bool (agent Z t (G t)) = card (agents Z G) + of_bool (agent Z t g)"
    by (auto simp: agents_upd card_insert_if agents_mem card_Diff_singleton_if)
      (metis agents_mem card_gt_0_iff empty_iff finite Suc_pred)+
  then have "Z = {} \<or> unat (lo (sm_val_nw (sw_sem w'))) \<le> card (agents Z (G(t := g)))"
    using assms(1,5) by (auto simp: sem_sleep_inv_def)
  with assms(1-4) show ?thesis by (auto simp: sem_sleep_inv_def phases_upd)
qed

lemma sem_sleep_asleep:
  fixes G :: "'t::finite \<Rightarrow> sem_phase \<times> place"
  assumes "sem_sleep_inv n (w, Z) G" and "G t = (Queued, Away)" and "lo (sm_val_nw (sw_sem w)) = 0"
  shows "sem_sleep_inv n (w, insert t Z) (G(t := (Queued, Down)))"
proof -
  have "(fst \<circ> G)(t := Queued) = fst \<circ> G" using assms(2) by auto
  with assms show ?thesis by (auto simp: sem_sleep_inv_def phases_upd)
qed

lemma sem_sleep_up:
  fixes G :: "'t::finite \<Rightarrow> sem_phase \<times> place"
  assumes "sem_sleep_inv n (w, Z) G" and "G t = (Queued, Down)" and "t \<notin> Z"
  shows "sem_sleep_inv n (w, Z) (G(t := (Queued, Up)))"
proof (rule sem_sleep_move [OF assms(1,3)])
  have "(fst \<circ> G)(t := Queued) = fst \<circ> G" using assms(2) by auto
  then show "sem_inv n w ((fst \<circ> G)(t := fst (Queued, Up)))" using assms(1) by (simp add: sem_sleep_inv_def)
qed (use assms in \<open>auto simp: agent_def\<close>)

lemma sem_sleep_give_up:
  fixes G :: "'t::finite \<Rightarrow> sem_phase \<times> place"
  assumes "sem_sleep_inv n (w, Z) G" and "G t = (Queued, Down)" and "t \<in> Z"
  shows "sem_sleep_inv n (w, Z - {t}) (G(t := (Queued, Away)))"
proof -
  have "(fst \<circ> G)(t := Queued) = fst \<circ> G" using assms(2) by auto
  moreover have "agents (Z - {t}) (G(t := (Queued, Away))) = agents Z G"
    using assms(2,3) by (auto simp: agents_def agent_def)
  ultimately show ?thesis using assms(1) by (auto simp: sem_sleep_inv_def phases_upd)
qed

lemma sem_sleep_wake:
  fixes G :: "'t::finite \<Rightarrow> sem_phase \<times> place"
  assumes "sem_sleep_inv n (w, Z) G" and "G t = (Idle, Wakes)"
  shows "Z \<noteq> {} \<longrightarrow> u \<in> Z \<Longrightarrow> sem_sleep_inv n (w, Z - {u}) (G(t := (Idle, Away)))"
    and "sem_sleep_inv n (w, {}) (G(t := (Idle, Away)))"
proof -
  have f: "(fst \<circ> G)(t := Idle) = fst \<circ> G" using assms(2) by auto
  have t: "t \<notin> Z" using assms by (auto simp: sem_sleep_inv_def)
  show "sem_sleep_inv n (w, {}) (G(t := (Idle, Away)))"
    using assms(1) f by (simp add: sem_sleep_inv_def phases_upd)
  assume u: "Z \<noteq> {} \<longrightarrow> u \<in> Z"
  have "card (agents (Z - {u}) (G(t := (Idle, Away)))) = card (agents Z G)" if "Z \<noteq> {}"
  proof -
    have g: "G u = (Queued, Down)" "u \<in> Z" "u \<noteq> t" using assms u that t by (auto simp: sem_sleep_inv_def)
    then have "agents (Z - {u}) (G(t := (Idle, Away))) = insert u (agents Z G - {t})" "u \<notin> agents Z G" "t \<in> agents Z G"
      using assms(2) by (auto simp: agents_def agent_def)
    moreover from this(3) have "Suc (card (agents Z G - {t})) = card (agents Z G)" by (intro card_Suc_Diff1) simp_all
    ultimately show ?thesis by (simp add: card_insert_if)
  qed
  then show "sem_sleep_inv n (w, Z - {u}) (G(t := (Idle, Away)))"
    using assms(1) f t by (cases "Z = {}") (auto simp: sem_sleep_inv_def phases_upd)
qed

interpretation sem_sleep: sleepers "sem_sleep_inv n" "lo_cell (sem_val_nw (sw_sem_cell a))" 0
  "(Queued, Away)" "(Queued, Down)" "(Queued, Up)" "(Idle, Wakes)" "(Idle, Away)" for n a
  by unfold_locales (auto simp: sem_sleep_asleep sem_sleep_up sem_sleep_give_up sem_sleep_wake split_paired_all)

subsection \<open>The operations\<close>

abbreviation sem_at :: "u32 \<Rightarrow> ('t sem_world \<times> 't set, sem_t) cell" where
  "sem_at a \<equiv> through fst_cell (sw_sem_cell a)"

abbreviation pt_at :: "('t \<Rightarrow> u32) \<Rightarrow> 't \<Rightarrow> ('t sem_world \<times> 't set, pthread) cell" where
  "pt_at addr t \<equiv> through fst_cell (sw_pt_cell addr t)"

abbreviation sleeping ::
  "nat \<Rightarrow> 't::finite \<Rightarrow> ('a \<Rightarrow> sem_phase \<times> place \<Rightarrow> bool) \<Rightarrow> sem_phase \<times> place \<Rightarrow> ('t sem_world \<times> 't set, 'a) prog \<Rightarrow> bool" where
  "sleeping n t Q g p \<equiv> safe (\<lambda>_ _. True) (sem_sleep_inv n) (\<lambda>_ s. s) t Q g p"

abbreviation sem_serve :: "u32 \<Rightarrow> (reply \<Rightarrow> 't set \<Rightarrow> 't) \<Rightarrow> 't::finite \<Rightarrow> ('t sem_world \<times> 't set, 'a) prog \<Rightarrow> ('t sem_world \<times> 't set, 'a) prog" where
  "sem_serve a pick t p \<equiv> served (sleepy_kernel (lo_cell (sem_val_nw (sw_sem_cell a))) pick t) p"

lemma sem_sleep_inv_pt: "sem_sleep_inv n (w\<lparr>sw_pt := f\<rparr>, Z) G = sem_sleep_inv n (w, Z) G"
  by (simp add: sem_sleep_inv_def)

lemma sem_sleep_inv_word: "sem_sleep_inv n (w, Z) G \<Longrightarrow> sem_inv n w (fst \<circ> G)"
  by (simp add: sem_sleep_inv_def)

lemma awake: "sem_sleep_inv n (w, Z) G \<Longrightarrow> G t \<noteq> (Queued, Down) \<Longrightarrow> t \<notin> Z"
  by (auto simp: sem_sleep_inv_def)

text \<open>Taking the value: at once, or as a registered waiter.\<close>

lemma sleeping_take:
  fixes G :: "'t::finite \<Rightarrow> sem_phase \<times> place"
  assumes "sem_sleep_inv n (w, Z) G" and "G t = (Idle, Away)" and "lo (sm_val_nw (sw_sem w)) \<noteq> 0"
  shows "sem_sleep_inv n (w\<lparr>sw_sem := (sw_sem w)\<lparr>sm_val_nw :=
    (sm_val_nw (sw_sem w))\<lparr>lo := lo (sm_val_nw (sw_sem w)) - 1\<rparr>\<rparr>\<rparr>, Z) (G(t := (Holding, Away)))"
  using assms sem_take [OF sem_sleep_inv_word [OF assms(1)], of t]
  by (intro sem_sleep_move [OF assms(1) awake [OF assms(1)]]) (auto simp: agent_def unat_pred_32)

lemma sleeping_dequeue:
  fixes G :: "'t::finite \<Rightarrow> sem_phase \<times> place"
  assumes "sem_sleep_inv n (w, Z) G" and "G t = (Queued, Away) \<or> G t = (Queued, Up)" and "lo (sm_val_nw (sw_sem w)) > 0"
  shows "sem_sleep_inv n (w\<lparr>sw_sem := (sw_sem w)\<lparr>sm_val_nw :=
    \<lparr>lo = lo (sm_val_nw (sw_sem w)) - 1, hi = hi (sm_val_nw (sw_sem w)) - 1\<rparr>\<rparr>\<rparr>, Z) (G(t := (Holding, Away)))"
proof -
  have "lo (sm_val_nw (sw_sem w)) \<noteq> 0" using assms(3) by auto
  then have "Suc (unat (lo (sm_val_nw (sw_sem w)) - 1)) = unat (lo (sm_val_nw (sw_sem w)))"
    using unat_pred_32 by (simp add: unat_gt_0)
  then show ?thesis
    using assms sem_dequeue [OF sem_sleep_inv_word [OF assms(1)], of t]
    by (intro sem_sleep_move [OF assms(1) awake [OF assms(1)]]) (auto simp: agent_def)
qed

lemma sleeping_queue:
  fixes G :: "'t::finite \<Rightarrow> sem_phase \<times> place"
  assumes "sem_sleep_inv n (w, Z) G" and "G t = (Idle, Away)"
  shows "sem_sleep_inv n (w\<lparr>sw_sem := (sw_sem w)\<lparr>sm_val_nw :=
    \<lparr>lo = lo (sm_val_nw (sw_sem w)), hi = hi (sm_val_nw (sw_sem w)) + 1\<rparr>\<rparr>\<rparr>, Z) (G(t := (Queued, Away)))"
  using assms sem_queue [OF sem_sleep_inv_word [OF assms(1)], of t]
  by (intro sem_sleep_move [OF assms(1) awake [OF assms(1)]]) (auto simp: agent_def)

lemma sleeping_unqueue:
  fixes G :: "'t::finite \<Rightarrow> sem_phase \<times> place"
  assumes "sem_sleep_inv n (w, Z) G" and "G t = (Queued, Away)"
  shows "sem_sleep_inv n (w\<lparr>sw_sem := (sw_sem w)\<lparr>sm_val_nw :=
    \<lparr>lo = lo (sm_val_nw (sw_sem w)), hi = hi (sm_val_nw (sw_sem w)) - 1\<rparr>\<rparr>\<rparr>, Z) (G(t := (Idle, Away)))"
  using assms sem_give_up [OF sem_sleep_inv_word [OF assms(1)], of t]
  by (intro sem_sleep_move [OF assms(1) awake [OF assms(1)]]) (auto simp: agent_def)

text \<open>Giving it back: whoever is registered as a waiter is seen in the same access.\<close>

lemma sleeping_post:
  fixes G :: "'t::finite \<Rightarrow> sem_phase \<times> place"
  assumes "sem_sleep_inv n (w, Z) G" and "G t = (Holding, Away)"
  shows "sem_sleep_inv n (w\<lparr>sw_sem := (sw_sem w)\<lparr>sm_val_nw :=
      \<lparr>lo = lo (sm_val_nw (sw_sem w)) + 1, hi = hi (sm_val_nw (sw_sem w))\<rparr>\<rparr>\<rparr>, Z)
    (G(t := (Idle, if hi (sm_val_nw (sw_sem w)) > 0 then Wakes else Away)))"
proof -
  have "Z = {}" if "\<not> hi (sm_val_nw (sw_sem w)) > 0"
  proof -
    have "card {u. (fst \<circ> G) u = Queued} = 0" using that assms(1) by (simp add: sem_sleep_inv_def sem_inv_def word_gt_0)
    then have "fst (G u) \<noteq> Queued" for u by simp
    then show ?thesis using assms(1) by (auto simp: sem_sleep_inv_def) (metis fst_conv)
  qed
  moreover have "unat (lo (sm_val_nw (sw_sem w)) + 1) \<le> unat (lo (sm_val_nw (sw_sem w))) + 1"
    by (metis unat_Suc_32 unat_0 Suc_eq_plus1 le_refl zero_le)
  ultimately show ?thesis
    using assms sem_give_back(1) [OF sem_sleep_inv_word [OF assms(1)], of t]
    by (intro sem_sleep_move [OF assms(1) awake [OF assms(1)]]) (auto simp: agent_def)
qed

subsection \<open>The functions, served by the kernel\<close>

lemma callfree_if: "callfree p \<Longrightarrow> callfree q \<Longrightarrow> callfree (if b then p else q)"
  by simp

lemma callfree_x [callfree]:
  "callfree (atomic_loadx x)" "callfree (atomic_casx_bool x l h l' h')"
  "callfree (atomic_or w m)" "callfree (atomic_and w m)"
  by (simp_all add: atomic_defs)

lemma callfree_addx [callfree]: "callfree (atomic_addx_hi x d)"
  unfolding atomic_addx_hi_def by (auto simp: atomic_addx_mem_def Let_def callfree intro!: callfree_loop callfree_bind)

lemma callfree_sem [callfree]:
  "callfree (sem_trywait_int semp)" "callfree (sem_cleanup semp)" "callfree (sem_post_bump semp')"
  by (auto simp: sem_trywait_int_def sem_cleanup_def sem_post_bump_def callfree intro!: callfree_loop callfree_bind)

lemma callfree_cancel [callfree]: "callfree (cancelpoint_begin self)" "callfree (cancelpoint_end self prev)"
  by (auto simp: cancelpoint_begin_def cancelpoint_end_def pthread_exit_def Let_def callfree intro!: callfree_loop callfree_bind)

lemma sleeping_trywait_int:
  "sleeping n t (\<lambda>ok g. g = (if ok then (Holding, Away) else (Idle, Away))) (Idle, Away) (served H (sem_trywait_int (sem_at a)))"
proof (rule safe_served)
  have c: "sleeping n t (\<lambda>ok g. g = (if ok then (Holding, Away) else (Idle, Away))) (Idle, Away)
      (atomic_cas_bool (lo_cell (sem_val_nw (sem_at a))) v (v - 1))" if "v \<noteq> 0" for v
    by (rule safe_cas [where g' = "(Holding, Away)"]) (use that in \<open>auto dest: sleeping_take\<close>)
  show "sleeping n t (\<lambda>ok g. g = (if ok then (Holding, Away) else (Idle, Away))) (Idle, Away) (sem_trywait_int (sem_at a))"
    unfolding sem_trywait_int_def
    by (rule safe_loop [where J = "\<lambda>_ g. g = (Idle, Away)"], simp,
        rule safe_bind [where R = "\<lambda>_ g. g = (Idle, Away)"], rule safe_atomic_load)
      (auto intro!: safe_bind [OF c])
qed (simp add: callfree)

lemma sleeping_addx:
  "sleeping n t (\<lambda>_ g. g = (Queued, Away)) (Idle, Away) (served H (atomic_addx_hi (sem_val_nw (sem_at a)) 1))"
  by (rule safe_served, unfold atomic_addx_hi_def, rule safe_addx [where g' = "(Queued, Away)"])
    (auto simp: sleeping_queue callfree atomic_addx_hi_def [symmetric])

lemma sleeping_cleanup:
  "sleeping n t (\<lambda>_ g. g = (Idle, Away)) (Queued, Away) (served H (sem_cleanup (sem_at a)))"
  unfolding sem_cleanup_def served_bind
  by (rule safe_bind [where R = "\<lambda>_ g. g = (Idle, Away)"], rule safe_served, unfold atomic_addx_hi_def,
      rule safe_addx [where g' = "(Idle, Away)"])
    (auto simp: sleeping_unqueue callfree atomic_addx_hi_def [symmetric])

text \<open>The program of a thread that nobody cancels.\<close>

definition uncancelled :: "reply \<Rightarrow> reply" where
  "uncancelled r = r\<lparr>r_cancelled := False\<rparr>"

lemma uncancelled_sel [simp]:
  "\<not> r_cancelled (uncancelled r)" "r_code (uncancelled r) = r_code r" "r_head_id (uncancelled r) = r_head_id r"
  "r_retcode (uncancelled r) = r_retcode r" "r_port (uncancelled r) = r_port r" "r_now (uncancelled r) = r_now r"
  by (simp_all add: uncancelled_def)

lemma answers_callfree: "callfree p \<Longrightarrow> answers F p = p"
proof (coinduction arbitrary: p rule: prog.coinduct_strong)
  case Eq_prog
  then show ?case by (cases p) (auto simp: rel_fun_def)
qed

lemma answers_sys: "answers F (sys c) = bind (sys c) (\<lambda>r. Ret (F r))"
  by (simp add: sys_def)

lemma uncancelled_divert: "answers uncancelled (divert h p) = answers uncancelled p"
proof (coinduction arbitrary: p rule: prog.coinduct_strong)
  case Eq_prog
  show ?case by (cases p) (auto simp: rel_fun_def)
qed

lemma uncancelled_waits:
  "answers uncancelled (lll_wait c v fl) = lll_wait c v fl"
  "answers uncancelled (lll_abstimed_wait c v tsp fl clk) = lll_abstimed_wait c v tsp fl clk"
  by (simp_all add: lll_wait_def lll_abstimed_wait_def lll_timed_wait_def compute_reltime_def gsync_wait_def answering answers_sys
      bind_assoc cong: if_cong)

lemma uncancelled_cancelpoint:
  "answers uncancelled (cancelpoint self p) = bind (cancelpoint_begin self) (\<lambda>b. case b of
     Exits \<Rightarrow> Ret Exits
   | Value prev \<Rightarrow> bind (answers uncancelled p) (\<lambda>a. bind (cancelpoint_end self prev) (\<lambda>_. Ret (Value a))))"
  by (simp add: cancelpoint_def answering answers_callfree callfree uncancelled_divert Let_def bind_assoc
      cong: if_cong unwinding.case_cong, rule arg_cong2 [where f = bind, OF refl], rule ext)
    (auto split: unwinding.split)

text \<open>A cancellation point that is registered as a waiter.\<close>

lemma sleeping_pt:
  fixes t :: "'t::finite"
  shows "sleeping n t (\<lambda>_ g'. g' = g) g (served H (cancelpoint_begin (pt_at addr t)))"
    and "sleeping n t (\<lambda>_ g'. g' = g) g (served H (cancelpoint_end (pt_at addr t) prev))"
proof -
  have i: "sem_sleep_inv n s G \<Longrightarrow> sem_sleep_inv n (c_put (pt_at addr t) v s) G" for s v and G :: "'t \<Rightarrow> sem_phase \<times> place"
    by (cases s) (simp add: sem_sleep_inv_pt)
  show "sleeping n t (\<lambda>_ g'. g' = g) g (served H (cancelpoint_begin (pt_at addr t)))"
    by (rule safe_served [OF safe_cancelpoint_begin]) (use i in \<open>auto simp: callfree\<close>)
  show "sleeping n t (\<lambda>_ g'. g' = g) g (served H (cancelpoint_end (pt_at addr t) prev))"
    by (rule safe_served)
      (use i in \<open>auto simp: callfree cancelpoint_end_def atomic_and_def fun_upd_idem intro!: safe_ActI [where h = "\<lambda>_. g"]\<close>)
qed

abbreviation waited :: "int \<Rightarrow> sem_phase \<times> place \<Rightarrow> bool" where
  "waited r g \<equiv> g = (Queued, Away) \<or> g = (Queued, Up) \<and> r = 0"

lemma sleeping_cancelpoint:
  fixes t :: "'t::finite"
  assumes "sleeping n t waited (Queued, Away) (served H (answers uncancelled p))"
  shows "sleeping n t (\<lambda>r g. case r of Exits \<Rightarrow> g = (Queued, Away) | Value a \<Rightarrow> waited a g) (Queued, Away)
    (served H (answers uncancelled (cancelpoint (pt_at addr t) p)))"
  unfolding uncancelled_cancelpoint served_bind
proof (rule safe_bind [OF sleeping_pt(1)])
  fix b :: "bool unwinding" and g assume "g = (Queued, Away)"
  then show "sleeping n t (\<lambda>r g. case r of Exits \<Rightarrow> g = (Queued, Away) | Value a \<Rightarrow> waited a g) g
    (served H (case b of Exits \<Rightarrow> Ret Exits | Value prev \<Rightarrow>
       bind (answers uncancelled p) (\<lambda>a. bind (cancelpoint_end (pt_at addr t) prev) (\<lambda>_. Ret (Value a)))))"
    by (cases b) (auto simp: served_bind intro!: safe_bind [OF assms] safe_bind [OF sleeping_pt(2)])
qed

text \<open>One round of waiting, and the loop of them.\<close>

abbreviation round_left :: "unit + ret unwinding \<Rightarrow> sem_phase \<times> place \<Rightarrow> bool" where
  "round_left r g \<equiv> (case r of Inl _ \<Rightarrow> g = (Queued, Away) \<or> g = (Queued, Up)
     | Inr x \<Rightarrow> g = (if x = Value OK then (Holding, Away) else (Queued, Away)))"

lemma sleeping_look:
  fixes t :: "'t::finite"
  assumes "g = (Queued, Away) \<or> g = (Queued, Up)"
  shows "sleeping n t (\<lambda>x g'. g' = (if lo x = 0 then (Queued, Away) else g)) g (served H (atomic_loadx (sem_val_nw (sem_at a))))"
proof (rule safe_served [OF _ callfree_x(1)])
  have i: "sem_sleep_inv n (w, Z) (G(t := if lo (sm_val_nw (sw_sem w)) = 0 then (Queued, Away) else g))"
    if "sem_sleep_inv n (w, Z) G" "G t = g" for w Z and G :: "'t \<Rightarrow> sem_phase \<times> place"
  proof -
    have "(fst \<circ> G)(t := Queued) = fst \<circ> G" using assms that(2) by auto
    then show ?thesis
      using that assms by (intro sem_sleep_move [OF that(1) awake [OF that(1)]]) (auto simp: sem_sleep_inv_word)
  qed
  show "sleeping n t (\<lambda>x g'. g' = (if lo x = 0 then (Queued, Away) else g)) g (atomic_loadx (sem_val_nw (sem_at a)))"
    unfolding atomic_loadx_def
  proof (rule safe_ActI [where h = "\<lambda>s. if lo (sm_val_nw (sw_sem (fst s))) = 0 then (Queued, Away) else g"], goal_cases)
    case (1 s G)
    then show ?case using i [of "fst s" "snd s" G] by simp
  qed simp
qed

lemma sleeping_round:
  fixes t :: "'t::finite"
  assumes "sleeping n t round_left (Queued, Away) (served H block)" and g: "g = (Queued, Away) \<or> g = (Queued, Up)"
  shows "sleeping n t round_left g (served H (sem_round (sem_at a) block))"
proof -
  have c: "sleeping n t (\<lambda>ok g'. g' = (if ok then (Holding, Away) else g)) g
      (served H (atomic_casx_bool (sem_val_nw (sem_at a)) (lo tmp) (hi tmp) (lo tmp - 1) (hi tmp - 1)))"
    if "lo tmp > 0" for tmp
  proof (rule safe_served [OF _ callfree_x(2)], rule safe_casx [where g' = "(Holding, Away)"])
    fix s and G :: "'t \<Rightarrow> sem_phase \<times> place" assume "sem_sleep_inv n s G" "G t = g"
      and "c_get (sem_val_nw (sem_at a)) s = \<lparr>lo = lo tmp, hi = hi tmp\<rparr>"
    with sleeping_dequeue [of n "fst s" "snd s" G t] that g
    show "sem_sleep_inv n (c_put (sem_val_nw (sem_at a)) \<lparr>lo = lo tmp - 1, hi = hi tmp - 1\<rparr> s) (G(t := (Holding, Away)))"
      by (cases s) simp
  qed simp_all
  show ?thesis
    unfolding sem_round_def served_bind
  proof (rule safe_bind [OF sleeping_look [OF g]])
    fix tmp g' assume "g' = (if lo tmp = 0 then (Queued, Away) else g)"
    then show "sleeping n t round_left g' (served H (if lo tmp > 0 then
        bind (atomic_casx_bool (sem_val_nw (sem_at a)) (lo tmp) (hi tmp) (lo tmp - 1) (hi tmp - 1))
          (\<lambda>ok. if ok then leave (Value OK) else again ())
      else block))"
      using assms by (auto simp: served_bind word_gt_0 intro!: safe_bind [OF c])
  qed
qed

lemma sleeping_waiting:
  fixes t :: "'t::finite"
  assumes "sleeping n t round_left (Queued, Away) (served H block)"
  shows "sleeping n t (\<lambda>r g. g = (if r = Value OK then (Holding, Away) else (Idle, Away))) (Idle, Away)
    (served H (bind (atomic_addx_hi (sem_val_nw (sem_at a)) 1) (\<lambda>_.
      with_cleanup (sem_cleanup (sem_at a)) (\<lambda>ret. ret \<noteq> OK) (loop (\<lambda>_. sem_round (sem_at a) block) ()))))"
proof -
  have l: "sleeping n t (\<lambda>r g. g = (if r = Value OK then (Holding, Away) else (Queued, Away))) (Queued, Away)
      (served H (loop (\<lambda>_. sem_round (sem_at a) block) ()))"
    unfolding served_loop
    by (rule safe_loop [where J = "\<lambda>_ g. g = (Queued, Away) \<or> g = (Queued, Up)"], simp,
        rule safe_mono [OF sleeping_round [OF assms]])
      (auto split: sum.splits)
  show ?thesis
    unfolding with_cleanup_def served_bind
    by (rule safe_bind [OF sleeping_addx], simp, rule safe_bind [OF l])
      (auto simp: served_bind split: unwinding.splits intro!: safe_bind [OF sleeping_cleanup])
qed

text \<open>The functions.\<close>

lemma sleeping_flags:
  "sleeping n t (\<lambda>fl g'. fl AND GSYNC_MUTATE = 0 \<and> fl AND GSYNC_QUAD = 0 \<and> g' = g) g (served H (load (sem_flags (sem_at a))))"
  by (rule safe_served [OF _ callfree_access(1)], rule safe_load) (auto simp: sem_sleep_inv_def sem_inv_def)

lemma answers_sem [answering]:
  "answers F (sem_trywait_int semp) = sem_trywait_int semp" "answers F (atomic_addx_hi x d) = atomic_addx_hi x d"
  "answers F (sem_cleanup semp) = sem_cleanup semp" "answers F (sem_post_bump semp) = sem_post_bump semp"
  by (simp_all add: answers_callfree callfree)

lemma answers_round [answering]: "answers F (sem_round semp p) = sem_round semp (answers F p)"
  by (simp add: sem_round_def answering answers_callfree callfree cong: if_cong)

lemma sleeping_block:
  fixes t :: "'t::finite"
  shows "sleeping n t waited (Queued, Away) (sem_serve a pick t (answers uncancelled
      (bind (load (sem_flags (sem_at a))) (\<lambda>fl. lll_wait (lo_cell (sem_val_nw (sem_at a))) 0 fl))))"
    and "sleeping n t waited (Queued, Away) (sem_serve a pick t (answers uncancelled
      (bind (load (sem_flags (sem_at a))) (\<lambda>fl. lll_abstimed_wait (lo_cell (sem_val_nw (sem_at a))) 0 tsp fl clk))))"
  unfolding answers_bind uncancelled_waits answers_atomic served_bind
  by (rule safe_bind [OF sleeping_flags];
      auto simp: lll_abstimed_wait_def compute_reltime_def served_bind bind_assoc
        intro!: sem_sleep.safely_sys sem_sleep.safely_lll_wait sem_sleep.safely_lll_timed_wait)+

lemma sleeping_wait:
  fixes t :: "'t::finite"
  shows "sleeping n t (\<lambda>r g. g = (if r = Value OK then (Holding, Away) else (Idle, Away))) (Idle, Away)
    (sem_serve a pick t (answers uncancelled (sem_wait (pt_at addr t) (sem_at a))))"
  unfolding sem_wait_def answering served_bind
  by (rule safe_bind [OF sleeping_trywait_int])
    (auto simp: answering served_bind split: unwinding.splits
      intro!: sleeping_waiting [unfolded served_bind] safe_bind [OF sleeping_cancelpoint [OF sleeping_block(1)]])

lemma sleeping_timedwait:
  fixes t :: "'t::finite"
  shows "sleeping n t (\<lambda>r g. g = (if r = Value OK then (Holding, Away) else (Idle, Away))) (Idle, Away)
    (sem_serve a pick t (answers uncancelled (sem_timedwait (pt_at addr t) (sem_at a) tsp)))"
  unfolding sem_timedwait_def answering served_bind
  by (rule safe_bind [OF sleeping_trywait_int])
    (auto simp: answering served_bind split: unwinding.splits
      intro!: sleeping_waiting [unfolded served_bind] safe_bind [OF sleeping_cancelpoint [OF sleeping_block(2)]])

lemma sleeping_sem_take:
  fixes t :: "'t::finite"
  shows "sleeping n t (\<lambda>r g. g = (if r = Value OK then (Holding, Away) else (Idle, Away))) (Idle, Away)
    (sem_serve a pick t (answers uncancelled (sem_take (pt_at addr t) (sem_at a) call)))"
proof (cases call)
  case Trylock
  show ?thesis
    unfolding Trylock sem_take.simps sem_trywait_def answering bind_assoc served_bind
    by (rule safe_bind [OF sleeping_trywait_int]) auto
qed (simp_all only: sem_take.simps sleeping_wait sleeping_timedwait)

lemma sleeping_bump:
  fixes t :: "'t::finite"
  shows "sleeping n t (\<lambda>r g. \<exists>x. r = Some x \<and> g = (Idle, if hi x > 0 then Wakes else Away)) (Holding, Away)
    (served H (sem_post_bump (sem_at a)))"
proof (rule safe_served)
  have look: "sleeping n t (\<lambda>x g. lo x \<noteq> SEM_VALUE_MAX \<and> g = (Holding, Away)) (Holding, Away) (atomic_loadx (sem_val_nw (sem_at a)))"
  proof (rule safe_loadx)
    fix s and G :: "'t \<Rightarrow> sem_phase \<times> place" assume "sem_sleep_inv n s G" "G t = (Holding, Away)"
    then show "lo (c_get (sem_val_nw (sem_at a)) s) \<noteq> SEM_VALUE_MAX \<and> (Holding, Away) = (Holding, Away)"
      using sem_give_back(2) [OF sem_sleep_inv_word, of n "fst s" "snd s" G t] by (cases s) simp
  qed
  have cas: "sleeping n t (\<lambda>ok g. g = (if ok then (Idle, if hi tmp > 0 then Wakes else Away) else (Holding, Away))) (Holding, Away)
      (atomic_casx_bool (sem_val_nw (sem_at a)) (lo tmp) (hi tmp) (lo tmp + 1) (hi tmp))" for tmp
  proof (rule safe_casx [where g' = "(Idle, if hi tmp > 0 then Wakes else Away)"])
    fix s and G :: "'t \<Rightarrow> sem_phase \<times> place" assume "sem_sleep_inv n s G" "G t = (Holding, Away)"
      and "c_get (sem_val_nw (sem_at a)) s = \<lparr>lo = lo tmp, hi = hi tmp\<rparr>"
    with sleeping_post [of n "fst s" "snd s" G t]
    show "sem_sleep_inv n (c_put (sem_val_nw (sem_at a)) \<lparr>lo = lo tmp + 1, hi = hi tmp\<rparr> s)
        (G(t := (Idle, if hi tmp > 0 then Wakes else Away)))" by (cases s) simp
  qed simp_all
  show "sleeping n t (\<lambda>r g. \<exists>x. r = Some x \<and> g = (Idle, if hi x > 0 then Wakes else Away)) (Holding, Away) (sem_post_bump (sem_at a))"
    unfolding sem_post_bump_def
    by (rule safe_loop [where J = "\<lambda>_ g. g = (Holding, Away)"], simp, simp, rule safe_bind [OF look])
      (auto intro!: safe_bind [OF cas])
qed (simp add: callfree)

lemma sleeping_sem_post:
  fixes t :: "'t::finite" and pick :: "reply \<Rightarrow> 't set \<Rightarrow> 't"
  assumes "\<And>r Z. Z \<noteq> {} \<Longrightarrow> pick r Z \<in> Z"
  shows "sleeping n t (\<lambda>r g. g = (Idle, Away)) (Holding, Away) (sem_serve a pick t (answers uncancelled (sem_post (sem_at a))))"
proof -
  have w: "answers uncancelled (lll_wake c fl) = lll_wake c fl" for c :: "('t sem_world \<times> 't set, u32) cell" and fl
    by (simp add: lll_wake_def gsync_wake_def answering answers_sys bind_assoc)
  show ?thesis
    unfolding sem_post_def answering served_bind
    by (rule safe_bind [OF sleeping_bump])
      (auto simp: answering w served_bind intro!: safe_bind [OF sleeping_flags] safe_bind [OF sem_sleep.safely_lll_wake] assms)
qed

lemma sleeping_user:
  fixes t :: "'t::finite" and pick :: "reply \<Rightarrow> 't set \<Rightarrow> 't"
  assumes "\<And>r Z. Z \<noteq> {} \<Longrightarrow> pick r Z \<in> Z"
  shows "sleeping n t (\<lambda>_ g. g = (Idle, Away)) (Idle, Away)
    (sem_serve a pick t (answers uncancelled (sem_user (pt_at addr t) (sem_at a) k calls)))"
  unfolding sem_user_def answering served_loop
  by (rule safe_loop [where J = "\<lambda>_ g. g = (Idle, Away)"], simp)
    (auto simp: answering answers_sys served_bind bind_assoc
      intro!: safe_bind [OF sleeping_sem_take] sem_sleep.safely_sys safe_bind [OF sleeping_sem_post [OF assms]])

subsection \<open>Properties\<close>

text \<open>
  C11. A semaphore wakes who can go on: in a kernel where a thread sleeps until it is woken, threads that wait in any of the three ways and post afterwards, with
  timeouts and interruptions but not cancelled, never get stuck: if each thread has ended or sleeps, all have ended, as long as the initial value
  is positive; and then the value is the initial one again.
\<close>

theorem sem_no_lost_wakeup:
  fixes P :: "'t::finite \<Rightarrow> ('t sem_world \<times> 't set, unit) prog"
  assumes "blocking_contract K (lo_cell (sem_val_nw (sw_sem_cell a)))"
    and "card (UNIV :: 't set) < 2 ^ 32" and "0 < val" and "val \<le> SEM_VALUE_MAX"
    and "reach (\<lambda>_ s. s) (\<lparr>sw_sem = new_sem val shared, sw_pt = pts\<rparr>, {})
      (\<lambda>t. served (K t) (answers uncancelled (sem_user (pt_at addr t) (sem_at a) (rounds t) (calls t)))) s P"
    and "\<And>t. (\<exists>x. P t = Ret x) \<or> t \<in> snd s"
  shows "(\<exists>x. P t = Ret x) \<and> lo (sm_val_nw (sw_sem (fst s))) = val"
proof -
  obtain pick where pick: "\<And>r Z. Z \<noteq> {} \<Longrightarrow> pick r Z \<in> Z" and K: "K = sleepy_kernel (lo_cell (sem_val_nw (sw_sem_cell a))) pick"
    using assms(1) by (auto simp: blocking_contract_def)
  have "sem_sleep_inv (unat val) (\<lparr>sw_sem = new_sem val shared, sw_pt = pts\<rparr>, {}) (\<lambda>_ :: 't. (Idle, Away))"
    using sem_inv_new [OF assms(4,2), of shared pts] by (simp add: sem_sleep_inv_def new_sem_def sem_init_def comp_def)
  moreover have "sleeping (unat val) t (\<lambda>_ g. g = (Idle, Away)) (Idle, Away)
      (served (K t) (answers uncancelled (sem_user (pt_at addr t) (sem_at a) (rounds t) (calls t))))" for t
    unfolding K by (rule sleeping_user) (rule pick)
  ultimately obtain G where G: "sem_sleep_inv (unat val) s G" "\<And>t. sleeping (unat val) t (\<lambda>_ g. g = (Idle, Away)) (G t) (P t)"
    using safe_reach [where I = "sem_sleep_inv (unat val)" and ?G0.0 = "\<lambda>_. (Idle, Away)" and A = "\<lambda>_ _ _. True"
        and Q = "\<lambda>_ _ g. g = (Idle, Away)", OF assms(5)] by blast
  have g: "G u = (if u \<in> snd s then (Queued, Down) else (Idle, Away))" for u
    using assms(6) [of u] G(1) G(2) [of u] by (auto simp: sem_sleep_inv_def)
  then have "agents (snd s) G = {}" "{u. (fst \<circ> G) u = Holding} = {}" by (auto simp: agents_def agent_def)
  then have v: "unat (lo (sm_val_nw (sw_sem (fst s)))) = unat val" "snd s = {} \<or> lo (sm_val_nw (sw_sem (fst s))) = 0"
    using G(1) by (auto simp: sem_sleep_inv_def sem_inv_def unat_eq_0)
  then have l: "lo (sm_val_nw (sw_sem (fst s))) = val" by (simp only: word_unat_eq_iff)
  with v(2) assms(3) have "snd s = {}" by auto
  with assms(6) l show ?thesis by auto
qed

text \<open>One value for two threads: the second sleeps until the first posts.\<close>

definition post_demo :: "(bool \<times> nat) list \<Rightarrow> (bool sem_world \<times> bool set) \<times> (bool \<Rightarrow> (bool sem_world \<times> bool set, unit) prog)" where
  "post_demo ts = sched (\<lambda>_ s. s) reply0 ts
    (\<lparr>sw_sem = new_sem 1 False, sw_pt = (\<lambda>_. undefined\<lparr>pt_flags := 0\<rparr>)\<rparr>, {})
    (\<lambda>t. served (sleepy_kernel (lo_cell (sem_val_nw (sw_sem_cell 64))) (\<lambda>_ Z. True \<in> Z) t)
      (answers uncancelled (sem_user (pt_at (\<lambda>_. 4096) t) (sem_at 64) 1 (\<lambda>_. Lock))))"

lemmas post_demo_eval = post_demo_def sem_user_def new_sem_def sem_init_def code_defs atomic_defs loop_def Let_def sleep_def rouse_def
  success_def CANCELLED_ENABLED_ASYNC_P_def

lemma post_demo_ends: "\<exists>x. snd (post_demo [(False, 4), (True, 50), (False, 50), (True, 90)]) t = Ret x"
  by (cases t) (simp_all add: post_demo_eval cong: lazy_cong lazy_unwinding_cong lazy_answers_cong lazy_served_cong)

lemma post_demo_sleeps: "snd (fst (post_demo [(False, 4), (True, 50)])) = {True}"
  by (simp add: post_demo_eval cong: lazy_cong lazy_unwinding_cong lazy_answers_cong lazy_served_cong)

lemma sem_no_lost_wakeup_witness:
  "snd (fst (post_demo [(False, 4), (True, 50)])) = {True} \<and>
   lo (sm_val_nw (sw_sem (fst (fst (post_demo [(False, 4), (True, 50), (False, 50), (True, 90)]))))) = 1"
proof -
  let ?S = "post_demo [(False, 4), (True, 50), (False, 50), (True, 90)]"
  have "reach (\<lambda>_ s. s) (\<lparr>sw_sem = new_sem 1 False, sw_pt = (\<lambda>_. undefined\<lparr>pt_flags := 0\<rparr>)\<rparr>, {})
      (\<lambda>t. served (sleepy_kernel (lo_cell (sem_val_nw (sw_sem_cell 64))) (\<lambda>_ Z. True \<in> Z) t)
        (answers uncancelled (sem_user (pt_at (\<lambda>_. 4096) t) (sem_at 64) 1 (\<lambda>_. Lock)))) (fst ?S) (snd ?S)"
    by (rule reach_sched [where ts = "[(False, 4), (True, 50), (False, 50), (True, 90)]" and r = reply0])
      (simp add: post_demo_def)
  then show ?thesis
    using sem_no_lost_wakeup [OF sleepy_contract _ _ _ _ disjI1 [OF post_demo_ends]] post_demo_sleeps by simp
qed

text \<open>Two waiters and a post. The thread \<open>Some c\<close> waits, and is made to exit in the wait if \<open>c\<close>.\<close>

definition cancel_demo :: "(bool option \<times> nat) list \<Rightarrow>
    (bool option sem_world \<times> bool option set) \<times> (bool option \<Rightarrow> (bool option sem_world \<times> bool option set, ret unwinding) prog)" where
  "cancel_demo ts = sched (\<lambda>_ s. s) reply0 ts
    (\<lparr>sw_sem = new_sem 0 False, sw_pt = (\<lambda>_. undefined\<lparr>pt_flags := 0\<rparr>)\<rparr>, {})
    (\<lambda>t. served (sleepy_kernel (lo_cell (sem_val_nw (sw_sem_cell 64)))
        (\<lambda>_ Z. if Some True \<in> Z then Some True else if Some False \<in> Z then Some False else None) t)
      (case t of None \<Rightarrow> bind (sem_post (sem_at 64)) (\<lambda>r. Ret (Value r))
       | Some c \<Rightarrow> answers (\<lambda>r. r\<lparr>r_cancelled := c\<rparr>) (sem_wait (pt_at (\<lambda>_. 4096) t) (sem_at 64))))"

lemmas cancel_demo_eval = cancel_demo_def new_sem_def sem_init_def code_defs atomic_defs loop_def Let_def sleep_def rouse_def
  success_def CANCELLED_ENABLED_ASYNC_P_def blocking_def


end
