(* ===== verification/OnceWakeups.thy ===== *)
theory OnceWakeups
  imports Wakeups Once
begin

text \<open>
  Wakeups of \<open>pthread_once\<close>: whoever sleeps is woken when the routine has been executed, and also when the thread that executes it
  is cancelled.
\<close>

subsection \<open>The invariant\<close>

definition once_sleep_inv :: "u32 \<Rightarrow> once_world \<times> 't set \<Rightarrow> ('t \<Rightarrow> once_phase \<times> place) \<Rightarrow> bool" where
  "once_sleep_inv pid s G \<longleftrightarrow> once_inv pid (fst s) (fst \<circ> G) \<and> (\<forall>t\<in>snd s. G t = (OnceOut, Down)) \<and>
    (snd s = {} \<or> (\<exists>t. once_busy (fst (G t)) \<or> snd (G t) = Wakes))"

lemma once_sleep_move:
  assumes "once_sleep_inv pid (w, Z) G" and "t \<notin> Z" and "once_inv pid w' ((fst \<circ> G)(t := fst g))"
    and "once_busy (fst g) \<or> snd g = Wakes \<or> \<not> once_busy (fst (G t)) \<and> snd (G t) \<noteq> Wakes"
  shows "once_sleep_inv pid (w', Z) (G(t := g))"
  using assms unfolding once_sleep_inv_def phases_upd by (auto; metis)

lemma once_sleep_wake_all:
  assumes "once_sleep_inv pid (w, Z) G" and "once_inv pid w' ((fst \<circ> G)(t := fst g))"
  shows "once_sleep_inv pid (w', {}) (G(t := g))"
  using assms by (simp add: once_sleep_inv_def phases_upd)

lemma once_sleep_stay:
  assumes "once_sleep_inv pid (w, Z) G" and "G t = (OnceOut, p)"
  shows "once_inv pid w ((fst \<circ> G)(t := OnceOut))"
proof -
  have "(fst \<circ> G)(t := OnceOut) = fst \<circ> G" using assms(2) by auto
  with assms(1) show ?thesis by (simp add: once_sleep_inv_def)
qed

lemma once_sleep_asleep:
  assumes "once_sleep_inv pid (w, Z) G" and "G t = (OnceOut, Away)" and "ow_ctl w = once_token pid"
  shows "once_sleep_inv pid (w, insert t Z) (G(t := (OnceOut, Down)))"
proof -
  obtain u where "once_busy (fst (G u))"
    using assms(1,3) once_token_neq [of pid] by (auto simp: once_sleep_inv_def once_inv_def)
  moreover from this have "u \<noteq> t" using assms(2) by auto
  ultimately show ?thesis
    using assms(1) once_sleep_stay [OF assms(1,2)] by (auto simp: once_sleep_inv_def phases_upd intro!: exI [of _ u])
qed

lemma once_sleep_leave:
  assumes "once_sleep_inv pid (w, Z) G" and "G t = (OnceOut, Down)"
  shows "once_sleep_inv pid (w, Z - {t}) (G(t := (OnceOut, Away)))"
  using assms once_sleep_stay [OF assms] by (auto simp: once_sleep_inv_def phases_upd; metis fst_conv snd_conv place.distinct once_busy.simps)

interpretation once_sleep: waiters "once_sleep_inv pid" "ow_cell a" "once_token pid"
  "(OnceOut, Away)" "(OnceOut, Down)" "(OnceOut, Away)" for pid a
  by unfold_locales (auto simp: once_sleep_asleep once_sleep_leave split_paired_all dest: once_sleep_leave)

subsection \<open>The function, served by the kernel\<close>

abbreviation once_at :: "u32 \<Rightarrow> (once_world \<times> 't set, u32) cell" where
  "once_at a \<equiv> through fst_cell (ow_cell a)"

abbreviation once_sleeping ::
  "u32 \<Rightarrow> 't \<Rightarrow> ('a \<Rightarrow> once_phase \<times> place \<Rightarrow> bool) \<Rightarrow> once_phase \<times> place \<Rightarrow> (once_world \<times> 't set, 'a) prog \<Rightarrow> bool" where
  "once_sleeping pid t Q g p \<equiv> safe (\<lambda>_ _. True) (once_sleep_inv pid) (\<lambda>_ s. s) t Q g p"

lemma once_awake: "once_sleep_inv pid (w, Z) G \<Longrightarrow> G t \<noteq> (OnceOut, Down) \<Longrightarrow> t \<notin> Z"
  by (auto simp: once_sleep_inv_def)

lemma once_sleep_phase: "once_sleep_inv pid (w, Z) G \<Longrightarrow> once_inv pid w (fst \<circ> G)"
  by (simp add: once_sleep_inv_def)

lemma once_sleep_moves:
  assumes "once_sleep_inv pid (w, Z) G" and "G t = (g, Away)"
  shows "g = OnceOut \<Longrightarrow> ow_ctl w = ONCE_DONE \<Longrightarrow> once_sleep_inv pid (w, Z) (G(t := (OnceDone, Away)))"
    and "g = OnceOut \<Longrightarrow> ow_ctl w \<noteq> ONCE_DONE \<Longrightarrow> ow_ctl w \<noteq> once_token pid \<Longrightarrow>
      once_sleep_inv pid (w\<lparr>ow_ctl := once_token pid\<rparr>, Z) (G(t := (OnceRunning, Away)))"
    and "g = OnceRunning \<Longrightarrow> once_sleep_inv pid (w\<lparr>ow_runs := Suc (ow_runs w)\<rparr>, Z) (G(t := (OnceRan, Away)))"
    and "g = OnceRunning \<Longrightarrow> once_sleep_inv pid (w\<lparr>ow_ctl := ONCE_INIT\<rparr>, Z) (G(t := (OnceOut, Wakes)))"
    and "g = OnceRan \<Longrightarrow> once_sleep_inv pid (w\<lparr>ow_ctl := ONCE_DONE\<rparr>, {}) (G(t := (OnceDone, Away)))"
proof -
  note i = once_sleep_phase [OF assms(1)] and m = once_sleep_move [OF assms(1) once_awake [OF assms(1), of t]]
  note b = once_inv_moves [OF i, of t g]
  show "g = OnceOut \<Longrightarrow> ow_ctl w = ONCE_DONE \<Longrightarrow> once_sleep_inv pid (w, Z) (G(t := (OnceDone, Away)))"
    using assms(2) once_inv_done [OF i, of t] by (auto intro!: m)
  show "g = OnceOut \<Longrightarrow> ow_ctl w \<noteq> ONCE_DONE \<Longrightarrow> ow_ctl w \<noteq> once_token pid \<Longrightarrow>
      once_sleep_inv pid (w\<lparr>ow_ctl := once_token pid\<rparr>, Z) (G(t := (OnceRunning, Away)))"
    using assms(2) once_inv_start(2) [OF i, of t] by (auto intro!: m)
  show "g = OnceRunning \<Longrightarrow> once_sleep_inv pid (w\<lparr>ow_runs := Suc (ow_runs w)\<rparr>, Z) (G(t := (OnceRan, Away)))"
    using assms(2) b(1) by (auto intro!: m)
  show "g = OnceRunning \<Longrightarrow> once_sleep_inv pid (w\<lparr>ow_ctl := ONCE_INIT\<rparr>, Z) (G(t := (OnceOut, Wakes)))"
    using assms(2) b(2) by (auto intro!: m)
  show "g = OnceRan \<Longrightarrow> once_sleep_inv pid (w\<lparr>ow_ctl := ONCE_DONE\<rparr>, {}) (G(t := (OnceDone, Away)))"
    using assms(2) b(3) by (auto intro!: once_sleep_wake_all [OF assms(1)])
qed

lemma once_sleeping_load:
  "once_sleeping pid t (\<lambda>val g. val = ONCE_DONE \<and> g = (OnceDone, Away) \<or>
      (val = once_token pid \<or> val = ONCE_INIT) \<and> g = (OnceOut, Away)) (OnceOut, Away)
    (served H (atomic_load (once_at a)))"
proof (rule safe_served [OF _ callfree_access(3)], unfold atomic_load_def,
    rule safe_ActI [where h = "\<lambda>s. if ow_ctl (fst s) = ONCE_DONE then (OnceDone, Away) else (OnceOut, Away)"], goal_cases)
  case (1 s G)
  then show ?case
    using once_sleep_moves(1) [of pid "fst s" "snd s" G t OnceOut] by (auto simp: fun_upd_idem)
next
  case (2 s G)
  then show ?case by (auto simp: once_sleep_inv_def once_inv_def)
qed

lemma once_sleeping_claim:
  "once_sleeping pid t (\<lambda>ok g. g = (if ok then OnceRunning else OnceOut, Away)) (OnceOut, Away)
    (served H (atomic_cas_bool (once_at a) ONCE_INIT (once_token pid)))"
  by (rule safe_served [OF _ callfree_access(5)], rule safe_cas [where g' = "(OnceRunning, Away)"])
    (use once_token_neq [of pid] in \<open>auto dest: once_sleep_moves(2)\<close>)

lemma once_sleeping_routine:
  "once_sleeping pid t (\<lambda>r g. g = (if r = Exits then OnceRunning else OnceRan, Away)) (OnceRunning, Away)
    (served (sleepy_kernel c pick u) (lift_prog fst_cell once_routine))"
  unfolding once_routine_def lift_bind lift_sys
  by (auto simp: served_bind bind_assoc intro!: once_sleep.safely_sys safe_ActI [where h = "\<lambda>_. (OnceRan, Away)"]
      once_sleep_moves(3))

lemma once_sleeping_cleanup:
  "once_sleeping pid t (\<lambda>_ g. g = (OnceOut, Away)) (OnceRunning, Away)
    (served (sleepy_kernel (ow_cell a) pick t) (once_cleanup (once_at a)))"
proof -
  have s: "once_sleeping pid t (\<lambda>_ g. g = (OnceOut, Wakes)) (OnceRunning, Away)
      (served (sleepy_kernel (ow_cell a) pick t) (store (once_at a) ONCE_INIT))"
    by (rule safe_served [OF _ callfree_access(2)], rule safe_store [where g' = "(OnceOut, Wakes)"])
      (auto dest: once_sleep_moves(4))
  show ?thesis
    unfolding once_cleanup_def served_bind
    by (rule safe_bind [OF s], hypsubst, rule once_sleep.safely_lll_wake_all)
      (auto intro!: once_sleep_wake_all dest: once_sleep_stay)
qed

lemma once_sleeping_once:
  assumes "th_pid self = pid"
  shows "once_sleeping pid t (\<lambda>r g. g = (if r = Exits then OnceOut else OnceDone, Away)) (OnceOut, Away)
    (served (sleepy_kernel (ow_cell a) pick t) (pthread_once self (once_at a) (lift_prog fst_cell once_routine)))"
proof -
  have run: "once_sleeping pid t (\<lambda>r g. g = (if r = Exits then OnceOut else OnceRan, Away)) (OnceRunning, Away)
      (served (sleepy_kernel (ow_cell a) pick t)
        (with_cleanup (once_cleanup (once_at a)) (\<lambda>_. False) (lift_prog fst_cell once_routine)))"
    unfolding with_cleanup_def served_bind
    by (rule safe_bind [OF once_sleeping_routine])
      (auto simp: served_bind split: unwinding.splits intro!: safe_bind [OF once_sleeping_cleanup])
  have set: "once_sleeping pid t (\<lambda>_ g. g = (OnceDone, Away)) (OnceRan, Away)
      (served (sleepy_kernel (ow_cell a) pick t) (lll_set_wake (once_at a) ONCE_DONE GSYNC_BROADCAST))"
    by (rule once_sleep.safely_lll_set_wake_all) (auto dest: once_sleep_moves(5))
  show ?thesis
    unfolding pthread_once_def served_bind
    by (rule safe_bind [OF once_sleeping_load])
      (auto simp: assms Let_def once_token_neq served_bind served_loop split: unwinding.splits
        intro!: safe_loop [where J = "\<lambda>_ g. g = (OnceOut, Away)"] safe_bind [OF once_sleeping_load]
          safe_bind [OF once_sleep.safely_lll_wait] safe_bind [OF once_sleeping_claim] safe_bind [OF run] safe_bind [OF set])
qed

subsection \<open>Properties\<close>

text \<open>
  C14. Nobody waits for ever for a routine that is executed once: in a kernel where a thread sleeps until it is woken, threads that call
  \<open>pthread_once\<close> never get stuck, also if some of them are cancelled in the routine. If each has ended or sleeps, all have ended, and
  unless all were cancelled the routine has been executed, exactly once.
\<close>

theorem once_no_lost_wakeup:
  fixes P :: "'t \<Rightarrow> (once_world \<times> 't set, ret unwinding) prog"
  assumes "blocking_contract K (ow_cell a)" and "\<And>t. th_pid (thr t) = pid"
    and "reach (\<lambda>_ s. s) (once_new, {})
      (\<lambda>t. served (K t) (pthread_once (thr t) (once_at a) (lift_prog fst_cell once_routine))) s P"
    and "\<And>t. (\<exists>x. P t = Ret x) \<or> t \<in> snd s"
  shows "(\<exists>x. P t = Ret x) \<and> (P t = Ret Exits \<or> ow_ctl (fst s) = ONCE_DONE \<and> ow_runs (fst s) = 1)"
proof -
  obtain pick where K: "K = sleepy_kernel (ow_cell a) pick"
    using assms(1) by (auto simp: blocking_contract_def)
  have "once_sleep_inv pid (once_new, {}) (\<lambda>_ :: 't. (OnceOut, Away))"
    using once_inv_new by (simp add: once_sleep_inv_def comp_def)
  moreover have "once_sleeping pid t (\<lambda>r g. g = (if r = Exits then OnceOut else OnceDone, Away)) (OnceOut, Away)
      (served (K t) (pthread_once (thr t) (once_at a) (lift_prog fst_cell once_routine)))" for t
    unfolding K by (rule once_sleeping_once) (rule assms(2))
  ultimately obtain G where G: "once_sleep_inv pid s G"
    "\<And>t. once_sleeping pid t (\<lambda>r g. g = (if r = Exits then OnceOut else OnceDone, Away)) (G t) (P t)"
    using safe_reach [where I = "once_sleep_inv pid" and ?G0.0 = "\<lambda>_. (OnceOut, Away)" and A = "\<lambda>_ _ _. True"
        and Q = "\<lambda>_ r g. g = (if r = Exits then OnceOut else OnceDone, Away)", OF assms(3)] by blast
  have g: "P u = Ret Exits \<and> G u = (OnceOut, Away) \<or> G u = (OnceDone, Away) \<or> G u = (OnceOut, Down) \<and> u \<in> snd s" for u
    using assms(4) [of u] G(1) G(2) [of u] by (auto simp: once_sleep_inv_def split: if_splits)
  then have n: "\<not> once_busy (fst (G u))" "snd (G u) \<noteq> Wakes" for u
    by (metis fst_conv once_busy.simps(3,4), metis snd_conv place.distinct)
  then have e: "snd s = {}" using G(1) by (auto simp: once_sleep_inv_def)
  then obtain x where x: "P t = Ret x" using assms(4) by auto
  have "ow_ctl (fst s) = ONCE_DONE \<and> ow_runs (fst s) = 1" if "x \<noteq> Exits"
    using once_inv_finished(1) [of pid "fst s" "fst \<circ> G" t] G(1) G(2) [of t] n that x
    by (auto simp: once_sleep_inv_def once_inv_def)
  with x show ?thesis by auto
qed

text \<open>The thread \<open>True\<close> sleeps while the other one executes the routine.\<close>

definition once_wake_demo :: "(bool \<times> nat) list \<Rightarrow>
    (once_world \<times> bool set) \<times> (bool \<Rightarrow> (once_world \<times> bool set, ret unwinding) prog)" where
  "once_wake_demo ts = sched (\<lambda>_ s. s) reply0 ts (once_new, {})
    (\<lambda>t. served (sleepy_kernel (ow_cell 64) (\<lambda>_ Z. True \<in> Z) t)
      (pthread_once \<lparr>th_addr = 4096, th_id = of_bool t, th_pid = 7\<rparr> (once_at 64) (lift_prog fst_cell once_routine)))"

lemmas once_wake_demo_eval = once_wake_demo_def once_routine_def code_defs atomic_defs loop_def Let_def sleep_def rouse_def
  success_def gsync_effect_def

lemma once_wake_demo_sleeps: "snd (fst (once_wake_demo [(False, 8), (True, 30)])) = {True}"
  by (simp add: once_wake_demo_eval lifting cong: lazy_cong lazy_unwinding_cong lazy_served_cong)

lemma once_wake_demo_ends: "snd (once_wake_demo [(False, 8), (True, 30), (False, 40), (True, 40)]) t = Ret (Value OK)"
  by (cases t) (simp_all add: once_wake_demo_eval lifting cong: lazy_cong lazy_unwinding_cong lazy_served_cong)

lemma once_no_lost_wakeup_witness:
  "snd (fst (once_wake_demo [(False, 8), (True, 30)])) = {True} \<and>
   ow_runs (fst (fst (once_wake_demo [(False, 8), (True, 30), (False, 40), (True, 40)]))) = 1"
proof -
  let ?S = "once_wake_demo [(False, 8), (True, 30), (False, 40), (True, 40)]"
  have r: "reach (\<lambda>_ s. s) (once_new, {}) (\<lambda>t. served (sleepy_kernel (ow_cell 64) (\<lambda>_ Z. True \<in> Z) t)
      (pthread_once \<lparr>th_addr = 4096, th_id = of_bool t, th_pid = 7\<rparr> (once_at 64) (lift_prog fst_cell once_routine)))
      (fst ?S) (snd ?S)"
    by (rule reach_sched [where ts = "[(False, 8), (True, 30), (False, 40), (True, 40)]" and r = reply0])
      (simp add: once_wake_demo_def)
  have "\<exists>x. snd ?S t = Ret x" for t using once_wake_demo_ends by blast
  then have "snd ?S True = Ret Exits \<or> ow_ctl (fst (fst ?S)) = ONCE_DONE \<and> ow_runs (fst (fst ?S)) = 1"
    using once_no_lost_wakeup [OF sleepy_contract _ r, where pid = 7 and t = True] by simp
  then have "ow_runs (fst (fst ?S)) = 1" by (simp only: once_wake_demo_ends prog.inject unwinding.distinct simp_thms)
  with once_wake_demo_sleeps show ?thesis by blast
qed

end
