(* ===== verification/BarrierWakeups.thy ===== *)
theory BarrierWakeups
  imports Wakeups Barrier
begin

text \<open>
  Wakeups of a barrier: the last thread of a round wakes all that sleep in it, and those that it finds on the way to their sleep do not
  go to sleep any more.
\<close>

subsection \<open>The invariant\<close>

text \<open>
  A sleeper waits for the round in progress, or somebody is about to wake all. And the thread that completes a round knows that it does.
\<close>

definition bar_live :: "nat \<Rightarrow> pthread_barrier \<times> ('t::finite) set \<Rightarrow> ('t \<Rightarrow> bar_phase \<times> place) \<Rightarrow> bool" where
  "bar_live r s G \<longleftrightarrow> bar_ok r (fst s) (fst \<circ> G) \<and>
    (\<forall>t\<in>snd s. \<exists>n. G t = (BarWait n, Down) \<and> (n = r \<or> (\<exists>u. snd (G u) = Wakes))) \<and>
    ((\<forall>t. bar_arrived r (fst (G t))) \<longrightarrow> (\<exists>t. fst (G t) = BarLast r))"

text \<open>And nobody takes part in the round \<open>k\<close> or a later one.\<close>

fun bar_before :: "nat \<Rightarrow> bar_phase \<Rightarrow> bool" where
  "bar_before k (BarAt n) = (n \<le> k)"
| "bar_before k (BarRead n) = (n < k)"
| "bar_before k (BarWait n) = (n < k)"
| "bar_before k (BarLast n) = (n < k)"

definition bar_sleep_inv :: "nat \<Rightarrow> u32 \<Rightarrow> pthread_barrier \<times> ('t::finite) set \<Rightarrow> ('t \<Rightarrow> bar_phase \<times> place) \<Rightarrow> bool" where
  "bar_sleep_inv k tot s G \<longleftrightarrow> bar_total (fst s) = tot \<and> (\<forall>t. bar_before k (fst (G t))) \<and> (\<exists>r. bar_live r s G)"

lemma bar_live_move:
  assumes "bar_live r (w, Z) G" and "t \<notin> Z" and "snd (G t) \<noteq> Wakes" and "bar_ok r w' ((fst \<circ> G)(t := fst g))"
    and "(\<forall>u. bar_arrived r (fst ((G(t := g)) u))) \<longrightarrow> fst g = BarLast r"
  shows "bar_live r (w', Z) (G(t := g))"
proof -
  have "\<exists>n. (G(t := g)) u = (BarWait n, Down) \<and> (n = r \<or> (\<exists>v. snd ((G(t := g)) v) = Wakes))" if "u \<in> Z" for u
    using assms(1-3) that unfolding bar_live_def by (metis fst_conv snd_conv fun_upd_apply)
  moreover have "(\<forall>u. bar_arrived r (fst ((G(t := g)) u))) \<longrightarrow> (\<exists>u. fst ((G(t := g)) u) = BarLast r)"
    using assms(5) by (metis fun_upd_same)
  ultimately show ?thesis using assms(4) by (simp add: bar_live_def phases_upd)
qed

lemma bar_live_stay:
  assumes "bar_live r (w, Z) G" and "G t = (p, q)"
  shows "bar_ok r w ((fst \<circ> G)(t := p))" and "(\<forall>u. bar_arrived r (fst ((G(t := (p, q'))) u))) \<longrightarrow> (\<exists>u. fst ((G(t := (p, q'))) u) = BarLast r)"
proof -
  have f: "(fst \<circ> G)(t := p) = fst \<circ> G" using assms(2) by auto
  with assms(1) show "bar_ok r w ((fst \<circ> G)(t := p))" by (simp add: bar_live_def)
  have "fst ((G(t := (p, q'))) u) = fst (G u)" for u using assms(2) by simp
  with assms(1) show "(\<forall>u. bar_arrived r (fst ((G(t := (p, q'))) u))) \<longrightarrow> (\<exists>u. fst ((G(t := (p, q'))) u) = BarLast r)"
    by (simp add: bar_live_def del: fun_upd_apply)
qed

lemma bar_sleep_wait:
  assumes "bar_sleep_inv k tot (w, Z) G" and "G t = (BarWait n, p)" and "p \<noteq> Wakes"
    and "t \<in> Z' \<longrightarrow> p' = Down \<and> (t \<in> Z \<or> lo (bar_seq_cnt w) = of_nat n)" and "Z' - {t} \<subseteq> Z - {t}"
  shows "bar_sleep_inv k tot (w, Z') (G(t := (BarWait n, p')))"
proof -
  obtain r where r: "bar_live r (w, Z) G" and tot: "bar_total w = tot" and b: "\<And>u. bar_before k (fst (G u))"
    using assms(1) by (auto simp: bar_sleep_inv_def)
  have o: "bar_ok r w (fst \<circ> G)" using r by (simp add: bar_live_def)
  have p: "n = r \<or> Suc n = r" using bar_ok_possible [OF o, of t] assms(2) by simp
  have n: "n = r" if "lo (bar_seq_cnt w) = of_nat n"
    using that p o of_nat_Suc_32 [of n] by (auto simp: bar_ok_def simp del: of_nat_Suc)
  have w: "\<exists>v. snd ((G(t := (BarWait n, p'))) v) = Wakes" if "\<exists>v. snd (G v) = Wakes"
    using that assms(2,3) by (metis fun_upd_other snd_conv)
  have "\<exists>m. (G(t := (BarWait n, p'))) u = (BarWait m, Down) \<and> (m = r \<or> (\<exists>v. snd ((G(t := (BarWait n, p'))) v) = Wakes))"
    if u: "u \<in> Z'" for u
  proof (cases "u = t")
    case True
    then show ?thesis using u assms(2,4) n w r by (fastforce simp: bar_live_def)
  next
    case False
    then have "u \<in> Z" using u assms(5) by auto
    then obtain m where "G u = (BarWait m, Down)" "m = r \<or> (\<exists>v. snd (G v) = Wakes)"
      using r by (auto simp: bar_live_def)
    with False w show ?thesis by (metis fun_upd_other)
  qed
  with bar_live_stay [OF r assms(2)] have "bar_live r (w, Z') (G(t := (BarWait n, p')))"
    unfolding bar_live_def phases_upd fst_conv snd_conv by blast
  with tot b b [of t] assms(2) show ?thesis by (auto simp: bar_sleep_inv_def)
qed

lemma bar_sleep_wake_all:
  assumes "bar_sleep_inv k tot (w, Z) G" and "G t = (p, Wakes)"
  shows "bar_sleep_inv k tot (w, {}) (G(t := (p, Away)))"
proof -
  obtain r where r: "bar_live r (w, Z) G" and tot: "bar_total w = tot" and b: "\<And>u. bar_before k (fst (G u))"
    using assms(1) by (auto simp: bar_sleep_inv_def)
  with bar_live_stay [OF r assms(2)] have "bar_live r (w, {}) (G(t := (p, Away)))"
    unfolding bar_live_def phases_upd fst_conv snd_conv by blast
  with tot b b [of t] assms(2) show ?thesis by (auto simp: bar_sleep_inv_def)
qed

interpretation bar_sleep: waiters "bar_sleep_inv k tot" "bar_seq (whole a)" "of_nat n"
  "(BarWait n, Away)" "(BarWait n, Down)" "(BarWait n, Away)" for k tot a n
  by unfold_locales (auto simp: split_paired_all intro: bar_sleep_wait)

subsection \<open>The function, served by the kernel\<close>

abbreviation bar_here :: "u32 \<Rightarrow> (pthread_barrier \<times> 't set, pthread_barrier) cell" where
  "bar_here a \<equiv> through fst_cell (whole a)"

abbreviation bar_sleeping ::
  "nat \<Rightarrow> u32 \<Rightarrow> 't::finite \<Rightarrow> ('a \<Rightarrow> bar_phase \<times> place \<Rightarrow> bool) \<Rightarrow> bar_phase \<times> place \<Rightarrow> (pthread_barrier \<times> 't set, 'a) prog \<Rightarrow> bool" where
  "bar_sleeping k tot t Q g p \<equiv> safe (\<lambda>_ _. True) (bar_sleep_inv k tot) (\<lambda>_ s. s) t Q g p"

lemma bar_sleep_awake: "bar_sleep_inv k tot (w, Z) G \<Longrightarrow> snd (G t) \<noteq> Down \<Longrightarrow> t \<notin> Z"
  by (auto simp: bar_sleep_inv_def bar_live_def)

lemma bar_sleep_step:
  fixes G :: "'t::finite \<Rightarrow> bar_phase \<times> place"
  assumes "bar_sleep_inv k tot (w, Z) G" and "G t = (p, Away)" and "bar_total w' = tot"
    and "\<And>r. bar_ok r w (fst \<circ> G) \<Longrightarrow> bar_ok r w' ((fst \<circ> G)(t := fst g)) \<and>
      ((\<forall>u. bar_arrived r (fst ((G(t := g)) u))) \<longrightarrow> fst g = BarLast r)"
    and "bar_before k p \<Longrightarrow> bar_before k (fst g)"
  shows "bar_sleep_inv k tot (w', Z) (G(t := g))"
proof -
  obtain r where r: "bar_live r (w, Z) G" and b: "\<And>u. bar_before k (fst (G u))" using assms(1) by (auto simp: bar_sleep_inv_def)
  have "t \<notin> Z" by (rule bar_sleep_awake [OF assms(1)]) (simp add: assms(2))
  with r assms(2,4) have "bar_live r (w', Z) (G(t := g))"
    by (intro bar_live_move [OF r]) (auto simp: bar_live_def)
  moreover have "bar_before k (fst ((G(t := g)) u))" for u using b [of u] assms(2,5) by auto
  ultimately show ?thesis using assms(3) by (auto simp: bar_sleep_inv_def)
qed

lemma bar_sleep_phase: "bar_sleep_inv k tot s G \<Longrightarrow> bar_inv tot (fst s) (fst \<circ> G)"
  by (auto simp: bar_sleep_inv_def bar_inv_def bar_live_def)

lemma bar_sleep_silent:
  assumes "bar_sleep_inv k tot (w, Z) G" and "G t = (p, Away)"
    and "\<And>r. bar_ok r w (fst \<circ> G) \<Longrightarrow> \<not> bar_arrived r p \<and> \<not> bar_arrived r p' \<and> bar_possible r p'"
    and "bar_before k p \<Longrightarrow> bar_before k p'"
  shows "bar_sleep_inv k tot (w, Z) (G(t := (p', Away)))"
proof (rule bar_sleep_step [OF assms(1,2)])
  show "bar_total w = tot" using assms(1) by (simp add: bar_sleep_inv_def)
  fix r assume o: "bar_ok r w (fst \<circ> G)"
  show "bar_ok r w ((fst \<circ> G)(t := fst (p', Away))) \<and> ((\<forall>u. bar_arrived r (fst ((G(t := (p', Away))) u))) \<longrightarrow> fst (p', Away) = BarLast r)"
    using bar_ok_silent [OF o, of t p'] assms(2) assms(3) [OF o] by auto
qed (use assms(4) in simp)

lemma bar_sleep_count:
  fixes G :: "'t::finite \<Rightarrow> bar_phase \<times> place"
  assumes "bar_sleep_inv k tot (w, Z) G" and "G t = (BarRead n, Away)"
  shows "bar_sleep_inv k tot (w\<lparr>bar_seq_cnt := (bar_seq_cnt w)\<lparr>hi := hi (bar_seq_cnt w) + 1\<rparr>\<rparr>, Z)
    (G(t := (if hi (bar_seq_cnt w) = tot then BarLast n else BarWait n, Away)))"
proof (rule bar_sleep_step [OF assms])
  show tot: "bar_total (w\<lparr>bar_seq_cnt := (bar_seq_cnt w)\<lparr>hi := hi (bar_seq_cnt w) + 1\<rparr>\<rparr>) = tot"
    using assms(1) by (simp add: bar_sleep_inv_def)
  fix r assume o: "bar_ok r w (fst \<circ> G)"
  have g: "(fst \<circ> G) t = BarRead n" using assms(2) by simp
  let ?g = "(if hi (bar_seq_cnt w) = tot then BarLast n else BarWait n, Away)"
  have "bar_total w = tot" using tot by simp
  then have ok: "bar_ok r (w\<lparr>bar_seq_cnt := (bar_seq_cnt w)\<lparr>hi := hi (bar_seq_cnt w) + 1\<rparr>\<rparr>) ((fst \<circ> G)(t := fst ?g))"
    using bar_arrive [OF o g] by (simp only: fst_conv)
  have l: "fst ?g = BarLast r" if "\<forall>u. bar_arrived r (fst ((G(t := ?g)) u))"
  proof -
    have "((fst \<circ> G)(t := fst ?g)) u = fst ((G(t := ?g)) u)" for u by (simp only: phases_upd [symmetric] comp_apply)
    with that have a: "{u. bar_arrived r (((fst \<circ> G)(t := fst ?g)) u)} = UNIV" by (simp only: UNIV_def)
    have "bar_arrived r (fst ?g)" using that by (metis fun_upd_same)
    then have "unat (hi (bar_seq_cnt w) + 1) = card {u. bar_arrived r (((fst \<circ> G)(t := fst ?g)) u)}"
      by (rule bar_arrive_count(4) [OF o g])
    then have "unat (hi (bar_seq_cnt w) + 1) = card (UNIV :: 't set)" by (simp only: a)
    then have "unat (hi (bar_seq_cnt w) + 1) = Suc (unat tot)" using o tot by (simp add: bar_ok_def)
    moreover have "Suc (unat (hi (bar_seq_cnt w))) < 2 ^ 32"
      using bar_arrive_count(2) [OF o g] o by (simp add: bar_ok_def)
    ultimately have "unat (hi (bar_seq_cnt w)) = unat tot" by (simp add: unat_Suc_bound)
    then have "hi (bar_seq_cnt w) = tot" by (simp only: word_unat_eq_iff)
    then show ?thesis using bar_arrive_count(1) [OF o g] by simp
  qed
  show "bar_ok r (w\<lparr>bar_seq_cnt := (bar_seq_cnt w)\<lparr>hi := hi (bar_seq_cnt w) + 1\<rparr>\<rparr>) ((fst \<circ> G)(t := fst ?g)) \<and>
      ((\<forall>u. bar_arrived r (fst ((G(t := ?g)) u))) \<longrightarrow> fst ?g = BarLast r)"
    using ok l by blast
qed simp

lemma bar_sleep_release:
  assumes "bar_sleep_inv k tot (w, Z) G" and "G t = (BarLast n, Away)"
  shows "bar_sleep_inv k tot (w\<lparr>bar_seq_cnt := \<lparr>lo = of_nat n + 1, hi = 0\<rparr>\<rparr>, Z) (G(t := (BarAt (Suc n), Wakes)))"
proof -
  obtain r where r: "bar_live r (w, Z) G" and tot: "bar_total w = tot" and b: "\<And>u. bar_before k (fst (G u))"
    using assms(1) by (auto simp: bar_sleep_inv_def)
  have o: "bar_ok r w (fst \<circ> G)" and g: "(fst \<circ> G) t = BarLast n" using r assms(2) by (simp_all add: bar_live_def)
  have "t \<notin> Z" by (rule bar_sleep_awake [OF assms(1)]) (simp add: assms(2))
  then have "\<exists>m. (G(t := (BarAt (Suc n), Wakes))) u = (BarWait m, Down) \<and>
      (m = Suc n \<or> (\<exists>v. snd ((G(t := (BarAt (Suc n), Wakes))) v) = Wakes))" if "u \<in> Z" for u
    using that r by (auto simp: bar_live_def)
  moreover have "\<not> bar_arrived (Suc n) (fst ((G(t := (BarAt (Suc n), Wakes))) t))" by simp
  ultimately have "bar_live (Suc n) (w\<lparr>bar_seq_cnt := \<lparr>lo = of_nat n + 1, hi = 0\<rparr>\<rparr>, Z) (G(t := (BarAt (Suc n), Wakes)))"
    using bar_release [OF o g] unfolding bar_live_def phases_upd by (metis fst_conv snd_conv)
  moreover have "bar_before k (fst ((G(t := (BarAt (Suc n), Wakes))) u))" for u using b [of u] b [of t] assms(2) by auto
  ultimately show ?thesis using tot by (auto simp: bar_sleep_inv_def)
qed

text \<open>The accesses.\<close>

lemma bar_sleeping_read:
  fixes t :: "'t::finite"
  assumes "n < k"
  shows "bar_sleeping k tot t (\<lambda>v g. v = of_nat n \<and> g = (BarRead n, Away)) (BarAt n, Away) (served H (atomic_load (bar_seq (bar_here a))))"
proof (rule safe_served [OF _ callfree_access(3)], unfold atomic_load_def,
    rule safe_ActI [where h = "\<lambda>_. (BarRead n, Away)"], goal_cases)
  case (1 s G)
  have "bar_sleep_inv k tot (fst s, snd s) (G(t := (BarRead n, Away)))"
    by (rule bar_sleep_silent) (use 1 assms in \<open>auto dest: bar_ok_possible [where t = t]\<close>)
  then show ?case by simp
next
  case (2 s G)
  then show ?case using bar_seq_cases(2) [OF bar_sleep_phase, of k tot s G t "BarAt n"] by auto
qed

lemma bar_sleeping_count:
  fixes t :: "'t::finite"
  shows "bar_sleeping k tot t (\<lambda>c g. c \<le> tot \<and> g = (if c = tot then BarLast n else BarWait n, Away)) (BarRead n, Away)
    (served H (atomic_add (bar_cnt (bar_here a)) 1))"
proof (rule safe_served [OF _ callfree_access(6)], unfold atomic_add_def,
    rule safe_ActI [where h = "\<lambda>s. (if hi (bar_seq_cnt (fst s)) = tot then BarLast n else BarWait n, Away)"], goal_cases)
  case (1 s G)
  then show ?case using bar_sleep_count [of k tot "fst s" "snd s" G t n] by simp
next
  case (2 s G)
  then have i: "bar_inv tot (fst s) (fst \<circ> G)" "(fst \<circ> G) t = BarRead n" by (simp_all add: bar_sleep_phase)
  have o: "bar_ok n (fst s) (fst \<circ> G)" by (rule bar_seq_cases(1) [OF i]) simp
  have "hi (bar_seq_cnt (fst s)) \<le> tot"
    using bar_arrive_count(2) [OF o i(2)] i(1)
    by (simp add: bar_inv_def word_le_nat_alt)
  then show ?case by simp
qed

lemma bar_sleeping_total:
  fixes t :: "'t::finite"
  shows "bar_sleeping k tot t (\<lambda>v g'. v = tot \<and> g' = g) g (served H (load (bar_total_c (bar_here a))))"
  by (rule safe_served [OF _ callfree_access(1)], rule safe_load) (simp add: bar_sleep_inv_def)

lemma bar_sleep_nrefs: "bar_sleep_inv k tot (w\<lparr>bar_nrefs := v\<rparr>, Z) G = bar_sleep_inv k tot (w, Z) G"
proof -
  have "bar_ok r (w\<lparr>bar_nrefs := v\<rparr>) H = bar_ok r w H" for r and H :: "'a \<Rightarrow> bar_phase" by (simp add: bar_ok_def)
  then show ?thesis by (simp add: bar_sleep_inv_def bar_live_def)
qed

lemma bar_sleeping_nrefs:
  fixes t :: "'t::finite"
  shows "bar_sleeping k tot t (\<lambda>_ g'. g' = g) g (served H (atomic_add (bar_nrefs_c (bar_here a)) v))"
proof (rule safe_served [OF _ callfree_access(6)], rule safe_add [where g' = g])
  fix s and G :: "'t \<Rightarrow> bar_phase \<times> place" assume "bar_sleep_inv k tot s G" "G t = g"
  then show "bar_sleep_inv k tot (c_put (bar_nrefs_c (bar_here a)) (c_get (bar_nrefs_c (bar_here a)) s + v) s) (G(t := g))"
    by (cases s) (simp add: bar_sleep_nrefs fun_upd_idem)
qed simp

lemma bar_sleeping_look:
  fixes t :: "'t::finite"
  shows "bar_sleeping k tot t (\<lambda>v g. g = (if v = of_nat n then BarWait n else BarAt (Suc n), Away)) (BarWait n, Away)
    (served H (load (bar_seq (bar_here a))))"
proof (rule safe_served [OF _ callfree_access(1)], unfold load_def,
    rule safe_ActI [where h = "\<lambda>s. (if lo (bar_seq_cnt (fst s)) = of_nat n then BarWait n else BarAt (Suc n), Away)"], goal_cases)
  case (1 s G)
  show ?case
  proof (cases "lo (bar_seq_cnt (fst s)) = of_nat n")
    case True
    with 1 show ?thesis by (simp add: fun_upd_idem)
  next
    case False
    have "bar_sleep_inv k tot (fst s, snd s) (G(t := (BarAt (Suc n), Away)))"
    proof (rule bar_sleep_silent)
      fix r assume o: "bar_ok r (fst s) (fst \<circ> G)"
      have "n = r \<or> Suc n = r" using bar_ok_possible [OF o, of t] 1 by simp
      moreover have "n \<noteq> r" using o False by (auto simp: bar_ok_def)
      ultimately show "\<not> bar_arrived r (BarWait n) \<and> \<not> bar_arrived r (BarAt (Suc n)) \<and> bar_possible r (BarAt (Suc n))" by simp
    qed (use 1 in simp_all)
    with False show ?thesis by simp
  qed
qed simp

lemma bar_sleeping_last:
  fixes t :: "'t::finite"
  shows "bar_sleeping k tot t (\<lambda>v g. v = of_nat n \<and> g = (BarLast n, Away)) (BarLast n, Away) (served H (load (bar_seq (bar_here a))))"
proof (rule safe_served [OF _ callfree_access(1)], rule safe_load)
  fix s and G :: "'t \<Rightarrow> bar_phase \<times> place" assume "bar_sleep_inv k tot s G" "G t = (BarLast n, Away)"
  then show "c_get (bar_seq (bar_here a)) s = of_nat n \<and> (BarLast n, Away) = (BarLast n, Away)"
    using bar_seq_cases(2) [OF bar_sleep_phase, of k tot s G t "BarLast n" n] by simp
qed

lemma bar_sleeping_store:
  fixes t :: "'t::finite"
  shows "bar_sleeping k tot t (\<lambda>_ g. g = (BarAt (Suc n), Wakes)) (BarLast n, Away)
    (served H (atomic_storex (bar_seq_cnt_c (bar_here a)) (ucast (of_nat n + 1 :: u32))))"
proof (rule safe_served [OF _ callfree_access(7)], unfold atomic_storex_def,
    rule safe_ActI [where h = "\<lambda>_. (BarAt (Suc n), Wakes)"], goal_cases)
  case (1 s G)
  then show ?case unfolding xint_of_ucast using bar_sleep_release [of k tot "fst s" "snd s" G t n] by simp
qed simp

subsection \<open>The function\<close>

abbreviation bar_serve :: "u32 \<Rightarrow> (reply \<Rightarrow> 't set \<Rightarrow> 't) \<Rightarrow> 't::finite \<Rightarrow> (pthread_barrier \<times> 't set, 'a) prog \<Rightarrow> (pthread_barrier \<times> 't set, 'a) prog" where
  "bar_serve a pick t p \<equiv> served (sleepy_kernel (bar_seq (whole a)) pick t) p"

lemma bar_sleeping_sleep:
  fixes t :: "'t::finite"
  assumes "fl AND GSYNC_QUAD = 0"
  shows "bar_sleeping k tot t (\<lambda>_ g. g = (BarAt (Suc n), Away)) (BarWait n, Away)
    (bar_serve a pick t (barrier_sleep (bar_here a) (of_nat n) fl))"
  unfolding barrier_sleep_def served_loop
  by (rule safe_loop [where J = "\<lambda>_ g. g = (BarWait n, Away)"], simp, hypsubst, unfold served_bind, rule safe_bind [OF bar_sleeping_look])
    (auto simp: served_bind assms intro!: safe_bind [OF bar_sleep.safely_lll_wait])

lemma bar_sleeping_pass:
  fixes t :: "'t::finite"
  assumes "n < k"
  shows "bar_sleeping k tot t (\<lambda>_ g. g = (BarAt (Suc n), Away)) (BarAt n, Away)
    (bar_serve a pick t (barrier_pass (bar_here a) (fl AND GSYNC_SHARED)))"
proof -
  have w: "bar_sleeping k tot t (\<lambda>_ g. g = (BarAt (Suc n), Away)) (BarAt (Suc n), Wakes)
      (bar_serve a pick t (lll_wake (bar_seq (bar_here a)) ((fl AND GSYNC_SHARED) OR GSYNC_BROADCAST)))"
    by (rule bar_sleep.safely_lll_wake_all) (auto simp: and_disjoint_or bar_sleep_wake_all)
  have f: "(fl AND GSYNC_SHARED) AND GSYNC_QUAD = 0" by (rule bit_word_eqI) (auto simp: bit_simps)
  show ?thesis
    unfolding barrier_pass_def served_bind
    by (rule safe_bind [OF bar_sleeping_read [OF assms]], elim conjE, hypsubst, rule safe_bind [OF bar_sleeping_count])
      (auto simp: served_bind not_less f intro!: safe_bind [OF bar_sleeping_total] safe_bind [OF bar_sleeping_sleep [OF f]]
        safe_bind [OF bar_sleeping_last] safe_bind [OF bar_sleeping_store] safe_bind [OF w])
qed

lemma bar_sleeping_wait:
  fixes t :: "'t::finite"
  assumes "n < k"
  shows "bar_sleeping k tot t (\<lambda>_ g. g = (BarAt (Suc n), Away)) (BarAt n, Away) (bar_serve a pick t (pthread_barrier_wait (bar_here a)))"
proof -
  have f: "bar_sleeping k tot t (\<lambda>_ g'. g' = g) g (bar_serve a pick t (load (bar_flags_c (bar_here a))))" for g
    by (rule safe_served [OF _ callfree_access(1)], rule safe_load) simp
  have w: "bar_sleeping k tot t (\<lambda>_ g'. g' = g) g (bar_serve a pick t (lll_wake (bar_nrefs_c (bar_here a)) fl))" for g fl
    by (rule bar_sleep.safely_wake_elsewhere) simp
  show ?thesis
    unfolding pthread_barrier_wait_def Let_def served_bind
    by (rule safe_bind [OF f], hypsubst, rule safe_bind [OF bar_sleeping_nrefs], hypsubst,
        rule safe_bind [OF bar_sleeping_pass [OF assms]], hypsubst, rule safe_bind [OF bar_sleeping_nrefs])
      (auto simp: served_bind intro!: safe_bind [OF w])
qed

lemma bar_sleeping_user:
  fixes t :: "'t::finite"
  shows "bar_sleeping k tot t (\<lambda>_ g. g = (BarAt k, Away)) (BarAt 0, Away) (bar_serve a pick t (bar_user (bar_here a) k))"
  unfolding bar_user_def served_loop
  by (rule safe_loop [where J = "\<lambda>n g. n \<le> k \<and> g = (BarAt n, Away)"], simp)
    (auto simp: served_bind bind_assoc intro!: bar_sleep.safely_sys safe_bind [OF bar_sleeping_wait])

subsection \<open>Properties\<close>

text \<open>
  C13. Nobody is left at a barrier: in a kernel where a thread sleeps until it is woken, and may be interrupted, threads that go through the
  same number of phases, with a barrier for all of them after each, never get stuck. If each has ended or sleeps, all have ended.
\<close>

theorem barrier_no_lost_wakeup:
  fixes P :: "'t::finite \<Rightarrow> (pthread_barrier \<times> 't set, unit) prog"
  assumes "blocking_contract K (bar_seq (whole a))" and "unat cnt = card (UNIV :: 't set)"
    and "reach (\<lambda>_ s. s) (new_barrier cnt fl, {}) (\<lambda>t. served (K t) (bar_user (bar_here a) k)) s P"
    and "\<And>t. (\<exists>x. P t = Ret x) \<or> t \<in> snd s"
  shows "P t = Ret () \<and> snd s = {}"
proof -
  obtain pick where K: "K = sleepy_kernel (bar_seq (whole a)) pick"
    using assms(1) by (auto simp: blocking_contract_def)
  have "bar_inv (cnt - 1) (new_barrier cnt fl) (\<lambda>_ :: 't. BarAt 0)" by (rule bar_inv_new [OF assms(2)])
  then have "bar_sleep_inv k (cnt - 1) (new_barrier cnt fl, {}) (\<lambda>_ :: 't. (BarAt 0, Away))"
    by (auto simp: bar_inv_def bar_sleep_inv_def bar_live_def comp_def)
  moreover have "bar_sleeping k (cnt - 1) t (\<lambda>_ g. g = (BarAt k, Away)) (BarAt 0, Away) (served (K t) (bar_user (bar_here a) k))" for t
    unfolding K by (rule bar_sleeping_user)
  ultimately obtain G where G: "bar_sleep_inv k (cnt - 1) s G"
    "\<And>t. bar_sleeping k (cnt - 1) t (\<lambda>_ g. g = (BarAt k, Away)) (G t) (P t)"
    using safe_reach [where I = "bar_sleep_inv k (cnt - 1)" and ?G0.0 = "\<lambda>_. (BarAt 0, Away)" and A = "\<lambda>_ _ _. True"
        and Q = "\<lambda>_ _ g. g = (BarAt k, Away)", OF assms(3)] by blast
  obtain r where r: "bar_live r s G" and b: "\<And>u. bar_before k (fst (G u))" using G(1) by (auto simp: bar_sleep_inv_def)
  have g: "G u = (BarAt k, Away) \<and> u \<notin> snd s \<or> (\<exists>n. G u = (BarWait n, Down)) \<and> u \<in> snd s" for u
    using assms(4) [of u] G(2) [of u] r by (auto simp: bar_live_def)
  then have w: "snd (G u) \<noteq> Wakes" "fst (G u) \<noteq> BarLast r" for u
    by (metis snd_conv place.distinct, metis fst_conv bar_phase.distinct)
  then have z: "G u = (BarWait r, Down)" if "u \<in> snd s" for u using r that by (auto simp: bar_live_def)
  have "snd s = {}"
  proof (rule ccontr)
    assume "snd s \<noteq> {}"
    then obtain u where u: "u \<in> snd s" by blast
    have "\<not> (\<forall>v. bar_arrived r (fst (G v)))" using r w by (auto simp: bar_live_def)
    then obtain v where "\<not> bar_arrived r (fst (G v))" by blast
    then have "G v = (BarAt k, Away)" using g [of v] z [of v] by auto
    moreover from this have "k = r" using r bar_ok_possible [of r "fst s" "fst \<circ> G" v] by (auto simp: bar_live_def)
    ultimately show False using z [OF u] b [of u] by simp
  qed
  with assms(4) show ?thesis by auto
qed

text \<open>The thread \<open>True\<close> arrives first and sleeps until the other one is there.\<close>

definition bar_wake_demo :: "(bool \<times> nat) list \<Rightarrow>
    (pthread_barrier \<times> bool set) \<times> (bool \<Rightarrow> (pthread_barrier \<times> bool set, unit) prog)" where
  "bar_wake_demo ts = sched (\<lambda>_ s. s) reply0 ts (new_barrier 2 0, {})
    (\<lambda>t. served (sleepy_kernel (bar_seq (whole 64)) (\<lambda>_ Z. True \<in> Z) t) (bar_user (bar_here 64) 1))"

lemmas bar_wake_demo_eval = bar_wake_demo_def bar_user_def new_barrier_def pthread_barrier_init_def code_defs atomic_defs loop_def
  Let_def sleep_def rouse_def success_def xint_of_ucast

lemma bar_wake_demo_sleeps: "snd (fst (bar_wake_demo [(True, 40)])) = {True}"
  by (simp add: bar_wake_demo_eval cong: lazy_cong lazy_served_cong)

lemma bar_wake_demo_ends: "\<exists>x. snd (bar_wake_demo [(True, 40), (False, 60), (True, 40)]) t = Ret x"
  by (cases t) (simp_all add: bar_wake_demo_eval cong: lazy_cong lazy_served_cong)

lemma barrier_no_lost_wakeup_witness:
  "snd (fst (bar_wake_demo [(True, 40)])) = {True} \<and>
   snd (bar_wake_demo [(True, 40), (False, 60), (True, 40)]) True = Ret () \<and>
   snd (fst (bar_wake_demo [(True, 40), (False, 60), (True, 40)])) = {}"
proof -
  let ?S = "bar_wake_demo [(True, 40), (False, 60), (True, 40)]"
  have r: "reach (\<lambda>_ s. s) (new_barrier 2 0, {})
      (\<lambda>t. served (sleepy_kernel (bar_seq (whole 64)) (\<lambda>_ Z. True \<in> Z) t) (bar_user (bar_here 64) 1)) (fst ?S) (snd ?S)"
    by (rule reach_sched [where ts = "[(True, 40), (False, 60), (True, 40)]" and r = reply0]) (simp add: bar_wake_demo_def)
  have "snd ?S True = Ret () \<and> snd (fst ?S) = {}"
    by (rule barrier_no_lost_wakeup [OF sleepy_contract _ r disjI1 [OF bar_wake_demo_ends]]) simp
  with bar_wake_demo_sleeps show ?thesis by blast
qed

end
