(* ===== verification/RwWakeups.thy ===== *)
theory RwWakeups
  imports Sleepers RwLock
begin

text \<open>
  Wakeups of read-write locks, which have two queues, one for the readers and one for the writers. Readers with a timeout are left out: they
  can strand the lock.
\<close>

subsection \<open>A kernel with two queues\<close>

text \<open>The readers that sleep, and the writers that sleep.\<close>

type_synonym 't rw_queues = "pthread_rwlock \<times> 't set \<times> 't set"

definition readers_asleep :: "('t rw_queues, 't set) cell" where
  "readers_asleep = \<lparr>c_addr = 0, c_get = (\<lambda>(s, R, W). R), c_put = (\<lambda>Z (s, R, W). (s, Z, W))\<rparr>"

definition writers_asleep :: "('t rw_queues, 't set) cell" where
  "writers_asleep = \<lparr>c_addr = 0, c_get = (\<lambda>(s, R, W). W), c_put = (\<lambda>Z (s, R, W). (s, R, Z))\<rparr>"

lemma asleep_sel [simp]:
  "c_get readers_asleep (s, R, W) = R" "c_put readers_asleep Z (s, R, W) = (s, Z, W)"
  "c_get writers_asleep (s, R, W) = W" "c_put writers_asleep Z (s, R, W) = (s, R, Z)"
  by (simp_all add: readers_asleep_def writers_asleep_def)

definition owned_by :: "u32 \<Rightarrow> 't rw_queues \<Rightarrow> bool" where
  "owned_by v w \<longleftrightarrow> lo (rw_oid_nrd (fst w)) = v"

definition writers_owned_by :: "u32 \<Rightarrow> u32 \<Rightarrow> 't rw_queues \<Rightarrow> bool" where
  "writers_owned_by n v w \<longleftrightarrow> hi (rw_shpid_qwr (fst w)) = n \<and> lo (rw_oid_nrd (fst w)) = v"

text \<open>
  Readers sleep on the owner, at offset 8, and writers on 64 bits, the number of writers, at offset 4, and the owner.
\<close>

definition rw_sleepy :: "u32 \<Rightarrow> (reply \<Rightarrow> 't set \<Rightarrow> 't) \<Rightarrow> 't \<Rightarrow> kcall \<Rightarrow> ('t rw_queues, reply) prog" where
  "rw_sleepy a pick t call = (case call of
     IntrRpc m _ _ \<Rightarrow> (case map snd (msg_body m) of
         [Word addr, Word v1, Word v2, _, Word flags] \<Rightarrow>
           if msgh_id m = 4204 \<and> addr = a + 8 \<and> flags AND GSYNC_QUAD = 0 then sleep (owned_by v1) readers_asleep t call
           else if msgh_id m = 4204 \<and> addr = a + 4 \<and> flags AND GSYNC_QUAD \<noteq> 0 then sleep (writers_owned_by v1 v2) writers_asleep t call
           else sys call
       | _ \<Rightarrow> sys call)
   | SendMsg m _ \<Rightarrow> (case map snd (msg_body m) of
         [Word addr, Word _, Word flags] \<Rightarrow>
           if msgh_id m = 4205 \<and> addr = a + 8
           then rouse (\<lambda>w. (gsync_effect (rwl_oid (whole a)) call (fst w), snd w)) readers_asleep pick flags call
           else if msgh_id m = 4205 \<and> addr = a + 4
           then rouse (\<lambda>w. (gsync_effect (rwl_qwr (whole a)) call (fst w), snd w)) writers_asleep pick flags call
           else sys call
       | _ \<Rightarrow> sys call)
   | _ \<Rightarrow> sys call)"

definition rw_blocking_contract :: "u32 \<Rightarrow> ('t \<Rightarrow> kcall \<Rightarrow> ('t rw_queues, reply) prog) \<Rightarrow> bool" where
  "rw_blocking_contract a K \<longleftrightarrow> (\<exists>pick. (\<forall>r Z. Z \<noteq> {} \<longrightarrow> pick r Z \<in> Z) \<and> K = rw_sleepy a pick)"

lemma rw_sleepy_passes: "passes (rw_sleepy a pick t)"
  by (simp add: passes_def rw_sleepy_def)

lemma rw_sleepy_wait [simp]:
  "flags AND GSYNC_QUAD = 0 \<Longrightarrow>
    rw_sleepy a pick t (IntrRpc (gsync_wait_request MachTaskSelf port (a + 8) v1 v2 msec flags) m n) =
      sleep (owned_by v1) readers_asleep t (IntrRpc (gsync_wait_request MachTaskSelf port (a + 8) v1 v2 msec flags) m n)"
  "flags AND GSYNC_QUAD \<noteq> 0 \<Longrightarrow>
    rw_sleepy a pick t (IntrRpc (gsync_wait_request MachTaskSelf port (a + 4) v1 v2 msec flags) m n) =
      sleep (writers_owned_by v1 v2) writers_asleep t (IntrRpc (gsync_wait_request MachTaskSelf port (a + 4) v1 v2 msec flags) m n)"
  by (simp_all add: rw_sleepy_def gsync_wait_request_def)

lemma no_mutation:
  "flags AND GSYNC_MUTATE = 0 \<Longrightarrow> gsync_effect c (SendMsg (gsync_wake_request MachTaskSelf b v flags) n) s = s"
  by (simp add: gsync_effect_def)

lemma rw_sleepy_wake [simp]:
  "flags AND GSYNC_MUTATE = 0 \<Longrightarrow>
    rw_sleepy a pick t (SendMsg (gsync_wake_request MachTaskSelf (a + 8) v flags) n) =
      rouse (\<lambda>w. w) readers_asleep pick flags (SendMsg (gsync_wake_request MachTaskSelf (a + 8) v flags) n)"
  "flags AND GSYNC_MUTATE = 0 \<Longrightarrow>
    rw_sleepy a pick t (SendMsg (gsync_wake_request MachTaskSelf (a + 4) v flags) n) =
      rouse (\<lambda>w. w) writers_asleep pick flags (SendMsg (gsync_wake_request MachTaskSelf (a + 4) v flags) n)"
  by (simp_all add: rw_sleepy_def gsync_wake_request_def no_mutation [unfolded gsync_wake_request_def])

subsection \<open>Who sees to the sleepers\<close>

text \<open>
  Where a thread is, beside its phase. \<open>RGo\<close>: a reader on the way to the lock, registered or not, and \<open>DownR\<close> in its wait. \<open>WReg\<close>: a
  registered writer, \<open>DownW\<close> in its wait, \<open>WUp\<close> woken; \<open>WGo\<close> on the way to the lock, and \<open>WChk\<close> after a timeout, if it was the last registered
  writer. \<open>Rel\<close> and \<open>RelR\<close> have just released the lock, as a writer or as the last reader; \<open>LoadN\<close>, \<open>WakeR\<close>, \<open>WakeW\<close> are their next
  steps.
\<close>

datatype rw_spot = Calm | RGo | DownR | WReg | DownW | WUp | WGo | WChk | Rel | RelR | LoadN | WakeR | WakeW

fun registered :: "rw_spot \<Rightarrow> bool" where
  "registered WReg = True"
| "registered DownW = True"
| "registered WUp = True"
| "registered _ = False"

fun reader_coming :: "'t set \<Rightarrow> 't \<Rightarrow> rw_spot \<Rightarrow> bool" where
  "reader_coming R t RGo = True"
| "reader_coming R t DownR = (t \<notin> R)"
| "reader_coming R t _ = False"

text \<open>Who takes the lock, and so wakes the others in time; who wakes a writer; who wakes the readers, if no writer sleeps.\<close>

fun comes :: "'t set \<Rightarrow> 't set \<Rightarrow> 't \<Rightarrow> rw_spot \<Rightarrow> bool" where
  "comes R W t WGo = True"
| "comes R W t WUp = True"
| "comes R W t DownW = (t \<notin> W)"
| "comes R W t Rel = True"
| "comes R W t p = reader_coming R t p"

fun sees_writers :: "'t set \<Rightarrow> 't set \<Rightarrow> 't \<Rightarrow> rw_spot \<Rightarrow> bool" where
  "sees_writers R W t RelR = True"
| "sees_writers R W t WakeW = True"
| "sees_writers R W t p = comes R W t p"

fun sees_readers :: "'t set \<Rightarrow> 't set \<Rightarrow> 't \<Rightarrow> rw_spot \<Rightarrow> bool" where
  "sees_readers R W t LoadN = True"
| "sees_readers R W t WakeR = True"
| "sees_readers R W t WChk = True"
| "sees_readers R W t WReg = True"
| "sees_readers R W t p = comes R W t p"

text \<open>Who holds a lock that is owned by readers, or will hold it.\<close>

definition keeps :: "'t set \<Rightarrow> 't \<Rightarrow> rw_phase \<times> rw_spot \<Rightarrow> bool" where
  "keeps R t g \<longleftrightarrow> fst g = RwReading \<or> reader_coming R t (snd g)"

definition rw_live :: "u32 \<Rightarrow> u32 \<Rightarrow> ('t::finite) set \<Rightarrow> 't set \<Rightarrow> ('t \<Rightarrow> rw_phase \<times> rw_spot) \<Rightarrow> bool" where
  "rw_live oid qwr R W G \<longleftrightarrow>
     (\<forall>t\<in>R. G t = (RwQueued, DownR)) \<and> (\<forall>t\<in>W. G t = (RwOut, DownW)) \<and>
     (\<forall>t. fst (G t) = RwQueued \<longrightarrow> snd (G t) = RGo \<or> snd (G t) = DownR) \<and>
     unat qwr = card {t. registered (snd (G t))} \<and>
     (oid = RWLOCK_RO \<longrightarrow> R \<noteq> {} \<longrightarrow> (\<exists>t. snd (G t) = WakeR)) \<and>
     (oid = RWLOCK_RO \<longrightarrow> R = {} \<longrightarrow> (\<exists>t. keeps R t (G t))) \<and>
     (oid = RWLOCK_UNOWNED \<longrightarrow> W \<noteq> {} \<longrightarrow> (\<exists>t. sees_writers R W t (snd (G t)))) \<and>
     (oid = RWLOCK_UNOWNED \<longrightarrow> R \<noteq> {} \<longrightarrow> W = {} \<longrightarrow> (\<exists>t. sees_readers R W t (snd (G t))))"

lemma seen_to_less:
  assumes "u \<in> R' \<Longrightarrow> u \<in> R" and "u \<in> W' \<Longrightarrow> u \<in> W"
  shows "keeps R u g \<Longrightarrow> keeps R' u g" and "sees_writers R W u p \<Longrightarrow> sees_writers R' W' u p"
    and "sees_readers R W u p \<Longrightarrow> sees_readers R' W' u p"
proof -
  have r: "reader_coming R u p \<Longrightarrow> reader_coming R' u p" for p using assms(1) by (cases p) auto
  then have c: "comes R W u p \<Longrightarrow> comes R' W' u p" for p using assms by (cases p) auto
  show "keeps R u g \<Longrightarrow> keeps R' u g" using r by (auto simp: keeps_def)
  show "sees_writers R W u p \<Longrightarrow> sees_writers R' W' u p" using c [of p] by (cases p) simp_all
  show "sees_readers R W u p \<Longrightarrow> sees_readers R' W' u p" using c [of p] by (cases p) simp_all
qed

lemma comes_sees: "comes R W u p \<Longrightarrow> sees_writers R W u p" "comes R W u p \<Longrightarrow> sees_readers R W u p"
  by (cases p; simp)+

text \<open>One thread moves, and changes the lock or a queue: who has seen to the sleepers still does, unless it was this one.\<close>

lemma rw_live_step:
  assumes "rw_live oid qwr R W (G :: 't::finite \<Rightarrow> _)" and "R' \<subseteq> insert t R" and "W' \<subseteq> insert t W"
    and "t \<in> R' \<Longrightarrow> g = (RwQueued, DownR)" and "t \<in> W' \<Longrightarrow> g = (RwOut, DownW)"
    and "fst g = RwQueued \<Longrightarrow> snd g = RGo \<or> snd g = DownR"
    and "unat qwr' = card {u. registered (snd ((G(t := g)) u))}"
    and "oid' = RWLOCK_RO \<Longrightarrow> R' \<noteq> {} \<Longrightarrow> snd g = WakeR \<or> oid = RWLOCK_RO \<and> R \<noteq> {} \<and> snd (G t) \<noteq> WakeR"
    and "oid' = RWLOCK_RO \<Longrightarrow> R' = {} \<Longrightarrow>
      keeps R' t g \<or> oid = RWLOCK_RO \<and> R = {} \<and> \<not> keeps R t (G t) \<or> (\<exists>u. u \<noteq> t \<and> keeps R' u (G u))"
    and "oid' = RWLOCK_UNOWNED \<Longrightarrow> W' \<noteq> {} \<Longrightarrow> sees_writers R' W' t (snd g) \<or>
      oid = RWLOCK_UNOWNED \<and> W \<noteq> {} \<and> \<not> sees_writers R W t (snd (G t)) \<or> (\<exists>u. u \<noteq> t \<and> sees_writers R' W' u (snd (G u)))"
    and "oid' = RWLOCK_UNOWNED \<Longrightarrow> R' \<noteq> {} \<Longrightarrow> W' = {} \<Longrightarrow> sees_readers R' W' t (snd g) \<or>
      oid = RWLOCK_UNOWNED \<and> R \<noteq> {} \<and> W = {} \<and> \<not> sees_readers R W t (snd (G t)) \<or>
      (\<exists>u. u \<noteq> t \<and> sees_readers R' W' u (snd (G u)))"
  shows "rw_live oid' qwr' R' W' (G(t := g))"
  unfolding rw_live_def
proof (intro conjI impI)
  note l = assms(1) [unfolded rw_live_def]
  have u: "(G(t := g)) u = G u" "u \<in> R' \<Longrightarrow> u \<in> R" "u \<in> W' \<Longrightarrow> u \<in> W" if "u \<noteq> t" for u
    using that assms(2,3) by auto
  note m = seen_to_less [OF u(2,3)]
  show "\<forall>u\<in>R'. (G(t := g)) u = (RwQueued, DownR)" "\<forall>u\<in>W'. (G(t := g)) u = (RwOut, DownW)"
    using l assms(4,5) u by (metis fun_upd_apply)+
  show "\<forall>u. fst ((G(t := g)) u) = RwQueued \<longrightarrow> snd ((G(t := g)) u) = RGo \<or> snd ((G(t := g)) u) = DownR"
    using l assms(6) by (metis fun_upd_apply)
  show "unat qwr' = card {u. registered (snd ((G(t := g)) u))}" by (rule assms(7))
  show "\<exists>u. snd ((G(t := g)) u) = WakeR" if "oid' = RWLOCK_RO" "R' \<noteq> {}"
    using assms(8) [OF that] l by (metis fun_upd_apply)
  show "\<exists>u. keeps R' u ((G(t := g)) u)" if o: "oid' = RWLOCK_RO" "R' = {}"
  proof -
    have "\<exists>u. u \<noteq> t \<and> keeps R' u (G u)" if "oid = RWLOCK_RO \<and> R = {} \<and> \<not> keeps R t (G t)"
      using that l m(1) by metis
    with assms(9) [OF o] show ?thesis by (metis fun_upd_apply)
  qed
  show "\<exists>u. sees_writers R' W' u (snd ((G(t := g)) u))" if o: "oid' = RWLOCK_UNOWNED" "W' \<noteq> {}"
  proof -
    have "\<exists>u. u \<noteq> t \<and> sees_writers R' W' u (snd (G u))" if "oid = RWLOCK_UNOWNED \<and> W \<noteq> {} \<and> \<not> sees_writers R W t (snd (G t))"
      using that l m(2) by metis
    with assms(10) [OF o] show ?thesis by (metis fun_upd_apply)
  qed
  show "\<exists>u. sees_readers R' W' u (snd ((G(t := g)) u))" if o: "oid' = RWLOCK_UNOWNED" "R' \<noteq> {}" "W' = {}"
  proof -
    have "\<exists>u. u \<noteq> t \<and> sees_readers R' W' u (snd (G u))"
      if "oid = RWLOCK_UNOWNED \<and> R \<noteq> {} \<and> W = {} \<and> \<not> sees_readers R W t (snd (G t))"
      using that l m(3) by metis
    with assms(11) [OF o] show ?thesis by (metis fun_upd_apply)
  qed
qed

definition rw_sleep_inv ::
  "('t::finite \<Rightarrow> thread) \<Rightarrow> u32 \<Rightarrow> 't rw_queues \<Rightarrow> ('t \<Rightarrow> rw_phase \<times> rw_spot) \<Rightarrow> bool" where
  "rw_sleep_inv thr fl w G \<longleftrightarrow> rw_inv thr fl (fst w) (fst \<circ> G) \<and>
    rw_live (lo (rw_oid_nrd (fst w))) (hi (rw_shpid_qwr (fst w))) (fst (snd w)) (snd (snd w)) G"

lemma rw_sleep_phase: "rw_sleep_inv thr fl w G \<Longrightarrow> rw_inv thr fl (fst w) (fst \<circ> G)"
  by (simp add: rw_sleep_inv_def)

lemma rw_sleep_live:
  "rw_sleep_inv thr fl (s, R, W) G \<Longrightarrow> rw_live (lo (rw_oid_nrd s)) (hi (rw_shpid_qwr s)) R W G"
  by (simp add: rw_sleep_inv_def)

lemma rw_phases_same: "fst (G t) = p \<Longrightarrow> (fst \<circ> G)(t := p) = fst \<circ> G"
  by auto

subsection \<open>Sleeping and getting up\<close>

lemma rw_live_awake:
  assumes "rw_live oid qwr R W G" and "G t = (p, q)"
  shows "q \<noteq> DownR \<Longrightarrow> t \<notin> R" and "q \<noteq> DownW \<Longrightarrow> t \<notin> W" and "q \<noteq> RGo \<Longrightarrow> q \<noteq> DownR \<Longrightarrow> p \<noteq> RwQueued"
proof -
  show "t \<notin> R" if "q \<noteq> DownR" using assms that unfolding rw_live_def by (metis snd_conv)
  show "t \<notin> W" if "q \<noteq> DownW" using assms that unfolding rw_live_def by (metis snd_conv)
  show "p \<noteq> RwQueued" if "q \<noteq> RGo" "q \<noteq> DownR" using assms that unfolding rw_live_def by (metis fst_conv snd_conv)
qed

lemma rw_live_queued:
  "rw_live oid qwr R W G \<Longrightarrow> fst (G t) = RwQueued \<Longrightarrow> snd (G t) = RGo \<or> snd (G t) = DownR"
  by (simp add: rw_live_def)

lemma rw_live_asleep:
  assumes "rw_live oid qwr R W G"
  shows "t \<in> R \<Longrightarrow> G t = (RwQueued, DownR)" and "t \<in> W \<Longrightarrow> G t = (RwOut, DownW)"
  using assms by (simp_all add: rw_live_def)

text \<open>The count of registered writers.\<close>

lemma registered_same:
  assumes "rw_live oid qwr R W (G :: 't::finite \<Rightarrow> _)" and "registered (snd (G t)) = registered (snd g)"
  shows "unat qwr = card {u. registered (snd ((G(t := g)) u))}"
  using assms count_class_same [of "\<lambda>g. registered (snd g)" G t g] by (simp add: rw_live_def)

lemma rw_live_sleep_reader:
  assumes "rw_live oid qwr R W (G :: 't::finite \<Rightarrow> _)" and "oid \<noteq> RWLOCK_UNOWNED" and "oid \<noteq> RWLOCK_RO"
    and "G t = (RwQueued, RGo)"
  shows "rw_live oid qwr (insert t R) W (G(t := (RwQueued, DownR)))"
  by (rule rw_live_step [OF assms(1)])
    (use assms registered_same [OF assms(1), of t "(RwQueued, DownR)"] in \<open>auto simp: rw_live_def simp del: fun_upd_apply\<close>)

lemma rw_live_sleep_writer:
  assumes "rw_live oid qwr R W (G :: 't::finite \<Rightarrow> _)" and "oid \<noteq> RWLOCK_UNOWNED" and "G t = (RwOut, WReg)"
  shows "rw_live oid qwr R (insert t W) (G(t := (RwOut, DownW)))"
  by (rule rw_live_step [OF assms(1)])
    (use assms registered_same [OF assms(1), of t "(RwOut, DownW)"] in \<open>auto simp: rw_live_def keeps_def simp del: fun_upd_apply\<close>)

lemma rw_live_up_reader:
  assumes "rw_live oid qwr R W (G :: 't::finite \<Rightarrow> _)" and "G t = (RwQueued, DownR)"
  shows "rw_live oid qwr (R - {t}) W (G(t := (RwQueued, RGo)))"
proof -
  have "t \<notin> W" using assms by (auto simp: rw_live_def)
  then show ?thesis
    by (intro rw_live_step [OF assms(1)])
      (use assms registered_same [OF assms(1), of t "(RwQueued, RGo)"] in \<open>auto simp: keeps_def simp del: fun_upd_apply\<close>)
qed

lemma rw_live_up_writer:
  assumes "rw_live oid qwr R W (G :: 't::finite \<Rightarrow> _)" and "G t = (RwOut, DownW)"
  shows "t \<notin> W \<Longrightarrow> rw_live oid qwr R W (G(t := (RwOut, WUp)))"
    and "t \<in> W \<Longrightarrow> rw_live oid qwr R (W - {t}) (G(t := (RwOut, WReg)))"
proof -
  have r: "t \<notin> R" using assms by (auto simp: rw_live_def)
  show "t \<notin> W \<Longrightarrow> rw_live oid qwr R W (G(t := (RwOut, WUp)))"
    by (rule rw_live_step [OF assms(1)])
      (use assms r registered_same [OF assms(1), of t "(RwOut, WUp)"] in \<open>auto simp: keeps_def simp del: fun_upd_apply\<close>)
  show "t \<in> W \<Longrightarrow> rw_live oid qwr R (W - {t}) (G(t := (RwOut, WReg)))"
    by (rule rw_live_step [OF assms(1)])
      (use assms r registered_same [OF assms(1), of t "(RwOut, WReg)"] in \<open>auto simp: keeps_def simp del: fun_upd_apply\<close>)
qed

text \<open>A wake takes a writer, or all readers.\<close>

lemma rw_live_wake_writer:
  assumes "rw_live oid qwr R W (G :: 't::finite \<Rightarrow> _)" and "G t = (RwOut, WakeW)" and "W \<noteq> {} \<longrightarrow> u \<in> W"
  shows "rw_live oid qwr R (W - {u}) (G(t := (RwOut, Calm)))"
proof -
  have t: "t \<notin> R" "t \<notin> W" using assms(1,2) by (auto simp: rw_live_def)
  have u: "G u = (RwOut, DownW)" "u \<noteq> t" if "W \<noteq> {}" using that assms by (auto simp: rw_live_def)
  have "\<exists>v. v \<noteq> t \<and> comes R (W - {u}) v (snd (G v))" if "W \<noteq> {}"
    using u [OF that] by (intro exI [of _ u]) simp
  then have e: "W \<noteq> {} \<Longrightarrow> \<exists>v. v \<noteq> t \<and> sees_writers R (W - {u}) v (snd (G v))"
    "W \<noteq> {} \<Longrightarrow> \<exists>v. v \<noteq> t \<and> sees_readers R (W - {u}) v (snd (G v))" using comes_sees by metis+
  have "rw_live oid qwr R W' (G(t := (RwOut, Calm)))"
    if "W' \<subseteq> W" "W \<noteq> {} \<Longrightarrow> \<exists>v. v \<noteq> t \<and> sees_writers R W' v (snd (G v))"
      "W \<noteq> {} \<Longrightarrow> \<exists>v. v \<noteq> t \<and> sees_readers R W' v (snd (G v))" for W'
    using that assms(1,2) t registered_same [OF assms(1), of t "(RwOut, Calm)"]
    by (intro rw_live_step [OF assms(1)]) (auto simp: keeps_def simp del: fun_upd_apply)
  from this [OF _ e] show ?thesis by simp
qed

lemma rw_live_wake_readers:
  assumes "rw_live oid qwr R W (G :: 't::finite \<Rightarrow> _)" and "G t = (p, WakeR)"
  shows "rw_live oid qwr {} W (G(t := (p, Calm)))"
proof -
  have t: "t \<notin> R" "t \<notin> W" "p \<noteq> RwQueued" using rw_live_awake [OF assms] by simp_all
  have "\<exists>v. v \<noteq> t \<and> keeps {} v (G v)" if "R \<noteq> {}"
  proof -
    from that obtain v where "v \<in> R" by blast
    then show ?thesis using rw_live_asleep(1) [OF assms(1)] t(1) by (intro exI [of _ v]) (auto simp: keeps_def)
  qed
  then show ?thesis
    using assms t registered_same [OF assms(1), of t "(p, Calm)"]
    by (intro rw_live_step [OF assms(1)]) (auto simp: keeps_def simp del: fun_upd_apply)
qed

text \<open>Sleepers are counted.\<close>

lemma rw_live_registered:
  assumes "rw_live oid qwr R W (G :: 't::finite \<Rightarrow> _)"
  shows "qwr = 0 \<Longrightarrow> \<not> registered (snd (G t))" and "qwr = 0 \<Longrightarrow> W = {}"
    and "qwr \<noteq> 0 \<Longrightarrow> \<exists>u. registered (snd (G u))"
proof -
  have c: "unat qwr = card {u. registered (snd (G u))}" using assms by (simp add: rw_live_def)
  show n: "\<not> registered (snd (G t))" if "qwr = 0" for t using c that by simp
  show "W = {}" if "qwr = 0" using rw_live_asleep(2) [OF assms] n [OF that] by (metis equals0I registered.simps(2) snd_conv)
  show "\<exists>u. registered (snd (G u))" if "qwr \<noteq> 0"
  proof (rule ccontr)
    assume "\<nexists>u. registered (snd (G u))"
    with c that show False by (simp add: unat_eq_0)
  qed
qed

lemma registered_awake:
  "registered (snd g) \<Longrightarrow> sees_readers R {} u (snd g)"
  by (cases "snd g") (auto simp: keeps_def)

lemma rw_sleep_nrd:
  assumes "rw_sleep_inv thr fl (s, R, W) (G :: 't::finite \<Rightarrow> _)" and "hi (rw_oid_nrd s) = 0"
  shows "R = {}"
proof -
  have "card {u. rw_counted ((fst \<circ> G) u)} = 0"
    using rw_inv_ok(1) [OF rw_sleep_phase [OF assms(1)]] assms(2) by (simp add: rw_ok_def)
  then have "\<not> rw_counted (fst (G u))" for u by simp
  then show ?thesis using rw_live_asleep(1) [OF rw_sleep_live [OF assms(1)]]
    by (metis equals0I fst_conv rw_counted.simps(1))
qed

subsection \<open>The moves of a thread\<close>

text \<open>Moves that leave the lock as it is.\<close>

lemma rw_live_still:
  assumes "rw_live oid qwr R W (G :: 't::finite \<Rightarrow> _)"
  shows "G t = (RwOut, p) \<Longrightarrow> p = Calm \<or> p = RGo \<Longrightarrow> rw_live oid qwr R W (G(t := (RwQueued, RGo)))"
    and "G t = (RwQueued, RGo) \<Longrightarrow> rw_live oid qwr R W (G(t := (RwOut, RGo)))"
    and "G t = (RwOut, p) \<Longrightarrow> p = Calm \<or> p = RGo \<or> p = WGo \<Longrightarrow> oid \<noteq> RWLOCK_UNOWNED \<Longrightarrow> oid \<noteq> RWLOCK_RO \<or> p \<noteq> RGo \<Longrightarrow>
      rw_live oid qwr R W (G(t := (RwOut, Calm)))"
proof -
  note s = rw_live_step [OF assms] and a = rw_live_awake [OF assms, of t] and r = registered_same [OF assms, of t]
  show "rw_live oid qwr R W (G(t := (RwQueued, RGo)))" if "G t = (RwOut, p)" "p = Calm \<or> p = RGo"
    using that a [OF that(1)] r [of "(RwQueued, RGo)"] by (intro s) (auto simp: keeps_def simp del: fun_upd_apply)
  show "rw_live oid qwr R W (G(t := (RwOut, RGo)))" if "G t = (RwQueued, RGo)"
    using that a [OF that(1)] r [of "(RwOut, RGo)"] by (intro s) (auto simp: keeps_def simp del: fun_upd_apply)
  show "rw_live oid qwr R W (G(t := (RwOut, Calm)))"
    if "G t = (RwOut, p)" "p = Calm \<or> p = RGo \<or> p = WGo" "oid \<noteq> RWLOCK_UNOWNED" "oid \<noteq> RWLOCK_RO \<or> p \<noteq> RGo"
    using that a [OF that(1)] r [of "(RwOut, Calm)"] by (intro s) (auto simp: keeps_def simp del: fun_upd_apply)
qed

text \<open>Taking the lock.\<close>

lemma rw_live_grab:
  assumes "rw_live oid qwr R W (G :: 't::finite \<Rightarrow> _)" and "G t = (RwOut, p)" and "p = Calm \<or> p = RGo"
    and "oid = RWLOCK_RO \<or> R = {} \<or> q = WakeR" and "q = Calm \<or> q = WakeR"
  shows "rw_live RWLOCK_RO qwr R W (G(t := (RwReading, q)))"
  by (rule rw_live_step [OF assms(1)])
    (use assms rw_live_awake [OF assms(1,2)] registered_same [OF assms(1), of t "(RwReading, q)"]
      in \<open>auto simp: keeps_def simp del: fun_upd_apply\<close>)

lemma rw_live_own:
  assumes "rw_live oid qwr R W (G :: 't::finite \<Rightarrow> _)" and "G t = (x, p)" and "p = Calm \<or> p = WGo"
    and "oid' \<noteq> RWLOCK_RO" and "oid' \<noteq> RWLOCK_UNOWNED" and "x' \<noteq> RwQueued"
  shows "rw_live oid' qwr R W (G(t := (x', Calm)))"
  by (rule rw_live_step [OF assms(1)])
    (use assms rw_live_awake [OF assms(1,2)] registered_same [OF assms(1), of t "(x', Calm)"]
      in \<open>auto simp: keeps_def simp del: fun_upd_apply\<close>)

text \<open>Releasing it.\<close>

lemma rw_live_release:
  assumes "rw_live oid qwr R W (G :: 't::finite \<Rightarrow> _)"
  shows "G t = (x, Calm) \<Longrightarrow> rw_live RWLOCK_UNOWNED qwr R W (G(t := (RwOut, Rel)))"
    and "G t = (x, Calm) \<Longrightarrow> R = {} \<Longrightarrow> rw_live RWLOCK_UNOWNED qwr R W (G(t := (RwOut, RelR)))"
    and "G t = (x, Calm) \<Longrightarrow> oid = RWLOCK_RO \<Longrightarrow> u \<noteq> t \<Longrightarrow> rw_counted (fst (G u)) \<Longrightarrow> rw_live oid qwr R W (G(t := (RwOut, Calm)))"
proof -
  note s = rw_live_step [OF assms] and a = rw_live_awake [OF assms, of t] and r = registered_same [OF assms, of t]
  show "rw_live RWLOCK_UNOWNED qwr R W (G(t := (RwOut, Rel)))" if "G t = (x, Calm)"
    using that a [OF that(1)] r [of "(RwOut, Rel)"] by (intro s) (auto simp: keeps_def simp del: fun_upd_apply)
  show "rw_live RWLOCK_UNOWNED qwr R W (G(t := (RwOut, RelR)))" if "G t = (x, Calm)" "R = {}"
    using that a [OF that(1)] r [of "(RwOut, RelR)"] by (intro s) (auto simp: keeps_def simp del: fun_upd_apply)
  show "rw_live oid qwr R W (G(t := (RwOut, Calm)))"
    if g: "G t = (x, Calm)" "oid = RWLOCK_RO" "u \<noteq> t" "rw_counted (fst (G u))"
  proof -
    have "fst (G u) = RwReading \<or> fst (G u) = RwQueued" using g(4) by (cases "fst (G u)") simp_all
    then have "keeps {} u (G u)" using rw_live_queued [OF assms, of u] by (auto simp: keeps_def)
    then have k: "\<exists>u. u \<noteq> t \<and> keeps {} u (G u)" using g(3) by blast
    have n: "\<not> sees_writers R W t Calm" "\<not> sees_readers R W t Calm" by (simp_all add: keeps_def)
    show ?thesis by (rule s) (use g a [OF g(1)] r [of "(RwOut, Calm)"] k n in \<open>simp_all del: fun_upd_apply\<close>, auto)
  qed
qed

text \<open>What the releasing thread reads, and does then.\<close>

lemma rw_live_decide:
  assumes "rw_live oid qwr R W (G :: 't::finite \<Rightarrow> _)"
  shows "G t = (RwOut, Rel) \<Longrightarrow> qwr \<noteq> 0 \<Longrightarrow> rw_live oid qwr R W (G(t := (RwOut, WakeW)))"
    and "G t = (RwOut, Rel) \<Longrightarrow> qwr = 0 \<Longrightarrow> rw_live oid qwr R W (G(t := (RwOut, LoadN)))"
    and "G t = (RwOut, RelR) \<Longrightarrow> rw_live oid qwr R W (G(t := (RwOut, WakeW)))"
    and "G t = (RwOut, RelR) \<Longrightarrow> qwr = 0 \<Longrightarrow> rw_live oid qwr R W (G(t := (RwOut, Calm)))"
    and "G t = (RwOut, LoadN) \<Longrightarrow> rw_live oid qwr R W (G(t := (RwOut, WakeR)))"
    and "G t = (RwOut, LoadN) \<Longrightarrow> R = {} \<Longrightarrow> rw_live oid qwr R W (G(t := (RwOut, Calm)))"
proof -
  note s = rw_live_step [OF assms] and a = rw_live_awake [OF assms, of t] and r = registered_same [OF assms, of t]
  note w = rw_live_registered [OF assms]
  show "rw_live oid qwr R W (G(t := (RwOut, WakeW)))" if g: "G t = (RwOut, Rel)" and q: "qwr \<noteq> 0"
  proof -
    obtain u where u: "registered (snd (G u))" using w(3) [OF q] by blast
    then have "u \<noteq> t" using g by auto
    then have e: "\<exists>u. u \<noteq> t \<and> sees_readers R {} u (snd (G u))" using registered_awake [OF u] by (intro exI [of _ u] conjI)
    show ?thesis by (rule s) (use e g a [OF g] r [of "(RwOut, WakeW)"] in \<open>simp_all add: keeps_def del: fun_upd_apply\<close>, auto)
  qed
  show "rw_live oid qwr R W (G(t := (RwOut, LoadN)))" if g: "G t = (RwOut, Rel)" "qwr = 0"
    by (rule s) (use g a [OF g(1)] r [of "(RwOut, LoadN)"] w(2) in \<open>simp_all add: keeps_def del: fun_upd_apply\<close>, auto)
  show "rw_live oid qwr R W (G(t := (RwOut, WakeW)))" if g: "G t = (RwOut, RelR)"
    by (rule s) (use g a [OF g(1)] r [of "(RwOut, WakeW)"] in \<open>simp_all add: keeps_def del: fun_upd_apply\<close>, auto)
  show "rw_live oid qwr R W (G(t := (RwOut, Calm)))" if g: "G t = (RwOut, RelR)" "qwr = 0"
    by (rule s) (use g a [OF g(1)] r [of "(RwOut, Calm)"] w(2) in \<open>simp_all add: keeps_def del: fun_upd_apply\<close>, auto)
  show "rw_live oid qwr R W (G(t := (RwOut, WakeR)))" if g: "G t = (RwOut, LoadN)"
    by (rule s) (use g a [OF g(1)] r [of "(RwOut, WakeR)"] in \<open>simp_all add: keeps_def del: fun_upd_apply\<close>, auto)
  show "rw_live oid qwr R W (G(t := (RwOut, Calm)))" if g: "G t = (RwOut, LoadN)" "R = {}"
    by (rule s) (use g a [OF g(1)] r [of "(RwOut, Calm)"] in \<open>simp_all add: keeps_def del: fun_upd_apply\<close>, auto)
qed

text \<open>Writers register, go on, or give up after a timeout.\<close>

lemma rw_live_writer:
  assumes "rw_live oid qwr R W (G :: 't::finite \<Rightarrow> _)" and "card (UNIV :: 't set) < 2 ^ 32"
  shows "G t = (RwOut, Calm) \<Longrightarrow> rw_live oid (qwr + 1) R W (G(t := (RwOut, WReg)))"
    and "G t = (RwOut, p) \<Longrightarrow> p = WReg \<or> p = WUp \<Longrightarrow> rw_live oid (qwr - 1) R W (G(t := (RwOut, WGo)))"
    and "G t = (RwOut, WReg) \<Longrightarrow> qwr = 1 \<Longrightarrow> rw_live oid (qwr - 1) R W (G(t := (RwOut, WChk)))"
    and "G t = (RwOut, WReg) \<Longrightarrow> qwr \<noteq> 1 \<Longrightarrow> rw_live oid (qwr - 1) R W (G(t := (RwOut, Calm)))"
    and "G t = (RwOut, WChk) \<Longrightarrow> rw_live oid qwr R W (G(t := (RwOut, WakeR)))"
    and "G t = (RwOut, WChk) \<Longrightarrow> oid \<noteq> RWLOCK_UNOWNED \<or> R = {} \<Longrightarrow> rw_live oid qwr R W (G(t := (RwOut, Calm)))"
proof -
  note s = rw_live_step [OF assms(1)] and a = rw_live_awake [OF assms(1), of t] and r = registered_same [OF assms(1), of t]
  have enter: "unat (qwr + 1) = card {u. registered (snd ((G(t := g)) u))}"
    if "\<not> registered (snd (G t))" "registered (snd g)" for g
  proof -
    have "card {u. registered (snd ((G(t := g)) u))} = Suc (unat qwr)"
      using count_class_enter [of "\<lambda>g. registered (snd g)" G t g] that assms(1) by (simp add: rw_live_def)
    moreover have "card {u. registered (snd ((G(t := g)) u))} \<le> card (UNIV :: 't set)" by (rule count_bound)
    ultimately show ?thesis using assms(2) by (subst unat_Suc_bound) auto
  qed
  have leave: "unat (qwr - 1) = card {u. registered (snd ((G(t := g)) u))}" "qwr \<noteq> 0"
    if "registered (snd (G t))" "\<not> registered (snd g)" for g
  proof -
    have c: "Suc (card {u. registered (snd ((G(t := g)) u))}) = unat qwr"
      using count_class_leave [of "\<lambda>g. registered (snd g)" G t g] that assms(1) by (simp add: rw_live_def)
    then show n: "qwr \<noteq> 0" by auto
    show "unat (qwr - 1) = card {u. registered (snd ((G(t := g)) u))}" using c unat_pred_32 [OF n] by simp
  qed
  show "rw_live oid (qwr + 1) R W (G(t := (RwOut, WReg)))" if g: "G t = (RwOut, Calm)"
    by (rule s) (use g a [OF g] enter [of "(RwOut, WReg)"] in \<open>simp_all add: keeps_def del: fun_upd_apply\<close>, auto)
  show "rw_live oid (qwr - 1) R W (G(t := (RwOut, WGo)))" if g: "G t = (RwOut, p)" "p = WReg \<or> p = WUp"
    using g(2) by (rule disjE; intro s) (use g a [OF g(1)] leave(1) [of "(RwOut, WGo)"] in \<open>auto simp: keeps_def simp del: fun_upd_apply\<close>)
  show "rw_live oid (qwr - 1) R W (G(t := (RwOut, WChk)))" if g: "G t = (RwOut, WReg)" "qwr = 1"
    by (rule s) (use g a [OF g(1)] leave(1) [of "(RwOut, WChk)"] in \<open>simp_all add: keeps_def del: fun_upd_apply\<close>, auto)
  show "rw_live oid (qwr - 1) R W (G(t := (RwOut, Calm)))" if g: "G t = (RwOut, WReg)" and q: "qwr \<noteq> 1"
  proof -
    have l: "unat (qwr - 1) = card {u. registered (snd ((G(t := (RwOut, Calm))) u))}" by (rule leave(1)) (simp_all add: g)
    have "qwr - 1 \<noteq> 0" using q by simp
    then have "card {u. registered (snd ((G(t := (RwOut, Calm))) u))} \<noteq> 0" using l by (metis unat_eq_0)
    then obtain u where u: "registered (snd ((G(t := (RwOut, Calm))) u))" by (auto simp: card_eq_0_iff simp del: fun_upd_apply)
    then have n: "u \<noteq> t" "registered (snd (G u))" by (auto split: if_splits)
    then have e: "\<exists>u. u \<noteq> t \<and> sees_readers R {} u (snd (G u))" using registered_awake [OF n(2)] by (intro exI [of _ u] conjI)
    show ?thesis by (rule s) (use e g a [OF g] l in \<open>simp_all add: keeps_def del: fun_upd_apply\<close>, auto)
  qed
  show "rw_live oid qwr R W (G(t := (RwOut, WakeR)))" if g: "G t = (RwOut, WChk)"
    by (rule s) (use g a [OF g(1)] r [of "(RwOut, WakeR)"] in \<open>simp_all add: keeps_def del: fun_upd_apply\<close>, auto)
  show "rw_live oid qwr R W (G(t := (RwOut, Calm)))" if g: "G t = (RwOut, WChk)" "oid \<noteq> RWLOCK_UNOWNED \<or> R = {}"
    by (rule s) (use g a [OF g(1)] r [of "(RwOut, Calm)"] in \<open>simp_all add: keeps_def del: fun_upd_apply\<close>, auto)
qed

subsection \<open>The two queues\<close>

lemma rw_sleep_invI:
  assumes "rw_inv thr fl s ((fst \<circ> G)(t := fst g))"
    and "rw_live (lo (rw_oid_nrd s)) (hi (rw_shpid_qwr s)) R W (G(t := g))"
  shows "rw_sleep_inv thr fl (s, R, W) (G(t := g))"
  using assms by (simp add: rw_sleep_inv_def phases_upd)

lemma rw_sleep_stay:
  assumes "rw_sleep_inv thr fl (s, R, W) G" and "G t = (p, q)"
    and "rw_live (lo (rw_oid_nrd s)) (hi (rw_shpid_qwr s)) R' W' (G(t := (p, q')))"
  shows "rw_sleep_inv thr fl (s, R', W') (G(t := (p, q')))"
  using assms rw_phases_same [of G t p] by (intro rw_sleep_invI) (simp_all add: rw_sleep_inv_def)

fun owner_id :: "('t \<Rightarrow> thread) \<Rightarrow> 't option \<Rightarrow> u32" where
  "owner_id thr None = RWLOCK_RO"
| "owner_id thr (Some u) = th_id (thr u)"

lemma owner_id_not:
  assumes "rw_sleep_inv thr fl w G"
  shows "owner_id thr x \<noteq> RWLOCK_UNOWNED" and "th_id (thr u) \<noteq> RWLOCK_RO"
proof -
  note i = rw_id_cases [OF rw_ok_ids [OF rw_inv_ok(1) [OF rw_sleep_phase [OF assms]]]]
  show "owner_id thr x \<noteq> RWLOCK_UNOWNED" using i(1) by (cases x) auto
  show "th_id (thr u) \<noteq> RWLOCK_RO" by (rule i(2))
qed

interpretation rw_readers: queue_waiters "rw_sleep_inv thr fl" "owned_by (owner_id thr (Some u))" readers_asleep
  "(RwQueued, RGo)" "(RwQueued, DownR)" "(RwQueued, RGo)" for thr :: "'t::finite \<Rightarrow> thread" and fl u
proof (unfold_locales, unfold split_paired_all)
  fix s R W and G :: "'t \<Rightarrow> rw_phase \<times> rw_spot" and t
  assume i: "rw_sleep_inv thr fl (s, R, W) G"
  note l = rw_sleep_live [OF i]
  show "rw_sleep_inv thr fl (c_put readers_asleep (insert t (c_get readers_asleep (s, R, W))) (s, R, W)) (G(t := (RwQueued, DownR)))"
    if "G t = (RwQueued, RGo)" "owned_by (owner_id thr (Some u)) (s, R, W)"
    using rw_live_sleep_reader [OF l _ _ that(1)] that(2) owner_id_not(1) [OF i, of "Some u"] owner_id_not(2) [OF i, of u]
      rw_sleep_stay [OF i that(1)] by (simp add: owned_by_def)
  show "rw_sleep_inv thr fl (s, R, W) (G(t := (RwQueued, RGo)))"
    if "G t = (RwQueued, DownR)" "t \<notin> c_get readers_asleep (s, R, W)"
    using rw_live_up_reader [OF l that(1)] that(2) rw_sleep_stay [OF i that(1)] by simp
  show "rw_sleep_inv thr fl (c_put readers_asleep (c_get readers_asleep (s, R, W) - {t}) (s, R, W)) (G(t := (RwQueued, RGo)))"
    if "G t = (RwQueued, DownR)"
    using rw_live_up_reader [OF l that(1)] rw_sleep_stay [OF i that(1)] by simp
qed

interpretation rw_writers: queue_sleepers "rw_sleep_inv thr fl" "writers_owned_by n (owner_id thr x)" writers_asleep
  "(RwOut, WReg)" "(RwOut, DownW)" "(RwOut, WUp)" "(RwOut, WakeW)" "(RwOut, Calm)" for thr :: "'t::finite \<Rightarrow> thread" and fl n x
proof (unfold_locales, unfold split_paired_all)
  fix s R W and G :: "'t \<Rightarrow> rw_phase \<times> rw_spot" and t
  assume i: "rw_sleep_inv thr fl (s, R, W) G"
  note l = rw_sleep_live [OF i]
  show "rw_sleep_inv thr fl (c_put writers_asleep (insert t (c_get writers_asleep (s, R, W))) (s, R, W)) (G(t := (RwOut, DownW)))"
    if "G t = (RwOut, WReg)" "writers_owned_by n (owner_id thr x) (s, R, W)"
    using rw_live_sleep_writer [OF l _ that(1)] that(2) owner_id_not(1) [OF i, of x] rw_sleep_stay [OF i that(1)]
    by (simp add: writers_owned_by_def)
  show "rw_sleep_inv thr fl (s, R, W) (G(t := (RwOut, WUp)))"
    if "G t = (RwOut, DownW)" "t \<notin> c_get writers_asleep (s, R, W)"
    using rw_live_up_writer(1) [OF l that(1)] that(2) rw_sleep_stay [OF i that(1)] by simp
  show "rw_sleep_inv thr fl (c_put writers_asleep (c_get writers_asleep (s, R, W) - {t}) (s, R, W)) (G(t := (RwOut, WReg)))"
    if "G t = (RwOut, DownW)" "t \<in> c_get writers_asleep (s, R, W)"
    using rw_live_up_writer(2) [OF l that(1)] that(2) rw_sleep_stay [OF i that(1)] by simp
  fix u
  show "rw_sleep_inv thr fl (c_put writers_asleep (c_get writers_asleep (s, R, W) - {u}) (s, R, W)) (G(t := (RwOut, Calm)))"
    if "G t = (RwOut, WakeW)" "c_get writers_asleep (s, R, W) \<noteq> {} \<longrightarrow> u \<in> c_get writers_asleep (s, R, W)"
    using rw_live_wake_writer [OF l that(1)] that(2) rw_sleep_stay [OF i that(1)] by simp
qed

subsection \<open>The accesses\<close>

abbreviation rwl_here :: "u32 \<Rightarrow> ('t rw_queues, pthread_rwlock) cell" where
  "rwl_here a \<equiv> through fst_cell (whole a)"

abbreviation rw_sleeping ::
  "('t::finite \<Rightarrow> thread) \<Rightarrow> u32 \<Rightarrow> 't \<Rightarrow> ('a \<Rightarrow> rw_phase \<times> rw_spot \<Rightarrow> bool) \<Rightarrow> rw_phase \<times> rw_spot \<Rightarrow> ('t rw_queues, 'a) prog \<Rightarrow> bool" where
  "rw_sleeping thr fl t Q g p \<equiv> safe (\<lambda>_ _. True) (rw_sleep_inv thr fl) (\<lambda>_ s. s) t Q g p"

text \<open>A read may tell the thread where it is.\<close>

lemma rw_sleeping_look:
  fixes t :: "'t::finite"
  assumes "\<And>s R W G. rw_sleep_inv thr fl (s, R, W) G \<Longrightarrow> G t = g \<Longrightarrow>
      rw_sleep_inv thr fl (s, R, W) (G(t := h (c_get c (s, R, W)))) \<and> Q (c_get c (s, R, W)) (h (c_get c (s, R, W)))"
  shows "rw_sleeping thr fl t Q g (served H (Act id (\<lambda>w. Ret (c_get c w))))"
  by simp (rule safe_ActI [where h = "\<lambda>w. h (c_get c w)"], use assms in \<open>auto simp: split_paired_all\<close>)

lemma rw_sleeping_read:
  fixes t :: "'t::finite"
  assumes "\<And>s R W G. rw_sleep_inv thr fl (s, R, W) G \<Longrightarrow> G t = g \<Longrightarrow> P (c_get c (s, R, W))"
  shows "rw_sleeping thr fl t (\<lambda>v g'. P v \<and> g' = g) g (served H (load c))"
    and "rw_sleeping thr fl t (\<lambda>v g'. P v \<and> g' = g) g (served H (atomic_load c))"
  unfolding load_def atomic_load_def
  by (rule rw_sleeping_look [where h = "\<lambda>_. g"]; use assms in \<open>auto simp: fun_upd_idem\<close>)+

lemma rw_sleeping_shared:
  fixes t :: "'t::finite"
  shows "rw_sleeping thr fl t (\<lambda>f g'. f = fl AND GSYNC_SHARED \<and> g' = g) g (served H (rwl_shared (rwl_here a)))"
  unfolding rwl_shared_def served_bind
  by (rule safe_bind [OF rw_sleeping_read(1) [where P = "\<lambda>f. f = fl"]]) (auto dest: rw_inv_ok(2) [OF rw_sleep_phase])

text \<open>The flags expressions of the macros.\<close>

definition rw_flags_read :: "('t::finite \<Rightarrow> thread) \<Rightarrow> u32 \<Rightarrow> 't \<Rightarrow> (kcall \<Rightarrow> ('t rw_queues, reply) prog) \<Rightarrow> ('t rw_queues, u32) prog \<Rightarrow> bool" where
  "rw_flags_read thr fl t H F \<longleftrightarrow> (\<forall>g. rw_sleeping thr fl t (\<lambda>f g'. f AND GSYNC_SHARED = fl AND GSYNC_SHARED \<and> g' = g) g (served H F))"

lemma rw_flags_reads:
  fixes t :: "'t::finite"
  shows "rw_flags_read thr fl t H (Ret (fl AND GSYNC_SHARED))"
    and "rw_flags_read thr fl t H (load (rwl_flags (rwl_here a)))"
  unfolding rw_flags_read_def
  by (auto intro!: rw_sleeping_read(1) dest: rw_inv_ok(2) [OF rw_sleep_phase])

lemma rw_sleeping_not_owned:
  fixes t :: "'t::finite"
  assumes "rw_flags_read thr fl t H F" and "\<not> rw_writer (fst g)"
  shows "rw_sleeping thr fl t (\<lambda>b g'. \<not> b \<and> g' = g) g (served H (rwl_owned_p (rwl_here a) (thr t) F))"
  unfolding rwl_owned_p_def served_bind
proof (rule safe_bind [OF rw_sleeping_read(1) [where P = "\<lambda>v. v \<noteq> th_id (thr t)"]])
  fix s R W and G :: "'t \<Rightarrow> rw_phase \<times> rw_spot" assume "rw_sleep_inv thr fl (s, R, W) G" "G t = g"
  then show "c_get (rwl_oid (rwl_here a)) (s, R, W) \<noteq> th_id (thr t)"
    using rw_ok_owned [OF rw_inv_ok(1) [OF rw_sleep_phase], of thr fl "(s, R, W)" G t] assms(2) by simp
qed auto

lemma rw_sleeping_owned:
  fixes t :: "'t::finite"
  assumes "rw_flags_read thr fl t H F"
  shows "rw_sleeping thr fl t (\<lambda>b g. b \<and> g = (RwWriting, Calm)) (RwWriting, Calm) (served H (rwl_owned_p (rwl_here a) (thr t) F))"
proof -
  have o: "rw_sleeping thr fl t (\<lambda>v g. v = th_id (thr t) \<and> g = (RwWriting, Calm)) (RwWriting, Calm) (served H (load (rwl_oid (rwl_here a))))"
  proof (rule rw_sleeping_read(1))
    fix s R W and G :: "'t \<Rightarrow> rw_phase \<times> rw_spot" assume "rw_sleep_inv thr fl (s, R, W) G" "G t = (RwWriting, Calm)"
    then show "c_get (rwl_oid (rwl_here a)) (s, R, W) = th_id (thr t)"
      using rw_ok_writer(1) [OF rw_inv_ok(1) [OF rw_sleep_phase], of thr fl "(s, R, W)" G t] by simp
  qed
  have p: "rw_sleeping thr fl t (\<lambda>v g. v = th_pid (thr t) \<and> g = (RwWriting, Calm)) (RwWriting, Calm) (served H (load (rwl_spid (rwl_here a))))"
    if "fl AND GSYNC_SHARED \<noteq> 0"
  proof (rule rw_sleeping_read(1))
    fix s R W and G :: "'t \<Rightarrow> rw_phase \<times> rw_spot" assume "rw_sleep_inv thr fl (s, R, W) G" "G t = (RwWriting, Calm)"
    then have "rw_ok thr fl (lo (rw_oid_nrd s)) (hi (rw_oid_nrd s)) (lo (rw_shpid_qwr s)) (fst \<circ> G)" "(fst \<circ> G) t = RwWriting"
      using rw_inv_ok(1) [OF rw_sleep_phase, of thr fl "(s, R, W)" G] by simp_all
    then show "c_get (rwl_spid (rwl_here a)) (s, R, W) = th_pid (thr t)" using that by (simp add: rw_ok_def)
  qed
  have f: "rw_sleeping thr fl t (\<lambda>f g'. f AND GSYNC_SHARED = fl AND GSYNC_SHARED \<and> g' = (RwWriting, Calm)) (RwWriting, Calm) (served H F)"
    using assms by (simp add: rw_flags_read_def)
  show ?thesis
    unfolding rwl_owned_p_def served_bind
    by (rule safe_bind [OF o]) (auto simp: served_bind intro!: safe_bind [OF f] safe_bind [OF p])
qed

lemma rw_sleeping_setown:
  fixes t :: "'t::finite"
  assumes "rw_flags_read thr fl t H F"
  shows "rw_sleeping thr fl t (\<lambda>_ g. g = (RwWriting, Calm)) (rw_taken fl, Calm) (served H (rwl_setown (rwl_here a) (thr t) F))"
proof -
  have f: "rw_sleeping thr fl t (\<lambda>f g'. f AND GSYNC_SHARED = fl AND GSYNC_SHARED \<and> g' = (rw_taken fl, Calm)) (rw_taken fl, Calm) (served H F)"
    using assms by (simp add: rw_flags_read_def)
  have s: "rw_sleeping thr fl t (\<lambda>_ g. g = (RwWriting, Calm)) (RwGot, Calm) (served H (store (rwl_spid (rwl_here a)) (th_pid (thr t))))"
  proof (rule safe_served [OF _ callfree_access(2)], rule safe_store [where g' = "(RwWriting, Calm)"], unfold split_paired_all)
    fix s R W and G :: "'t \<Rightarrow> rw_phase \<times> rw_spot" assume i: "rw_sleep_inv thr fl (s, R, W) G" and g: "G t = (RwGot, Calm)"
    note o = rw_inv_ok(1) [OF rw_sleep_phase [OF i]]
    have "lo (rw_oid_nrd s) = th_id (thr t)" using rw_ok_writer(1) [OF o, of t] g by simp
    then have "rw_live (lo (rw_oid_nrd s)) (hi (rw_shpid_qwr s)) R W (G(t := (RwWriting, Calm)))"
      using rw_live_own [OF rw_sleep_live [OF i] g] owner_id_not(1) [OF i, of "Some t"] owner_id_not(2) [OF i, of t] by simp
    with o g show "rw_sleep_inv thr fl (c_put (rwl_spid (rwl_here a)) (th_pid (thr t)) (s, R, W)) (G(t := (RwWriting, Calm)))"
      using rw_inv_ok(2) [OF rw_sleep_phase [OF i]]
      by (auto simp: rw_inv_def intro!: rw_sleep_invI rw_owner_moves(1))
  qed simp
  show ?thesis
    unfolding rwl_setown_def served_bind by (rule safe_bind [OF f]) (auto simp: rw_taken_def intro: s)
qed

lemma rw_sleep_ok:
  assumes "rw_sleep_inv thr fl (s, R, W) G"
  shows "rw_ok thr fl (lo (rw_oid_nrd s)) (hi (rw_oid_nrd s)) (lo (rw_shpid_qwr s)) (fst \<circ> G)" and "rw_flags s = fl"
  using rw_inv_ok [OF rw_sleep_phase [OF assms]] by simp_all

lemma rw_sleep_card: "rw_sleep_inv (thr :: 't::finite \<Rightarrow> thread) fl w G \<Longrightarrow> card (UNIV :: 't set) < 2 ^ 32"
  by (simp add: rw_sleep_inv_def rw_inv_def rw_ok_def)

lemma rw_sleep_owner:
  assumes "rw_sleep_inv thr fl (s, R, W) G"
  shows "lo (rw_oid_nrd s) = RWLOCK_UNOWNED \<or> (\<exists>x. lo (rw_oid_nrd s) = owner_id thr x)"
    and "lo (rw_oid_nrd s) AND PTHREAD_ID_MASK = 0 \<longleftrightarrow> lo (rw_oid_nrd s) = RWLOCK_UNOWNED \<or> lo (rw_oid_nrd s) = RWLOCK_RO"
proof -
  note o = rw_sleep_ok(1) [OF assms]
  consider "lo (rw_oid_nrd s) = RWLOCK_UNOWNED" | "lo (rw_oid_nrd s) = RWLOCK_RO" | u where "rw_writer ((fst \<circ> G) u)"
    using o unfolding rw_ok_def by blast
  note cs = this
  then show "lo (rw_oid_nrd s) = RWLOCK_UNOWNED \<or> (\<exists>x. lo (rw_oid_nrd s) = owner_id thr x)"
    by cases (use owner_id.simps rw_ok_writer(1) [OF o] in metis)+
  from cs show "lo (rw_oid_nrd s) AND PTHREAD_ID_MASK = 0 \<longleftrightarrow> lo (rw_oid_nrd s) = RWLOCK_UNOWNED \<or> lo (rw_oid_nrd s) = RWLOCK_RO"
  proof cases
    case 3
    then show ?thesis using rw_ok_unowned [OF o] rw_ok_writer(1) [OF o] rw_id_cases(1,2) [OF rw_ok_ids [OF o]] by metis
  qed simp_all
qed

text \<open>Taking the lock for writing.\<close>

lemma rw_sleeping_cas:
  fixes t :: "'t::finite"
  assumes "p = Calm \<or> p = WGo"
  shows "rw_sleeping thr fl t (\<lambda>ok g. g = (if ok then (rw_taken fl, Calm) else (RwOut, p))) (RwOut, p)
    (served H (atomic_cas_bool (rwl_oid (rwl_here a)) RWLOCK_UNOWNED (th_id (thr t))))"
proof (rule safe_served [OF _ callfree_access(5)], rule safe_cas [where g' = "(rw_taken fl, Calm)"], unfold split_paired_all)
  fix s R W and G :: "'t \<Rightarrow> rw_phase \<times> rw_spot"
  assume i: "rw_sleep_inv thr fl (s, R, W) G" and g: "G t = (RwOut, p)" and "c_get (rwl_oid (rwl_here a)) (s, R, W) = RWLOCK_UNOWNED"
  then have z: "lo (rw_oid_nrd s) = RWLOCK_UNOWNED" by simp
  have "rw_live (th_id (thr t)) (hi (rw_shpid_qwr s)) R W (G(t := (rw_taken fl, Calm)))"
    by (rule rw_live_own [OF rw_sleep_live [OF i] g assms])
      (use owner_id_not(1) [OF i, of "Some t"] owner_id_not(2) [OF i, of t] in \<open>simp_all add: rw_taken_def\<close>)
  moreover have "rw_ok thr fl (th_id (thr t)) (hi (rw_oid_nrd s)) (lo (rw_shpid_qwr s)) ((fst \<circ> G)(t := rw_taken fl))"
    using rw_sleep_ok(1) [OF i] z g by (intro rw_write) simp_all
  ultimately show "rw_sleep_inv thr fl (c_put (rwl_oid (rwl_here a)) (th_id (thr t)) (s, R, W)) (G(t := (rw_taken fl, Calm)))"
    using rw_sleep_ok(2) [OF i] by (auto simp: rw_inv_def intro!: rw_sleep_invI)
qed simp_all

text \<open>The counters.\<close>

lemma rw_sleeping_nrd:
  fixes t :: "'t::finite"
  shows "p = Calm \<or> p = RGo \<Longrightarrow>
      rw_sleeping thr fl t (\<lambda>_ g. g = (RwQueued, RGo)) (RwOut, p) (served H (atomic_add (rwl_nrd (rwl_here a)) 1))"
    and "rw_sleeping thr fl t (\<lambda>_ g. g = (RwOut, RGo)) (RwQueued, RGo) (served H (atomic_add (rwl_nrd (rwl_here a)) (- 1)))"
proof -
  show "rw_sleeping thr fl t (\<lambda>_ g. g = (RwQueued, RGo)) (RwOut, p) (served H (atomic_add (rwl_nrd (rwl_here a)) 1))"
    if p: "p = Calm \<or> p = RGo"
  proof (rule safe_served [OF _ callfree_access(6)], rule safe_add [where g' = "(RwQueued, RGo)"], unfold split_paired_all)
    fix s R W and G :: "'t \<Rightarrow> rw_phase \<times> rw_spot" assume i: "rw_sleep_inv thr fl (s, R, W) G" and g: "G t = (RwOut, p)"
    have "rw_ok thr fl (lo (rw_oid_nrd s)) (hi (rw_oid_nrd s) + 1) (lo (rw_shpid_qwr s)) ((fst \<circ> G)(t := RwQueued))"
      by (rule rw_queue [OF rw_sleep_ok(1) [OF i]]) (simp add: g)
    then show "rw_sleep_inv thr fl (c_put (rwl_nrd (rwl_here a)) (c_get (rwl_nrd (rwl_here a)) (s, R, W) + 1) (s, R, W)) (G(t := (RwQueued, RGo)))"
      using rw_live_still(1) [OF rw_sleep_live [OF i] g p] rw_sleep_ok(2) [OF i] by (auto simp: rw_inv_def intro!: rw_sleep_invI)
  qed simp
  show "rw_sleeping thr fl t (\<lambda>_ g. g = (RwOut, RGo)) (RwQueued, RGo) (served H (atomic_add (rwl_nrd (rwl_here a)) (- 1)))"
  proof (rule safe_served [OF _ callfree_access(6)], rule safe_add [where g' = "(RwOut, RGo)"], unfold split_paired_all)
    fix s R W and G :: "'t \<Rightarrow> rw_phase \<times> rw_spot" assume i: "rw_sleep_inv thr fl (s, R, W) G" and g: "G t = (RwQueued, RGo)"
    have "rw_ok thr fl (lo (rw_oid_nrd s)) (hi (rw_oid_nrd s) - 1) (lo (rw_shpid_qwr s)) ((fst \<circ> G)(t := RwOut))"
      by (rule rw_unqueue [OF rw_sleep_ok(1) [OF i]]) (simp add: g)
    then show "rw_sleep_inv thr fl (c_put (rwl_nrd (rwl_here a)) (c_get (rwl_nrd (rwl_here a)) (s, R, W) + - 1) (s, R, W)) (G(t := (RwOut, RGo)))"
      using rw_live_still(2) [OF rw_sleep_live [OF i] g] rw_sleep_ok(2) [OF i] by (auto simp: rw_inv_def intro!: rw_sleep_invI)
  qed simp
qed

lemma rw_sleep_qwr:
  assumes "rw_sleep_inv thr fl (s, R, W) G" and "G t = (RwOut, q)"
    and "rw_live (lo (rw_oid_nrd s)) n R W (G(t := (RwOut, q')))"
  shows "rw_sleep_inv thr fl (c_put (rwl_qwr (rwl_here a)) n (s, R, W)) (G(t := (RwOut, q')))"
  using assms rw_sleep_phase [OF assms(1)] rw_phases_same [of G t RwOut]
  by (auto simp: rw_inv_def intro!: rw_sleep_invI)

lemma rw_sleeping_qwr:
  fixes t :: "'t::finite"
  shows "rw_sleeping thr fl t (\<lambda>_ g. g = (RwOut, WReg)) (RwOut, Calm) (served H (atomic_add (rwl_qwr (rwl_here a)) 1))"
    and "p = WReg \<or> p = WUp \<Longrightarrow> rw_sleeping thr fl t (\<lambda>_ g. g = (RwOut, WGo)) (RwOut, p) (served H (atomic_add (rwl_qwr (rwl_here a)) (- 1)))"
    and "rw_sleeping thr fl t (\<lambda>n g. g = (RwOut, if n = 1 then WChk else Calm)) (RwOut, WReg) (served H (atomic_add (rwl_qwr (rwl_here a)) (- 1)))"
proof -
  note l = rw_sleep_live and q = rw_sleep_qwr and w = rw_live_writer
  show "rw_sleeping thr fl t (\<lambda>_ g. g = (RwOut, WReg)) (RwOut, Calm) (served H (atomic_add (rwl_qwr (rwl_here a)) 1))"
    by (rule safe_served [OF _ callfree_access(6)], rule safe_add [where g' = "(RwOut, WReg)"], unfold split_paired_all, rule q)
      (auto intro: w(1) [OF l rw_sleep_card])
  show "rw_sleeping thr fl t (\<lambda>_ g. g = (RwOut, WGo)) (RwOut, p) (served H (atomic_add (rwl_qwr (rwl_here a)) (- 1)))"
    if "p = WReg \<or> p = WUp"
    by (rule safe_served [OF _ callfree_access(6)], rule safe_add [where g' = "(RwOut, WGo)"], unfold split_paired_all, rule q)
      (use that in \<open>auto intro: w(2) [OF l rw_sleep_card]\<close>)
  show "rw_sleeping thr fl t (\<lambda>n g. g = (RwOut, if n = 1 then WChk else Calm)) (RwOut, WReg) (served H (atomic_add (rwl_qwr (rwl_here a)) (- 1)))"
  proof (rule safe_served [OF _ callfree_access(6)], unfold atomic_add_def,
      rule safe_ActI [where h = "\<lambda>w. (RwOut, if c_get (rwl_qwr (rwl_here a)) w = 1 then WChk else Calm)"], unfold split_paired_all)
    fix s R W and G :: "'t \<Rightarrow> rw_phase \<times> rw_spot" assume i: "rw_sleep_inv thr fl (s, R, W) G" and g: "G t = (RwOut, WReg)"
    show "rw_sleep_inv thr fl (c_put (rwl_qwr (rwl_here a)) (c_get (rwl_qwr (rwl_here a)) (s, R, W) + - 1) (s, R, W))
        (G(t := (RwOut, if c_get (rwl_qwr (rwl_here a)) (s, R, W) = 1 then WChk else Calm)))"
      by (rule q [OF i g])
        (use w(3,4) [OF l [OF i] rw_sleep_card [OF i] g] in auto)
  qed simp
qed

text \<open>Taking it for reading. The first reader of an unowned lock finds no sleeper, or wakes them all.\<close>

lemma rw_sleeping_broadcast:
  fixes t :: "'t::finite"
  assumes "f AND GSYNC_MUTATE = 0" and "f AND GSYNC_BROADCAST \<noteq> 0"
  shows "rw_sleeping thr fl t (\<lambda>_ g. g = (p, Calm)) (p, WakeR) (served (rw_sleepy a pick t) (lll_wake (rwl_oid (rwl_here a)) f))"
proof -
  have r: "rw_sleeping thr fl t (\<lambda>_ g. g = (p, Calm)) (p, WakeR) (rouse (\<lambda>w. w) readers_asleep pick f call)" for call
  proof (rule rw_readers.safely_rouse_all [OF assms(2)], unfold split_paired_all)
    fix s R W and G :: "'t \<Rightarrow> rw_phase \<times> rw_spot" assume i: "rw_sleep_inv thr fl (s, R, W) G" and g: "G t = (p, WakeR)"
    then show "rw_sleep_inv thr fl (c_put readers_asleep {} (s, R, W)) (G(t := (p, Calm)))"
      using rw_sleep_stay [OF i g rw_live_wake_readers [OF rw_sleep_live [OF i] g]] by simp
  qed
  show ?thesis
    by (auto simp: lll_wake_def gsync_wake_def served_bind bind_assoc assms(1) intro!: safe_bind [OF r])
qed

lemma rw_sleeping_wake_writer:
  fixes t :: "'t::finite"
  assumes "\<And>r Z. Z \<noteq> {} \<Longrightarrow> pick r Z \<in> Z"
  shows "rw_sleeping thr fl t (\<lambda>_ g. g = (RwOut, Calm)) (RwOut, WakeW)
    (served (rw_sleepy a pick t) (lll_wake (rwl_qwr (rwl_here a)) (fl AND GSYNC_SHARED)))"
proof -
  have z: "(fl AND GSYNC_SHARED) AND GSYNC_MUTATE = 0" "(fl AND GSYNC_SHARED) AND GSYNC_BROADCAST = 0"
    by (rule bit_word_eqI; auto simp: bit_simps)+
  have r: "rw_sleeping thr fl t (\<lambda>_ g. g = (RwOut, Calm)) (RwOut, WakeW)
      (rouse (\<lambda>w. w) writers_asleep pick (fl AND GSYNC_SHARED) call)" for call
    by (rule rw_writers.safely_rouse) (use assms z in auto)
  show ?thesis
    by (auto simp: lll_wake_def gsync_wake_def served_bind bind_assoc z intro!: safe_bind [OF r])
qed

lemma callfree_xaccess [callfree]: "callfree (atomic_loadx x)" "callfree (atomic_casx_bool x l h l' h')"
  by (simp_all add: atomic_defs)

lemma rw_sleeping_grab:
  fixes t :: "'t::finite"
  assumes F: "\<And>g. rw_sleeping thr fl t (\<lambda>f g'. f = fl AND GSYNC_SHARED \<and> g' = g) g (served (rw_sleepy a pick t) F)"
    and p: "p = Calm \<or> p = RGo" and z: "lo tmp AND PTHREAD_ID_MASK = 0"
  shows "rw_sleeping thr fl t (\<lambda>ok g. g = (if ok then (RwReading, Calm) else (RwOut, p))) (RwOut, p)
    (served (rw_sleepy a pick t) (rwl_grab_read (rwl_here a) F tmp))"
proof -
  let ?q = "if lo tmp = RWLOCK_UNOWNED \<and> hi tmp > 0 then WakeR else Calm"
  have c: "rw_sleeping thr fl t (\<lambda>ok g. g = (if ok then (RwReading, ?q) else (RwOut, p))) (RwOut, p)
      (served (rw_sleepy a pick t) (atomic_casx_bool (rwl_oid_nrd (rwl_here a)) (lo tmp) (hi tmp) RWLOCK_RO (hi tmp + 1)))"
  proof (rule safe_served [OF _ callfree_xaccess(2)], rule safe_casx [where g' = "(RwReading, ?q)"], unfold split_paired_all)
    fix s R W and G :: "'t \<Rightarrow> rw_phase \<times> rw_spot" assume i: "rw_sleep_inv thr fl (s, R, W) G" and g: "G t = (RwOut, p)"
      and "c_get (rwl_oid_nrd (rwl_here a)) (s, R, W) = \<lparr>lo = lo tmp, hi = hi tmp\<rparr>"
    then have x: "lo (rw_oid_nrd s) = lo tmp" "hi (rw_oid_nrd s) = hi tmp" by simp_all
    have "lo tmp = RWLOCK_RO \<or> R = {} \<or> ?q = WakeR"
      using rw_sleep_owner(2) [OF i] z x rw_sleep_nrd [OF i] by (auto simp: word_gt_0)
    then have "rw_live RWLOCK_RO (hi (rw_shpid_qwr s)) R W (G(t := (RwReading, ?q)))"
      using rw_live_grab [OF rw_sleep_live [OF i] g p, of ?q] x by simp
    moreover have "rw_ok thr fl RWLOCK_RO (hi tmp + 1) (lo (rw_shpid_qwr s)) ((fst \<circ> G)(t := RwReading))"
      using rw_read [OF rw_sleep_ok(1) [OF i], of t] g z x by simp
    ultimately show "rw_sleep_inv thr fl (c_put (rwl_oid_nrd (rwl_here a)) \<lparr>lo = RWLOCK_RO, hi = hi tmp + 1\<rparr> (s, R, W))
        (G(t := (RwReading, ?q)))"
      using rw_sleep_ok(2) [OF i] by (auto simp: rw_inv_def simp del: if_split intro!: rw_sleep_invI)
  qed simp_all
  have w: "rw_sleeping thr fl t (\<lambda>_ g. g = (RwReading, Calm)) (RwReading, WakeR)
      (served (rw_sleepy a pick t) (bind F (\<lambda>f. lll_wake (rwl_oid (rwl_here a)) (f OR GSYNC_BROADCAST))))"
    unfolding served_bind by (rule safe_bind [OF F]) (auto simp: and_disjoint_or intro!: rw_sleeping_broadcast)
  show ?thesis
    unfolding rwl_grab_read_def served_bind
    by (rule safe_bind [OF c]) (auto simp: served_bind intro!: safe_bind [OF w [unfolded served_bind]])
qed

text \<open>What a thread reads before it takes the lock or waits.\<close>

lemma rw_sleeping_reader_looks:
  fixes t :: "'t::finite"
  assumes "p = Calm \<or> p = RGo"
  shows "rw_sleeping thr fl t (\<lambda>tmp g. if lo tmp AND PTHREAD_ID_MASK = 0 then g = (RwOut, p)
      else g = (RwOut, Calm) \<and> (\<exists>u. lo tmp = owner_id thr (Some u))) (RwOut, p)
    (served H (atomic_loadx (rwl_oid_nrd (rwl_here a))))"
  unfolding atomic_loadx_def
proof (rule rw_sleeping_look [where h = "\<lambda>tmp. if lo tmp AND PTHREAD_ID_MASK = 0 then (RwOut, p) else (RwOut, Calm)"])
  fix s R W and G :: "'t \<Rightarrow> rw_phase \<times> rw_spot" assume i: "rw_sleep_inv thr fl (s, R, W) G" and g: "G t = (RwOut, p)"
  let ?oid = "lo (rw_oid_nrd s)"
  have "\<exists>u. ?oid = owner_id thr (Some u)" if "?oid AND PTHREAD_ID_MASK \<noteq> 0"
    using rw_sleep_owner [OF i] that by (metis option.exhaust owner_id.simps(1))
  moreover have "rw_sleep_inv thr fl (s, R, W) (G(t := (RwOut, Calm)))" if "?oid AND PTHREAD_ID_MASK \<noteq> 0"
    by (rule rw_sleep_stay [OF i g], rule rw_live_still(3) [OF rw_sleep_live [OF i] g])
      (use assms that rw_sleep_owner(2) [OF i] in auto)
  ultimately show "rw_sleep_inv thr fl (s, R, W) (G(t := if lo (c_get (rwl_oid_nrd (rwl_here a)) (s, R, W)) AND PTHREAD_ID_MASK = 0
        then (RwOut, p) else (RwOut, Calm))) \<and>
      (if lo (c_get (rwl_oid_nrd (rwl_here a)) (s, R, W)) AND PTHREAD_ID_MASK = 0
       then (if lo (c_get (rwl_oid_nrd (rwl_here a)) (s, R, W)) AND PTHREAD_ID_MASK = 0 then (RwOut, p) else (RwOut, Calm)) = (RwOut, p)
       else (if lo (c_get (rwl_oid_nrd (rwl_here a)) (s, R, W)) AND PTHREAD_ID_MASK = 0 then (RwOut, p) else (RwOut, Calm)) = (RwOut, Calm) \<and>
         (\<exists>u. lo (c_get (rwl_oid_nrd (rwl_here a)) (s, R, W)) = owner_id thr (Some u)))"
    using i g by (simp add: fun_upd_idem)
qed

lemma rw_sleeping_writer_looks:
  fixes t :: "'t::finite"
  assumes "p = Calm \<or> p = WGo"
  shows "rw_sleeping thr fl t (\<lambda>v g. if v = RWLOCK_UNOWNED then g = (RwOut, p)
      else g = (RwOut, Calm) \<and> (\<exists>x. v = owner_id thr x)) (RwOut, p)
    (served H (atomic_load (rwl_oid (rwl_here a))))"
  unfolding atomic_load_def
proof (rule rw_sleeping_look [where h = "\<lambda>v. if v = RWLOCK_UNOWNED then (RwOut, p) else (RwOut, Calm)"])
  fix s R W and G :: "'t \<Rightarrow> rw_phase \<times> rw_spot" assume i: "rw_sleep_inv thr fl (s, R, W) G" and g: "G t = (RwOut, p)"
  have "rw_sleep_inv thr fl (s, R, W) (G(t := (RwOut, Calm)))" if "lo (rw_oid_nrd s) \<noteq> RWLOCK_UNOWNED"
    by (rule rw_sleep_stay [OF i g], rule rw_live_still(3) [OF rw_sleep_live [OF i] g]) (use assms that in auto)
  then show "rw_sleep_inv thr fl (s, R, W) (G(t := if c_get (rwl_oid (rwl_here a)) (s, R, W) = RWLOCK_UNOWNED then (RwOut, p) else (RwOut, Calm))) \<and>
      (if c_get (rwl_oid (rwl_here a)) (s, R, W) = RWLOCK_UNOWNED
       then (if c_get (rwl_oid (rwl_here a)) (s, R, W) = RWLOCK_UNOWNED then (RwOut, p) else (RwOut, Calm)) = (RwOut, p)
       else (if c_get (rwl_oid (rwl_here a)) (s, R, W) = RWLOCK_UNOWNED then (RwOut, p) else (RwOut, Calm)) = (RwOut, Calm) \<and>
         (\<exists>x. c_get (rwl_oid (rwl_here a)) (s, R, W) = owner_id thr x))"
    using i g rw_sleep_owner(1) [OF i] by (auto simp: fun_upd_idem)
qed

text \<open>The waits.\<close>

lemma rw_sleeping_read_wait:
  fixes t :: "'t::finite"
  shows "rw_sleeping thr fl t (\<lambda>_ g. g = (RwQueued, RGo)) (RwQueued, RGo)
    (served (rw_sleepy a pick t) (lll_wait (rwl_oid (rwl_here a)) (owner_id thr (Some u)) (fl AND GSYNC_SHARED)))"
proof -
  have q: "(fl AND GSYNC_SHARED) AND GSYNC_QUAD = 0" by (rule bit_word_eqI) (auto simp: bit_simps)
  have "rw_sleeping thr fl t (\<lambda>r g. g = (RwQueued, RGo) \<or> g = (RwQueued, RGo) \<and> r = 0) (RwQueued, RGo)
      (served (rw_sleepy a pick t) (gsync_wait MachTaskSelf (a + 8) (owner_id thr (Some u)) 0 0 (fl AND GSYNC_SHARED)))"
    by (rule rw_readers.safely_gsync_wait [OF rw_sleepy_passes]) (simp add: q)
  then show ?thesis unfolding lll_wait_def by (auto elim: safe_mono)
qed

abbreviation up_or_not :: "int \<Rightarrow> rw_phase \<times> rw_spot \<Rightarrow> bool" where
  "up_or_not r g \<equiv> g = (RwOut, WReg) \<or> g = (RwOut, WUp) \<and> r = 0"

lemma rw_sleeping_write_wait:
  fixes t :: "'t::finite"
  shows "rw_sleeping thr fl t up_or_not (RwOut, WReg)
      (served (rw_sleepy a pick t) (lll_xwait (rwl_qwr (rwl_here a)) n (owner_id thr x) (fl AND GSYNC_SHARED)))"
    and "rw_sleeping thr fl t up_or_not (RwOut, WReg)
      (served (rw_sleepy a pick t) (lll_abstimed_xwait (rwl_qwr (rwl_here a)) n (owner_id thr x) tsp (fl AND GSYNC_SHARED) clk))"
proof -
  have "(f OR GSYNC_QUAD) AND GSYNC_QUAD = (GSYNC_QUAD :: u32)" for f by (rule bit_word_eqI) (auto simp: bit_simps)
  then have q: "(f OR GSYNC_QUAD) AND GSYNC_QUAD \<noteq> (0 :: u32)" for f by simp
  have q6: "(f OR 6) AND GSYNC_QUAD \<noteq> (0 :: u32)" for f
    using q [of "f OR GSYNC_TIMED"] by (simp add: or.assoc)
  have w: "rw_sleeping thr fl t up_or_not (RwOut, WReg)
      (served (rw_sleepy a pick t) (gsync_wait MachTaskSelf (a + 4) n (owner_id thr x) msec f))"
    if "f AND GSYNC_QUAD \<noteq> 0" for f msec
    by (rule rw_writers.safely_gsync_wait [OF rw_sleepy_passes]) (simp add: that)
  show "rw_sleeping thr fl t up_or_not (RwOut, WReg)
      (served (rw_sleepy a pick t) (lll_xwait (rwl_qwr (rwl_here a)) n (owner_id thr x) (fl AND GSYNC_SHARED)))"
    using w [OF q, of 0] by (simp add: lll_xwait_def)
  show "rw_sleeping thr fl t up_or_not (RwOut, WReg)
      (served (rw_sleepy a pick t) (lll_abstimed_xwait (rwl_qwr (rwl_here a)) n (owner_id thr x) tsp (fl AND GSYNC_SHARED) clk))"
    using w [OF q6]
    by (auto simp: lll_abstimed_xwait_def compute_reltime_def served_bind bind_assoc lll_timed_xwait_def passes_simps [OF rw_sleepy_passes]
        intro!: rw_writers.safely_sys)
qed

subsection \<open>The functions\<close>

abbreviation rw_serve :: "u32 \<Rightarrow> (reply \<Rightarrow> 't set \<Rightarrow> 't) \<Rightarrow> 't::finite \<Rightarrow> ('t rw_queues, 'a) prog \<Rightarrow> ('t rw_queues, 'a) prog" where
  "rw_serve a pick t p \<equiv> served (rw_sleepy a pick t) p"

abbreviation rw_has :: "rw_phase \<Rightarrow> ret \<Rightarrow> rw_phase \<times> rw_spot \<Rightarrow> bool" where
  "rw_has x r g \<equiv> g = (if r = OK then x else RwOut, Calm)"

abbreviation reader_round :: "unit + ret \<Rightarrow> rw_phase \<times> rw_spot \<Rightarrow> bool" where
  "reader_round r g \<equiv> (case r of Inl _ \<Rightarrow> g = (RwOut, Calm) \<or> g = (RwOut, RGo) | Inr x \<Rightarrow> rw_has RwReading x g)"

abbreviation writer_round :: "unit + ret \<Rightarrow> rw_phase \<times> rw_spot \<Rightarrow> bool" where
  "writer_round r g \<equiv> (case r of Inl _ \<Rightarrow> g = (RwOut, Calm) \<or> g = (RwOut, WGo) | Inr x \<Rightarrow> rw_has RwWriting x g)"

lemma rw_flags_here: "rw_sleeping thr fl (t :: 't::finite) (\<lambda>f g'. f = fl AND GSYNC_SHARED \<and> g' = g) g (served H (Ret (fl AND GSYNC_SHARED)))"
  by simp

lemma rw_sleeping_rdlock:
  fixes t :: "'t::finite"
  shows "rw_sleeping thr fl t (rw_has RwReading) (RwOut, Calm) (rw_serve a pick t (pthread_rwlock_rdlock (thr t) (rwl_here a)))"
proof -
  have round: "rw_sleeping thr fl t reader_round (RwOut, p) (rw_serve a pick t (
      bind (atomic_loadx (rwl_oid_nrd (rwl_here a))) (\<lambda>tmp.
      if lo tmp AND PTHREAD_ID_MASK = 0 then
        bind (rwl_grab_read (rwl_here a) (Ret (fl AND GSYNC_SHARED)) tmp) (\<lambda>ok. if ok then leave OK else again ())
      else
        bind (atomic_add (rwl_nrd (rwl_here a)) 1) (\<lambda>_.
        bind (lll_wait (rwl_oid (rwl_here a)) (lo tmp) (fl AND GSYNC_SHARED)) (\<lambda>_.
        bind (atomic_add (rwl_nrd (rwl_here a)) (- 1)) (\<lambda>_. again ()))))))" if p: "p = Calm \<or> p = RGo" for p
    unfolding served_bind
    by (rule safe_bind [OF rw_sleeping_reader_looks [OF p]])
      (use p in \<open>auto simp: served_bind simp del: owner_id.simps split: if_splits
        intro!: safe_bind [OF rw_sleeping_grab [OF rw_flags_here p]] safe_bind [OF rw_sleeping_nrd(1)] safe_bind [OF rw_sleeping_read_wait]
          safe_bind [OF rw_sleeping_nrd(2)]\<close>)
  show ?thesis
    unfolding pthread_rwlock_rdlock_def served_bind
    by (rule safe_bind [OF rw_sleeping_shared], elim conjE, hypsubst,
        rule safe_bind [OF rw_sleeping_not_owned [OF rw_flags_reads(1)]])
      (auto simp: served_loop intro!: safe_loop [where J = "\<lambda>_ g. g = (RwOut, Calm) \<or> g = (RwOut, RGo)"] round)
qed

lemma rw_sleeping_tryrdlock:
  fixes t :: "'t::finite"
  shows "rw_sleeping thr fl t (rw_has RwReading) (RwOut, Calm) (rw_serve a pick t (pthread_rwlock_tryrdlock (thr t) (rwl_here a)))"
proof -
  have c: "(Calm = Calm \<or> Calm = RGo)" by simp
  show ?thesis
    unfolding pthread_rwlock_tryrdlock_def served_bind
    by (rule safe_bind [OF rw_sleeping_not_owned [OF rw_flags_reads(2)]])
      (auto simp: served_loop served_bind simp del: owner_id.simps split: if_splits
        intro!: safe_loop [where J = "\<lambda>_ g. g = (RwOut, Calm)"] safe_bind [OF rw_sleeping_reader_looks [OF c]]
          safe_bind [OF rw_sleeping_grab [OF rw_sleeping_shared c]])
qed

lemma rw_sleeping_wrlock:
  fixes t :: "'t::finite"
  shows "rw_sleeping thr fl t (rw_has RwWriting) (RwOut, Calm) (rw_serve a pick t (pthread_rwlock_wrlock (thr t) (rwl_here a)))"
proof -
  have round: "rw_sleeping thr fl t writer_round (RwOut, p) (rw_serve a pick t (
      bind (atomic_load (rwl_oid (rwl_here a))) (\<lambda>owner.
      if owner = RWLOCK_UNOWNED then
        bind (atomic_cas_bool (rwl_oid (rwl_here a)) owner (th_id (thr t))) (\<lambda>ok.
        if ok then bind (rwl_setown (rwl_here a) (thr t) (Ret (fl AND GSYNC_SHARED))) (\<lambda>_. leave OK) else again ())
      else
        bind (atomic_add (rwl_qwr (rwl_here a)) 1) (\<lambda>nw.
        bind (lll_xwait (rwl_qwr (rwl_here a)) (nw + 1) owner (fl AND GSYNC_SHARED)) (\<lambda>_.
        bind (atomic_add (rwl_qwr (rwl_here a)) (- 1)) (\<lambda>_. again ()))))))" if p: "p = Calm \<or> p = WGo" for p
    unfolding served_bind
    by (rule safe_bind [OF rw_sleeping_writer_looks [OF p]])
      (use p in \<open>auto simp: served_bind simp del: owner_id.simps split: if_splits
        intro!: safe_bind [OF rw_sleeping_cas [OF p]] safe_bind [OF rw_sleeping_setown [OF rw_flags_reads(1)]]
          safe_bind [OF rw_sleeping_qwr(1)] safe_bind [OF rw_sleeping_write_wait(1)] safe_bind [OF rw_sleeping_qwr(2)]\<close>)
  show ?thesis
    unfolding pthread_rwlock_wrlock_def served_bind
    by (rule safe_bind [OF rw_sleeping_shared], elim conjE, hypsubst,
        rule safe_bind [OF rw_sleeping_not_owned [OF rw_flags_reads(1)]])
      (auto simp: served_loop intro!: safe_loop [where J = "\<lambda>_ g. g = (RwOut, Calm) \<or> g = (RwOut, WGo)"] round)
qed

lemma rw_sleeping_trywrlock:
  fixes t :: "'t::finite"
  shows "rw_sleeping thr fl t (rw_has RwWriting) (RwOut, Calm) (rw_serve a pick t (pthread_rwlock_trywrlock (thr t) (rwl_here a)))"
proof -
  have c: "(Calm = Calm \<or> Calm = WGo)" by simp
  show ?thesis
    unfolding pthread_rwlock_trywrlock_def served_bind
    by (rule safe_bind [OF rw_sleeping_read(2) [where P = "\<lambda>_. True"]], simp, elim conjE, hypsubst,
        rule safe_bind [OF rw_sleeping_not_owned [OF rw_flags_reads(2)]])
      (auto simp: served_bind intro!: safe_bind [OF rw_sleeping_cas [OF c]] safe_bind [OF rw_sleeping_setown [OF rw_flags_reads(2)]])
qed

text \<open>The check of a writer whose wait has timed out.\<close>

lemma rw_sleeping_check:
  fixes t :: "'t::finite"
  shows "rw_sleeping thr fl t (\<lambda>tmp g. g = (RwOut, if hi tmp > 0 \<and> lo tmp = RWLOCK_UNOWNED then WakeR else Calm)) (RwOut, WChk)
      (served H (atomic_loadx (rwl_oid_nrd (rwl_here a))))"
    and "rw_sleeping thr fl t (\<lambda>_ g'. g' = g) g (served H (atomic_loadx (rwl_oid_nrd (rwl_here a))))"
proof -
  show "rw_sleeping thr fl t (\<lambda>tmp g. g = (RwOut, if hi tmp > 0 \<and> lo tmp = RWLOCK_UNOWNED then WakeR else Calm)) (RwOut, WChk)
      (served H (atomic_loadx (rwl_oid_nrd (rwl_here a))))"
    unfolding atomic_loadx_def
  proof (rule rw_sleeping_look [where h = "\<lambda>tmp. (RwOut, if hi tmp > 0 \<and> lo tmp = RWLOCK_UNOWNED then WakeR else Calm)"])
    fix s R W and G :: "'t \<Rightarrow> rw_phase \<times> rw_spot" assume i: "rw_sleep_inv thr fl (s, R, W) G" and g: "G t = (RwOut, WChk)"
    have "rw_live (lo (rw_oid_nrd s)) (hi (rw_shpid_qwr s)) R W
        (G(t := (RwOut, if hi (rw_oid_nrd s) > 0 \<and> lo (rw_oid_nrd s) = RWLOCK_UNOWNED then WakeR else Calm)))"
      using rw_live_writer(5,6) [OF rw_sleep_live [OF i] rw_sleep_card [OF i] g] rw_sleep_nrd [OF i] by (auto simp: word_gt_0)
    from rw_sleep_stay [OF i g this]
    show "rw_sleep_inv thr fl (s, R, W) (G(t := (RwOut, if hi (c_get (rwl_oid_nrd (rwl_here a)) (s, R, W)) > 0 \<and>
          lo (c_get (rwl_oid_nrd (rwl_here a)) (s, R, W)) = RWLOCK_UNOWNED then WakeR else Calm))) \<and>
        (RwOut, if hi (c_get (rwl_oid_nrd (rwl_here a)) (s, R, W)) > 0 \<and>
          lo (c_get (rwl_oid_nrd (rwl_here a)) (s, R, W)) = RWLOCK_UNOWNED then WakeR else Calm) =
        (RwOut, if hi (c_get (rwl_oid_nrd (rwl_here a)) (s, R, W)) > 0 \<and>
          lo (c_get (rwl_oid_nrd (rwl_here a)) (s, R, W)) = RWLOCK_UNOWNED then WakeR else Calm)"
      by simp
  qed
  show "rw_sleeping thr fl t (\<lambda>_ g'. g' = g) g (served H (atomic_loadx (rwl_oid_nrd (rwl_here a))))"
    unfolding atomic_loadx_def by (rule rw_sleeping_look [where h = "\<lambda>_. g"]) (simp add: fun_upd_idem)
qed

lemma rw_sleeping_timeout:
  fixes t :: "'t::finite"
  shows "rw_sleeping thr fl t writer_round (RwOut, WReg) (rw_serve a pick t (
    bind (atomic_add (rwl_qwr (rwl_here a)) (- 1)) (\<lambda>nw.
    bind (atomic_loadx (rwl_oid_nrd (rwl_here a))) (\<lambda>tmp.
    bind (if nw = 1 \<and> hi tmp > 0 \<and> lo tmp = RWLOCK_UNOWNED
          then lll_wake (rwl_oid (rwl_here a)) ((fl AND GSYNC_SHARED) OR GSYNC_BROADCAST) else Ret ()) (\<lambda>_.
    leave (Err ETIMEDOUT))))))"
proof -
  have w: "rw_sleeping thr fl t (\<lambda>_ g. g = (RwOut, Calm)) (RwOut, WakeR)
      (rw_serve a pick t (lll_wake (rwl_oid (rwl_here a)) ((fl AND GSYNC_SHARED) OR GSYNC_BROADCAST)))"
    by (rule rw_sleeping_broadcast) (simp_all add: and_disjoint_or)
  have l: "rw_sleeping thr fl t (\<lambda>tmp g. g = (RwOut, if nw = 1 \<and> hi tmp > 0 \<and> lo tmp = RWLOCK_UNOWNED then WakeR else Calm))
      (RwOut, if nw = 1 then WChk else Calm) (rw_serve a pick t (atomic_loadx (rwl_oid_nrd (rwl_here a))))" for nw :: u32
    by (cases "nw = 1") (use rw_sleeping_check in \<open>auto elim: safe_mono\<close>)
  show ?thesis
    unfolding served_bind
    by (rule safe_bind [OF rw_sleeping_qwr(3)], hypsubst, rule safe_bind [OF l], hypsubst)
      (auto intro!: safe_bind [OF w])
qed

lemma rw_sleeping_timedwrlock:
  fixes t :: "'t::finite"
  shows "rw_sleeping thr fl t (rw_has RwWriting) (RwOut, Calm) (rw_serve a pick t (pthread_rwlock_timedwrlock (thr t) (rwl_here a) abstime))"
proof -
  have wait: "rw_sleeping thr fl t writer_round g (rw_serve a pick t (
      bind (atomic_add (rwl_qwr (rwl_here a)) (- 1)) (\<lambda>nw.
      if ret = KERN_TIMEDOUT then
        bind (atomic_loadx (rwl_oid_nrd (rwl_here a))) (\<lambda>tmp.
        bind (if nw = 1 \<and> hi tmp > 0 \<and> lo tmp = RWLOCK_UNOWNED
              then lll_wake (rwl_oid (rwl_here a)) ((fl AND GSYNC_SHARED) OR GSYNC_BROADCAST) else Ret ()) (\<lambda>_.
        leave (Err ETIMEDOUT)))
      else again ())))" if "up_or_not ret g" for ret g
  proof (cases "ret = KERN_TIMEDOUT")
    case True
    with that have g: "g = (RwOut, WReg)" by auto
    from True g show ?thesis by (simp only: simp_thms if_True rw_sleeping_timeout)
  next
    case False
    have p: "\<exists>p. g = (RwOut, p) \<and> (p = WReg \<or> p = WUp)" using that by auto
    with False show ?thesis by (auto simp: served_bind intro!: safe_bind [OF rw_sleeping_qwr(2)])
  qed
  have round: "rw_sleeping thr fl t writer_round (RwOut, p) (rw_serve a pick t (
      bind (atomic_load (rwl_oid (rwl_here a))) (\<lambda>owner.
      if owner = RWLOCK_UNOWNED then
        bind (atomic_cas_bool (rwl_oid (rwl_here a)) owner (th_id (thr t))) (\<lambda>ok.
        if ok then bind (rwl_setown (rwl_here a) (thr t) (Ret (fl AND GSYNC_SHARED))) (\<lambda>_. leave OK) else again ())
      else if bad_nsec abstime then leave (Err EINVAL)
      else
        bind (atomic_add (rwl_qwr (rwl_here a)) 1) (\<lambda>nw.
        bind (lll_abstimed_xwait (rwl_qwr (rwl_here a)) (nw + 1) owner abstime (fl AND GSYNC_SHARED) CLOCK_REALTIME) (\<lambda>ret.
        bind (atomic_add (rwl_qwr (rwl_here a)) (- 1)) (\<lambda>nw.
        if ret = KERN_TIMEDOUT then
          bind (atomic_loadx (rwl_oid_nrd (rwl_here a))) (\<lambda>tmp.
          bind (if nw = 1 \<and> hi tmp > 0 \<and> lo tmp = RWLOCK_UNOWNED
                then lll_wake (rwl_oid (rwl_here a)) ((fl AND GSYNC_SHARED) OR GSYNC_BROADCAST) else Ret ()) (\<lambda>_.
          leave (Err ETIMEDOUT)))
        else again ()))))))" (is "rw_sleeping thr fl t writer_round _ (rw_serve a pick t (bind _ (\<lambda>owner. if _ then ?take owner else if _ then _ else ?wait owner)))")
    if p: "p = Calm \<or> p = WGo" for p
  proof -
    have t: "rw_sleeping thr fl t writer_round (RwOut, p) (rw_serve a pick t (?take RWLOCK_UNOWNED))"
      using p by (auto simp: served_bind intro!: safe_bind [OF rw_sleeping_cas [OF p]] safe_bind [OF rw_sleeping_setown [OF rw_flags_reads(1)]])
    have w: "rw_sleeping thr fl t writer_round (RwOut, Calm) (rw_serve a pick t (?wait (owner_id thr x)))" for x
      unfolding served_bind
      by (rule safe_bind [OF rw_sleeping_qwr(1)], hypsubst, rule safe_bind [OF rw_sleeping_write_wait(2)], rule wait [unfolded served_bind])
    show ?thesis
      unfolding served_bind
    proof (rule safe_bind [OF rw_sleeping_writer_looks [OF p]])
      fix owner g
      assume "if owner = RWLOCK_UNOWNED then g = (RwOut, p) else g = (RwOut, Calm) \<and> (\<exists>x. owner = owner_id thr x)"
      then show "rw_sleeping thr fl t writer_round g (rw_serve a pick t (if owner = RWLOCK_UNOWNED then ?take owner
          else if bad_nsec abstime then leave (Err EINVAL) else ?wait owner))"
      proof (cases "owner = RWLOCK_UNOWNED")
        case True
        with \<open>if _ then _ else _\<close> have g: "g = (RwOut, p)" by simp
        show ?thesis unfolding True g using t by (simp only: if_True simp_thms)
      next
        case False
        with \<open>if _ then _ else _\<close> obtain x where g: "g = (RwOut, Calm)" "owner = owner_id thr x" by auto
        show ?thesis
        proof (cases "bad_nsec abstime")
          case True
          with False g show ?thesis by simp
        next
          case b: False
          have "rw_sleeping thr fl t writer_round g (rw_serve a pick t (?wait owner))" unfolding g by (rule w)
          with False b show ?thesis by (simp only: if_False)
        qed
      qed
    qed
  qed
  show ?thesis
    unfolding pthread_rwlock_timedwrlock_def served_bind
    by (rule safe_bind [OF rw_sleeping_shared], elim conjE, hypsubst,
        rule safe_bind [OF rw_sleeping_not_owned [OF rw_flags_reads(1)]])
      (auto simp: served_loop intro!: safe_loop [where J = "\<lambda>_ g. g = (RwOut, Calm) \<or> g = (RwOut, WGo)"] round)
qed

text \<open>Releasing the lock.\<close>

lemma rw_sleeping_drop_read:
  fixes t :: "'t::finite"
  shows "rw_sleeping thr fl t (\<lambda>tmp g. g = (RwOut, if hi tmp = 1 then RelR else Calm)) (RwReading, Calm)
    (served H (rwl_drop_read (rwl_here a)))"
proof -
  have c: "rw_sleeping thr fl t (\<lambda>ok g. g = (if ok then (RwOut, if hi tmp = 1 then RelR else Calm) else (RwReading, Calm))) (RwReading, Calm)
      (served H (atomic_casx_bool (rwl_oid_nrd (rwl_here a)) (lo tmp) (hi tmp)
        (if hi tmp = 1 then RWLOCK_UNOWNED else lo tmp) (hi tmp - 1)))" for tmp
  proof (rule safe_served [OF _ callfree_xaccess(2)], rule safe_casx [where g' = "(RwOut, if hi tmp = 1 then RelR else Calm)"],
      unfold split_paired_all)
    fix s R W and G :: "'t \<Rightarrow> rw_phase \<times> rw_spot" assume i: "rw_sleep_inv thr fl (s, R, W) G" and g: "G t = (RwReading, Calm)"
      and "c_get (rwl_oid_nrd (rwl_here a)) (s, R, W) = \<lparr>lo = lo tmp, hi = hi tmp\<rparr>"
    then have x: "lo (rw_oid_nrd s) = lo tmp" "hi (rw_oid_nrd s) = hi tmp" by simp_all
    note o = rw_sleep_ok(1) [OF i] and l = rw_sleep_live [OF i]
    have r: "(fst \<circ> G) t = RwReading" using g by simp
    have ro: "lo tmp = RWLOCK_RO" using rw_unread(1) [OF o r] x by simp
    have e: "hi tmp \<noteq> 0" "unat (hi tmp - 1) = card {u. rw_counted (((fst \<circ> G)(t := RwOut)) u)}"
      using rw_count_leave [OF o, of t RwOut] r x(2) by (simp_all del: fun_upd_apply comp_apply)
    define s' where "s' = s\<lparr>rw_oid_nrd := \<lparr>lo = if hi tmp = 1 then RWLOCK_UNOWNED else lo tmp, hi = hi tmp - 1\<rparr>\<rparr>"
    have "rw_live (lo (rw_oid_nrd s')) (hi (rw_shpid_qwr s')) R W (G(t := (RwOut, if hi tmp = 1 then RelR else Calm)))"
    proof (cases "hi tmp = 1")
      case True
      with e(2) have "{u. rw_counted (((fst \<circ> G)(t := RwOut)) u)} = {}" by (simp del: fun_upd_apply comp_apply)
      then have "\<not> rw_counted (((fst \<circ> G)(t := RwOut)) u)" for u by blast
      then have "\<not> rw_counted (fst (G u))" if "u \<noteq> t" for u using that by (metis comp_apply fun_upd_other)
      moreover have "u \<noteq> t \<and> rw_counted (fst (G u))" if "u \<in> R" for u using rw_live_asleep(1) [OF l that] g by auto
      ultimately have "R = {}" by blast
      with True show ?thesis using rw_live_release(2) [OF l g] by (simp add: s'_def)
    next
      case False
      then have "hi tmp - 1 \<noteq> 0" by simp
      with e(2) have "{u. rw_counted (((fst \<circ> G)(t := RwOut)) u)} \<noteq> {}" by (metis card.empty unat_eq_0)
      then obtain u where u: "rw_counted (((fst \<circ> G)(t := RwOut)) u)" by blast
      then have "u \<noteq> t" by (metis fun_upd_same rw_counted.simps(3))
      moreover from this u have "rw_counted (fst (G u))" by simp
      ultimately show ?thesis using False ro rw_live_release(3) [OF l g] x by (simp add: s'_def)
    qed
    moreover have "rw_inv thr fl s' ((fst \<circ> G)(t := fst (RwOut, if hi tmp = 1 then RelR else Calm)))"
      using rw_unread(3) [OF o r] x rw_sleep_ok(2) [OF i]
      by (simp add: s'_def rw_inv_def del: fun_upd_apply comp_apply split: if_splits)
    ultimately have "rw_sleep_inv thr fl (s', R, W) (G(t := (RwOut, if hi tmp = 1 then RelR else Calm)))"
      by (rule rw_sleep_invI [rotated])
    then show "rw_sleep_inv thr fl (c_put (rwl_oid_nrd (rwl_here a))
        \<lparr>lo = if hi tmp = 1 then RWLOCK_UNOWNED else lo tmp, hi = hi tmp - 1\<rparr> (s, R, W)) (G(t := (RwOut, if hi tmp = 1 then RelR else Calm)))"
      by (simp add: s'_def)
  qed simp_all
  show ?thesis
    unfolding rwl_drop_read_def served_loop served_bind
    by (rule safe_loop [where J = "\<lambda>_ g. g = (RwReading, Calm)"], simp, hypsubst, rule safe_bind [OF rw_sleeping_check(2)],
        hypsubst, rule safe_bind [OF c]) auto
qed

lemma rw_sleeping_decide:
  fixes t :: "'t::finite"
  shows "rw_sleeping thr fl t (\<lambda>v g. g = (RwOut, if v > 0 then WakeW else LoadN)) (RwOut, Rel) (served H (load (rwl_qwr (rwl_here a))))"
    and "rw_sleeping thr fl t (\<lambda>v g. g = (RwOut, if v > 0 then WakeW else Calm)) (RwOut, RelR) (served H (load (rwl_qwr (rwl_here a))))"
    and "rw_sleeping thr fl t (\<lambda>v g. g = (RwOut, if v > 0 then WakeR else Calm)) (RwOut, LoadN) (served H (load (rwl_nrd (rwl_here a))))"
proof -
  note d = rw_live_decide
  show "rw_sleeping thr fl t (\<lambda>v g. g = (RwOut, if v > 0 then WakeW else LoadN)) (RwOut, Rel) (served H (load (rwl_qwr (rwl_here a))))"
    unfolding load_def
  proof (rule rw_sleeping_look [where h = "\<lambda>v. (RwOut, if v > 0 then WakeW else LoadN)"], rule conjI [OF _ refl], rule rw_sleep_stay)
    fix s R W and G :: "'t \<Rightarrow> rw_phase \<times> rw_spot" assume i: "rw_sleep_inv thr fl (s, R, W) G" and g: "G t = (RwOut, Rel)"
    show "rw_live (lo (rw_oid_nrd s)) (hi (rw_shpid_qwr s)) R W
        (G(t := (RwOut, if c_get (rwl_qwr (rwl_here a)) (s, R, W) > 0 then WakeW else LoadN)))"
      using d(1,2) [OF rw_sleep_live [OF i] g] by (auto simp: word_gt_0)
  qed
  show "rw_sleeping thr fl t (\<lambda>v g. g = (RwOut, if v > 0 then WakeW else Calm)) (RwOut, RelR) (served H (load (rwl_qwr (rwl_here a))))"
    unfolding load_def
  proof (rule rw_sleeping_look [where h = "\<lambda>v. (RwOut, if v > 0 then WakeW else Calm)"], rule conjI [OF _ refl], rule rw_sleep_stay)
    fix s R W and G :: "'t \<Rightarrow> rw_phase \<times> rw_spot" assume i: "rw_sleep_inv thr fl (s, R, W) G" and g: "G t = (RwOut, RelR)"
    show "rw_live (lo (rw_oid_nrd s)) (hi (rw_shpid_qwr s)) R W
        (G(t := (RwOut, if c_get (rwl_qwr (rwl_here a)) (s, R, W) > 0 then WakeW else Calm)))"
      using d(3,4) [OF rw_sleep_live [OF i] g] by (auto simp: word_gt_0)
  qed
  show "rw_sleeping thr fl t (\<lambda>v g. g = (RwOut, if v > 0 then WakeR else Calm)) (RwOut, LoadN) (served H (load (rwl_nrd (rwl_here a))))"
    unfolding load_def
  proof (rule rw_sleeping_look [where h = "\<lambda>v. (RwOut, if v > 0 then WakeR else Calm)"], rule conjI [OF _ refl], rule rw_sleep_stay)
    fix s R W and G :: "'t \<Rightarrow> rw_phase \<times> rw_spot" assume i: "rw_sleep_inv thr fl (s, R, W) G" and g: "G t = (RwOut, LoadN)"
    show "rw_live (lo (rw_oid_nrd s)) (hi (rw_shpid_qwr s)) R W
        (G(t := (RwOut, if c_get (rwl_nrd (rwl_here a)) (s, R, W) > 0 then WakeR else Calm)))"
      using d(5,6) [OF rw_sleep_live [OF i] g] rw_sleep_nrd [OF i] by (auto simp: word_gt_0)
  qed
qed

lemma rw_sleeping_unlock_reader:
  fixes t :: "'t::finite" and pick :: "reply \<Rightarrow> 't set \<Rightarrow> 't"
  assumes "\<And>r Z. Z \<noteq> {} \<Longrightarrow> pick r Z \<in> Z"
  shows "rw_sleeping thr fl t (\<lambda>_ g. g = (RwOut, Calm)) (RwReading, Calm) (rw_serve a pick t (pthread_rwlock_unlock (thr t) (rwl_here a)))"
proof -
  have r: "G t = (RwReading, Calm) \<Longrightarrow> (fst \<circ> G) t = RwReading" for G :: "'t \<Rightarrow> rw_phase \<times> rw_spot" by simp
  have o: "rw_sleeping thr fl t (\<lambda>v g. v AND PTHREAD_ID_MASK = 0 \<and> g = (RwReading, Calm)) (RwReading, Calm)
      (rw_serve a pick t (atomic_load (rwl_oid (rwl_here a))))"
    by (rule rw_sleeping_read(2)) (use rw_unread(1) [OF rw_sleep_ok(1) r] in auto)
  have n: "rw_sleeping thr fl t (\<lambda>v g. v \<noteq> 0 \<and> g = (RwReading, Calm)) (RwReading, Calm)
      (rw_serve a pick t (load (rwl_nrd (rwl_here a))))"
    by (rule rw_sleeping_read(1)) (use rw_unread(2) [OF rw_sleep_ok(1) r] in auto)
  show ?thesis
    unfolding pthread_rwlock_unlock_def served_bind
    by (rule safe_bind [OF o], elim conjE, rule safe_bind [OF rw_sleeping_shared], elim conjE, hypsubst)
      (auto simp: served_bind intro!: safe_bind [OF n] safe_bind [OF rw_sleeping_drop_read] safe_bind [OF rw_sleeping_decide(2)]
        safe_bind [OF rw_sleeping_wake_writer [OF assms]])
qed

lemma rw_sleeping_unlock_writer:
  fixes t :: "'t::finite" and pick :: "reply \<Rightarrow> 't set \<Rightarrow> 't"
  assumes "\<And>r Z. Z \<noteq> {} \<Longrightarrow> pick r Z \<in> Z"
  shows "rw_sleeping thr fl t (\<lambda>_ g. g = (RwOut, Calm)) (RwWriting, Calm) (rw_serve a pick t (pthread_rwlock_unlock (thr t) (rwl_here a)))"
proof -
  have o: "rw_sleeping thr fl t (\<lambda>v g. v AND PTHREAD_ID_MASK \<noteq> 0 \<and> g = (RwWriting, Calm)) (RwWriting, Calm)
      (rw_serve a pick t (atomic_load (rwl_oid (rwl_here a))))"
  proof (rule rw_sleeping_read(2))
    fix s R W and G :: "'t \<Rightarrow> rw_phase \<times> rw_spot" assume "rw_sleep_inv thr fl (s, R, W) G" "G t = (RwWriting, Calm)"
    then show "c_get (rwl_oid (rwl_here a)) (s, R, W) AND PTHREAD_ID_MASK \<noteq> 0"
      using rw_ok_unowned [OF rw_sleep_ok(1), of thr fl s R W G t] by auto
  qed
  have own: "th_id (thr t) = lo (rw_oid_nrd s)" "rw_writer ((fst \<circ> G) t)"
    if "rw_sleep_inv thr fl (s, R, W) G" "G t = (x, Calm)" "rw_writer x" for s R W x and G :: "'t \<Rightarrow> rw_phase \<times> rw_spot"
    using rw_ok_writer(1) [OF rw_sleep_ok(1) [OF that(1)], of t] that(2,3) by simp_all
  have p: "rw_sleeping thr fl t (\<lambda>_ g. g = (RwGot, Calm)) (RwWriting, Calm) (rw_serve a pick t (store (rwl_spid (rwl_here a)) 0))"
  proof (rule safe_served [OF _ callfree_access(2)], rule safe_store [where g' = "(RwGot, Calm)"], unfold split_paired_all)
    fix s R W and G :: "'t \<Rightarrow> rw_phase \<times> rw_spot" assume i: "rw_sleep_inv thr fl (s, R, W) G" and g: "G t = (RwWriting, Calm)"
    note w = own [OF i g, simplified]
    have "rw_live (lo (rw_oid_nrd s)) (hi (rw_shpid_qwr s)) R W (G(t := (RwGot, Calm)))"
      using rw_live_own [OF rw_sleep_live [OF i] g] owner_id_not(1) [OF i, of "Some t"] owner_id_not(2) [OF i, of t] w by simp
    then show "rw_sleep_inv thr fl (c_put (rwl_spid (rwl_here a)) 0 (s, R, W)) (G(t := (RwGot, Calm)))"
      using rw_owner_moves(2) [OF rw_sleep_ok(1) [OF i], of t 0] rw_sleep_ok(2) [OF i] g by (auto simp: rw_inv_def intro!: rw_sleep_invI)
  qed simp
  have z: "rw_sleeping thr fl t (\<lambda>_ g. g = (RwOut, Rel)) (RwGot, Calm) (rw_serve a pick t (atomic_store (rwl_oid (rwl_here a)) 0))"
  proof (rule safe_served, rule safe_atomic_store [where g' = "(RwOut, Rel)"], unfold split_paired_all)
    fix s R W and G :: "'t \<Rightarrow> rw_phase \<times> rw_spot" assume i: "rw_sleep_inv thr fl (s, R, W) G" and g: "G t = (RwGot, Calm)"
    show "rw_sleep_inv thr fl (c_put (rwl_oid (rwl_here a)) 0 (s, R, W)) (G(t := (RwOut, Rel)))"
      using rw_live_release(1) [OF rw_sleep_live [OF i] g] rw_owner_moves(3) [OF rw_sleep_ok(1) [OF i], of t] rw_sleep_ok(2) [OF i] g
      by (auto simp: rw_inv_def intro!: rw_sleep_invI)
  qed (simp_all add: atomic_defs)
  have b: "rw_sleeping thr fl t (\<lambda>_ g. g = (RwOut, Calm)) (RwOut, WakeR)
      (rw_serve a pick t (lll_wake (rwl_oid (rwl_here a)) ((fl AND GSYNC_SHARED) OR GSYNC_BROADCAST)))"
    by (rule rw_sleeping_broadcast) (simp_all add: and_disjoint_or)
  show ?thesis
    unfolding pthread_rwlock_unlock_def served_bind
    by (rule safe_bind [OF o], elim conjE, rule safe_bind [OF rw_sleeping_shared], elim conjE, hypsubst)
      (auto simp: served_bind intro!: safe_bind [OF rw_sleeping_owned [OF rw_flags_reads(1)]] safe_bind [OF p] safe_bind [OF z]
        safe_bind [OF rw_sleeping_decide(1)] safe_bind [OF rw_sleeping_decide(3)] safe_bind [OF rw_sleeping_wake_writer [OF assms]]
        safe_bind [OF b])
qed

subsection \<open>Properties\<close>

fun timed_read :: "rw_call \<Rightarrow> bool" where
  "timed_read (RdTimed tsp) = True"
| "timed_read _ = False"

lemma rw_sleeping_acquire:
  fixes t :: "'t::finite"
  assumes "\<not> timed_read call"
  shows "rw_sleeping thr fl t (rw_has (rw_mode call)) (RwOut, Calm) (rw_serve a pick t (rw_acquire (thr t) (rwl_here a) call))"
  using assms
  by (cases call)
    (simp_all only: rw_acquire.simps rw_mode.simps timed_read.simps rw_sleeping_rdlock rw_sleeping_tryrdlock rw_sleeping_wrlock
      rw_sleeping_trywrlock rw_sleeping_timedwrlock simp_thms)

lemma rw_sleeping_release:
  fixes t :: "'t::finite" and pick :: "reply \<Rightarrow> 't set \<Rightarrow> 't"
  assumes "\<And>r Z. Z \<noteq> {} \<Longrightarrow> pick r Z \<in> Z"
  shows "rw_sleeping thr fl t (\<lambda>_ g. g = (RwOut, Calm)) (rw_mode call, Calm) (rw_serve a pick t (pthread_rwlock_unlock (thr t) (rwl_here a)))"
  using rw_sleeping_unlock_reader [OF assms] rw_sleeping_unlock_writer [OF assms] by (cases call) simp_all

lemma rw_sleeping_user:
  fixes t :: "'t::finite" and pick :: "reply \<Rightarrow> 't set \<Rightarrow> 't"
  assumes "\<And>r Z. Z \<noteq> {} \<Longrightarrow> pick r Z \<in> Z" and "\<And>n. \<not> timed_read (calls n)"
  shows "rw_sleeping thr fl t (\<lambda>_ g. g = (RwOut, Calm)) (RwOut, Calm) (rw_serve a pick t (rw_user (thr t) (rwl_here a) k calls))"
  unfolding rw_user_def served_loop
proof (rule safe_loop [where J = "\<lambda>_ g. g = (RwOut, Calm)"], simp)
  fix n g assume g: "g = (RwOut, Calm)"
  let ?rest = "\<lambda>r. if r = OK then bind (sys (rw_section (calls n))) (\<lambda>_.
      bind (pthread_rwlock_unlock (thr t) (rwl_here a)) (\<lambda>_. again (Suc n))) else again (Suc n)"
  have s: "rw_sleepy a pick t (rw_section call) = sys (rw_section call)" for call
    by (simp add: rw_section_def passes_simps [OF rw_sleepy_passes])
  have "rw_sleeping thr fl t (\<lambda>r g'. case r of Inl y \<Rightarrow> g' = (RwOut, Calm) | Inr x \<Rightarrow> g' = (RwOut, Calm)) (rw_mode (calls n), Calm)
      (rw_serve a pick t (?rest OK))"
    by (simp add: served_bind s bind_assoc)
      (rule rw_readers.safely_sys, simp, rule safe_bind [OF rw_sleeping_release [OF assms(1)]], simp_all)
  then have r: "rw_sleeping thr fl t (\<lambda>r g'. case r of Inl y \<Rightarrow> g' = (RwOut, Calm) | Inr x \<Rightarrow> g' = (RwOut, Calm)) g'
      (rw_serve a pick t (?rest r))" if "rw_has (rw_mode (calls n)) r g'" for r g'
    using that by (cases "r = OK") (simp_all only: if_True if_False simp_thms, simp)
  show "rw_sleeping thr fl t (\<lambda>r g'. case r of Inl y \<Rightarrow> g' = (RwOut, Calm) | Inr x \<Rightarrow> g' = (RwOut, Calm)) g
      (rw_serve a pick t (if n < k then bind (rw_acquire (thr t) (rwl_here a) (calls n)) ?rest else leave ()))"
    unfolding g by (cases "n < k") (simp_all only: if_True if_False served_bind safe_bind [OF rw_sleeping_acquire [OF assms(2)] r [unfolded served_bind]], simp)
qed

text \<open>
  C12. Readers and writers do not leave each other asleep: in a kernel with a queue for the readers and one for the writers, where a thread
  sleeps until it is woken, threads that take a read-write lock in any way but for reading with a timeout, and release it, never get stuck: if each
  has ended or sleeps, all have ended. And then the lock is unowned.
\<close>

theorem rwlock_no_lost_wakeup:
  fixes P :: "'t::finite \<Rightarrow> ('t rw_queues, unit) prog"
  assumes "rw_blocking_contract a K" and "rw_ids thr" and "card (UNIV :: 't set) < 2 ^ 32"
    and "\<And>t n. \<not> timed_read (calls t n)"
    and "reach (\<lambda>_ s. s) (new_rwlock fl, {}, {}) (\<lambda>t. served (K t) (rw_user (thr t) (rwl_here a) (rounds t) (calls t))) (s, R, W) P"
    and "\<And>t. (\<exists>x. P t = Ret x) \<or> t \<in> R \<or> t \<in> W"
  shows "P t = Ret () \<and> R = {} \<and> W = {} \<and> lo (rw_oid_nrd s) = RWLOCK_UNOWNED \<and> hi (rw_oid_nrd s) = 0"
proof -
  obtain pick where pick: "\<And>r Z. Z \<noteq> {} \<Longrightarrow> pick r Z \<in> Z" and K: "K = rw_sleepy a pick"
    using assms(1) by (auto simp: rw_blocking_contract_def)
  have "rw_sleep_inv thr fl (new_rwlock fl, {}, {}) (\<lambda>_ :: 't. (RwOut, Calm))"
    using rw_inv_new [OF assms(2,3), of fl] by (simp add: rw_sleep_inv_def rw_live_def new_rwlock_def comp_def)
  moreover have "rw_sleeping thr fl t (\<lambda>_ g. g = (RwOut, Calm)) (RwOut, Calm)
      (served (K t) (rw_user (thr t) (rwl_here a) (rounds t) (calls t)))" for t
    unfolding K by (rule rw_sleeping_user [OF pick assms(4)])
  ultimately obtain G where i: "rw_sleep_inv thr fl (s, R, W) G" and G: "\<And>t. rw_sleeping thr fl t (\<lambda>_ g. g = (RwOut, Calm)) (G t) (P t)"
    using safe_reach [where I = "rw_sleep_inv thr fl" and ?G0.0 = "\<lambda>_. (RwOut, Calm)" and A = "\<lambda>_ _ _. True"
        and Q = "\<lambda>_ _ g. g = (RwOut, Calm)", OF assms(5)] by blast
  note l = rw_sleep_live [OF i]
  have g: "G u = (RwOut, Calm) \<and> u \<notin> R \<and> u \<notin> W \<or> G u = (RwQueued, DownR) \<and> u \<in> R \<or> G u = (RwOut, DownW) \<and> u \<in> W" for u
  proof (cases "u \<in> R \<or> u \<in> W")
    case True
    then show ?thesis using rw_live_asleep [OF l, of u] by blast
  next
    case False
    with assms(6) [of u] obtain x where "P u = Ret x" by blast
    then have "G u = (RwOut, Calm)" using G [of u] by simp
    with False show ?thesis by blast
  qed
  have n: "\<not> keeps R u (G u)" "\<not> sees_writers R W u (snd (G u))" "\<not> sees_readers R W u (snd (G u))" "snd (G u) \<noteq> WakeR"
    "\<not> rw_writer ((fst \<circ> G) u)" for u
    using g [of u] by (auto simp: keeps_def)
  have "lo (rw_oid_nrd s) = RWLOCK_UNOWNED \<or> lo (rw_oid_nrd s) = RWLOCK_RO"
    using rw_sleep_ok(1) [OF i] n(5) unfolding rw_ok_def by blast
  then have o: "lo (rw_oid_nrd s) = RWLOCK_UNOWNED" using l n(1,4) unfolding rw_live_def by blast
  then have e: "R = {}" "W = {}" using l n(2,3) unfolding rw_live_def by blast+
  then have "G u = (RwOut, Calm)" for u using g [of u] by simp
  then have "hi (rw_oid_nrd s) = 0" using rw_sleep_ok(1) [OF i] by (simp add: rw_ok_def unat_eq_0)
  with o e assms(6) [of t] show ?thesis by auto
qed

text \<open>One thread writes, and meanwhile a reader and a writer go to sleep.\<close>

fun rw_wake_call :: "bool option \<Rightarrow> rw_call" where
  "rw_wake_call (Some False) = RdLock"
| "rw_wake_call _ = WrLock"

definition rw_wake_demo :: "(bool option \<times> nat) list \<Rightarrow>
    bool option rw_queues \<times> (bool option \<Rightarrow> (bool option rw_queues, unit) prog)" where
  "rw_wake_demo ts = sched (\<lambda>_ s. s) reply0 ts (new_rwlock 0, {}, {})
    (\<lambda>t. served (rw_sleepy 64 (\<lambda>_ Z. if Some True \<in> Z then Some True else if Some False \<in> Z then Some False else None) t)
      (rw_user (rw_demo_thr t) (rwl_here 64) 1 (\<lambda>_. rw_wake_call t)))"

lemmas rw_wake_demo_eval = rw_wake_demo_def rw_user_def new_rwlock_def rw_section_def code_defs atomic_defs loop_def Let_def
  sleep_def rouse_def success_def owned_by_def writers_owned_by_def passes_simps [OF rw_sleepy_passes]
  rw_sleepy_wait [where a = 64, simplified] rw_sleepy_wake [where a = 64, simplified]

lemma rw_wake_demo_sleeps: "snd (fst (rw_wake_demo [(None, 12), (Some False, 40), (Some True, 40)])) = ({Some False}, {Some True})"
  by (simp add: rw_wake_demo_eval cong: lazy_cong lazy_served_cong)

lemma rw_wake_demo_ends:
  "\<exists>x. snd (rw_wake_demo [(None, 12), (Some False, 40), (Some True, 40), (None, 40), (Some True, 80), (Some False, 80)]) t = Ret x"
  by (cases t rule: rw_demo_thr.cases) (simp_all add: rw_wake_demo_eval cong: lazy_cong lazy_served_cong)

lemma rw_wake_demo_calls: "\<not> timed_read (rw_wake_call t)"
  by (cases t rule: rw_wake_call.cases) simp_all

lemma rwlock_no_lost_wakeup_witness:
  "snd (fst (rw_wake_demo [(None, 12), (Some False, 40), (Some True, 40)])) = ({Some False}, {Some True}) \<and>
   snd (fst (rw_wake_demo [(None, 12), (Some False, 40), (Some True, 40), (None, 40), (Some True, 80), (Some False, 80)])) = ({}, {})"
proof -
  let ?ts = "[(None, 12), (Some False, 40), (Some True, 40), (None, 40), (Some True, 80), (Some False, 80)]"
  let ?pick = "\<lambda>_ Z. if Some True \<in> Z then Some True else if Some False \<in> Z then Some False else None"
  have c: "rw_blocking_contract 64 (rw_sleepy 64 ?pick)"
    unfolding rw_blocking_contract_def
  proof (intro exI [of _ ?pick] conjI allI impI refl)
    fix Z :: "bool option set" assume "Z \<noteq> {}"
    then obtain x where "x \<in> Z" by blast
    then show "?pick r Z \<in> Z" for r :: reply by (cases x rule: rw_wake_call.cases) auto
  qed
  obtain s R W where e: "fst (rw_wake_demo ?ts) = (s, R, W)" by (metis prod.collapse)
  have r: "reach (\<lambda>_ s. s) (new_rwlock 0, {}, {})
      (\<lambda>t. served (rw_sleepy 64 ?pick t) (rw_user (rw_demo_thr t) (rwl_here 64) 1 (\<lambda>_. rw_wake_call t)))
      (s, R, W) (snd (rw_wake_demo ?ts))"
    unfolding e [symmetric] by (rule reach_sched [where ts = ?ts and r = reply0]) (simp add: rw_wake_demo_def)
  have "R = {} \<and> W = {}"
    using rwlock_no_lost_wakeup [OF c rw_demo_ids _ _ r disjI1 [OF rw_wake_demo_ends]] rw_wake_demo_calls by simp
  with rw_wake_demo_sleeps e show ?thesis by simp
qed

end
