(* ===== verification/MutexWakeups.thy ===== *)
theory MutexWakeups
  imports Wakeups MutexExclusion
begin

text \<open>
  Mutexes do not lose wakeups either: the invariant of the plain lock, which the mutex contains, and that of the owner fields, side by side.
\<close>

subsection \<open>Both invariants\<close>

definition mutex_sleep_inv ::
  "('t \<Rightarrow> thread) \<Rightarrow> u32 \<Rightarrow> u32 \<Rightarrow> pthread_mutex \<times> 't set \<Rightarrow> ('t \<Rightarrow> phase \<times> place) \<Rightarrow> bool" where
  "mutex_sleep_inv thr ty fl w G \<longleftrightarrow> mutex_inv thr ty fl (fst w) (fst \<circ> G) \<and> sleep_inv (m_lock (fst w), snd w) (snd \<circ> G) \<and>
    (\<forall>t. fst (G t) = Out \<longleftrightarrow> snd (G t) \<noteq> Holds)"

lemma places_upd: "snd \<circ> G(t := g) = (snd \<circ> G)(t := snd g)"
  by auto

lemma mutex_sleep_invI:
  assumes "mutex_sleep_inv thr ty fl w G" and "mutex_inv thr ty fl (fst w') ((fst \<circ> G)(t := fst g))"
    and "sleep_inv (m_lock (fst w'), snd w') ((snd \<circ> G)(t := snd g))" and "fst g = Out \<longleftrightarrow> snd g \<noteq> Holds"
  shows "mutex_sleep_inv thr ty fl w' (G(t := g))"
  using assms by (simp add: mutex_sleep_inv_def phases_upd places_upd)

lemma mutex_sleepD:
  assumes "mutex_sleep_inv thr ty fl (s, Z) G"
  shows "mutex_inv thr ty fl s (fst \<circ> G)" and "sleep_inv (m_lock s, Z) (snd \<circ> G)" and "fst (G t) = Out \<longleftrightarrow> snd (G t) \<noteq> Holds"
  using assms by (simp_all add: mutex_sleep_inv_def)

text \<open>A thread that is out moves between the places outside.\<close>

lemma mutex_sleep_outside:
  assumes "mutex_sleep_inv thr ty fl (s, Z) G" and "G t = (Out, p)" and "p' \<noteq> Holds"
    and "sleep_inv (m_lock s, Z) (snd \<circ> G) \<Longrightarrow> (snd \<circ> G) t = p \<Longrightarrow> sleep_inv (m_lock s, Z') ((snd \<circ> G)(t := p'))"
  shows "mutex_sleep_inv thr ty fl (s, Z') (G(t := (Out, p')))"
proof -
  have "(fst \<circ> G)(t := Out) = fst \<circ> G" using assms(2) by auto
  with assms mutex_sleepD [OF assms(1)] show ?thesis by (intro mutex_sleep_invI [OF assms(1)]) simp_all
qed

lemma mutex_sleep_take:
  assumes i: "mutex_sleep_inv thr ty fl (s, Z) G" and g: "G t = (Out, p)" and p: "p = Away \<or> p = Up"
    and v: "v = 2 \<or> v = 1 \<and> m_lock s = 0 \<and> p = Away"
  shows "mutex_sleep_inv thr ty fl (s\<lparr>m_lock := v\<rparr>, Z) (G(t := if m_lock s = 0 then (Got, Holds) else (Out, Away)))"
proof -
  note d = mutex_sleepD [OF i]
  have "mutex_inv thr ty fl (c_put (mtx_lock (whole 0)) v s) ((fst \<circ> G)(t := if m_lock s = 0 then Got else Out))"
  proof (cases "m_lock s = 0")
    case True
    with v g show ?thesis using mtx.acquire [OF d(1), of t 0 v] by auto
  next
    case False
    with v have "v = 2" by simp
    moreover have "(fst \<circ> G)(t := Out) = fst \<circ> G" using g by auto
    ultimately show ?thesis using False g mtx.contend [OF d(1), of t 0] by simp
  qed
  moreover have "sleep_inv (v, Z) ((snd \<circ> G)(t := if m_lock s = 0 then Holds else Away))"
    using g p v by (intro sleep_inv_take [OF d(2)]) auto
  ultimately show ?thesis by (intro mutex_sleep_invI [OF i]) auto
qed

lemma mutex_sleep_drop:
  assumes i: "mutex_sleep_inv thr ty fl (s, Z) G" and g: "G t = (Got, Holds)"
  shows "mutex_sleep_inv thr ty fl (s\<lparr>m_lock := 0\<rparr>, Z) (G(t := if m_lock s = 1 then (Out, Away) else (Out, Wakes)))"
proof -
  note d = mutex_sleepD [OF i]
  have "mutex_inv thr ty fl (c_put (mtx_lock (whole 0)) 0 s) ((fst \<circ> G)(t := Out))"
    using g mtx.release [OF d(1), of t 0] by simp
  moreover have "sleep_inv (0, Z) ((snd \<circ> G)(t := if m_lock s = 1 then Away else Wakes))"
    using g by (intro sleep_inv_drop [OF d(2)]) auto
  ultimately show ?thesis by (intro mutex_sleep_invI [OF i]) auto
qed

interpretation mutex_sleep: sleepy_lock "mutex_sleep_inv thr ty fl" "mtx_lock (whole a)"
  "(Out, Away)" "(Out, Down)" "(Out, Up)" "(Out, Wakes)" "(Got, Holds)" for thr ty fl a
proof (unfold_locales, unfold split_paired_all, goal_cases)
  case 1
  then show ?case by (auto intro!: mutex_sleep_outside [where p = Away] sleep_inv_sleep)
next
  case 2
  then show ?case by (auto intro!: mutex_sleep_outside [where p = Down] sleep_inv_up)
next
  case 3
  then show ?case by (auto intro!: mutex_sleep_outside [where p = Down] sleep_inv_leave)
next
  case 4
  then show ?case by (auto intro!: mutex_sleep_outside [where p = Wakes] sleep_inv_rouse)
next
  case 5
  then show ?case by (auto intro!: mutex_sleep_outside [where p = Wakes] sleep_inv_rouse_all)
next
  case 6
  then show ?case using mutex_sleep_take by fastforce
next
  case 7
  then show ?case using mutex_sleep_drop by fastforce
qed

subsection \<open>The fields of the owner\<close>

text \<open>Programs that neither call the kernel nor write the lock word.\<close>

definition quiet :: "(pthread_mutex, 'a) prog \<Rightarrow> bool" where
  "quiet p \<longleftrightarrow> callfree p \<and> framed m_lock (\<lambda>_ s. s) p"

lemma callfree_lift: "callfree p \<Longrightarrow> callfree (lift_prog c p)"
proof (coinduction arbitrary: p rule: callfree.coinduct)
  case callfree
  then show ?case by (cases p) auto
qed

lemma mutex_inv_out:
  assumes "mutex_inv thr ty fl s G" and "mutex_inv thr ty fl s' (G(t := g'))" and "m_lock s' = m_lock s"
  shows "g' = Out \<longleftrightarrow> G t = Out"
proof (cases "m_lock s = 0")
  case True
  with assms have "G t = Out" "(G(t := g')) t = Out" by (simp_all add: mutex_inv_def del: fun_upd_apply)
  then show ?thesis by simp
next
  case False
  have one: "\<exists>u. H u \<noteq> Out \<and> (\<forall>v. v \<noteq> u \<longrightarrow> H v = Out)" if "mutex_inv thr ty fl r H" "m_lock r = m_lock s" for r and H :: "'a \<Rightarrow> phase"
  proof -
    from that False obtain u where "phase_inv (H u) (thr u) r" "\<forall>v. v \<noteq> u \<longrightarrow> H v = Out" by (auto simp: mutex_inv_def)
    then show ?thesis by (intro exI [of _ u]) auto
  qed
  obtain u where u: "G u \<noteq> Out" "\<And>v. v \<noteq> u \<Longrightarrow> G v = Out" using one [OF assms(1) refl] by blast
  obtain w where w: "(G(t := g')) w \<noteq> Out" "\<And>v. v \<noteq> w \<Longrightarrow> (G(t := g')) v = Out" using one [OF assms(2,3)] by blast
  show ?thesis using u w by (metis fun_upd_apply)
qed

lemma quiet_lifts:
  fixes p :: "(pthread_mutex, 'a) prog" and t :: 't
  assumes "safe (\<lambda>_ _. True) (mutex_inv thr ty fl) (\<lambda>_ s. s) t Q g p" and "quiet p"
  shows "safe (\<lambda>_ _. True) (mutex_sleep_inv thr ty fl) (\<lambda>_ s. s) t (\<lambda>r x. Q r (fst x) \<and> snd x = h) (g, h) (served H (lift_prog fst_cell p))"
proof (rule safe_served)
  let ?I = "mutex_sleep_inv thr ty fl" and ?Q = "\<lambda>r x. Q r (fst x) \<and> snd x = h"
  let ?X = "\<lambda>x q. \<exists>p. q = lift_prog fst_cell p \<and> safe (\<lambda>_ _. True) (mutex_inv thr ty fl) (\<lambda>_ s. s) t Q (fst x) p \<and> quiet p \<and> snd x = h"
  show "safe (\<lambda>_ _. True) ?I (\<lambda>_ s. s) t ?Q (g, h) (lift_prog (fst_cell :: (pthread_mutex \<times> 't set, pthread_mutex) cell) p)"
  proof (rule safe_coinduct_step [where X = ?X])
    fix x and q :: "(pthread_mutex \<times> 't set, 'a) prog" assume "?X x q"
    then obtain p where q: "q = lift_prog fst_cell p" and p: "safe (\<lambda>_ _. True) (mutex_inv thr ty fl) (\<lambda>_ s. s) t Q (fst x) p"
      and n: "quiet p" and h: "snd x = h" by blast
    note st = safe_stepD [OF p]
    show "safe_step (\<lambda>_ _. True) ?I (\<lambda>_ s. s) t ?Q (\<lambda>x q. ?X x q \<or> safe (\<lambda>_ _. True) ?I (\<lambda>_ s. s) t ?Q x q) x q"
    proof (cases p)
      case (Act u k)
      have "\<exists>x'. ?I (c_put fst_cell (u (c_get fst_cell w)) w) (G(t := x')) \<and> ?X x' (lift_prog fst_cell (k (c_get fst_cell w)))"
        if i: "?I w G" and x: "G t = x" for w G
      proof -
        obtain s Z where w: "w = (s, Z)" by (cases w)
        note d = mutex_sleepD [OF i [unfolded w]]
        from st [unfolded Act safe_step_simps, rule_format, OF d(1)] x
        obtain g' where g': "mutex_inv thr ty fl (u s) ((fst \<circ> G)(t := g'))"
          and k: "safe (\<lambda>_ _. True) (mutex_inv thr ty fl) (\<lambda>_ s. s) t Q g' (k s)" by auto
        have l: "m_lock (u s) = m_lock s" and qk: "quiet (k s)" using n by (simp_all add: Act quiet_def)
        have "g' = Out \<longleftrightarrow> h \<noteq> Holds" using mutex_inv_out [OF d(1) g' l] d(3) [of t] x h by simp
        moreover have "(snd \<circ> G)(t := h) = snd \<circ> G" using x h by auto
        ultimately have "?I (u s, Z) (G(t := (g', h)))"
          using g' d(2) by (intro mutex_sleep_invI [OF i]) (simp_all add: l)
        with k qk show ?thesis by (intro exI [of _ "(g', h)"]) (auto simp: w)
      qed
      then show ?thesis unfolding q Act lift_simps safe_step_simps by blast
    qed (use st n h in \<open>auto simp: q quiet_def\<close>)
  qed (use assms in auto)
  show "callfree (lift_prog fst_cell p)" using assms(2) by (intro callfree_lift) (simp add: quiet_def)
qed

abbreviation mtx_here :: "u32 \<Rightarrow> (pthread_mutex \<times> 't set, pthread_mutex) cell" where
  "mtx_here a \<equiv> through fst_cell (whole a)"

abbreviation mutex_sleeping ::
  "('t \<Rightarrow> thread) \<Rightarrow> u32 \<Rightarrow> u32 \<Rightarrow> 't \<Rightarrow> ('a \<Rightarrow> phase \<times> place \<Rightarrow> bool) \<Rightarrow> phase \<times> place \<Rightarrow> (pthread_mutex \<times> 't set, 'a) prog \<Rightarrow> bool" where
  "mutex_sleeping thr ty fl t Q g p \<equiv> safe (\<lambda>_ _. True) (mutex_sleep_inv thr ty fl) (\<lambda>_ s. s) t Q g p"

lemma through_fields:
  "through fst_cell (mtx_lock (whole a)) = mtx_lock (mtx_here a)" "through fst_cell (mtx_owner_id (whole a)) = mtx_owner_id (mtx_here a)"
  "through fst_cell (mtx_cnt (whole a)) = mtx_cnt (mtx_here a)" "through fst_cell (mtx_shpid (whole a)) = mtx_shpid (mtx_here a)"
  "through fst_cell (mtx_type (whole a)) = mtx_type (mtx_here a)" "through fst_cell (mtx_flags (whole a)) = mtx_flags (mtx_here a)"
  by (simp_all add: through_def mtx_lock_def mtx_owner_id_def mtx_cnt_def mtx_shpid_def mtx_type_def mtx_flags_def field_def)

lemma mem_fst: "mem_cell fst_cell"
  by unfold_locales simp_all

lemmas owner_defs = mtx_flags_shared_def MTX_TYPE_def mtx_owned_p_def mtx_nest_def mtx_set_owner_def mtx_unnest_def

lemmas owner_lifting = owner_defs lifting mem_fst through_fields

lemma owner_lift:
  "lift_prog fst_cell (mtx_flags_shared (whole a)) = mtx_flags_shared (mtx_here a)"
  "lift_prog fst_cell (MTX_TYPE (whole a)) = MTX_TYPE (mtx_here a)"
  "lift_prog fst_cell (mtx_owned_p (whole a) self flags) = mtx_owned_p (mtx_here a) self flags"
  "lift_prog fst_cell (mtx_nest (whole a)) = mtx_nest (mtx_here a)"
  "lift_prog fst_cell (mtx_set_owner (whole a) tid pid flags) = mtx_set_owner (mtx_here a) tid pid flags"
  "lift_prog fst_cell (mtx_unnest (whole a)) = mtx_unnest (mtx_here a)"
  "lift_prog fst_cell (load (mtx_flags (whole a))) = load (mtx_flags (mtx_here a))"
  "lift_prog fst_cell (load (mtx_owner_id (whole a))) = load (mtx_owner_id (mtx_here a))"
  "lift_prog fst_cell (store (mtx_cnt (whole a)) n) = store (mtx_cnt (mtx_here a)) n"
  "lift_prog fst_cell (bind (store (mtx_shpid (whole a)) 0) (\<lambda>_. store (mtx_owner_id (whole a)) 0)) =
    bind (store (mtx_shpid (mtx_here a)) 0) (\<lambda>_. store (mtx_owner_id (mtx_here a)) 0)"
  by (simp_all add: owner_lifting cong: if_cong)

lemma owner_quiet:
  "quiet (mtx_flags_shared (whole a))" "quiet (MTX_TYPE (whole a))" "quiet (mtx_owned_p (whole a) self flags)"
  "quiet (mtx_nest (whole a))" "quiet (mtx_set_owner (whole a) tid pid flags)" "quiet (mtx_unnest (whole a))"
  "quiet (load (mtx_flags (whole a)))" "quiet (load (mtx_owner_id (whole a)))" "quiet (store (mtx_cnt (whole a)) n)"
  "quiet (bind (store (mtx_shpid (whole a)) 0) (\<lambda>_. store (mtx_owner_id (whole a)) 0))"
  by (simp_all add: quiet_def owner_defs load_def store_def)

text \<open>What they do to the owner, beside the sleepers.\<close>

lemmas quietly = owner_quiet [THEN [2] quiet_lifts, unfolded owner_lift]

lemmas flags_shared_sleeping = quietly(1) [OF mtx_flags_shared_safe]
lemmas type_sleeping = quietly(2) [OF MTX_TYPE_safe]
lemmas owned_out_sleeping = quietly(3) [OF mtx_owned_p_out]
lemmas owned_own_sleeping = quietly(3) [OF mtx_owned_p_own]
lemmas nest_sleeping = quietly(4) [OF mtx_nest_safe]
lemmas set_owner_sleeping = quietly(5) [OF mtx_set_owner_safe]
lemmas unnest_sleeping = quietly(6) [OF mtx_unnest_safe]
lemmas flags_sleeping = quietly(7) [OF mtx_flags_safe]
lemmas foreign_sleeping = quietly(8) [OF mtx_owner_foreign]
lemmas set_count_sleeping = quietly(9) [OF mtx_set_count_safe]
lemmas disown_sleeping = quietly(10) [OF mtx_disown_safe]

subsection \<open>The calls\<close>

abbreviation mutex_serve :: "u32 \<Rightarrow> (reply \<Rightarrow> 't set \<Rightarrow> 't) \<Rightarrow> 't \<Rightarrow> (pthread_mutex \<times> 't set, 'a) prog \<Rightarrow> (pthread_mutex \<times> 't set, 'a) prog" where
  "mutex_serve a pick t \<equiv> served (sleepy_kernel (mtx_lock (whole a)) pick t)"

lemmas locks_sleeping = mutex_sleep.safely_lll_lock [unfolded through_fields] mutex_sleep.safely_lll_trylock [unfolded through_fields]
  mutex_sleep.safely_lll_abstimed_lock [unfolded through_fields] mutex_sleep.safely_release [unfolded through_fields]

lemmas taken_sleeping = safe_bind [OF set_owner_sleeping] safe_bind [OF set_count_sleeping]

lemma mutex_lock_sleeping:
  "mutex_sleeping thr ty fl t (\<lambda>r g. r = OK \<and> g = (mtx_held ty 0, Holds)) (Out, Away)
    (mutex_serve a pick t (pthread_mutex_lock (thr t) (mtx_here a)))"
  unfolding pthread_mutex_lock_def served_bind
  by (rule safe_bind [OF flags_shared_sleeping], clarify, rule safe_bind [OF type_sleeping], clarify)
    (auto simp: plain_type_def mtx_held_def served_bind shared_flags prod_eq_iff
      intro!: safe_bind [OF locks_sleeping(1)] safe_bind [OF owned_out_sleeping] taken_sleeping)

lemma mutex_trylock_sleeping:
  "mutex_sleeping thr ty fl t (\<lambda>r g. g = (if r = OK then (mtx_held ty 0, Holds) else (Out, Away))) (Out, Away)
    (mutex_serve a pick t (pthread_mutex_trylock (thr t) (mtx_here a)))"
  unfolding pthread_mutex_trylock_def served_bind
  by (rule safe_bind [OF type_sleeping], clarify)
    (auto simp: plain_type_def mtx_held_def served_bind prod_eq_iff
      intro!: safe_mono [OF locks_sleeping(2)] safe_bind [OF locks_sleeping(2)] safe_bind [OF flags_sleeping]
        safe_bind [OF owned_out_sleeping] taken_sleeping)

lemma mutex_timedlock_sleeping:
  "mutex_sleeping thr ty fl t (\<lambda>r g. g = (if r = OK then (mtx_held ty 0, Holds) else (Out, Away))) (Out, Away)
    (mutex_serve a pick t (pthread_mutex_timedlock (thr t) (mtx_here a) tsp))"
  unfolding pthread_mutex_timedlock_def served_bind
  by (rule safe_bind [OF flags_shared_sleeping], clarify, rule safe_bind [OF type_sleeping], clarify)
    (auto simp: plain_type_def mtx_held_def served_bind shared_flags prod_eq_iff
      intro!: safe_mono [OF locks_sleeping(3)] safe_bind [OF locks_sleeping(3)] safe_bind [OF owned_out_sleeping]
        safe_bind [OF foreign_sleeping] taken_sleeping)

lemma mutex_relock_sleeping:
  assumes "Suc (Suc d) < 2 ^ 32" and "ty = PTHREAD_MUTEX_RECURSIVE"
  shows "mutex_sleeping thr ty fl t (\<lambda>r g. r = OK \<and> g = (Own (Suc (Suc d)), Holds)) (Own (Suc d), Holds)
    (mutex_serve a pick t (pthread_mutex_lock (thr t) (mtx_here a)))"
  unfolding pthread_mutex_lock_def served_bind
  by (rule safe_bind [OF flags_shared_sleeping], clarify, rule safe_bind [OF type_sleeping], clarify)
    (use assms in \<open>auto simp: served_bind prod_eq_iff intro!: safe_bind [OF owned_own_sleeping] safe_mono [OF nest_sleeping]\<close>)

lemma mtx_release_sleeping:
  fixes t :: 't and pick :: "reply \<Rightarrow> 't set \<Rightarrow> 't"
  assumes "\<And>r Z. Z \<noteq> {} \<Longrightarrow> pick r Z \<in> Z" and "flags AND GSYNC_MUTATE = 0"
  shows "mutex_sleeping thr ty fl t (\<lambda>_ g. g = (Out, Away)) (Own 0, Holds) (mutex_serve a pick t (mtx_release (mtx_here a) flags))"
  unfolding mtx_release_split served_bind
  by (rule safe_bind [OF disown_sleeping [unfolded served_bind]])
    (use locks_sleeping(4) [OF assms(2,1)] in \<open>auto simp: prod_eq_iff\<close>)

lemma mutex_unlock_sleeping:
  fixes t :: 't and pick :: "reply \<Rightarrow> 't set \<Rightarrow> 't"
  assumes "\<And>r Z. Z \<noteq> {} \<Longrightarrow> pick r Z \<in> Z"
  shows "mutex_sleeping thr ty fl t (\<lambda>r g. r = OK \<and> g = (Out, Away)) (mtx_held ty 0, Holds)
    (mutex_serve a pick t (pthread_mutex_unlock (thr t) (mtx_here a)))"
  unfolding pthread_mutex_unlock_def served_bind
  by (rule safe_bind [OF flags_shared_sleeping], clarify, rule safe_bind [OF type_sleeping], clarify)
    (auto simp: plain_type_def mtx_held_def served_bind prod_eq_iff
      intro!: safe_bind [OF locks_sleeping(4) [OF _ assms]] safe_bind [OF owned_own_sleeping] safe_bind [OF unnest_sleeping]
        safe_bind [OF mtx_release_sleeping [OF assms]])

lemma mutex_unnest_sleeping:
  assumes "ty = PTHREAD_MUTEX_RECURSIVE"
  shows "mutex_sleeping thr ty fl t (\<lambda>r g. r = OK \<and> g = (Own (Suc d), Holds)) (Own (Suc (Suc d)), Holds)
    (mutex_serve a pick t (pthread_mutex_unlock (thr t) (mtx_here a)))"
  unfolding pthread_mutex_unlock_def served_bind
  by (rule safe_bind [OF flags_shared_sleeping], clarify, rule safe_bind [OF type_sleeping], clarify)
    (use assms in \<open>auto simp: served_bind prod_eq_iff intro!: safe_bind [OF owned_own_sleeping] safe_bind [OF unnest_sleeping]\<close>)

text \<open>Taking the mutex several times, and releasing it as often.\<close>

lemma mutex_relocks_sleeping:
  assumes "d = 0 \<or> ty = PTHREAD_MUTEX_RECURSIVE" and "Suc d < 2 ^ 32"
  shows "mutex_sleeping thr ty fl t (\<lambda>r g. r = OK \<and> g = (mtx_held ty d, Holds)) (mtx_held ty 0, Holds)
    (mutex_serve a pick t (mutex_relock d (thr t) (mtx_here a)))"
  using assms
proof (induction d)
  case (Suc d)
  then have ty: "ty = PTHREAD_MUTEX_RECURSIVE" and IH: "mutex_sleeping thr ty fl t (\<lambda>r g. r = OK \<and> g = (mtx_held ty d, Holds))
    (mtx_held ty 0, Holds) (mutex_serve a pick t (mutex_relock d (thr t) (mtx_here a)))"
    by auto
  show ?case
    by (simp add: served_bind, rule safe_bind [OF IH])
      (use Suc.prems ty in \<open>auto simp: mtx_held_def intro: mutex_relock_sleeping\<close>)
qed simp

lemma mutex_releases_sleeping:
  fixes t :: 't and pick :: "reply \<Rightarrow> 't set \<Rightarrow> 't"
  assumes "\<And>r Z. Z \<noteq> {} \<Longrightarrow> pick r Z \<in> Z" and "d = 0 \<or> ty = PTHREAD_MUTEX_RECURSIVE"
  shows "mutex_sleeping thr ty fl t (\<lambda>r g. r = OK \<and> g = (Out, Away)) (mtx_held ty d, Holds)
    (mutex_serve a pick t (mutex_release d (thr t) (mtx_here a)))"
  using assms(2)
proof (induction d)
  case (Suc d)
  then have ty: "ty = PTHREAD_MUTEX_RECURSIVE" by simp
  show ?case
    by (simp add: mtx_held_def ty served_bind, rule safe_bind [OF mutex_unnest_sleeping])
      (use Suc.IH ty in \<open>auto simp: mtx_held_def\<close>)
next
  case 0
  show ?case unfolding mutex_release.simps by (rule mutex_unlock_sleeping) (rule assms(1))
qed

lemma mutex_acquire_sleeping:
  assumes "d = 0 \<or> ty = PTHREAD_MUTEX_RECURSIVE" and "Suc d < 2 ^ 32"
  shows "mutex_sleeping thr ty fl t (\<lambda>r g. g = (if r = OK then (mtx_held ty d, Holds) else (Out, Away))) (Out, Away)
    (mutex_serve a pick t (mutex_acquire d (thr t) (mtx_here a) call))"
proof -
  have k: "mutex_sleeping thr ty fl t (\<lambda>r g. g = (if r = OK then (mtx_held ty 0, Holds) else (Out, Away))) (Out, Away)
      (mutex_serve a pick t (mutex_take (thr t) (mtx_here a) call))"
    by (cases call) (simp_all add: mutex_trylock_sleeping mutex_timedlock_sleeping safe_mono [OF mutex_lock_sleeping])
  show ?thesis
    unfolding mutex_acquire_def served_bind
  proof (rule safe_bind [OF k])
    fix r g assume g: "g = (if r = OK then (mtx_held ty 0, Holds) else (Out, Away))"
    show "mutex_sleeping thr ty fl t (\<lambda>r g. g = (if r = OK then (mtx_held ty d, Holds) else (Out, Away))) g
        (mutex_serve a pick t (if r = OK then mutex_relock d (thr t) (mtx_here a) else Ret r))"
    proof (cases "r = OK")
      case True
      show ?thesis
        unfolding g True simp_thms if_True by (rule safe_mono [OF mutex_relocks_sleeping [OF assms]]) simp
    qed (simp add: g)
  qed
qed

subsection \<open>Properties\<close>

definition mutex_rounds ::
  "u32 \<Rightarrow> u32 \<Rightarrow> thread \<Rightarrow> (nat \<Rightarrow> lock_call) \<Rightarrow> 31 word \<Rightarrow> nat \<Rightarrow> (pthread_mutex \<times> 't set, unit) prog" where
  "mutex_rounds a ty self calls n k =
    lock_rounds (\<lambda>i. mutex_acquire (mtx_depth ty n) self (mtx_here a) (calls i)) (mutex_release (mtx_depth ty n) self (mtx_here a)) k"

lemma mutex_rounds_sleeping:
  fixes t :: 't and pick :: "reply \<Rightarrow> 't set \<Rightarrow> 't"
  assumes "\<And>r Z. Z \<noteq> {} \<Longrightarrow> pick r Z \<in> Z"
  shows "mutex_sleeping thr ty fl t (\<lambda>_ g. g = (Out, Away)) (Out, Away) (mutex_serve a pick t (mutex_rounds a ty (thr t) calls d k))"
  unfolding mutex_rounds_def lock_rounds_def served_loop
proof (rule safe_loop [where J = "\<lambda>_ g. g = (Out, Away)"], simp)
  fix n g assume g: "g = (Out, Away)"
  have d: "mtx_depth ty d = 0 \<or> ty = PTHREAD_MUTEX_RECURSIVE" "Suc (mtx_depth ty d) < 2 ^ 32"
    using mtx_depth_bound [of ty d] by (auto simp: mtx_depth_def)
  show "mutex_sleeping thr ty fl t (\<lambda>r g. case r of Inl _ \<Rightarrow> g = (Out, Away) | Inr _ \<Rightarrow> g = (Out, Away)) g
      (mutex_serve a pick t (if n < k then
         bind (mutex_acquire (mtx_depth ty d) (thr t) (mtx_here a) (calls n)) (\<lambda>r.
         if r = OK then bind (sys (Callback 0 0)) (\<lambda>_. bind (mutex_release (mtx_depth ty d) (thr t) (mtx_here a)) (\<lambda>_. again (Suc n)))
         else again (Suc n))
       else leave ()))"
    unfolding g
    by (auto simp: served_bind bind_assoc intro!: safe_bind [OF mutex_acquire_sleeping [OF d]] mutex_sleep.safely_sys
        safe_bind [OF mutex_releases_sleeping [OF assms d(1)]])
qed

text \<open>
  C9. Threads that lock a mutex that is not robust, blocking, trying or with a timeout, a recursive one as deep as they like, and unlock it as often,
  do not leave each other asleep: in a kernel where a thread sleeps until it is woken, no state is reachable in which each has ended
  or sleeps, but some sleep. And when they have ended, the mutex is as it was initialised.
\<close>

theorem mutex_no_lost_wakeup:
  assumes "blocking_contract K (mtx_lock (whole a))" and "plain_mutex ty fl (new_mutex ty fl)" and "distinct_ids thr"
    and "reach (\<lambda>_ s. s) (new_mutex ty fl, {}) (\<lambda>t. served (K t) (mutex_rounds a ty (thr t) (calls t) (depth t) (k t))) (s, Z) P"
    and "\<And>t. (\<exists>x. P t = Ret x) \<or> t \<in> Z"
  shows "P t = Ret () \<and> Z = {} \<and> s = new_mutex ty fl"
proof -
  obtain pick where pick: "\<And>r Z. Z \<noteq> {} \<Longrightarrow> pick r Z \<in> Z" and K: "K = sleepy_kernel (mtx_lock (whole a)) pick"
    using assms(1) by (auto simp: blocking_contract_def)
  have "mutex_sleep_inv thr ty fl (new_mutex ty fl, {}) (\<lambda>_. (Out, Away))"
    using assms(2,3) by (simp add: mutex_sleep_inv_def mutex_inv_def sleep_inv_def word_lock_inv_def holds_def new_mutex_def comp_def)
  moreover have "mutex_sleeping thr ty fl t (\<lambda>_ g. g = (Out, Away)) (Out, Away)
      (served (K t) (mutex_rounds a ty (thr t) (calls t) (depth t) (k t)))" for t
    unfolding K by (rule mutex_rounds_sleeping) (rule pick)
  ultimately obtain G where i: "mutex_sleep_inv thr ty fl (s, Z) G"
    and G: "\<And>t. mutex_sleeping thr ty fl t (\<lambda>_ g. g = (Out, Away)) (G t) (P t)"
    using safe_reach [where I = "mutex_sleep_inv thr ty fl" and ?G0.0 = "\<lambda>_. (Out, Away)" and A = "\<lambda>_ _ _. True"
        and Q = "\<lambda>_ _ g. g = (Out, Away)", OF assms(4)] by blast
  note d = mutex_sleepD [OF i]
  have "snd (G u) = Away \<or> snd (G u) = Down \<and> u \<in> Z" for u
    using assms(5) [of u] G [of u] d(2) by (auto simp: sleep_inv_def)
  then have "\<not> holds (snd \<circ> G) u" "\<not> coming (snd \<circ> G) Z" for u
    by (auto simp: holds_def coming_def) (metis place.distinct)+
  then have e: "m_lock s = 0" "Z = {}" using d(2) by (auto simp: sleep_inv_def word_lock_inv_def)
  then have "s = new_mutex ty fl" using d(1) by (auto simp: mutex_inv_def plain_mutex_def new_mutex_def)
  with e assms(5) [of t] show ?thesis by auto
qed

text \<open>Two threads and a recursive mutex: the second sleeps while the first has it, twice.\<close>

definition mutex_wake_demo ::
  "(bool \<times> nat) list \<Rightarrow> (pthread_mutex \<times> bool set) \<times> (bool \<Rightarrow> (pthread_mutex \<times> bool set, unit) prog)" where
  "mutex_wake_demo ts = sched (\<lambda>_ s. s) reply0 ts (new_mutex 1 1, {})
    (\<lambda>t. served (sleepy_kernel (mtx_lock (whole 64)) (\<lambda>_ Z. True \<in> Z) t) (mutex_rounds 64 1 (two_threads t) (\<lambda>_. Lock) 1 1))"

lemmas mutex_wake_demo_eval = mutex_wake_demo_def mutex_rounds_def lock_rounds_def mutex_acquire_def mtx_depth_def two_threads_def
  new_mutex_def code_defs atomic_defs loop_def Let_def sleep_def rouse_def success_def

lemma mutex_wake_demo_sleeps: "snd (fst (mutex_wake_demo [(False, 22), (True, 40)])) = {True}"
  by (simp add: mutex_wake_demo_eval cong: lazy_cong lazy_served_cong)

lemma mutex_wake_demo_ends: "\<exists>x. snd (mutex_wake_demo [(False, 22), (True, 40), (False, 100), (True, 120)]) t = Ret x"
  by (cases t) (simp_all add: mutex_wake_demo_eval cong: lazy_cong lazy_served_cong)

lemma mutex_no_lost_wakeup_witness:
  "snd (fst (mutex_wake_demo [(False, 22), (True, 40)])) = {True} \<and>
   fst (mutex_wake_demo [(False, 22), (True, 40), (False, 100), (True, 120)]) = (new_mutex 1 1, {})"
proof
  show "snd (fst (mutex_wake_demo [(False, 22), (True, 40)])) = {True}" by (rule mutex_wake_demo_sleeps)
  let ?ts = "[(False, 22), (True, 40), (False, 100), (True, 120)]"
  obtain s Z where s: "fst (mutex_wake_demo ?ts) = (s, Z)" by (cases "fst (mutex_wake_demo ?ts)")
  have p: "plain_mutex 1 1 (new_mutex 1 1)" by (simp add: plain_mutex_def new_mutex_def)
  have d: "distinct_ids two_threads" by (auto simp: distinct_ids_def two_threads_def inj_def)
  have "reach (\<lambda>_ s. s) (new_mutex 1 1, {})
      (\<lambda>t. served (sleepy_kernel (mtx_lock (whole 64)) (\<lambda>_ Z. True \<in> Z) t) (mutex_rounds 64 1 (two_threads t) (\<lambda>_. Lock) 1 1))
      (s, Z) (snd (mutex_wake_demo ?ts))"
    by (rule reach_sched [where ts = ?ts and r = reply0]) (simp only: prod_eq_iff s [symmetric] mutex_wake_demo_def fst_conv snd_conv)
  from mutex_no_lost_wakeup [where calls = "\<lambda>_ _. Lock", OF sleepy_contract p d this disjI1 [OF mutex_wake_demo_ends], of True] s
  show "fst (mutex_wake_demo ?ts) = (new_mutex 1 1, {})" by simp
qed

end
