(* ===== verification/CondWakeups.thy ===== *)
theory CondWakeups
  imports Wakeups CondClients
begin

text \<open>
  Condition variables do lose wakeups: a wait unlocks the mutex first, and registers as a waiter afterwards.
\<close>

subsection \<open>A monitor\<close>

text \<open>The flag that the condition is about lies beside the condition variable and its mutex; the last part of the state are the threads that sleep.\<close>

type_synonym 't monitor = "('t cond_world \<times> bool) \<times> 't set"

definition monitor_flag :: "('t monitor, bool) cell" where
  "monitor_flag = through fst_cell snd_cell"

abbreviation in_monitor :: "('t cond_world, 'v) cell \<Rightarrow> ('t monitor, 'v) cell" where
  "in_monitor c \<equiv> through fst_cell (through fst_cell c)"

text \<open>A thread that waits until the flag is set, and one that sets it.\<close>

definition await_flag ::
  "thread \<Rightarrow> ('s, pthread) cell \<Rightarrow> ('s, pthread_cond) cell \<Rightarrow> ('s, pthread_mutex) cell \<Rightarrow> ('s, bool) cell \<Rightarrow> ('s, unit) prog" where
  "await_flag self pself condp mtxp flagp =
    bind (pthread_mutex_lock self mtxp) (\<lambda>_.
    bind (loop (\<lambda>_. bind (load flagp) (\<lambda>b.
      if b then leave (Value ())
      else bind (pthread_cond_wait self pself condp mtxp) (\<lambda>r. case r of Exits \<Rightarrow> leave Exits | Value _ \<Rightarrow> again ()))) ()) (\<lambda>_.
    bind (pthread_mutex_unlock self mtxp) (\<lambda>_. Ret ())))"

definition set_flag ::
  "thread \<Rightarrow> ('s, pthread_cond) cell \<Rightarrow> ('s, pthread_mutex) cell \<Rightarrow> ('s, bool) cell \<Rightarrow> ('s, unit) prog" where
  "set_flag self condp mtxp flagp =
    bind (pthread_mutex_lock self mtxp) (\<lambda>_.
    bind (store flagp True) (\<lambda>_.
    bind (pthread_cond_broadcast (\<lambda>_. mtxp) condp) (\<lambda>_.
    bind (pthread_mutex_unlock self mtxp) (\<lambda>_. Ret ()))))"

definition monitor_threads ::
  "(reply \<Rightarrow> bool set \<Rightarrow> bool) \<Rightarrow> bool \<Rightarrow> (bool monitor, unit) prog" where
  "monitor_threads pick t = served (sleepy_kernel (lo_cell (cond_seq_nw (through fst_cell (cw_cond_cell 64)))) pick t)
    (if t then await_flag (two_threads t) (in_monitor (cw_pt_cell (\<lambda>_. 4096) t)) (in_monitor (cw_cond_cell 64)) (in_monitor (cw_mtx_cell 96)) monitor_flag
     else set_flag (two_threads t) (in_monitor (cw_cond_cell 64)) (in_monitor (cw_mtx_cell 96)) monitor_flag)"

definition monitor_start :: "bool monitor" where
  "monitor_start = ((cond_start None PTHREAD_MUTEX_NORMAL 0 (\<lambda>_. undefined\<lparr>pt_flags := 0\<rparr>), False), {})"

definition monitor_run :: "(reply \<Rightarrow> bool set \<Rightarrow> bool) \<Rightarrow> (bool \<times> nat) list \<Rightarrow> bool monitor \<times> (bool \<Rightarrow> (bool monitor, unit) prog)" where
  "monitor_run pick ts = sched (\<lambda>_ s. s) reply0 ts monitor_start (monitor_threads pick)"

lemmas monitor_eval = monitor_run_def monitor_start_def monitor_threads_def monitor_flag_def await_flag_def set_flag_def cond_start_def
  new_mutex_def two_threads_def pthread_cond_init_def cond_dfl_attr_def xint_of_def code_defs atomic_defs loop_def Let_def
  blocking_def CANCELLED_ENABLED_ASYNC_P_def sleep_def rouse_def success_def

lemma monitor_reach: "reach (\<lambda>_ s. s) monitor_start (monitor_threads pick) (fst (monitor_run pick ts)) (snd (monitor_run pick ts))"
  by (rule reach_sched [where ts = ts and r = reply0]) (simp add: monitor_run_def)

text \<open>
  C15. A wakeup of a condition variable can be lost: \<open>pthread_cond_wait\<close> unlocks the mutex before it registers the waiter. A thread that
  waits in a loop until a flag is set has seen, with the mutex held, that it is not, and is interrupted after the unlock. Another one locks the mutex, sets
  the flag, broadcasts, which wakes nobody as no waiter is counted, unlocks and ends. The first one then registers, with the sequence
  as it is now, and sleeps: the mutex is free, the flag is set, and there is no thread left that could wake it, whatever the kernel does.
\<close>

theorem cond_wait_loses_wakeup:
  "\<exists>s Z P. reach (\<lambda>_ s. s) monitor_start (monitor_threads pick) (s, Z) P \<and>
     P False = Ret () \<and> Z = {True} \<and> snd s \<and> m_lock (cw_mtx (fst s)) = 0 \<and>
     cv_seq_nw (cw_cond (fst s)) = \<lparr>lo = 1, hi = 1\<rparr>"
proof -
  let ?S = "monitor_run pick [(True, 26), (False, 80), (True, 60)]"
  have "snd ?S False = Ret ()"
    by (simp add: monitor_eval cong: lazy_cong lazy_unwinding_cong lazy_served_cong)
  moreover have "snd (fst ?S) = {True}"
    by (simp add: monitor_eval cong: lazy_cong lazy_unwinding_cong lazy_served_cong)
  moreover have "snd (fst (fst ?S)) \<and> m_lock (cw_mtx (fst (fst (fst ?S)))) = 0 \<and> cv_seq_nw (cw_cond (fst (fst (fst ?S)))) = \<lparr>lo = 1, hi = 1\<rparr>"
    by (simp add: monitor_eval cong: lazy_cong lazy_unwinding_cong lazy_served_cong)
  moreover have "reach (\<lambda>_ s. s) monitor_start (monitor_threads pick) (fst (fst ?S), snd (fst ?S)) (snd ?S)"
    using monitor_reach by simp
  ultimately show ?thesis by blast
qed

end
